(* ===== verification/Memline_Prelude.thy ===== *)
theory Memline_Prelude
  imports Complex_Main "HOL-Library.List_Lexorder" "HOL-Library.Char_ord"
begin

text \<open>
  Shared ground of the development: the Python values that travel through memory payloads
  and request arguments, Python truthiness and \<open>str()\<close>, results that can fail, and the
  generic lemmas on lists and maps that the component theories use.

  A Python string is a \<^typ>\<open>string\<close>, the list of its UTF-8 bytes. UTF-8 keeps the order of
  code points, so the order of strings below is Python's order of strings. Where the code counts
  the characters of a text or cuts it after some, the model counts and cuts characters.
\<close>

named_theorems row_simps \<open>facts on table rows that the stores' proofs rewrite with\<close>
named_theorems payload_simps \<open>facts on payload maps that the staleness proofs rewrite with\<close>

subsection \<open>Python values\<close>

text \<open>A finite float is the rational it denotes together with its \<^verbatim>\<open>repr\<close>.\<close>

datatype pyval =
    PNone
  | PBool bool
  | PInt int
  | PFloat rat string
  | PStr string
  | PList "pyval list"
  | PDict "(string \<times> pyval) list"

type_synonym payload = "string \<rightharpoonup> pyval"

text \<open>The truth value of \<^verbatim>\<open>bool(v)\<close>, which decides \<^verbatim>\<open>if v\<close>, \<^verbatim>\<open>v or w\<close> and \<^verbatim>\<open>not v\<close>.\<close>

fun truthy :: "pyval \<Rightarrow> bool" where
  "truthy PNone = False"
| "truthy (PBool b) = b"
| "truthy (PInt i) = (i \<noteq> 0)"
| "truthy (PFloat r s) = (r \<noteq> 0)"
| "truthy (PStr s) = (s \<noteq> [])"
| "truthy (PList vs) = (vs \<noteq> [])"
| "truthy (PDict kvs) = (kvs \<noteq> [])"

text \<open>\<^verbatim>\<open>d.get(k)\<close>: an absent key and a stored null both read as \<^verbatim>\<open>None\<close>.\<close>

definition dget :: "payload \<Rightarrow> string \<Rightarrow> pyval" where
  "dget d k = (case d k of None \<Rightarrow> PNone | Some v \<Rightarrow> v)"

text \<open>\<^verbatim>\<open>v or w\<close> on values.\<close>

definition por :: "pyval \<Rightarrow> pyval \<Rightarrow> pyval" where
  "por v w = (if truthy v then v else w)"

subsection \<open>Decimal numbers and \<^verbatim>\<open>str()\<close>\<close>

definition digit :: "nat \<Rightarrow> char" where
  "digit n = ''0123456789'' ! n"

fun show_nat :: "nat \<Rightarrow> string" where
  "show_nat n = (if n < 10 then [digit n] else show_nat (n div 10) @ [digit (n mod 10)])"

declare show_nat.simps [simp del]

definition show_int :: "int \<Rightarrow> string" where
  "show_int i = (if i < 0 then CHR ''-'' # show_nat (nat (- i)) else show_nat (nat i))"

definition hex_digit :: "nat \<Rightarrow> char" where
  "hex_digit n = ''0123456789abcdef'' ! n"

text \<open>
  \<^verbatim>\<open>repr\<close> of a string, needed for \<^verbatim>\<open>str()\<close> of a list or dict: the quote is double only when
  the text has a single quote and no double quote; control characters are escaped.
\<close>

definition repr_char :: "char \<Rightarrow> char \<Rightarrow> string" where
  "repr_char q c =
     (if c = q \<or> c = CHR 0x5C then [CHR 0x5C, c]
      else if c = CHR 0x0A then [CHR 0x5C, CHR ''n'']
      else if c = CHR 0x0D then [CHR 0x5C, CHR ''r'']
      else if c = CHR 0x09 then [CHR 0x5C, CHR ''t'']
      else if of_char c < (32 :: nat) \<or> of_char c = (127 :: nat)
        then [CHR 0x5C, CHR ''x'', hex_digit (of_char c div 16), hex_digit (of_char c mod 16)]
      else [c])"

definition repr_string :: "string \<Rightarrow> string" where
  "repr_string s =
     (let q = (if CHR 0x27 \<in> set s \<and> CHR 0x22 \<notin> set s then CHR 0x22 else CHR 0x27)
      in q # concat (map (repr_char q) s) @ [q])"

fun join :: "string \<Rightarrow> string list \<Rightarrow> string" where
  "join sep [] = []"
| "join sep [x] = x"
| "join sep (x # y # xs) = x @ sep @ join sep (y # xs)"

fun py_repr :: "pyval \<Rightarrow> string" where
  "py_repr PNone = ''None''"
| "py_repr (PBool b) = (if b then ''True'' else ''False'')"
| "py_repr (PInt i) = show_int i"
| "py_repr (PFloat r s) = s"
| "py_repr (PStr s) = repr_string s"
| "py_repr (PList vs) = ''['' @ join '', '' (map py_repr vs) @ '']''"
| "py_repr (PDict kvs) =
     ''{'' @ join '', '' (map (\<lambda>kv. repr_string (fst kv) @ '': '' @ py_repr (snd kv)) kvs) @ ''}''"

definition py_str :: "pyval \<Rightarrow> string" where
  "py_str v = (case v of PStr s \<Rightarrow> s | _ \<Rightarrow> py_repr v)"

text \<open>\<^verbatim>\<open>str(v or "")\<close>, the reading of an optional text field.\<close>

definition str_or_empty :: "pyval \<Rightarrow> string" where
  "str_or_empty v = (if truthy v then py_str v else [])"

lemma py_str_PStr [simp]: "py_str (PStr s) = s"
  by (simp add: py_str_def)

lemma str_or_empty_PStr [simp]: "str_or_empty (PStr s) = s"
  by (simp add: str_or_empty_def)

lemma str_or_empty_PNone [simp]: "str_or_empty PNone = []"
  by (simp add: str_or_empty_def)

lemma dget_upd [payload_simps]: "dget (d(k \<mapsto> v)) k' = (if k' = k then v else dget d k')"
  by (simp add: dget_def)

lemma dget_empty [payload_simps]: "dget Map.empty k = PNone"
  by (simp add: dget_def)

lemma dget_map_add [payload_simps]:
  "dget (d ++ e) k = (case e k of None \<Rightarrow> dget d k | Some v \<Rightarrow> v)"
  by (simp add: dget_def map_add_def split: option.splits)

lemma dget_Some: "d k = Some v \<Longrightarrow> dget d k = v"
  by (simp add: dget_def)

lemma truthy_dget_in_dom: "truthy (dget d k) \<Longrightarrow> k \<in> dom d"
  by (auto simp: dget_def split: option.splits)

subsection \<open>Strings\<close>

text \<open>\<^verbatim>\<open>s.strip()\<close> on ASCII white space.\<close>

definition is_space :: "char \<Rightarrow> bool" where
  "is_space c = (c \<in> {CHR '' '', CHR 0x09, CHR 0x0A, CHR 0x0B, CHR 0x0C, CHR 0x0D,
                      CHR 0x1C, CHR 0x1D, CHR 0x1E, CHR 0x1F})"

definition strip :: "string \<Rightarrow> string" where
  "strip s = rev (dropWhile is_space (rev (dropWhile is_space s)))"

text \<open>\<^verbatim>\<open>list(dict.fromkeys(xs))\<close>: the first occurrence of each element, in order.\<close>

fun dedup :: "'a list \<Rightarrow> 'a list" where
  "dedup [] = []"
| "dedup (x # xs) = x # filter (\<lambda>y. y \<noteq> x) (dedup xs)"

lemma set_dedup [simp]: "set (dedup xs) = set xs"
  by (induction xs) auto

lemma distinct_dedup [simp]: "distinct (dedup xs)"
  by (induction xs) auto

lemma dedup_distinct: "distinct xs \<Longrightarrow> dedup xs = xs"
  by (induction xs) (auto simp: filter_id_conv)

lemma length_dedup_le: "length (dedup xs) \<le> length xs"
proof (induction xs)
  case Nil
  then show ?case by simp
next
  case (Cons x xs)
  have "length (filter (\<lambda>y. y \<noteq> x) (dedup xs)) \<le> length (dedup xs)"
    by (rule length_filter_le)
  also have "\<dots> \<le> length xs"
    by (rule Cons.IH)
  finally show ?case by simp
qed

subsection \<open>Results that can fail\<close>

definition is_ok :: "'e + 'a \<Rightarrow> bool" where
  "is_ok r = (case r of Inl _ \<Rightarrow> False | Inr _ \<Rightarrow> True)"

lemma is_ok_simps [simp]: "is_ok (Inr x)" "\<not> is_ok (Inl e)"
  by (simp_all add: is_ok_def)

definition and_then :: "'e + 'a \<Rightarrow> ('a \<Rightarrow> 'e + 'b) \<Rightarrow> 'e + 'b" where
  "and_then r f = (case r of Inl e \<Rightarrow> Inl e | Inr x \<Rightarrow> f x)"

lemma and_then_simps [simp]:
  "and_then (Inl e) f = Inl e"
  "and_then (Inr x) f = f x"
  by (simp_all add: and_then_def)

lemma and_then_Inr_iff: "and_then r f = Inr y \<longleftrightarrow> (\<exists>x. r = Inr x \<and> f x = Inr y)"
  by (cases r) auto

subsection \<open>Lists\<close>

lemma take_filter_subset: "set (take n (filter P xs)) \<subseteq> {x \<in> set xs. P x}"
  by (auto dest: in_set_takeD)

lemma find_Some_in: "find P xs = Some x \<Longrightarrow> x \<in> set xs \<and> P x"
  by (auto simp: find_Some_iff)

lemma find_None_all: "find P xs = None \<Longrightarrow> x \<in> set xs \<Longrightarrow> \<not> P x"
  by (auto simp: find_None_iff)

lemma length_filter_pos_iff: "0 < length (filter P xs) \<longleftrightarrow> (\<exists>x \<in> set xs. P x)"
  by (induction xs) auto

subsection \<open>Characters\<close>

text \<open>The characters of a text, from its UTF-8 bytes: a byte \<^verbatim>\<open>10xxxxxx\<close> continues the character before it.\<close>

definition continues :: "char \<Rightarrow> bool" where
  "continues c = (let n = (of_char c :: nat) in 128 \<le> n \<and> n < 192)"

fun utf8_chars :: "string \<Rightarrow> string list" where
  "utf8_chars [] = []"
| "utf8_chars (c # cs) =
     (case utf8_chars cs of
        [] \<Rightarrow> [[c]]
      | w # ws \<Rightarrow> (case w of d # _ \<Rightarrow> if continues d then (c # w) # ws else [c] # w # ws | [] \<Rightarrow> [c] # w # ws))"

definition py_length :: "string \<Rightarrow> nat" where
  "py_length s = length (utf8_chars s)"

text \<open>\<^verbatim>\<open>s[:n]\<close>.\<close>

definition clip :: "nat \<Rightarrow> string \<Rightarrow> string" where
  "clip n s = concat (take n (utf8_chars s))"

lemma utf8_chars_clip: "utf8_chars (clip n s) = take n (utf8_chars s)"
proof (induction s arbitrary: n)
  case Nil
  then show ?case by (simp add: clip_def)
next
  case (Cons c cs)
  show ?case
  proof (cases n)
    case 0
    then show ?thesis by (simp add: clip_def)
  next
    case (Suc m)
    show ?thesis
    proof (cases "utf8_chars cs")
      case Nil
      then show ?thesis using Suc by (cases cs) (auto simp: clip_def split: list.splits if_splits)
    next
      case chars: (Cons w ws)
      show ?thesis
      proof (cases "w \<noteq> [] \<and> continues (hd w)")
        case True
        then have u: "utf8_chars (c # cs) = (c # w) # ws" using chars by (auto split: list.splits)
        then have "clip (Suc m) (c # cs) = c # clip (Suc m) cs" by (simp add: clip_def chars)
        then show ?thesis using Cons.IH[of "Suc m"] True chars Suc u by (auto split: list.splits)
      next
        case False
        then have u: "utf8_chars (c # cs) = [c] # w # ws" using chars by (auto split: list.splits)
        then have e: "clip (Suc m) (c # cs) = c # clip m cs" by (simp add: clip_def chars)
        show ?thesis
        proof (cases m)
          case 0
          then show ?thesis using e u Suc by (simp add: clip_def)
        next
          case (Suc k)
          then have "utf8_chars (clip m cs) = w # take k ws" using Cons.IH[of m] chars by simp
          then show ?thesis using e u \<open>n = Suc m\<close> Suc False by (auto split: list.splits)
        qed
      qed
    qed
  qed
qed

lemma py_length_clip: "py_length (clip n s) \<le> n"
  by (simp add: py_length_def utf8_chars_clip)

end
