(* ===== verification/Iso_Time.thy ===== *)
theory Iso_Time
  imports Memline_Prelude
begin

text \<open>
  Time as the program stores it. Every component stamps its rows and payloads with
  \<^verbatim>\<open>datetime.now(timezone.utc).isoformat()\<close> and then compares the strings: the queues order
  by \<^verbatim>\<open>created_at\<close>, purging and TTL compare a deadline with the clock. A clock reading is a
  \<^typ>\<open>nat\<close>, the microseconds since 0001-01-01T00:00:00 UTC (the least value of Python's
  \<^verbatim>\<open>datetime\<close>); \<open>utc_datetime\<close> is the calendar date of an instant, by CPython's algorithm
  (\<^verbatim>\<open>_ord2ymd\<close>), and \<open>isoformat\<close> its text, which has no fraction when the microsecond is 0.
  The result of the theory is that the text order is the order of the instants.
\<close>

type_synonym time = nat

subsection \<open>Calendar dates\<close>

datatype datetime =
  Datetime (yr: nat) (mon: nat) (dom_day: nat) (hour: nat) (minute: nat) (sec: nat) (micro: nat)

fun dt_key :: "datetime \<Rightarrow> nat list" where
  "dt_key (Datetime y m d h mi s us) = [y, m, d, h, mi, s, us]"

lemma dt_key_inject: "dt_key a = dt_key b \<Longrightarrow> a = b"
  by (cases a; cases b) simp

instantiation datetime :: linorder
begin

definition less_eq_datetime :: "datetime \<Rightarrow> datetime \<Rightarrow> bool" where
  "less_eq_datetime a b \<longleftrightarrow> dt_key a \<le> dt_key b"

definition less_datetime :: "datetime \<Rightarrow> datetime \<Rightarrow> bool" where
  "less_datetime a b \<longleftrightarrow> dt_key a < dt_key b"

instance
  by standard
    (auto simp: less_eq_datetime_def less_datetime_def less_le_not_le dt_key_inject
      intro: order_trans)

end

definition is_leap :: "nat \<Rightarrow> bool" where
  "is_leap y = (y mod 4 = 0 \<and> (y mod 100 \<noteq> 0 \<or> y mod 400 = 0))"

text \<open>CPython's \<^verbatim>\<open>_ord2ymd\<close>: \<open>n\<close> counts days from 0001-01-01 as day 0.\<close>

definition year_doy :: "nat \<Rightarrow> nat \<times> nat" where
  "year_doy n =
     (let a = n div 146097; n = n mod 146097;
          b = n div 36524; n = n mod 36524;
          c = n div 1461; n = n mod 1461;
          d = n div 365; n = n mod 365;
          y = 400 * a + 100 * b + 4 * c + d + 1
      in if d = 4 \<or> b = 4 then (y - 1, 365) else (y, n))"

definition days_before_month :: "nat list" where
  "days_before_month = [0, 0, 31, 59, 90, 120, 151, 181, 212, 243, 273, 304, 334]"

definition days_in_month :: "nat list" where
  "days_in_month = [0, 31, 28, 31, 30, 31, 30, 31, 31, 30, 31, 30, 31]"

definition month_day :: "bool \<Rightarrow> nat \<Rightarrow> nat \<times> nat" where
  "month_day leap n =
     (let m = (n + 50) div 32;
          p = days_before_month ! m + (if 2 < m \<and> leap then 1 else 0)
      in if n < p
         then (m - 1, n + 1 - (p - (days_in_month ! (m - 1) + (if m = 3 \<and> leap then 1 else 0))))
         else (m, n + 1 - p))"

definition utc_datetime :: "time \<Rightarrow> datetime" where
  "utc_datetime t =
     (let days = t div 86400000000; us = t mod 86400000000;
          (y, n) = year_doy days; (m, d) = month_day (is_leap y) n
      in Datetime y m d (us div 3600000000) (us div 60000000 mod 60)
           (us div 1000000 mod 60) (us mod 1000000))"

text \<open>The first instant of year 10000, which \<^verbatim>\<open>datetime\<close> cannot represent.\<close>

definition time_end :: time where
  "time_end = 3652059 * 86400000000"

subsection \<open>Text\<close>

fun pad :: "nat \<Rightarrow> nat \<Rightarrow> string" where
  "pad 0 n = []"
| "pad (Suc w) n = pad w (n div 10) @ [digit (n mod 10)]"

fun isoformat :: "datetime \<Rightarrow> string" where
  "isoformat (Datetime y m d h mi s us) =
     pad 4 y @ ''-'' @ pad 2 m @ ''-'' @ pad 2 d @ ''T'' @ pad 2 h @ '':'' @ pad 2 mi @ '':'' @
     pad 2 s @ (if us = 0 then [] else ''.'' @ pad 6 us) @ ''+00:00''"

definition iso_text :: "time \<Rightarrow> string" where
  "iso_text t = isoformat (utc_datetime t)"

subsection \<open>The text order of dates\<close>

lemma append_less_append:
  fixes a b :: "'a::linorder list"
  assumes "length a = length b"
  shows "a @ x < b @ y \<longleftrightarrow> a < b \<or> a = b \<and> x < y"
  using assms by (induction a b rule: list_induct2) auto

lemma digit_less:
  assumes "m < 10" "n < 10"
  shows "digit m < digit n \<longleftrightarrow> m < n"
proof -
  have "\<forall>m \<in> set [0..<10]. \<forall>n \<in> set [0..<10]. (digit m < digit n) = (m < n)"
    by code_simp
  with assms show ?thesis by simp
qed

lemma digit_eq:
  assumes "m < 10" "n < 10"
  shows "digit m = digit n \<longleftrightarrow> m = n"
  using digit_less[OF assms] digit_less[OF assms(2,1)] by (metis nat_neq_iff order_less_irrefl)

lemma length_pad [simp]: "length (pad w n) = w"
  by (induction w arbitrary: n) auto

lemma pad_eq: "m < 10 ^ w \<Longrightarrow> n < 10 ^ w \<Longrightarrow> pad w m = pad w n \<longleftrightarrow> m = n"
proof (induction w arbitrary: m n)
  case (Suc w)
  have "m div 10 < 10 ^ w" "n div 10 < 10 ^ w"
    using Suc.prems by (auto simp: less_mult_imp_div_less mult.commute)
  then have "pad w (m div 10) = pad w (n div 10) \<longleftrightarrow> m div 10 = n div 10"
    by (rule Suc.IH)
  then have "pad (Suc w) m = pad (Suc w) n \<longleftrightarrow> m div 10 = n div 10 \<and> m mod 10 = n mod 10"
    by (simp add: digit_eq)
  also have "\<dots> \<longleftrightarrow> m = n"
    by (metis div_mult_mod_eq)
  finally show ?case .
qed simp

lemma less_by_digits:
  fixes m n :: nat
  shows "m < n \<longleftrightarrow> m div 10 < n div 10 \<or> m div 10 = n div 10 \<and> m mod 10 < n mod 10"
proof -
  have "m = 10 * (m div 10) + m mod 10" "n = 10 * (n div 10) + n mod 10"
    "m mod 10 < 10" "n mod 10 < 10"
    by simp_all
  then show ?thesis by linarith
qed

lemma pad_less: "m < 10 ^ w \<Longrightarrow> n < 10 ^ w \<Longrightarrow> pad w m < pad w n \<longleftrightarrow> m < n"
proof (induction w arbitrary: m n)
  case (Suc w)
  have dv: "m div 10 < 10 ^ w" "n div 10 < 10 ^ w"
    using Suc.prems by (auto simp: less_mult_imp_div_less mult.commute)
  have "pad (Suc w) m < pad (Suc w) n \<longleftrightarrow>
      m div 10 < n div 10 \<or> m div 10 = n div 10 \<and> m mod 10 < n mod 10"
    using dv by (simp add: append_less_append digit_less pad_eq Suc.IH)
  also have "\<dots> \<longleftrightarrow> m < n"
    by (rule less_by_digits[symmetric])
  finally show ?case .
qed simp

text \<open>Dates whose fields fit the widths of the text.\<close>

fun dt_fits :: "datetime \<Rightarrow> bool" where
  "dt_fits (Datetime y m d h mi s us) =
     (y < 10000 \<and> m < 100 \<and> d < 100 \<and> h < 100 \<and> mi < 100 \<and> s < 100 \<and> us < 1000000)"

lemma micro_text_less:
  assumes "a < 1000000" "b < 1000000"
  shows "(if a = 0 then [] else ''.'' @ pad 6 a) @ ''+00:00'' <
         (if b = 0 then [] else ''.'' @ pad 6 b) @ ''+00:00'' \<longleftrightarrow> a < b"
proof -
  have lt: "CHR ''+'' < CHR ''.''" "\<not> CHR ''.'' < CHR ''+''"
    by code_simp+
  have "pad 6 a @ ''+00:00'' < pad 6 b @ ''+00:00'' \<longleftrightarrow> a < b"
    using assms pad_less[of a 6 b] by (simp add: append_less_append)
  with lt assms show ?thesis by simp
qed

lemma field_less:
  assumes "m < 10 ^ w" "n < 10 ^ w"
  shows "pad w m @ x < pad w n @ y \<longleftrightarrow> m < n \<or> m = n \<and> x < y"
  using assms by (simp add: append_less_append pad_less pad_eq)

lemma sep_less: "[c] @ x < [c :: char] @ y \<longleftrightarrow> x < y"
  by simp

lemma dt_less:
  "Datetime y m d h mi s us < Datetime y' m' d' h' mi' s' us' \<longleftrightarrow>
   y < y' \<or> y = y' \<and> (m < m' \<or> m = m' \<and> (d < d' \<or> d = d' \<and> (h < h' \<or> h = h' \<and>
     (mi < mi' \<or> mi = mi' \<and> (s < s' \<or> s = s' \<and> us < us')))))"
  by (simp add: less_datetime_def)

lemma isoformat_less:
  assumes "dt_fits a" "dt_fits b"
  shows "isoformat a < isoformat b \<longleftrightarrow> a < b"
proof (cases a; cases b)
  fix y m d h mi s us y' m' d' h' mi' s' us'
  assume a: "a = Datetime y m d h mi s us" and b: "b = Datetime y' m' d' h' mi' s' us'"
  have w: "y < 10 ^ 4" "y' < 10 ^ 4" "m < 10 ^ 2" "m' < 10 ^ 2" "d < 10 ^ 2" "d' < 10 ^ 2"
    "h < 10 ^ 2" "h' < 10 ^ 2" "mi < 10 ^ 2" "mi' < 10 ^ 2" "s < 10 ^ 2" "s' < 10 ^ 2"
    "us < 1000000" "us' < 1000000"
    using assms a b by simp_all
  show "isoformat a < isoformat b \<longleftrightarrow> a < b"
    unfolding a b isoformat.simps dt_less
    by (simp only: field_less[OF w(1,2)] field_less[OF w(3,4)] field_less[OF w(5,6)]
        field_less[OF w(7,8)] field_less[OF w(9,10)] field_less[OF w(11,12)]
        micro_text_less[OF w(13,14)] sep_less)
qed

subsection \<open>The calendar is monotone\<close>

definition dby :: "nat \<Rightarrow> nat" where
  \<comment> \<open>days before year \<open>y + 1\<close>\<close>
  "dby y = 365 * y + y div 4 - y div 100 + y div 400"

lemma dby_Suc: "dby (Suc y) = dby y + 365 + (if is_leap (Suc y) then 1 else 0)"
proof -
  have le: "y div 100 \<le> y div 4" by (simp add: div_le_mono2)
  have i: "Suc y mod 4 = 0" if "Suc y mod 100 = 0" using that by presburger
  have j: "Suc y mod 100 = 0" if "Suc y mod 400 = 0" using that by presburger
  show ?thesis
    using le i j by (auto simp: dby_def is_leap_def div_Suc add_ac)
qed

lemma dby_fields:
  assumes "b \<le> 3" "c \<le> 24" "d \<le> 3"
  shows "dby (400 * a + 100 * b + 4 * c + d) = 146097 * a + 36524 * b + 1461 * c + 365 * d"
proof -
  let ?y = "400 * a + 100 * b + 4 * c + d"
  have 4: "?y div 4 = 100 * a + 25 * b + c"
    using assms by (intro div_nat_eqI) auto
  have 100: "?y div 100 = 4 * a + b"
    using assms by (intro div_nat_eqI) auto
  have 400: "?y div 400 = a"
    using assms by (intro div_nat_eqI) auto
  show ?thesis unfolding dby_def 4 100 400 by simp
qed

definition month_start :: "bool \<Rightarrow> nat \<Rightarrow> nat" where
  "month_start leap m = days_before_month ! m + (if 2 < m \<and> leap then 1 else 0)"

definition month_len :: "bool \<Rightarrow> nat \<Rightarrow> nat" where
  "month_len leap m = days_in_month ! m + (if m = 2 \<and> leap then 1 else 0)"

lemma month_day_spec:
  assumes n: "n < 365 + (if leap then 1 else 0)" and md: "month_day leap n = (m, d)"
  shows "n + 1 = month_start leap m + d \<and> 1 \<le> d \<and> d \<le> month_len leap m \<and> 1 \<le> m \<and> m \<le> 12"
proof -
  let ?k = "(n + 50) div 32"
  have r: "32 * ?k \<le> n + 50" "n + 50 < 32 * ?k + 32" by simp_all
  have "?k \<in> {1..12}" using n r by (auto split: if_splits)
  then have "?k \<in> set [1..<13]" by simp
  then consider "?k = 1" | "?k = 2" | "?k = 3" | "?k = 4" | "?k = 5" | "?k = 6" | "?k = 7"
    | "?k = 8" | "?k = 9" | "?k = 10" | "?k = 11" | "?k = 12"
    by (auto simp: upt_rec)
  then show ?thesis
    using md n r
    by cases (auto simp: month_day_def Let_def days_before_month_def days_in_month_def
        month_start_def month_len_def split: if_splits)
qed

lemma month_start_step:
  assumes "1 \<le> m" "m < m'" "m' \<le> 12"
  shows "month_start leap m + month_len leap m \<le> month_start leap m'"
proof -
  have "\<forall>l \<in> {True, False}. \<forall>m \<in> set [1..<13]. \<forall>m' \<in> set [1..<13].
     m < m' \<longrightarrow> month_start l m + month_len l m \<le> month_start l m'"
    by code_simp
  with assms show ?thesis by (cases leap) auto
qed

lemma month_day_mono:
  assumes "n < n'" "n' < 365 + (if leap then 1 else 0)"
    and a: "month_day leap n = (m, d)" and b: "month_day leap n' = (m', d')"
  shows "m < m' \<or> m = m' \<and> d < d'"
proof -
  have x: "n + 1 = month_start leap m + d \<and> d \<le> month_len leap m \<and> m \<le> 12"
    using month_day_spec[OF _ a] assms(1,2) by simp
  have y: "n' + 1 = month_start leap m' + d' \<and> 1 \<le> d' \<and> d' \<le> month_len leap m' \<and> 1 \<le> m'"
    using month_day_spec[OF _ b] assms(2) by simp
  show ?thesis
  proof (cases "m' < m")
    case True
    then have "month_start leap m' + month_len leap m' \<le> month_start leap m"
      using x y by (intro month_start_step) auto
    with x y assms(1) show ?thesis by linarith
  next
    case False
    with x y assms(1) show ?thesis by (cases "m = m'") auto
  qed
qed

lemma year_doy_spec:
  assumes "year_doy n = (y, k)"
  shows "1 \<le> y \<and> n = dby (y - 1) + k \<and> k < 365 + (if is_leap y then 1 else 0)"
proof -
  define a where "a = n div 146097"
  define r where "r = n mod 146097"
  define b where "b = r div 36524"
  define q where "q = r mod 36524"
  define c where "c = q div 1461"
  define u where "u = q mod 1461"
  define d where "d = u div 365"
  define e where "e = u mod 365"
  have n: "n = 146097 * a + r" and r: "r = 36524 * b + q" and q: "q = 1461 * c + u"
    and u: "u = 365 * d + e"
    by (simp_all add: a_def r_def b_def q_def c_def u_def d_def e_def)
  have lt: "r < 146097" "q < 36524" "u < 1461" "e < 365"
    by (simp_all add: r_def q_def u_def e_def)
  have bnd: "b \<le> 4" "c \<le> 24" "d \<le> 4" using lt r q u by linarith+
  have yk: "(y, k) = (if d = 4 \<or> b = 4 then (400 * a + 100 * b + 4 * c + d, 365)
      else (400 * a + 100 * b + 4 * c + d + 1, e))"
    using assms[symmetric]
    unfolding year_doy_def Let_def a_def[symmetric] r_def[symmetric] b_def[symmetric]
      q_def[symmetric] c_def[symmetric] u_def[symmetric] d_def[symmetric] e_def[symmetric]
    by (auto split: if_splits)
  show ?thesis
  proof (cases "b = 4")
    case True
    then have "q = 0" "c = 0" "d = 0" "u = 0" using lt r q u by linarith+
    with True yk have y: "y = 400 * a + 100 * 3 + 4 * 24 + 3 + 1" and k: "k = 365" by auto
    have leap: "is_leap y" unfolding y is_leap_def by presburger
    have "dby (y - 1) = 146097 * a + 36524 * 3 + 1461 * 24 + 365 * 3"
      unfolding y using dby_fields[of 3 24 3 a] by simp
    with y k leap n r True \<open>q = 0\<close> show ?thesis by simp
  next
    case b: False
    show ?thesis
    proof (cases "d = 4")
      case True
      then have e: "e = 0" and c: "c \<le> 23" using lt u q by linarith+
      from True yk have y: "y = 400 * a + 100 * b + 4 * c + 3 + 1" and k: "k = 365" by auto
      have "y mod 4 = 0" unfolding y by presburger
      moreover have "y mod 100 = 4 * (c + 1)"
      proof -
        have "y = 4 * (c + 1) + 100 * (4 * a + b)" unfolding y by simp
        then have "y mod 100 = (4 * (c + 1)) mod 100" by (metis mod_mult_self2)
        with c show ?thesis by simp
      qed
      ultimately have leap: "is_leap y" by (simp add: is_leap_def)
      have "dby (y - 1) = 146097 * a + 36524 * b + 1461 * c + 365 * 3"
        unfolding y using dby_fields[of b c 3 a] b bnd by (simp add: add_ac)
      with y k leap n r q u True e show ?thesis by simp
    next
      case d: False
      with b yk have y: "y = 400 * a + 100 * b + 4 * c + d + 1" and k: "k = e" by auto
      have "dby (y - 1) = 146097 * a + 36524 * b + 1461 * c + 365 * d"
        unfolding y using dby_fields[of b c d a] b d bnd by simp
      with y k n r q u lt show ?thesis by simp
    qed
  qed
qed

lemma dby_step: "x < y \<Longrightarrow> dby x + 365 + (if is_leap (Suc x) then 1 else 0) \<le> dby y"
proof (induction y)
  case (Suc y)
  show ?case
  proof (cases "x = y")
    case True
    then show ?thesis by (simp add: dby_Suc)
  next
    case False
    with Suc have "dby x + 365 + (if is_leap (Suc x) then 1 else 0) \<le> dby y" by simp
    then show ?thesis by (simp add: dby_Suc)
  qed
qed simp

lemma year_doy_mono:
  assumes "n < n'" and a: "year_doy n = (y, k)" and b: "year_doy n' = (y', k')"
  shows "y < y' \<or> y = y' \<and> k < k'"
proof (cases "y' < y")
  case True
  note x = year_doy_spec[OF a] and z = year_doy_spec[OF b]
  have "dby (y' - 1) + 365 + (if is_leap (Suc (y' - 1)) then 1 else 0) \<le> dby (y - 1)"
    using True z by (intro dby_step) auto
  with x z assms(1) show ?thesis by (auto split: if_splits)
next
  case False
  with year_doy_spec[OF a] year_doy_spec[OF b] assms(1) show ?thesis by (cases "y = y'") auto
qed

text \<open>The calendar date of an instant, and the text of the date, keep the order of instants.\<close>

lemma less_by_div_mod:
  fixes m n k :: nat
  shows "m < n \<Longrightarrow> m div k < n div k \<or> m div k = n div k \<and> m mod k < n mod k"
proof -
  assume lt: "m < n"
  have "m div k \<le> n div k" using lt by (simp add: div_le_mono)
  moreover have "m mod k < n mod k" if "m div k = n div k"
    using lt that by (metis add_less_cancel_left div_mult_mod_eq)
  ultimately show ?thesis by linarith
qed

lemma less_time_of_day:
  fixes s t :: nat
  assumes "s < t"
  shows "s div 3600000000 < t div 3600000000 \<or> s div 3600000000 = t div 3600000000 \<and>
    (s div 60000000 mod 60 < t div 60000000 mod 60 \<or>
     s div 60000000 mod 60 = t div 60000000 mod 60 \<and>
    (s div 1000000 mod 60 < t div 1000000 mod 60 \<or> s div 1000000 mod 60 = t div 1000000 mod 60 \<and>
     s mod 1000000 < t mod 1000000))"
proof -
  have a: "x div 3600000000 = x div 60000000 div 60" "x div 60000000 = x div 1000000 div 60" for x :: nat
    by (simp_all add: div_mult2_eq[symmetric])
  note l1 = less_by_div_mod[OF assms, of 1000000]
    and l2 = less_by_div_mod[of "s div 1000000" "t div 1000000" 60]
    and l3 = less_by_div_mod[of "s div 60000000" "t div 60000000" 60]
  show ?thesis
  proof (cases "s div 1000000 = t div 1000000")
    case True
    with l1 show ?thesis unfolding a by simp
  next
    case False
    with l1 l2 show ?thesis
      using l3 unfolding a by (cases "s div 1000000 div 60 = t div 1000000 div 60") auto
  qed
qed

lemma utc_datetime_mono:
  assumes "s < t"
  shows "utc_datetime s < utc_datetime t"
proof -
  obtain y n where a: "year_doy (s div 86400000000) = (y, n)" by fastforce
  obtain y' n' where b: "year_doy (t div 86400000000) = (y', n')" by fastforce
  obtain m d where c: "month_day (is_leap y) n = (m, d)" by fastforce
  obtain m' d' where e: "month_day (is_leap y') n' = (m', d')" by fastforce
  have day: "y < y' \<or> y = y' \<and> (m < m' \<or> m = m' \<and> d < d')"
    if "s div 86400000000 < t div 86400000000"
    using year_doy_mono[OF that a b] month_day_mono[of n n' "is_leap y" m d m' d']
      year_doy_spec[OF b] c e by auto
  have same: "y = y' \<and> m = m' \<and> d = d'" if "s div 86400000000 = t div 86400000000"
    using that a b c e by simp
  show ?thesis
    using less_by_div_mod[OF assms, of 86400000000] day same
      less_time_of_day[of "s mod 86400000000" "t mod 86400000000"]
    unfolding utc_datetime_def Let_def a b prod.case c e dt_less by blast
qed

lemma utc_datetime_fits:
  assumes "t < time_end"
  shows "dt_fits (utc_datetime t)"
proof -
  obtain y n where a: "year_doy (t div 86400000000) = (y, n)" by fastforce
  obtain m d where c: "month_day (is_leap y) n = (m, d)" by fastforce
  note z = year_doy_spec[OF a]
  have day: "t div 86400000000 < 3652059"
    using assms by (simp add: time_end_def less_mult_imp_div_less)
  have "y < 10000"
  proof (rule ccontr)
    assume "\<not> y < 10000"
    then have "y - 1 = 9999 \<or> 9999 < y - 1" by linarith
    then have "9999 = y - 1 \<or> dby 9999 + 365 \<le> dby (y - 1)"
      using dby_step[of 9999 "y - 1"] by (auto split: if_splits)
    moreover have "dby 9999 = 3652059" by (simp add: dby_def)
    ultimately have "3652059 \<le> dby (y - 1)" by auto
    with z day show False by linarith
  qed
  moreover have "m < 100 \<and> d < 100"
  proof -
    have md: "d \<le> month_len (is_leap y) m \<and> m \<le> 12"
      using month_day_spec[OF _ c] z by simp
    moreover have "\<forall>l \<in> {True, False}. \<forall>m \<in> set [0..<13]. month_len l m \<le> 31"
      by code_simp
    ultimately have "month_len (is_leap y) m \<le> 31" by (cases "is_leap y") auto
    with md show ?thesis by linarith
  qed
  moreover have "t mod 86400000000 div 3600000000 < 100"
    by (rule less_mult_imp_div_less) (simp add: order.strict_trans2[OF mod_less_divisor])
  ultimately show ?thesis
    unfolding utc_datetime_def Let_def a prod.case c dt_fits.simps
    by (auto intro: order.strict_trans[OF mod_less_divisor])
qed

lemma iso_less_iff:
  assumes "s < time_end" "t < time_end"
  shows "iso_text s < iso_text t \<longleftrightarrow> s < t"
proof -
  have "utc_datetime s < utc_datetime t \<longleftrightarrow> s < t"
    using utc_datetime_mono[of s t] utc_datetime_mono[of t s]
    by (metis less_asym less_irrefl nat_neq_iff)
  then show ?thesis
    unfolding iso_text_def using assms by (simp add: isoformat_less utc_datetime_fits)
qed

lemma iso_le_iff:
  assumes "s < time_end" "t < time_end"
  shows "iso_text s \<le> iso_text t \<longleftrightarrow> s \<le> t"
  using iso_less_iff[OF assms(2,1)] by (simp add: not_less[symmetric])

lemma iso_eq_iff:
  assumes "s < time_end" "t < time_end"
  shows "iso_text s = iso_text t \<longleftrightarrow> s = t"
  using iso_le_iff[OF assms] iso_le_iff[OF assms(2,1)] by (metis order_antisym order_refl)

subsection \<open>Reading a time back\<close>

text \<open>
  \<^verbatim>\<open>datetime.fromisoformat\<close> on the texts \<open>isoformat\<close> writes; a text of another shape, or with a
  field out of range, is refused (the \<^verbatim>\<open>ValueError\<close> that \<^verbatim>\<open>bridge._parse_time\<close> turns into
  \<^verbatim>\<open>None\<close>).
\<close>

definition is_digit :: "char \<Rightarrow> bool" where
  "is_digit c = (c \<in> set ''0123456789'')"

definition digit_val :: "char \<Rightarrow> nat" where
  "digit_val c = of_char c - 48"

definition num :: "string \<Rightarrow> nat" where
  "num s = foldl (\<lambda>n c. 10 * n + digit_val c) 0 s"

definition field :: "nat \<Rightarrow> string \<Rightarrow> (nat \<times> string) option" where
  "field w s = (if w \<le> length s \<and> list_all is_digit (take w s)
                then Some (num (take w s), drop w s) else None)"

definition expect :: "string \<Rightarrow> string \<Rightarrow> string option" where
  "expect p s = (if take (length p) s = p then Some (drop (length p) s) else None)"

definition field_sep :: "nat \<Rightarrow> string \<Rightarrow> string \<Rightarrow> (nat \<times> string) option" where
  "field_sep w p s =
     (case field w s of None \<Rightarrow> None
      | Some (n, s) \<Rightarrow> (case expect p s of None \<Rightarrow> None | Some s \<Rightarrow> Some (n, s)))"

fun valid_datetime :: "datetime \<Rightarrow> bool" where
  "valid_datetime (Datetime y m d h mi s us) =
     (1 \<le> y \<and> 1 \<le> m \<and> m \<le> 12 \<and> 1 \<le> d \<and> d \<le> month_len (is_leap y) m \<and>
      h < 24 \<and> mi < 60 \<and> s < 60 \<and> us < 1000000)"

definition parse_fraction :: "string \<Rightarrow> nat option" where
  "parse_fraction s =
     (if s = ''+00:00'' then Some 0
      else case expect ''.'' s of None \<Rightarrow> None
      | Some s \<Rightarrow> (case field 6 s of None \<Rightarrow> None
                   | Some (us, s) \<Rightarrow> if s = ''+00:00'' then Some us else None))"

definition parse_datetime :: "string \<Rightarrow> datetime option" where
  "parse_datetime s =
     Option.bind (field_sep 4 ''-'' s) (\<lambda>(y, s).
     Option.bind (field_sep 2 ''-'' s) (\<lambda>(m, s).
     Option.bind (field_sep 2 ''T'' s) (\<lambda>(d, s).
     Option.bind (field_sep 2 '':'' s) (\<lambda>(h, s).
     Option.bind (field_sep 2 '':'' s) (\<lambda>(mi, s).
     Option.bind (field 2 s) (\<lambda>(sc, s).
     Option.bind (parse_fraction s) (\<lambda>us.
       let dt = Datetime y m d h mi sc us in if valid_datetime dt then Some dt else None)))))))"

fun instant_of :: "datetime \<Rightarrow> time" where
  "instant_of (Datetime y m d h mi s us) =
     (dby (y - 1) + month_start (is_leap y) m + d - 1) * 86400000000 +
     h * 3600000000 + mi * 60000000 + s * 1000000 + us"

definition parse_iso :: "string \<Rightarrow> time option" where
  "parse_iso s = map_option instant_of (parse_datetime s)"

lemma digit_val_digit: "n < 10 \<Longrightarrow> digit_val (digit n) = n \<and> is_digit (digit n)"
proof -
  assume "n < 10"
  moreover have "\<forall>n \<in> set [0..<10]. digit_val (digit n) = n \<and> is_digit (digit n)"
    by code_simp
  ultimately show ?thesis by simp
qed

lemma num_pad: "n < 10 ^ w \<Longrightarrow> num (pad w n) = n"
proof (induction w arbitrary: n)
  case (Suc w)
  have "n div 10 < 10 ^ w" using Suc.prems by (simp add: less_mult_imp_div_less mult.commute)
  then have "num (pad w (n div 10)) = n div 10" by (rule Suc.IH)
  then show ?case by (simp add: num_def digit_val_digit)
qed (simp add: num_def)

lemma digits_pad: "list_all is_digit (pad w n)"
  by (induction w arbitrary: n) (auto simp: digit_val_digit)

lemma field_pad: "n < 10 ^ w \<Longrightarrow> field w (pad w n @ s) = Some (n, s)"
  by (simp add: field_def num_pad digits_pad)

lemma expect_append [simp]: "expect p (p @ s) = Some s"
  by (simp add: expect_def)

lemma field_sep_pad: "n < 10 ^ w \<Longrightarrow> field_sep w p (pad w n @ p @ s) = Some (n, s)"
  by (simp add: field_sep_def field_pad)

lemma parse_fraction_text:
  "us < 1000000 \<Longrightarrow>
   parse_fraction ((if us = 0 then [] else ''.'' @ pad 6 us) @ ''+00:00'') = Some us"
  using field_pad[of us 6 "''+00:00''"] by (simp add: parse_fraction_def expect_def)

lemma parse_isoformat:
  assumes "dt_fits dt" "valid_datetime dt"
  shows "parse_datetime (isoformat dt) = Some dt"
proof (cases dt)
  case (Datetime y m d h mi s us)
  have w: "y < 10 ^ 4" "m < 10 ^ 2" "d < 10 ^ 2" "h < 10 ^ 2" "mi < 10 ^ 2" "s < 10 ^ 2"
    and us: "us < 1000000"
    using assms(1) unfolding Datetime by simp_all
  show ?thesis
    using assms(2)
    unfolding Datetime isoformat.simps parse_datetime_def field_sep_pad[OF w(1)]
      field_sep_pad[OF w(2)] field_sep_pad[OF w(3)] field_sep_pad[OF w(4)] field_sep_pad[OF w(5)]
      field_pad[OF w(6)] parse_fraction_text[OF us] Option.bind.bind_lunit prod.case Let_def
    by (simp only: if_True)
qed

lemma utc_datetime_valid: "valid_datetime (utc_datetime t)"
proof -
  obtain y n where a: "year_doy (t div 86400000000) = (y, n)" by fastforce
  obtain m d where c: "month_day (is_leap y) n = (m, d)" by fastforce
  have md: "1 \<le> d \<and> d \<le> month_len (is_leap y) m \<and> 1 \<le> m \<and> m \<le> 12"
    using month_day_spec[OF _ c] year_doy_spec[OF a] by simp
  have h: "t mod 86400000000 div 3600000000 < 24"
    by (rule less_mult_imp_div_less) simp
  show ?thesis
    unfolding utc_datetime_def Let_def a prod.case c valid_datetime.simps
    using year_doy_spec[OF a] md h by simp
qed

lemma time_of_day_sum:
  fixes u :: nat
  shows "u div 3600000000 * 3600000000 + u div 60000000 mod 60 * 60000000 +
    u div 1000000 mod 60 * 1000000 + u mod 1000000 = u"
proof -
  have a: "u div 3600000000 = u div 60000000 div 60" "u div 60000000 = u div 1000000 div 60"
    by (simp_all add: div_mult2_eq[symmetric])
  have "u div 1000000 * 1000000 + u mod 1000000 = u" by simp
  moreover have "u div 60000000 * 60 + u div 1000000 mod 60 = u div 1000000" unfolding a by simp
  moreover have "u div 3600000000 * 60 + u div 60000000 mod 60 = u div 60000000" unfolding a by simp
  ultimately show ?thesis by linarith
qed

lemma instant_of_utc: "instant_of (utc_datetime t) = t"
proof -
  obtain y n where a: "year_doy (t div 86400000000) = (y, n)" by fastforce
  obtain m d where c: "month_day (is_leap y) n = (m, d)" by fastforce
  have md: "n + 1 = month_start (is_leap y) m + d"
    using month_day_spec[OF _ c] year_doy_spec[OF a] by simp
  have "dby (y - 1) + month_start (is_leap y) m + d - 1 = t div 86400000000"
    using md year_doy_spec[OF a] by simp
  then show ?thesis
    unfolding utc_datetime_def Let_def a prod.case c instant_of.simps
    using time_of_day_sum[of "t mod 86400000000"] div_mult_mod_eq[of t 86400000000] by linarith
qed

text \<open>An instant survives its text.\<close>

lemma parse_iso_text: "t < time_end \<Longrightarrow> parse_iso (iso_text t) = Some t"
  by (simp add: parse_iso_def iso_text_def parse_isoformat utc_datetime_fits utc_datetime_valid
      instant_of_utc)

lemma iso_text_not_Nil [simp]: "iso_text t \<noteq> []"
  by (cases "utc_datetime t") (simp add: iso_text_def)

subsection \<open>Evaluation\<close>

text \<open>The facts that compute the text of a concrete instant.\<close>

lemma pad_eval:
  "pad 2 n = [digit (n div 10 mod 10), digit (n mod 10)]"
  "pad 4 n = [digit (n div 1000 mod 10), digit (n div 100 mod 10), digit (n div 10 mod 10), digit (n mod 10)]"
  "pad 6 n = [digit (n div 100000 mod 10), digit (n div 10000 mod 10), digit (n div 1000 mod 10),
     digit (n div 100 mod 10), digit (n div 10 mod 10), digit (n mod 10)]"
proof -
  have w: "2 = Suc (Suc 0)" "4 = Suc (Suc (Suc (Suc 0)))" "6 = Suc (Suc (Suc (Suc (Suc (Suc 0)))))"
    by simp_all
  show "pad 2 n = [digit (n div 10 mod 10), digit (n mod 10)]"
    unfolding w(1) by (simp del: One_nat_def)
  show "pad 4 n = [digit (n div 1000 mod 10), digit (n div 100 mod 10), digit (n div 10 mod 10), digit (n mod 10)]"
    unfolding w(2) by (simp add: div_mult2_eq[symmetric])
  show "pad 6 n = [digit (n div 100000 mod 10), digit (n div 10000 mod 10), digit (n div 1000 mod 10),
     digit (n div 100 mod 10), digit (n div 10 mod 10), digit (n mod 10)]"
    unfolding w(3) by (simp add: div_mult2_eq[symmetric])
qed
lemmas iso_eval = iso_text_def utc_datetime_def year_doy_def month_day_def is_leap_def
  days_before_month_def days_in_month_def Let_def digit_def pad_eval

lemma iso_text_example: "iso_text 63887000000123456 = ''2025-07-01T20:53:20.123456+00:00''"
  by (simp add: iso_eval)

text \<open>Days as microseconds, and \<^verbatim>\<open>datetime.now() + timedelta(days=d)\<close> for whole and fractional days.\<close>

definition us_per_day :: nat where
  "us_per_day = 86400000000"

end
