(* ===== verification/Sql_Table.thy ===== *)
theory Sql_Table
  imports Memline_Prelude
begin

text \<open>
  The SQLite tables behind the stores of \<^verbatim>\<open>src/src/memline\<close> (\<^verbatim>\<open>sqlite_util.SqliteStore\<close> and its
  subclasses). A table is the list of its rows in \<^verbatim>\<open>rowid\<close> order. The statements the stores
  execute are the functions below; each store runs its statements under one lock and commits
  before it releases it, so a store operation is one atomic function on the table.
  \<^verbatim>\<open>ORDER BY\<close> keeps rows with equal keys in \<^verbatim>\<open>rowid\<close> order.
\<close>

definition upd_where :: "('r \<Rightarrow> bool) \<Rightarrow> ('r \<Rightarrow> 'r) \<Rightarrow> 'r list \<Rightarrow> 'r list" where
  "upd_where P f rows = map (\<lambda>r. if P r then f r else r) rows"

definition delete_where :: "('r \<Rightarrow> bool) \<Rightarrow> 'r list \<Rightarrow> 'r list" where
  "delete_where P rows = filter (\<lambda>r. \<not> P r) rows"

text \<open>\<^verbatim>\<open>cursor.rowcount\<close> of an \<^verbatim>\<open>UPDATE\<close> or \<^verbatim>\<open>DELETE\<close> with condition \<open>P\<close>.\<close>

definition rowcount :: "('r \<Rightarrow> bool) \<Rightarrow> 'r list \<Rightarrow> nat" where
  "rowcount P rows = length (filter P rows)"

definition lookup_row :: "('r \<Rightarrow> 'k) \<Rightarrow> 'k \<Rightarrow> 'r list \<Rightarrow> 'r option" where
  "lookup_row key k rows = find (\<lambda>r. key r = k) rows"

definition order_asc :: "('r \<Rightarrow> 'o::linorder) \<Rightarrow> 'r list \<Rightarrow> 'r list" where
  "order_asc k rows = sort_key k rows"

definition order_desc :: "('r \<Rightarrow> 'o::linorder) \<Rightarrow> 'r list \<Rightarrow> 'r list" where
  "order_desc k rows = rev (sort_key k (rev rows))"

text \<open>\<^verbatim>\<open>LIMIT n\<close> with SQLite's reading of a negative limit as no limit, and \<^verbatim>\<open>OFFSET\<close>.\<close>

definition sql_limit :: "int \<Rightarrow> 'r list \<Rightarrow> 'r list" where
  "sql_limit n rows = (if n < 0 then rows else take (nat n) rows)"

definition sql_offset :: "int \<Rightarrow> 'r list \<Rightarrow> 'r list" where
  "sql_offset n rows = drop (nat n) rows"

definition first_row :: "'r list \<Rightarrow> 'r option" where
  "first_row rows = (case rows of [] \<Rightarrow> None | r # _ \<Rightarrow> Some r)"

subsection \<open>Facts on single statements\<close>

lemma set_upd_where:
  "set (upd_where P f rows) = (\<lambda>r. if P r then f r else r) ` set rows"
  by (simp add: upd_where_def)

lemma in_upd_where [row_simps]:
  "x \<in> set (upd_where P f rows) \<longleftrightarrow> (\<exists>r \<in> set rows. x = (if P r then f r else r))"
  unfolding set_upd_where by blast

lemma ball_upd_where [row_simps]:
  "(\<forall>x \<in> set (upd_where P f rows). Q x) \<longleftrightarrow> (\<forall>r \<in> set rows. Q (if P r then f r else r))"
  unfolding set_upd_where by blast

lemma bex_upd_where [row_simps]:
  "(\<exists>x \<in> set (upd_where P f rows). Q x) \<longleftrightarrow> (\<exists>r \<in> set rows. Q (if P r then f r else r))"
  unfolding set_upd_where by blast

lemma set_delete_where [row_simps]: "set (delete_where P rows) = {r \<in> set rows. \<not> P r}"
  by (simp add: delete_where_def)

lemma set_order [row_simps]:
  "set (order_asc k rows) = set rows" "set (order_desc k rows) = set rows"
  by (simp_all add: order_asc_def order_desc_def)

lemma order_Nil_iff [row_simps]:
  "order_asc k rows = [] \<longleftrightarrow> rows = []" "order_desc k rows = [] \<longleftrightarrow> rows = []"
  using set_order[of k rows] by auto

lemma length_upd_where [row_simps]: "length (upd_where P f rows) = length rows"
  by (simp add: upd_where_def)

lemma rowcount_pos_iff: "0 < rowcount P rows \<longleftrightarrow> (\<exists>r \<in> set rows. P r)"
  by (auto simp: rowcount_def filter_empty_conv)

lemma rowcount_0_iff: "rowcount P rows = 0 \<longleftrightarrow> (\<forall>r \<in> set rows. \<not> P r)"
  by (auto simp: rowcount_def filter_empty_conv)

lemma upd_where_idle: "rowcount P rows = 0 \<Longrightarrow> upd_where P f rows = rows"
  by (auto simp: rowcount_0_iff upd_where_def intro: map_idI)

lemma delete_count: "length (delete_where P rows) + rowcount P rows = length rows"
  by (simp add: delete_where_def rowcount_def sum_length_filter_compl add.commute)

lemma first_row_None_iff [row_simps]: "first_row rows = None \<longleftrightarrow> rows = []"
  by (cases rows) (auto simp: first_row_def)

lemma first_row_in: "first_row rows = Some r \<Longrightarrow> r \<in> set rows"
  by (cases rows) (auto simp: first_row_def)

lemma first_order_asc_min:
  assumes "first_row (order_asc k rows) = Some r" "r' \<in> set rows"
  shows "k r \<le> k r'"
proof -
  have s: "sorted (map k (order_asc k rows))"
    by (simp add: order_asc_def)
  obtain rs where rs: "order_asc k rows = r # rs"
    using assms(1) by (cases "order_asc k rows") (auto simp: first_row_def)
  have "r' \<in> set (r # rs)"
    using assms(2) unfolding rs[symmetric] by (simp add: row_simps)
  with s show ?thesis unfolding rs by auto
qed

lemma first_order_desc_max:
  assumes "first_row (order_desc k rows) = Some r" "r' \<in> set rows"
  shows "k r' \<le> k r"
proof -
  obtain rs where rs: "order_desc k rows = r # rs"
    using assms(1) by (cases "order_desc k rows") (auto simp: first_row_def)
  have "sort_key k (rev rows) = rev rs @ [r]"
    using rs by (simp add: order_desc_def rev_swap)
  then have "sorted (map k (rev rs @ [r]))"
    by (metis sorted_sort_key)
  moreover have "r' \<in> set (r # rs)"
    using assms(2) unfolding rs[symmetric] by (simp add: row_simps)
  ultimately show ?thesis by (auto simp: sorted_append)
qed

subsection \<open>Tables with a primary key\<close>

lemma lookup_row_Some: "lookup_row key k rows = Some r \<Longrightarrow> r \<in> set rows \<and> key r = k"
  unfolding lookup_row_def by (drule find_Some_in) simp

lemma lookup_row_None_iff: "lookup_row key k rows = None \<longleftrightarrow> k \<notin> key ` set rows"
  by (auto simp: lookup_row_def find_None_iff)

lemma lookup_row_in:
  "distinct (map key rows) \<Longrightarrow> r \<in> set rows \<Longrightarrow> lookup_row key (key r) rows = Some r"
  by (induction rows) (auto simp: lookup_row_def)

lemma map_key_upd_where [row_simps]:
  "(\<And>r. key (f r) = key r) \<Longrightarrow> map key (upd_where P f rows) = map key rows"
  by (simp add: upd_where_def)

lemma lookup_upd_where:
  "(\<And>r. key (f r) = key r) \<Longrightarrow>
   lookup_row key k (upd_where P f rows) =
     map_option (\<lambda>r. if P r then f r else r) (lookup_row key k rows)"
  by (induction rows) (auto simp: lookup_row_def upd_where_def)

lemma find_key_None:
  "k \<notin> key ` set rows \<Longrightarrow> find (\<lambda>x. key x = k) rows = None"
  by (auto simp: find_None_iff)

lemma distinct_delete_where: "distinct (map key rows) \<Longrightarrow> distinct (map key (delete_where P rows))"
  by (simp add: delete_where_def distinct_map_filter)

lemma lookup_delete_where:
  "distinct (map key rows) \<Longrightarrow>
   lookup_row key k (delete_where P rows) =
     (case lookup_row key k rows of None \<Rightarrow> None | Some r \<Rightarrow> if P r then None else Some r)"
proof (induction rows)
  case (Cons r rows)
  have none: "find (\<lambda>x. key x = key r) rows = None"
    "find (\<lambda>x. key x = key r) (filter (\<lambda>r. \<not> P r) rows) = None"
    using Cons.prems by (auto intro!: find_key_None)
  from Cons show ?case
    by (cases "key r = k") (auto simp: lookup_row_def delete_where_def none split: option.splits)
qed (simp add: lookup_row_def delete_where_def)

lemma lookup_append_row:
  "lookup_row key k (rows @ [r]) =
     (case lookup_row key k rows of Some r' \<Rightarrow> Some r' | None \<Rightarrow> if key r = k then Some r else None)"
  by (induction rows) (auto simp: lookup_row_def)

lemma rowcount_key:
  "distinct (map key rows) \<Longrightarrow>
   rowcount (\<lambda>r. key r = k \<and> P r) rows =
     (case lookup_row key k rows of None \<Rightarrow> 0 | Some r \<Rightarrow> if P r then 1 else 0)"
proof (induction rows)
  case (Cons r rows)
  have "find (\<lambda>x. key x = key r) rows = None"
    using Cons.prems by (auto intro!: find_key_None)
  with Cons show ?case
    by (cases "key r = k") (auto simp: rowcount_def lookup_row_def filter_empty_conv)
qed (simp add: rowcount_def lookup_row_def)

end
