(* ===== verification/Pair_Store.thy ===== *)
theory Pair_Store
  imports Iso_Time Sql_Table
begin

text \<open>
  The evidence table of suspicion pairs, class \<^verbatim>\<open>PairStore\<close> of \<^verbatim>\<open>src/src/memline/staleness.py\<close>. A row
  records one judgment of an entry (\<open>pr_new\<close>) about another entry or about itself (\<open>pr_old\<close>),
  scoped to one version of the old text by its hash; rows are never deleted. The hash
  (\<^verbatim>\<open>hashlib.sha256\<close>) is the argument \<open>h\<close> of the operations that need it; row ids
  (\<^verbatim>\<open>uuid4\<close>) and clock readings are arguments. A Python float is the rational number it
  denotes, so the floors below are the exact values of the literals \<^verbatim>\<open>0.6\<close> and \<^verbatim>\<open>0.8\<close>.
\<close>

datatype pair_kind = Displacement | Necessity | Correctness | TtlExpiry | Safety | OtherKind string

datatype disposition =
    DOpen | DCached | DConfirmed | DDismissed | DMerged | DTtl | DObsoleted | DExpired
  | DOther string

record pair_row =
  pr_id :: string
  pr_kind :: pair_kind
  pr_new :: string
  pr_old :: string
  pr_hash :: string
  pr_verdict :: string
  pr_confidence :: "rat option"
  pr_reason :: "string option"
  pr_judged_at :: string
  pr_model :: "string option"
  pr_session :: "string option"
  pr_disposition :: disposition
  pr_disposed_by :: "string option"
  pr_disposed_at :: "string option"

definition float_0_6 :: rat where
  "float_0_6 = 5404319552844595 / 9007199254740992"

definition float_0_8 :: rat where
  "float_0_8 = 3602879701896397 / 4503599627370496"

definition SUSPICION_CONFIDENCE_FLOOR :: rat where
  "SUSPICION_CONFIDENCE_FLOOR = float_0_6"

definition SELF_CHECK_CONFIDENCE_FLOOR :: rat where
  "SELF_CHECK_CONFIDENCE_FLOOR = float_0_8"

definition REQUIRED_CONSECUTIVE :: nat where
  "REQUIRED_CONSECUTIVE = 3"

fun opening_verdict :: "pair_kind \<Rightarrow> string \<Rightarrow> bool" where
  "opening_verdict Displacement v = (v = ''SUPERSEDED'' \<or> v = ''DUPLICATE'')"
| "opening_verdict Necessity v = (v \<noteq> ''DURABLE'')"
| "opening_verdict Correctness v = (v \<noteq> ''CONSISTENT'')"
| "opening_verdict TtlExpiry v = True"
| "opening_verdict Safety v = (v \<noteq> ''CLEAN'')"
| "opening_verdict (OtherKind k) v = False"

fun kind_floor :: "pair_kind \<Rightarrow> rat" where
  "kind_floor Displacement = float_0_6"
| "kind_floor Necessity = float_0_8"
| "kind_floor Correctness = float_0_8"
| "kind_floor Safety = float_0_6"
| "kind_floor TtlExpiry = 0"
| "kind_floor (OtherKind k) = SELF_CHECK_CONFIDENCE_FLOOR"

text \<open>The columns of the table's \<^verbatim>\<open>UNIQUE\<close> constraint.\<close>

definition pair_key :: "pair_row \<Rightarrow> pair_kind \<times> string \<times> string \<times> string" where
  "pair_key r = (pr_kind r, pr_new r, pr_old r, pr_hash r)"

subsection \<open>Operations\<close>

definition judgment_opens :: "pair_kind \<Rightarrow> string \<Rightarrow> rat option \<Rightarrow> bool" where
  "judgment_opens kind verdict confidence \<longleftrightarrow>
     opening_verdict kind verdict \<and>
     kind_floor kind \<le> (case confidence of None \<Rightarrow> 0 | Some c \<Rightarrow> c)"

definition make_row ::
  "(string \<Rightarrow> string) \<Rightarrow> string \<Rightarrow> time \<Rightarrow> pair_kind \<Rightarrow> string \<Rightarrow> string \<Rightarrow> string \<Rightarrow> string
     \<Rightarrow> rat option \<Rightarrow> string option \<Rightarrow> string option \<Rightarrow> string option \<Rightarrow> pair_row" where
  "make_row h uid t kind new_id old_id old_text verdict confidence reason model session =
     \<lparr>pr_id = uid, pr_kind = kind, pr_new = new_id, pr_old = old_id, pr_hash = h old_text,
      pr_verdict = verdict, pr_confidence = confidence, pr_reason = reason,
      pr_judged_at = iso_text t, pr_model = model, pr_session = session,
      pr_disposition = (if judgment_opens kind verdict confidence then DOpen else DCached),
      pr_disposed_by = None, pr_disposed_at = None\<rparr>"

text \<open>\<^verbatim>\<open>INSERT OR IGNORE\<close>: nothing is stored when the id or the unique columns are taken. The flag is
  \<^verbatim>\<open>row["inserted"]\<close>.\<close>

definition insert_or_ignore :: "pair_row \<Rightarrow> pair_row list \<Rightarrow> bool \<times> pair_row list" where
  "insert_or_ignore row rows =
     (if pr_id row \<in> set (map pr_id rows) \<or> pair_key row \<in> set (map pair_key rows)
      then (False, rows) else (True, rows @ [row]))"

definition record_judgment ::
  "(string \<Rightarrow> string) \<Rightarrow> string \<Rightarrow> time \<Rightarrow> pair_kind \<Rightarrow> string \<Rightarrow> string \<Rightarrow> string \<Rightarrow> string
     \<Rightarrow> rat option \<Rightarrow> string option \<Rightarrow> string option \<Rightarrow> string option \<Rightarrow> pair_row list
     \<Rightarrow> (pair_row \<times> bool) \<times> pair_row list" where
  "record_judgment h uid t kind new_id old_id old_text verdict confidence reason model session rows =
     (let row = make_row h uid t kind new_id old_id old_text verdict confidence reason model session;
          (inserted, rows') = insert_or_ignore row rows
      in ((row, inserted), rows'))"

definition has_judgment ::
  "(string \<Rightarrow> string) \<Rightarrow> string \<Rightarrow> string \<Rightarrow> string \<Rightarrow> pair_kind \<Rightarrow> pair_row list \<Rightarrow> bool" where
  "has_judgment h new_id old_id old_text kind rows =
     ((kind, new_id, old_id, h old_text) \<in> set (map pair_key rows))"

definition judged_either ::
  "(string \<Rightarrow> string) \<Rightarrow> string \<Rightarrow> string \<Rightarrow> (string \<times> string) list \<Rightarrow> pair_row list \<Rightarrow> string set" where
  "judged_either h probe_id probe_text candidates rows =
     set (map fst (filter (\<lambda>(cand_id, cand_text).
       list_ex (\<lambda>r. pr_kind r = Displacement \<and>
         ((pr_new r = probe_id \<and> pr_old r = cand_id \<and> pr_hash r = h cand_text) \<or>
          (pr_new r = cand_id \<and> pr_old r = probe_id \<and> pr_hash r = h probe_text))) rows) candidates))"

text \<open>\<^verbatim>\<open>open_for_old_ids\<close>, the open rows of each of the ids that has one.\<close>

definition open_for_old_ids :: "string list \<Rightarrow> pair_row list \<Rightarrow> string \<Rightarrow> pair_row list option" where
  "open_for_old_ids old_ids rows old_id =
     (let mine = filter (\<lambda>r. pr_disposition r = DOpen \<and> pr_old r \<in> set old_ids \<and> pr_old r = old_id) rows
      in if mine = [] then None else Some mine)"

definition truthy_text :: "string option \<Rightarrow> bool" where
  "truthy_text s = (case s of None \<Rightarrow> False | Some x \<Rightarrow> x \<noteq> [])"

definition open_pairs ::
  "string option \<Rightarrow> pair_kind option \<Rightarrow> int \<Rightarrow> pair_row list \<Rightarrow> pair_row list" where
  "open_pairs session kind limit rows =
     sql_limit limit (order_desc pr_judged_at (filter (\<lambda>r. pr_disposition r = DOpen \<and>
       (truthy_text session \<longrightarrow> pr_session r = session) \<and>
       (case kind of None \<Rightarrow> True | Some k \<Rightarrow> pr_kind r = k)) rows))"

definition open_count :: "pair_row list \<Rightarrow> nat" where
  "open_count rows = rowcount (\<lambda>r. pr_disposition r = DOpen) rows"

definition valid_disposal :: "disposition \<Rightarrow> bool" where
  "valid_disposal d = (d \<in> {DConfirmed, DDismissed, DObsoleted, DExpired, DMerged, DTtl})"

datatype pair_error = InvalidDisposition disposition | BadEvidenceCount

definition set_disposition ::
  "disposition \<Rightarrow> string option \<Rightarrow> time \<Rightarrow> pair_row \<Rightarrow> pair_row" where
  "set_disposition d who t r =
     r\<lparr>pr_disposition := d, pr_disposed_by := who, pr_disposed_at := Some (iso_text t)\<rparr>"

definition dispose ::
  "string \<Rightarrow> disposition \<Rightarrow> string option \<Rightarrow> time \<Rightarrow> pair_row list
     \<Rightarrow> (pair_error + bool) \<times> pair_row list" where
  "dispose pair_id d who t rows =
     (if \<not> valid_disposal d then (Inl (InvalidDisposition d), rows)
      else let P = (\<lambda>r. pr_id r = pair_id \<and> pr_disposition r = DOpen)
           in (Inr (0 < rowcount P rows), upd_where P (set_disposition d who t) rows))"

definition reopenable :: "disposition \<Rightarrow> bool" where
  "reopenable d = (d \<in> {DConfirmed, DMerged, DTtl})"

definition reopen :: "string \<Rightarrow> pair_row list \<Rightarrow> bool \<times> pair_row list" where
  "reopen pair_id rows =
     (let P = (\<lambda>r. pr_id r = pair_id \<and> reopenable (pr_disposition r))
      in (0 < rowcount P rows,
          upd_where P (\<lambda>r. r\<lparr>pr_disposition := DOpen, pr_disposed_by := None,
                             pr_disposed_at := None\<rparr>) rows))"

definition close_for_old ::
  "string \<Rightarrow> disposition \<Rightarrow> string option \<Rightarrow> pair_kind option \<Rightarrow> time \<Rightarrow> pair_row list
     \<Rightarrow> nat \<times> pair_row list" where
  "close_for_old old_id d who kind t rows =
     (let P = (\<lambda>r. pr_old r = old_id \<and> pr_disposition r = DOpen \<and>
                   (case kind of None \<Rightarrow> True | Some k \<Rightarrow> pr_kind r = k))
      in (rowcount P rows, upd_where P (set_disposition d who t) rows))"

definition close_for_deleted_memory :: "string \<Rightarrow> time \<Rightarrow> pair_row list \<Rightarrow> nat \<times> pair_row list" where
  "close_for_deleted_memory memory_id t rows =
     (let P = (\<lambda>r. pr_old r = memory_id \<and> pr_disposition r = DOpen);
          Q = (\<lambda>r. pr_new r = memory_id \<and> pr_disposition r = DOpen);
          rows1 = upd_where P (\<lambda>r. r\<lparr>pr_disposition := DObsoleted,
                                     pr_disposed_at := Some (iso_text t)\<rparr>) rows;
          rows2 = upd_where Q (\<lambda>r. r\<lparr>pr_disposition := DExpired,
                                     pr_disposed_at := Some (iso_text t)\<rparr>) rows1
      in (rowcount P rows + rowcount Q rows1, rows2))"

definition close_for_updated_text ::
  "(string \<Rightarrow> string) \<Rightarrow> string \<Rightarrow> string \<Rightarrow> time \<Rightarrow> pair_row list \<Rightarrow> nat \<times> pair_row list" where
  "close_for_updated_text h memory_id current_text t rows =
     (let P = (\<lambda>r. pr_old r = memory_id \<and> pr_disposition r = DOpen \<and> pr_hash r \<noteq> h current_text)
      in (rowcount P rows,
          upd_where P (\<lambda>r. r\<lparr>pr_disposition := DExpired,
                             pr_disposed_at := Some (iso_text t)\<rparr>) rows))"

subsection \<open>Evidence for displacement protection\<close>

record evidence =
  eligible :: bool
  required_count :: nat
  consecutive_count :: nat
  evidence_pair_ids :: "string list"

text \<open>A \<^verbatim>\<open>NULL\<close> confidence is not at least the floor.\<close>

definition is_evidence :: "(string \<Rightarrow> string) \<Rightarrow> string \<Rightarrow> string \<Rightarrow> pair_row \<Rightarrow> bool" where
  "is_evidence h old_id old_text r \<longleftrightarrow>
     pr_kind r = Displacement \<and> pr_old r = old_id \<and> pr_hash r = h old_text \<and>
     (pr_verdict r = ''SUPERSEDED'' \<or> pr_verdict r = ''DUPLICATE'') \<and>
     (case pr_confidence r of None \<Rightarrow> False | Some c \<Rightarrow> SUSPICION_CONFIDENCE_FLOOR \<le> c)"

definition latest_evidence ::
  "(string \<Rightarrow> string) \<Rightarrow> string \<Rightarrow> string \<Rightarrow> nat \<Rightarrow> pair_row list \<Rightarrow> pair_row list" where
  "latest_evidence h old_id old_text required rows =
     take required (rev (sort_key pr_judged_at (filter (is_evidence h old_id old_text) rows)))"

fun dismissed_run :: "string set \<Rightarrow> pair_row list \<Rightarrow> string list" where
  "dismissed_run seen [] = []"
| "dismissed_run seen (r # rs) =
     (if pr_disposition r \<noteq> DDismissed \<or> pr_new r \<in> seen then []
      else pr_id r # dismissed_run (insert (pr_new r) seen) rs)"

definition consecutive_dismissed_displacement_evidence ::
  "(string \<Rightarrow> string) \<Rightarrow> string \<Rightarrow> string \<Rightarrow> int \<Rightarrow> pair_row list \<Rightarrow> pair_error + evidence" where
  "consecutive_dismissed_displacement_evidence h old_id old_text required rows =
     (if required \<le> 0 then Inl BadEvidenceCount
      else let ids = dismissed_run {} (latest_evidence h old_id old_text (nat required) rows);
               count = length ids
           in Inr \<lparr>eligible = (nat required \<le> count), required_count = nat required,
                   consecutive_count = count, evidence_pair_ids = ids\<rparr>)"

definition get_pair :: "string \<Rightarrow> pair_row list \<Rightarrow> pair_row option" where
  "get_pair pair_id rows = lookup_row pr_id pair_id rows"

subsection \<open>The life of a row\<close>

text \<open>The store's writes as data. The callers of \<^verbatim>\<open>close_for_old\<close> close with \<^verbatim>\<open>obsoleted\<close>,
  \<^verbatim>\<open>expired\<close> or \<^verbatim>\<open>ttl\<close>.\<close>

datatype pair_op =
    PRecord pair_row
  | PDispose string disposition "string option" time
  | PReopen string
  | PCloseOld string disposition "string option" "pair_kind option" time
  | PCloseDeleted string time
  | PCloseUpdated string string time

fun pair_apply :: "(string \<Rightarrow> string) \<Rightarrow> pair_op \<Rightarrow> pair_row list \<Rightarrow> pair_row list" where
  "pair_apply h (PRecord row) rows = snd (insert_or_ignore row rows)"
| "pair_apply h (PDispose pid d who t) rows = snd (dispose pid d who t rows)"
| "pair_apply h (PReopen pid) rows = snd (reopen pid rows)"
| "pair_apply h (PCloseOld oid d who kind t) rows = snd (close_for_old oid d who kind t rows)"
| "pair_apply h (PCloseDeleted mid t) rows = snd (close_for_deleted_memory mid t rows)"
| "pair_apply h (PCloseUpdated mid cur t) rows = snd (close_for_updated_text h mid cur t rows)"

fun pair_run :: "(string \<Rightarrow> string) \<Rightarrow> pair_op list \<Rightarrow> pair_row list \<Rightarrow> pair_row list" where
  "pair_run h [] rows = rows"
| "pair_run h (x # xs) rows = pair_run h xs (pair_apply h x rows)"

definition final_disposition :: "disposition \<Rightarrow> bool" where
  "final_disposition d \<longleftrightarrow> d \<noteq> DOpen \<and> \<not> reopenable d"

text \<open>The columns a judgment writes, which no later statement touches.\<close>

definition judged_part :: "pair_row \<Rightarrow> pair_row" where
  "judged_part r = r\<lparr>pr_disposition := DOpen, pr_disposed_by := None, pr_disposed_at := None\<rparr>"

definition pairs_ok :: "pair_row list \<Rightarrow> bool" where
  "pairs_ok rows \<longleftrightarrow> distinct (map pr_id rows) \<and> distinct (map pair_key rows)"

text \<open>Each write is an insertion or updates of rows that are not final, and keeps judgments.\<close>

definition soft_update :: "(pair_row \<Rightarrow> bool) \<Rightarrow> (pair_row \<Rightarrow> pair_row) \<Rightarrow> bool" where
  "soft_update P f \<longleftrightarrow>
     (\<forall>r. judged_part (f r) = judged_part r \<and> (P r \<longrightarrow> \<not> final_disposition (pr_disposition r)))"

lemma judged_part_columns:
  assumes "judged_part a = judged_part b"
  shows "pr_id a = pr_id b" "pair_key a = pair_key b"
proof -
  have "pr_id (judged_part a) = pr_id (judged_part b)" "pair_key (judged_part a) = pair_key (judged_part b)"
    using assms by simp_all
  then show "pr_id a = pr_id b" "pair_key a = pair_key b"
    by (simp_all add: judged_part_def pair_key_def)
qed

lemma soft_updates:
  "soft_update (\<lambda>r. pr_id r = pid \<and> pr_disposition r = DOpen) (set_disposition d who t)"
  "soft_update (\<lambda>r. pr_id r = pid \<and> reopenable (pr_disposition r))
     (\<lambda>r. r\<lparr>pr_disposition := DOpen, pr_disposed_by := None, pr_disposed_at := None\<rparr>)"
  "soft_update (\<lambda>r. pr_old r = oid \<and> pr_disposition r = DOpen \<and> Q r) (set_disposition d who t)"
  "soft_update (\<lambda>r. pr_old r = oid \<and> pr_disposition r = DOpen)
     (\<lambda>r. r\<lparr>pr_disposition := d, pr_disposed_at := u\<rparr>)"
  "soft_update (\<lambda>r. pr_new r = oid \<and> pr_disposition r = DOpen)
     (\<lambda>r. r\<lparr>pr_disposition := d, pr_disposed_at := u\<rparr>)"
  "soft_update (\<lambda>r. pr_old r = oid \<and> pr_disposition r = DOpen \<and> Q r)
     (\<lambda>r. r\<lparr>pr_disposition := d, pr_disposed_at := u\<rparr>)"
  by (simp_all add: soft_update_def judged_part_def set_disposition_def final_disposition_def)

text \<open>What a write does to the rows it found.\<close>

definition evolves :: "pair_row list \<Rightarrow> pair_row list \<Rightarrow> bool" where
  "evolves rows rows' \<longleftrightarrow>
     (\<forall>r \<in> set rows. \<exists>r' \<in> set rows'. judged_part r' = judged_part r \<and>
        (final_disposition (pr_disposition r) \<longrightarrow> r' = r))"

lemma evolves_refl: "evolves rows rows"
  by (auto simp: evolves_def)

lemma evolves_trans: "evolves a b \<Longrightarrow> evolves b c \<Longrightarrow> evolves a c"
  by (simp add: evolves_def) metis

lemma evolves_upd: "soft_update P f \<Longrightarrow> evolves rows (upd_where P f rows)"
  unfolding evolves_def bex_upd_where
proof (intro ballI)
  fix r assume s: "soft_update P f" and r: "r \<in> set rows"
  show "\<exists>r' \<in> set rows. judged_part (if P r' then f r' else r') = judged_part r \<and>
      (final_disposition (pr_disposition r) \<longrightarrow> (if P r' then f r' else r') = r)"
    using s r by (intro bexI[of _ r]) (auto simp: soft_update_def)
qed

lemma pairs_ok_upd: "soft_update P f \<Longrightarrow> pairs_ok rows \<Longrightarrow> pairs_ok (upd_where P f rows)"
proof -
  assume s: "soft_update P f" and ok: "pairs_ok rows"
  have f: "pr_id (f r) = pr_id r" "pair_key (f r) = pair_key r" for r
    using s judged_part_columns[of "f r" r] by (auto simp: soft_update_def)
  from ok show ?thesis
    by (simp add: pairs_ok_def map_key_upd_where f)
qed

lemma pair_apply_ok:
  assumes "pairs_ok rows"
  shows "pairs_ok (pair_apply h x rows) \<and> evolves rows (pair_apply h x rows)"
proof (cases x)
  case (PRecord row)
  then show ?thesis
    using assms by (auto simp: insert_or_ignore_def pairs_ok_def evolves_def)
next
  case (PDispose pid d who t)
  then show ?thesis
    using assms by (simp add: dispose_def Let_def evolves_refl evolves_upd pairs_ok_upd soft_updates)
next
  case (PReopen pid)
  then show ?thesis
    using assms by (simp add: reopen_def Let_def evolves_upd pairs_ok_upd soft_updates)
next
  case (PCloseOld oid d who kind t)
  then show ?thesis
    using assms by (simp add: close_for_old_def Let_def evolves_upd pairs_ok_upd soft_updates)
next
  case (PCloseDeleted mid t)
  then show ?thesis
    using assms unfolding PCloseDeleted pair_apply.simps close_for_deleted_memory_def Let_def snd_conv
    by (intro conjI pairs_ok_upd soft_updates evolves_trans[OF evolves_upd evolves_upd])
next
  case (PCloseUpdated mid cur t)
  then show ?thesis
    using assms by (simp add: close_for_updated_text_def Let_def evolves_upd pairs_ok_upd soft_updates)
qed

lemma pair_run_ok: "pairs_ok rows \<Longrightarrow> pairs_ok (pair_run h xs rows) \<and> evolves rows (pair_run h xs rows)"
proof (induction xs arbitrary: rows)
  case Nil
  then show ?case by (simp add: evolves_refl)
next
  case (Cons x xs)
  then show ?case
    using pair_apply_ok[OF Cons.prems, of h x] by (auto intro: evolves_trans)
qed

text \<open>Concrete rows for the witnesses; the identity serves as the hash.\<close>

definition wrow :: "string \<Rightarrow> string \<Rightarrow> string \<Rightarrow> disposition \<Rightarrow> pair_row" where
  "wrow uid new stamp d =
     \<lparr>pr_id = uid, pr_kind = Displacement, pr_new = new, pr_old = ''old'', pr_hash = ''text'',
      pr_verdict = ''SUPERSEDED'', pr_confidence = Some 1, pr_reason = None, pr_judged_at = stamp,
      pr_model = None, pr_session = None, pr_disposition = d, pr_disposed_by = None,
      pr_disposed_at = None\<rparr>"

lemma wrow_simps [simp]:
  "pr_id (wrow uid new stamp d) = uid" "pr_new (wrow uid new stamp d) = new"
  "pr_kind (wrow uid new stamp d) = Displacement" "pr_old (wrow uid new stamp d) = ''old''"
  "pr_hash (wrow uid new stamp d) = ''text''" "pr_verdict (wrow uid new stamp d) = ''SUPERSEDED''"
  "pr_confidence (wrow uid new stamp d) = Some 1" "pr_judged_at (wrow uid new stamp d) = stamp"
  "pr_disposition (wrow uid new stamp d) = d" "pr_disposed_by (wrow uid new stamp d) = None"
  "pr_disposed_at (wrow uid new stamp d) = None"
  "pair_key (wrow uid new stamp d) = (Displacement, new, ''old'', ''text'')"
  by (simp_all add: wrow_def pair_key_def)

text \<open>C4: Evidence is append-only. Through any sequence of judgments, dispositions, rollbacks and
  closures every row keeps its id and its judgment, a row that was dismissed, obsoleted, expired
  or only cached never changes again, and the ids and the judged pair versions stay unique.\<close>

theorem pair_history_kept:
  assumes "pairs_ok rows" "r \<in> set rows"
  shows "pairs_ok (pair_run h xs rows) \<and>
    (\<exists>r'. get_pair (pr_id r) (pair_run h xs rows) = Some r' \<and> judged_part r' = judged_part r \<and>
       (pr_disposition r \<in> {DDismissed, DObsoleted, DExpired, DCached} \<longrightarrow> r' = r))"
proof -
  let ?rows = "pair_run h xs rows"
  have ok: "pairs_ok ?rows" and ev: "evolves rows ?rows"
    using pair_run_ok[OF assms(1)] by blast+
  obtain r' where r': "r' \<in> set ?rows" "judged_part r' = judged_part r"
      "final_disposition (pr_disposition r) \<longrightarrow> r' = r"
    using ev assms(2) by (auto simp: evolves_def)
  have "get_pair (pr_id r) ?rows = Some r'"
    using lookup_row_in[OF _ r'(1), of pr_id] ok judged_part_columns(1)[OF r'(2)]
    by (simp add: get_pair_def pairs_ok_def)
  with ok r' show ?thesis
    by (auto simp: final_disposition_def reopenable_def)
qed

theorem pair_history_kept_witness:
  "pairs_ok (pair_run (\<lambda>s. s) [PReopen ''p1'', PCloseDeleted ''old'' 0]
       [wrow ''p1'' ''a'' ''1'' DDismissed, wrow ''p2'' ''b'' ''2'' DOpen]) \<and>
   get_pair ''p1'' (pair_run (\<lambda>s. s) [PReopen ''p1'', PCloseDeleted ''old'' 0]
       [wrow ''p1'' ''a'' ''1'' DDismissed, wrow ''p2'' ''b'' ''2'' DOpen]) =
     Some (wrow ''p1'' ''a'' ''1'' DDismissed)"
  using pair_history_kept[of "[wrow ''p1'' ''a'' ''1'' DDismissed, wrow ''p2'' ''b'' ''2'' DOpen]"
      "wrow ''p1'' ''a'' ''1'' DDismissed" "\<lambda>s. s" "[PReopen ''p1'', PCloseDeleted ''old'' 0]"]
  by (simp add: pairs_ok_def del: pair_run.simps)



lemma dispose_reopen_facts:
  assumes "distinct (map pr_id rows)" "r \<in> set rows" "pr_disposition r = DOpen"
    "pr_disposed_by r = None" "pr_disposed_at r = None" "valid_disposal d"
  shows "\<exists>rows'. dispose (pr_id r) d who t rows = (Inr True, rows') \<and>
    reopen (pr_id r) rows' = (if reopenable d then (True, rows) else (False, rows'))"
proof -
  let ?P = "\<lambda>x. pr_id x = pr_id r \<and> pr_disposition x = DOpen"
  let ?rows = "upd_where ?P (set_disposition d who t) rows"
  let ?undo = "\<lambda>x. x\<lparr>pr_disposition := DOpen, pr_disposed_by := None, pr_disposed_at := None\<rparr>"
  let ?R = "\<lambda>x. pr_id x = pr_id r \<and> reopenable (pr_disposition x)"
  have uniq: "x = r" if "x \<in> set rows" "pr_id x = pr_id r" for x
    using assms(1,2) that by (auto simp: distinct_map inj_on_def)
  have d: "dispose (pr_id r) d who t rows = (Inr True, ?rows)"
    using assms by (auto simp: dispose_def Let_def rowcount_pos_iff)
  have look: "lookup_row pr_id (pr_id r) ?rows = Some (set_disposition d who t r)"
    using lookup_row_in[OF assms(1,2)] assms(3)
    by (simp add: lookup_upd_where set_disposition_def)
  have dist: "distinct (map pr_id ?rows)"
    using assms(1) by (simp add: map_key_upd_where set_disposition_def)
  have n: "rowcount ?R ?rows = (if reopenable d then 1 else 0)"
    unfolding rowcount_key[OF dist] look by (simp add: set_disposition_def)
  have restore: "?undo (set_disposition d who t r) = r"
    using assms(3-5) by (cases r) (simp add: set_disposition_def)
  have disp: "pr_id (set_disposition d who t r) = pr_id r" "pr_disposition (set_disposition d who t r) = d"
    by (simp_all add: set_disposition_def)
  have restored: "upd_where ?R ?undo ?rows = rows" if "reopenable d"
    unfolding upd_where_def map_map
  proof (rule map_idI)
    fix x assume x: "x \<in> set rows"
    show "((\<lambda>y. if ?R y then ?undo y else y) \<circ> (\<lambda>y. if ?P y then set_disposition d who t y else y)) x = x"
    proof (cases "pr_id x = pr_id r")
      case True
      with x have "x = r" by (rule uniq)
      then show ?thesis using that assms(3) by (simp only: comp_apply if_True disp restore simp_thms)
    qed simp
  qed
  have unchanged: "upd_where ?R ?undo ?rows = ?rows" if "\<not> reopenable d"
    using that n by (intro upd_where_idle) simp
  show ?thesis
    using d n restored unchanged by (simp add: reopen_def Let_def)
qed

text \<open>A rollback undoes exactly a disposition that a store mutation follows: after \<^verbatim>\<open>dispose\<close> with
  confirmed, merged or ttl, \<^verbatim>\<open>reopen\<close> restores the open row; after a dismissal it reports failure
  and changes nothing.\<close>

theorem dispose_reopen:
  assumes "distinct (map pr_id rows)" "r \<in> set rows" "pr_disposition r = DOpen"
    "pr_disposed_by r = None" "pr_disposed_at r = None" "valid_disposal d"
  shows "\<exists>rows'. dispose (pr_id r) d who t rows = (Inr True, rows') \<and>
    reopen (pr_id r) rows' = (if reopenable d then (True, rows) else (False, rows'))"
  by (rule dispose_reopen_facts[OF assms])

theorem dispose_reopen_witness:
  "\<exists>rows'. dispose ''p1'' DMerged None 0 [wrow ''p1'' ''a'' ''1'' DOpen] = (Inr True, rows') \<and>
     reopen ''p1'' rows' = (True, [wrow ''p1'' ''a'' ''1'' DOpen])"
  using dispose_reopen[of "[wrow ''p1'' ''a'' ''1'' DOpen]" "wrow ''p1'' ''a'' ''1'' DOpen" DMerged None 0]
  by (simp add: valid_disposal_def reopenable_def)

subsection \<open>Evidence\<close>

lemma dismissed_run_distinct:
  assumes "distinct (map pr_new rs)" "seen \<inter> pr_new ` set rs = {}"
  shows "dismissed_run seen rs = map pr_id (takeWhile (\<lambda>r. pr_disposition r = DDismissed) rs)"
  using assms by (induction seen rs rule: dismissed_run.induct) auto

lemma length_takeWhile_full:
  "length xs \<le> n \<Longrightarrow> n \<le> length (takeWhile P xs) \<longleftrightarrow> length xs = n \<and> (\<forall>x \<in> set xs. P x)"
proof -
  assume le: "length xs \<le> n"
  have "length (takeWhile P xs) \<le> length xs" by (rule length_takeWhile_le)
  moreover have "length (takeWhile P xs) = length xs \<longleftrightarrow> (\<forall>x \<in> set xs. P x)"
    by (metis takeWhile_eq_all_conv takeWhile_eq_take take_all_iff order_refl length_takeWhile_le le_antisym)
  ultimately show ?thesis using le by auto
qed

text \<open>The rows of one old text version have different raisers, so the check for a repeated
  raiser never cuts a run short.\<close>

lemma evidence_raisers_distinct:
  assumes "distinct (map pair_key rows)"
  shows "distinct (map pr_new (latest_evidence h old_id old_text n rows))"
proof -
  let ?ev = "filter (is_evidence h old_id old_text) rows"
  have "distinct (map pair_key ?ev)"
    using assms by (rule distinct_map_filter)
  then have "distinct (map pr_new ?ev)"
    by (auto simp: distinct_map inj_on_def is_evidence_def pair_key_def)
  then have "distinct (map pr_new (rev (sort_key pr_judged_at ?ev)))"
    by (metis (no_types) distinct_map distinct_rev set_rev set_sort distinct_sort)
  then show ?thesis
    unfolding latest_evidence_def take_map[symmetric] by (rule distinct_take)
qed

text \<open>Protection rests on a full run of false positives. The evidence is eligible exactly when the
  latest \<open>required\<close> judgments that could have opened a displacement suspicion of this text version
  exist and were all dismissed; none of the left-out judgments is later than one of them, and
  they come from different entries.\<close>

theorem evidence_eligible_iff:
  assumes "distinct (map pair_key rows)" "0 < required"
  shows "\<exists>e. consecutive_dismissed_displacement_evidence h old_id old_text required rows = Inr e \<and>
    (let latest = latest_evidence h old_id old_text (nat required) rows
     in (eligible e \<longleftrightarrow> length latest = nat required \<and>
           (\<forall>r \<in> set latest. pr_disposition r = DDismissed)) \<and>
        distinct (map pr_new latest) \<and>
        (\<forall>r \<in> set latest. \<forall>r' \<in> set rows - set latest.
           is_evidence h old_id old_text r' \<longrightarrow> pr_judged_at r' \<le> pr_judged_at r))"
proof -
  let ?ev = "filter (is_evidence h old_id old_text) rows"
  let ?sorted = "rev (sort_key pr_judged_at ?ev)"
  let ?latest = "latest_evidence h old_id old_text (nat required) rows"
  have dist: "distinct (map pr_new ?latest)"
    by (rule evidence_raisers_distinct[OF assms(1)])
  have run: "dismissed_run {} ?latest =
      map pr_id (takeWhile (\<lambda>r. pr_disposition r = DDismissed) ?latest)"
    by (rule dismissed_run_distinct[OF dist]) simp
  have len: "length ?latest \<le> nat required"
    by (simp add: latest_evidence_def)
  have order: "pr_judged_at r' \<le> pr_judged_at r"
    if "r \<in> set ?latest" "r' \<in> set rows - set ?latest" "is_evidence h old_id old_text r'" for r r'
  proof -
    have "r' \<in> set ?sorted" using that(2,3) by simp
    then have "r' \<in> set (drop (nat required) ?sorted)"
      using that(2) unfolding latest_evidence_def by (metis DiffD2 Un_iff append_take_drop_id set_append)
    moreover have "sorted (map pr_judged_at (rev (take (nat required) ?sorted @ drop (nat required) ?sorted)))"
      by simp
    ultimately show ?thesis
      using that(1) unfolding latest_evidence_def rev_append by (auto simp: sorted_append)
  qed
  show ?thesis
    using assms(2) dist order length_takeWhile_full[OF len, of "\<lambda>r. pr_disposition r = DDismissed"]
    by (simp add: consecutive_dismissed_displacement_evidence_def Let_def run)
qed

theorem evidence_eligible_iff_witness:
  "\<exists>e. consecutive_dismissed_displacement_evidence (\<lambda>s. s) ''old'' ''text'' 2
       [wrow ''p1'' ''a'' ''1'' DDismissed, wrow ''p2'' ''b'' ''2'' DDismissed,
        wrow ''p3'' ''c'' ''0'' DOpen] = Inr e \<and> eligible e"
  using evidence_eligible_iff[of "[wrow ''p1'' ''a'' ''1'' DDismissed, wrow ''p2'' ''b'' ''2'' DDismissed,
        wrow ''p3'' ''c'' ''0'' DOpen]" 2 "\<lambda>s. s" "''old''" "''text''"]
  by (simp add: latest_evidence_def is_evidence_def SUSPICION_CONFIDENCE_FLOOR_def float_0_6_def Let_def)

end
