(* ===== verification/Memory_Store.thy ===== *)
theory Memory_Store
  imports Pair_Store
begin

text \<open>
  The memory store as \<^verbatim>\<open>src/src/memline/staleness.py\<close> sees it. The store itself is Qdrant, reached
  through the vendored wrapper \<^verbatim>\<open>src/vendor/mem0ai/mem0/vector_stores/qdrant.py\<close>. The Qdrant client
  is not part of the repository: its calls are the record \<open>qdrant\<close> of functions on an unknown state
  \<open>'q\<close>, and what Qdrant documents of them is \<open>qdrant_ok\<close>. The history table of mem0 is a list of
  rows, and the suspicion pairs are the table of \<^verbatim>\<open>Pair_Store\<close>. An environment says which SQLite
  files can be written, since the code swallows some of their failures and not others.

  The clock is read by the code; the readings are arguments, as time values or as the ISO text that
  the code stores.
\<close>

subsection \<open>Payload fields\<close>

abbreviation (input) SUPERSEDED_BY :: string where "SUPERSEDED_BY \<equiv> ''superseded_by''"
abbreviation (input) SUPERSEDED_AT :: string where "SUPERSEDED_AT \<equiv> ''superseded_at''"
abbreviation (input) SUPERSEDED_REASON :: string where "SUPERSEDED_REASON \<equiv> ''superseded_reason''"
abbreviation (input) TTL_EXPIRES_AT :: string where "TTL_EXPIRES_AT \<equiv> ''ttl_expires_at''"
abbreviation (input) TTL_EXPIRED_AT :: string where "TTL_EXPIRED_AT \<equiv> ''ttl_expired_at''"
abbreviation (input) DISPLACEMENT_PROTECTED_UNTIL :: string where
  "DISPLACEMENT_PROTECTED_UNTIL \<equiv> ''displacement_protected_until''"
abbreviation (input) DISPLACEMENT_PROTECTION_REASON :: string where
  "DISPLACEMENT_PROTECTION_REASON \<equiv> ''displacement_protection_reason''"
abbreviation (input) DISPLACEMENT_PROTECTED_AT :: string where
  "DISPLACEMENT_PROTECTED_AT \<equiv> ''displacement_protected_at''"
abbreviation (input) DISPLACEMENT_PROTECTED_BY_AGENT :: string where
  "DISPLACEMENT_PROTECTED_BY_AGENT \<equiv> ''displacement_protected_by_agent_id''"
abbreviation (input) DISPLACEMENT_PROTECTED_BY_SESSION :: string where
  "DISPLACEMENT_PROTECTED_BY_SESSION \<equiv> ''displacement_protected_by_session_id''"

definition opt_str :: "string option \<Rightarrow> pyval" where
  "opt_str s = (case s of None \<Rightarrow> PNone | Some x \<Rightarrow> PStr x)"

definition superseded_ids :: "payload \<Rightarrow> string list" where
  "superseded_ids p =
     (case dget p SUPERSEDED_BY of
        PStr s \<Rightarrow> if s = [] then [] else [s]
      | PList vs \<Rightarrow> map py_str (filter truthy vs)
      | _ \<Rightarrow> [])"

definition is_invalidated :: "payload \<Rightarrow> bool" where
  "is_invalidated p \<longleftrightarrow> superseded_ids p \<noteq> []"

definition is_ttl_expired :: "payload \<Rightarrow> string \<Rightarrow> bool" where
  "is_ttl_expired p now \<longleftrightarrow>
     truthy (dget p TTL_EXPIRES_AT) \<and> py_str (dget p TTL_EXPIRES_AT) \<le> now"

definition is_displacement_protected :: "payload \<Rightarrow> string \<Rightarrow> bool" where
  "is_displacement_protected p now \<longleftrightarrow>
     truthy (dget p DISPLACEMENT_PROTECTED_UNTIL) \<and>
     now < py_str (dget p DISPLACEMENT_PROTECTED_UNTIL)"

text \<open>
  A search or list result: its own keys, and its \<^verbatim>\<open>metadata\<close> dict (empty when absent), into which
  mem0 moves the payload keys it does not know.
\<close>

record item =
  it_fields :: payload
  it_metadata :: payload

definition result_item_superseded :: "item \<Rightarrow> string list" where
  "result_item_superseded it =
     (if superseded_ids (it_metadata it) \<noteq> [] then superseded_ids (it_metadata it)
      else superseded_ids (it_fields it))"

definition result_item_expired :: "item \<Rightarrow> string \<Rightarrow> bool" where
  "result_item_expired it now \<longleftrightarrow>
     is_ttl_expired (it_metadata it) now \<or> is_ttl_expired (it_fields it) now"

definition result_item_displacement_protected :: "item \<Rightarrow> string \<Rightarrow> bool" where
  "result_item_displacement_protected it now \<longleftrightarrow>
     is_displacement_protected (it_metadata it) now \<or> is_displacement_protected (it_fields it) now"

text \<open>\<^verbatim>\<open>str(payload.get("data") or "")\<close>, the text of a memory.\<close>

definition text_of :: "payload \<Rightarrow> string" where
  "text_of p = str_or_empty (dget p ''data'')"

subsection \<open>The Qdrant client\<close>

text \<open>
  \<^verbatim>\<open>retrieve\<close> returns the payload of a stored point, an absent point as \<open>Some None\<close>, or raises
  (\<open>None\<close>), as it does for a malformed id. \<^verbatim>\<open>set_payload\<close>, \<^verbatim>\<open>upsert\<close> and \<^verbatim>\<open>delete\<close> return the new
  state or raise. \<^verbatim>\<open>scroll\<close> lists points that match a filter.
\<close>

record 'q qdrant =
  q_retrieve :: "'q \<Rightarrow> string \<Rightarrow> payload option option"
  q_set_payload :: "'q \<Rightarrow> string \<Rightarrow> payload \<Rightarrow> 'q option"
  q_upsert :: "'q \<Rightarrow> string \<Rightarrow> payload \<Rightarrow> 'q option"
  q_delete :: "'q \<Rightarrow> string \<Rightarrow> 'q option"
  q_scroll :: "'q \<Rightarrow> payload \<Rightarrow> nat \<Rightarrow> (string \<times> payload) list option"

text \<open>\<^verbatim>\<open>Qdrant.get\<close> of the wrapper.\<close>

definition vs_get :: "'q qdrant \<Rightarrow> 'q \<Rightarrow> string \<Rightarrow> payload option option" where
  "vs_get Q q mid = q_retrieve Q q mid"

text \<open>\<^verbatim>\<open>Qdrant.update\<close>: a full update writes the point anew, a payload alone is merged.\<close>

definition vs_update :: "'q qdrant \<Rightarrow> bool \<Rightarrow> 'q \<Rightarrow> string \<Rightarrow> payload \<Rightarrow> 'q option" where
  "vs_update Q with_vector q mid p =
     (if with_vector then q_upsert Q q mid p else q_set_payload Q q mid p)"

definition vs_delete :: "'q qdrant \<Rightarrow> 'q \<Rightarrow> string \<Rightarrow> 'q option" where
  "vs_delete Q q mid = q_delete Q q mid"

text \<open>\<^verbatim>\<open>_point_payload\<close>: a client error reads as a missing point.\<close>

definition point_payload :: "'q qdrant \<Rightarrow> 'q \<Rightarrow> string \<Rightarrow> payload option" where
  "point_payload Q q mid = (case vs_get Q q mid of None \<Rightarrow> None | Some p \<Rightarrow> p)"

text \<open>Qdrant's documentation of single-point calls. An absent point stays absent under
  \<^verbatim>\<open>set_payload\<close>; keys the patch does not name keep their values.\<close>

definition qdrant_ok :: "'q qdrant \<Rightarrow> bool" where
  "qdrant_ok Q \<longleftrightarrow>
     (\<forall>q i p q'. q_set_payload Q q i p = Some q' \<longrightarrow>
        (\<forall>j. q_retrieve Q q' j =
           (if j = i then map_option (map_option (\<lambda>d. d ++ p)) (q_retrieve Q q j)
            else q_retrieve Q q j))) \<and>
     (\<forall>q i p q'. q_upsert Q q i p = Some q' \<longrightarrow>
        (\<forall>j. q_retrieve Q q' j = (if j = i then Some (Some p) else q_retrieve Q q j))) \<and>
     (\<forall>q i q'. q_delete Q q i = Some q' \<longrightarrow>
        (\<forall>j. q_retrieve Q q' j = (if j = i then Some None else q_retrieve Q q j)))"

text \<open>A dictionary of points is such a client: an instance on which the operations run. It refuses
  the empty id.\<close>

definition dict_scroll :: "(string \<times> payload) list \<Rightarrow> payload \<Rightarrow> nat \<Rightarrow> (string \<times> payload) list option" where
  "dict_scroll q flt n = Some (take n (filter (\<lambda>(i, p).
     list_all (\<lambda>k. flt k = None \<or> flt k = p k) [''user_id'', ''agent_id'', ''run_id'', SUPERSEDED_BY]) q))"

definition dict_qdrant :: "(string \<times> payload) list qdrant" where
  "dict_qdrant =
     \<lparr>q_retrieve = (\<lambda>q i. if i = [] then None else Some (map_of q i)),
      q_set_payload = (\<lambda>q i p. Some (map (\<lambda>(j, d). (j, if j = i then d ++ p else d)) q)),
      q_upsert = (\<lambda>q i p. if i = [] then None else Some ((i, p) # filter (\<lambda>(j, d). j \<noteq> i) q)),
      q_delete = (\<lambda>q i. if i = [] then None else Some (filter (\<lambda>(j, d). j \<noteq> i) q)),
      q_scroll = dict_scroll\<rparr>"

lemma map_of_patch:
  "map_of (map (\<lambda>(j, d). (j, if j = i then f d else d)) q) k =
     (if k = i then map_option f (map_of q k) else map_of q k)"
  by (induction q) auto

lemma map_of_drop_key:
  "map_of (filter (\<lambda>(j, d). j \<noteq> i) q) k = (if k = i then None else map_of q k)"
  by (induction q) auto

lemma dict_qdrant_ok: "qdrant_ok dict_qdrant"
  by (auto simp: qdrant_ok_def dict_qdrant_def map_of_patch map_of_drop_key split: if_splits)

subsection \<open>The interface that the lifecycle operations rely on\<close>

locale payload_store =
  fixes get :: "'s \<Rightarrow> string \<Rightarrow> payload option"
    and put :: "'s \<Rightarrow> string \<Rightarrow> payload \<Rightarrow> 's option"
  assumes get_put: "put s i p = Some s' \<Longrightarrow>
      get s' j = (if j = i then map_option (\<lambda>d. d ++ p) (get s j) else get s j)"
begin

lemma field_kept:
  assumes "put s i p = Some s'" "k \<notin> dom p"
  shows "map_option (\<lambda>d. dget d k) (get s' j) = map_option (\<lambda>d. dget d k) (get s j)"
  using assms by (auto simp: get_put option.map_comp comp_def dget_map_add domIff)

lemma presence_kept: "put s i p = Some s' \<Longrightarrow> get s' j = None \<longleftrightarrow> get s j = None"
  by (simp add: get_put)

lemma field_set:
  assumes "put s i p = Some s'" "p k = Some v" "get s i = Some d"
  shows "\<exists>d'. get s' i = Some d' \<and> dget d' k = v"
  using assms by (simp add: get_put dget_map_add)

lemma successors_kept:
  assumes "put s i p = Some s'" "SUPERSEDED_BY \<notin> dom p"
  shows "map_option superseded_ids (get s' j) = map_option superseded_ids (get s j)"
  using assms by (cases "get s i") (auto simp: get_put superseded_ids_def dget_map_add domIff)

end

lemma point_payload_put:
  assumes "qdrant_ok Q" "vs_update Q False q i p = Some q'"
  shows "point_payload Q q' j =
    (if j = i then map_option (\<lambda>d. d ++ p) (point_payload Q q j) else point_payload Q q j)"
  using assms by (auto simp: qdrant_ok_def vs_update_def point_payload_def vs_get_def
      split: option.splits)

lemma point_payload_upsert:
  assumes "qdrant_ok Q" "vs_update Q True q i p = Some q'"
  shows "point_payload Q q' j = (if j = i then Some p else point_payload Q q j)"
  using assms by (simp add: qdrant_ok_def vs_update_def point_payload_def vs_get_def)

lemma point_payload_delete:
  assumes "qdrant_ok Q" "vs_delete Q q i = Some q'"
  shows "point_payload Q q' j = (if j = i then None else point_payload Q q j)"
  using assms by (simp add: qdrant_ok_def vs_delete_def point_payload_def vs_get_def)

text \<open>A Qdrant client that keeps its documentation gives the interface.\<close>

locale qdrant_client =
  fixes Q :: "'q qdrant"
  assumes client_ok: "qdrant_ok Q"

sublocale qdrant_client \<subseteq> payload_store "point_payload Q" "vs_update Q False"
  by unfold_locales (rule point_payload_put[OF client_ok])

interpretation dict: qdrant_client dict_qdrant
  by unfold_locales (rule dict_qdrant_ok)

subsection \<open>The world of the operations\<close>

text \<open>A row of mem0's \<^verbatim>\<open>history\<close> table, without its random primary key.\<close>

record hist =
  h_memory :: string
  h_old :: pyval
  h_new :: pyval
  h_event :: string
  h_created :: pyval
  h_updated :: pyval
  h_deleted :: bool
  h_actor :: pyval
  h_role :: pyval

record 'q world =
  store :: 'q
  history :: "hist list"
  pairs :: "pair_row list"

text \<open>
  What the operations call outside the repository: the Qdrant client, the two hashes and the BM25
  lemmatiser, whether the embedding model answers for a text (\<open>embeds\<close>), whether a payload is past
  mem0's own \<^verbatim>\<open>expiration_date\<close> at the current date (\<open>mem_expired\<close>), mem0's rewriting of a timestamp
  to UTC (\<open>norm_time\<close>), and whether the history and
  the pair file can be written.
\<close>

record 'q env =
  qd :: "'q qdrant"
  sha :: "string \<Rightarrow> string"
  md5 :: "string \<Rightarrow> string"
  lemmatize :: "string \<Rightarrow> string"
  embeds :: "string \<Rightarrow> bool"
  mem_expired :: "payload \<Rightarrow> bool"
  norm_time :: "pyval \<Rightarrow> pyval"
  history_up :: bool
  pairs_up :: bool

definition add_history :: "'q env \<Rightarrow> hist \<Rightarrow> 'q world \<Rightarrow> 'q world option" where
  "add_history E row w = (if history_up E then Some (w\<lparr>history := history w @ [row]\<rparr>) else None)"

text \<open>The rows that the lifecycle operations write, and \<^verbatim>\<open>try: ... except Exception: pass\<close>.\<close>

definition lifecycle_row :: "string \<Rightarrow> string \<Rightarrow> string \<Rightarrow> string \<Rightarrow> string option \<Rightarrow> hist" where
  "lifecycle_row mid txt event at_time actor =
     \<lparr>h_memory = mid, h_old = PStr txt, h_new = PStr txt, h_event = event, h_created = PNone,
      h_updated = PStr at_time, h_deleted = False, h_actor = opt_str actor, h_role = PNone\<rparr>"

definition try_history :: "'q env \<Rightarrow> hist \<Rightarrow> 'q world \<Rightarrow> 'q world" where
  "try_history E row w = (case add_history E row w of None \<Rightarrow> w | Some w' \<Rightarrow> w')"

lemma try_history_simps [simp]:
  "store (try_history E row w) = store w" "pairs (try_history E row w) = pairs w"
  by (simp_all add: try_history_def add_history_def)

text \<open>A statement on the pair table: it raises when the file cannot be written.\<close>

definition with_pairs ::
  "'q env \<Rightarrow> (pair_row list \<Rightarrow> 'a \<times> pair_row list) \<Rightarrow> 'q world \<Rightarrow> ('a \<times> 'q world) option" where
  "with_pairs E f w =
     (if pairs_up E then let (a, rows) = f (pairs w) in Some (a, w\<lparr>pairs := rows\<rparr>) else None)"

definition try_pairs ::
  "'q env \<Rightarrow> (pair_row list \<Rightarrow> 'a \<times> pair_row list) \<Rightarrow> 'q world \<Rightarrow> 'q world" where
  "try_pairs E f w = (case with_pairs E f w of None \<Rightarrow> w | Some (a, w') \<Rightarrow> w')"

lemma try_pairs_simps [simp]:
  "store (try_pairs E f w) = store w" "history (try_pairs E f w) = history w"
  by (simp_all add: try_pairs_def with_pairs_def split: prod.splits)

lemma with_pairs_Some:
  "with_pairs E f w = Some (a, w') \<longleftrightarrow>
     pairs_up E \<and> f (pairs w) = (a, pairs w') \<and> w' = w\<lparr>pairs := pairs w'\<rparr>"
  by (auto simp: with_pairs_def split: prod.splits)

datatype stale_error =
    MemoryNotFound string
  | NoSuperseder
  | SelfSupersession
  | AlreadyInvalidated "string list"
  | SupersederNotFound string
  | CycleVia string
  | ChainTooLong
  | NotInvalidated
  | ProtectInvalidated
  | ProtectExpired
  | EmptyReason
  | LongReason
  | BadDays
  | NoActor
  | NotEligible nat
  | StoreFailed
  | PairsFailed
  | HistoryFailed
  | EmbedFailed
  | JudgeFailed
  | SearchFailed
  | DateOverflow
  | BadArgument string
  | UnsupportedOp string

text \<open>The payload of a memory in a world.\<close>

abbreviation payload_at :: "'q env \<Rightarrow> 'q world \<Rightarrow> string \<Rightarrow> payload option" where
  "payload_at E w \<equiv> point_payload (qd E) (store w)"

text \<open>\<^verbatim>\<open>client.vector_store.update(vector_id=mid, vector=None, payload=patch)\<close>.\<close>

definition patch_memory :: "'q env \<Rightarrow> string \<Rightarrow> payload \<Rightarrow> 'q world \<Rightarrow> 'q world option" where
  "patch_memory E mid patch w =
     map_option (\<lambda>q. w\<lparr>store := q\<rparr>) (vs_update (qd E) False (store w) mid patch)"

lemma patch_memory_Some:
  "patch_memory E mid patch w = Some w' \<longleftrightarrow>
     vs_update (qd E) False (store w) mid patch = Some (store w') \<and> w' = w\<lparr>store := store w'\<rparr>"
  by (auto simp: patch_memory_def)

end
