(* ===== verification/Judge.thy ===== *)
theory Judge
  imports Memory_Store
begin

text \<open>
  The judges of \<^verbatim>\<open>src/src/memline/judge.py\<close>: the user messages they build, the one call to the
  language model, and the parsing that turns its free text into verdicts. The fixed system prompts
  are the constructor that names the judge. JSON decoding, \<^verbatim>\<open>float()\<close>, \<^verbatim>\<open>str()\<close> of a decoded
  value and the two regular expressions are the record \<open>decoder\<close>; the model is the record \<open>llm\<close>.
\<close>

subsection \<open>What the parsing rests on\<close>

datatype json =
    JNull | JBool bool | JNum rat | JStr string | JList "json list" | JObj "(string \<times> json) list"

text \<open>A Python float, for the values that \<^verbatim>\<open>float()\<close> and \<^verbatim>\<open>json.loads\<close> can produce.\<close>

datatype pyfloat = Fin rat | PosInf | NegInf | NaN

record decoder =
  json_loads :: "string \<Rightarrow> json option"
  fence_sub :: "string \<Rightarrow> string"
  find_chunks :: "string \<Rightarrow> string list"
  find_verdict :: "string \<Rightarrow> string option"
  str_of :: "json \<Rightarrow> string"
  float_of :: "json \<Rightarrow> pyfloat option"

text \<open>\<^verbatim>\<open>str(s) == s\<close> for a string is all that the parsing needs of the decoder.\<close>

definition decoder_ok :: "decoder \<Rightarrow> bool" where
  "decoder_ok D \<longleftrightarrow> (\<forall>s. str_of D (JStr s) = s)"

datatype judge_kind = JudgeDisplacement | JudgeNecessity | JudgeCorrectness | JudgeSafety

text \<open>A call returns the response text (\<open>None\<close> is a null response) and the model that answered, or
  raises (\<open>None\<close>).\<close>

record llm =
  generate :: "judge_kind \<Rightarrow> string \<Rightarrow> (string option \<times> string option) option"

record judgment_entry =
  je_id :: string
  je_text :: string
  je_date :: string

record verdict =
  v_id :: string
  v_verdict :: string
  v_confidence :: rat
  v_reason :: string

datatype judge_error = EmptyResponse | NonJson | MissingJudgments | NotADict | LlmFailed

subsection \<open>Messages\<close>

definition json_char :: "char \<Rightarrow> string" where
  "json_char c =
     (if c = CHR 0x22 \<or> c = CHR 0x5C then [CHR 0x5C, c]
      else if c = CHR 0x0A then [CHR 0x5C, CHR ''n'']
      else if c = CHR 0x0D then [CHR 0x5C, CHR ''r'']
      else if c = CHR 0x09 then [CHR 0x5C, CHR ''t'']
      else if c = CHR 0x08 then [CHR 0x5C, CHR ''b'']
      else if c = CHR 0x0C then [CHR 0x5C, CHR ''f'']
      else if of_char c < (32 :: nat)
        then [CHR 0x5C, CHR ''u'', CHR ''0'', CHR ''0'',
              hex_digit (of_char c div 16), hex_digit (of_char c mod 16)]
      else [c])"

definition json_string :: "string \<Rightarrow> string" where
  "json_string s = CHR 0x22 # concat (map json_char s) @ [CHR 0x22]"

definition or_text :: "string \<Rightarrow> string \<Rightarrow> string" where
  "or_text s d = (if s = [] then d else s)"

definition candidate_json :: "judgment_entry \<Rightarrow> string" where
  "candidate_json c =
     ''{'' @ json_string ''id'' @ '': '' @ json_string (je_id c) @ '', '' @
     json_string ''date'' @ '': '' @ json_string (or_text (je_date c) ''unknown'') @ '', '' @
     json_string ''text'' @ '': '' @ json_string (je_text c) @ ''}''"

definition newline :: string where "newline = [CHR 0x0A]"

definition build_user_message :: "judgment_entry \<Rightarrow> judgment_entry list \<Rightarrow> string" where
  "build_user_message new_entry candidates =
     join newline
       [''## New entry (written '' @ or_text (je_date new_entry) ''unknown date'' @ '')'',
        je_text new_entry, [], ''## Existing entries'',
        ''['' @ join '', '' (map candidate_json candidates) @ '']'']"

subsection \<open>Parsing\<close>

definition VERDICTS :: "string set" where "VERDICTS = {''SUPERSEDED'', ''DUPLICATE'', ''KEPT''}"
definition NECESSITY_VERDICTS :: "string set" where
  "NECESSITY_VERDICTS = {''DURABLE'', ''BORN_UNNECESSARY'', ''EXPIRING''}"
definition CORRECTNESS_VERDICTS :: "string set" where
  "CORRECTNESS_VERDICTS =
     {''CONSISTENT'', ''TIMESTAMP_SUSPECT'', ''ATTRIBUTION_SUSPECT'', ''LANGUAGE_SUSPECT''}"
definition SAFETY_VERDICTS :: "string set" where "SAFETY_VERDICTS = {''CLEAN'', ''SECRET_SUSPECT''}"

definition upper_char :: "char \<Rightarrow> char" where
  "upper_char c = (let n = (of_char c :: nat) in if 97 \<le> n \<and> n \<le> 122 then char_of (n - 32) else c)"

definition upper :: "string \<Rightarrow> string" where "upper s = map upper_char s"

text \<open>\<^verbatim>\<open>max(0.0, min(1.0, x))\<close>; Python's \<^verbatim>\<open>min\<close> and \<^verbatim>\<open>max\<close> keep their first argument unless the
  second compares smaller or larger, which a NaN never does.\<close>

fun clamp :: "pyfloat \<Rightarrow> rat" where
  "clamp (Fin r) = max 0 (min 1 r)"
| "clamp PosInf = 1"
| "clamp NegInf = 0"
| "clamp NaN = 1"

definition jget :: "(string \<times> json) list \<Rightarrow> string \<Rightarrow> json option" where
  "jget kvs k = map_of kvs k"

fun jtruthy :: "json \<Rightarrow> bool" where
  "jtruthy JNull = False"
| "jtruthy (JBool b) = b"
| "jtruthy (JNum r) = (r \<noteq> 0)"
| "jtruthy (JStr s) = (s \<noteq> [])"
| "jtruthy (JList xs) = (xs \<noteq> [])"
| "jtruthy (JObj kvs) = (kvs \<noteq> [])"

definition str_field :: "decoder \<Rightarrow> (string \<times> json) list \<Rightarrow> string \<Rightarrow> string" where
  "str_field D kvs k = (case jget kvs k of None \<Rightarrow> [] | Some v \<Rightarrow> str_of D v)"

definition confidence_field :: "decoder \<Rightarrow> (string \<times> json) list \<Rightarrow> rat" where
  "confidence_field D kvs =
     (case jget kvs ''confidence'' of
        None \<Rightarrow> 0
      | Some v \<Rightarrow> (case float_of D v of None \<Rightarrow> 0 | Some x \<Rightarrow> clamp x))"

definition reason_field :: "decoder \<Rightarrow> (string \<times> json) list \<Rightarrow> string" where
  "reason_field D kvs =
     clip 500 (case jget kvs ''reason'' of
        None \<Rightarrow> [] | Some v \<Rightarrow> if jtruthy v then str_of D v else [])"

text \<open>Stripping a Markdown fence.\<close>

definition unfence :: "decoder \<Rightarrow> string \<Rightarrow> string" where
  "unfence D response =
     (let t = strip response in if take 3 t = ''```'' then strip (fence_sub D t) else t)"

definition judgment_of :: "decoder \<Rightarrow> string set \<Rightarrow> json \<Rightarrow> verdict option" where
  "judgment_of D allowed item =
     (case item of
        JObj kvs \<Rightarrow>
          let mem_id = str_field D kvs ''id''; v = upper (str_field D kvs ''verdict'')
          in if mem_id \<notin> allowed \<or> v \<notin> VERDICTS then None
             else Some \<lparr>v_id = mem_id, v_verdict = v, v_confidence = confidence_field D kvs,
                        v_reason = reason_field D kvs\<rparr>
      | _ \<Rightarrow> None)"

definition raw_judgments :: "decoder \<Rightarrow> string \<Rightarrow> judge_error + json list" where
  "raw_judgments D txt =
     (case json_loads D txt of
        Some (JObj kvs) \<Rightarrow>
          (case jget kvs ''judgments'' of Some (JList xs) \<Rightarrow> Inr xs | _ \<Rightarrow> Inl MissingJudgments)
      | Some _ \<Rightarrow> Inl MissingJudgments
      | None \<Rightarrow>
          let xs = List.map_filter (json_loads D) (find_chunks D txt)
          in if filter (\<lambda>x. x \<noteq> JNull) xs = [] then Inl NonJson
             else Inr (filter (\<lambda>x. x \<noteq> JNull) xs))"

definition parse_judgments :: "decoder \<Rightarrow> string option \<Rightarrow> string set \<Rightarrow> judge_error + verdict list" where
  "parse_judgments D response allowed =
     (case response of
        None \<Rightarrow> Inl EmptyResponse
      | Some r \<Rightarrow>
          if r = [] then Inl EmptyResponse
          else and_then (raw_judgments D (unfence D r))
            (\<lambda>raw. Inr (List.map_filter (judgment_of D allowed) raw)))"

text \<open>A decoded value that is not a dict has no \<^verbatim>\<open>get\<close>: the \<^verbatim>\<open>AttributeError\<close> is \<open>NotADict\<close>.\<close>

definition parse_single_judgment ::
  "decoder \<Rightarrow> string option \<Rightarrow> string set \<Rightarrow> string \<Rightarrow> judge_error + verdict" where
  "parse_single_judgment D response allowed default_verdict =
     (case response of
        None \<Rightarrow> Inl EmptyResponse
      | Some r \<Rightarrow>
          if r = [] then Inl EmptyResponse
          else let txt = unfence D r in
            and_then
              (case json_loads D txt of
                 Some (JObj kvs) \<Rightarrow> Inr kvs
               | Some _ \<Rightarrow> Inl NotADict
               | None \<Rightarrow>
                   (case find_verdict D txt of
                      None \<Rightarrow> Inl NonJson
                    | Some v \<Rightarrow> Inr [(''verdict'', JStr v), (''confidence'', JNum 0),
                                     (''reason'', JStr ''<truncated output>'')]))
              (\<lambda>kvs. let v = upper (str_field D kvs ''verdict'') in
                Inr \<lparr>v_id = [], v_verdict = (if v \<in> allowed then v else default_verdict),
                     v_confidence = confidence_field D kvs, v_reason = reason_field D kvs\<rparr>))"

subsection \<open>The judges\<close>

definition ask :: "llm \<Rightarrow> judge_kind \<Rightarrow> string \<Rightarrow> judge_error + string option \<times> string option" where
  "ask L k user = (case generate L k user of None \<Rightarrow> Inl LlmFailed | Some r \<Rightarrow> Inr r)"

text \<open>Each judge returns its verdicts together with the model that answered.\<close>

definition judge ::
  "decoder \<Rightarrow> llm \<Rightarrow> judgment_entry \<Rightarrow> judgment_entry list \<Rightarrow> judge_error + verdict list \<times> string option" where
  "judge D L new_entry candidates =
     (if candidates = [] then Inr ([], None)
      else and_then (ask L JudgeDisplacement (build_user_message new_entry candidates))
        (\<lambda>(response, model).
          and_then (parse_judgments D response (set (map je_id candidates))) (\<lambda>vs. Inr (vs, model))))"

definition judge_single ::
  "decoder \<Rightarrow> llm \<Rightarrow> judge_kind \<Rightarrow> string \<Rightarrow> string set \<Rightarrow> string \<Rightarrow> judge_error + verdict \<times> string option" where
  "judge_single D L k user allowed default_verdict =
     and_then (ask L k user)
       (\<lambda>(response, model).
         and_then (parse_single_judgment D response allowed default_verdict) (\<lambda>v. Inr (v, model)))"

definition judge_necessity :: "decoder \<Rightarrow> llm \<Rightarrow> judgment_entry \<Rightarrow> judge_error + verdict \<times> string option" where
  "judge_necessity D L e =
     judge_single D L JudgeNecessity
       (''## Entry (written '' @ or_text (je_date e) ''unknown date'' @ '')'' @ newline @ je_text e)
       NECESSITY_VERDICTS ''DURABLE''"

definition judge_safety :: "decoder \<Rightarrow> llm \<Rightarrow> judgment_entry \<Rightarrow> judge_error + verdict \<times> string option" where
  "judge_safety D L e =
     judge_single D L JudgeSafety (''## Entry text'' @ newline @ je_text e) SAFETY_VERDICTS ''CLEAN''"

text \<open>\<open>to_sgt\<close> is \<^verbatim>\<open>_to_sgt\<close> on a non-empty timestamp; an empty one reads \<^verbatim>\<open>None\<close>.\<close>

definition judge_correctness ::
  "decoder \<Rightarrow> llm \<Rightarrow> (string \<Rightarrow> string) \<Rightarrow> judgment_entry \<Rightarrow> string \<Rightarrow> string \<Rightarrow> string
     \<Rightarrow> judge_error + verdict \<times> string option" where
  "judge_correctness D L to_sgt e ingested_at created_at writer =
     judge_single D L JudgeCorrectness
       (''## Authoritative metadata'' @ newline @
        ''ingested_at (SGT, UTC+8): '' @ (if ingested_at = [] then ''None'' else to_sgt ingested_at) @ newline @
        ''created_at (SGT): '' @
          or_text (if created_at = [] then [] else to_sgt created_at) ''same as ingested_at'' @ newline @
        ''writer identity: '' @ or_text writer ''unknown'' @ newline @ newline @
        ''## Entry text'' @ newline @ je_text e)
       CORRECTNESS_VERDICTS ''CONSISTENT''"

subsection \<open>What a verdict can be\<close>

lemma clamp_range: "0 \<le> clamp x \<and> clamp x \<le> 1"
  by (cases x) auto

lemma confidence_range: "0 \<le> confidence_field D kvs \<and> confidence_field D kvs \<le> 1"
  using clamp_range by (simp add: confidence_field_def split: option.splits)

lemma reason_length: "py_length (reason_field D kvs) \<le> 500"
  by (simp add: reason_field_def py_length_clip)

lemma judgment_of_Some:
  assumes "judgment_of D allowed item = Some v"
  shows "v_id v \<in> allowed \<and> v_verdict v \<in> VERDICTS \<and> 0 \<le> v_confidence v \<and> v_confidence v \<le> 1 \<and>
    py_length (v_reason v) \<le> 500"
  using assms confidence_range reason_length
  by (auto simp: judgment_of_def Let_def split: json.splits if_splits)

lemma map_filter_in: "y \<in> set (List.map_filter f xs) \<longleftrightarrow> (\<exists>x \<in> set xs. f x = Some y)"
  by (force simp: map_filter_def)

lemma parse_judgments_in:
  assumes "parse_judgments D response allowed = Inr vs" "v \<in> set vs"
  shows "\<exists>item. judgment_of D allowed item = Some v"
  using assms by (auto simp: parse_judgments_def and_then_Inr_iff map_filter_in split: option.splits if_splits)

text \<open>Whatever the model writes, a judgment that survives parsing is about one of the candidates it was
  asked about, carries one of the three verdicts, a confidence between zero and one and a
  reason of at most 500 characters; and no candidates means no call.\<close>

theorem judge_validates:
  assumes "judge D L new_entry candidates = Inr (vs, model)" "v \<in> set vs"
  shows "v_id v \<in> je_id ` set candidates \<and> v_verdict v \<in> VERDICTS \<and> 0 \<le> v_confidence v \<and>
    v_confidence v \<le> 1 \<and> py_length (v_reason v) \<le> 500 \<and> candidates \<noteq> []"
proof -
  obtain response where "parse_judgments D response (je_id ` set candidates) = Inr vs" "candidates \<noteq> []"
    using assms by (auto simp: judge_def and_then_Inr_iff split: if_splits)
  with parse_judgments_in assms(2) judgment_of_Some show ?thesis by blast
qed

definition demo_decoder :: decoder where
  "demo_decoder =
     \<lparr>json_loads = (\<lambda>s. if s = ''{}'' then Some (JObj [(''judgments'', JList
          [JObj [(''id'', JStr ''b''), (''verdict'', JStr ''kept''), (''confidence'', JStr ''NaN'')]])]) else None),
      fence_sub = (\<lambda>s. s), find_chunks = (\<lambda>s. []), find_verdict = (\<lambda>s. None),
      str_of = (\<lambda>j. case j of JStr s \<Rightarrow> s | _ \<Rightarrow> ''?''),
      float_of = (\<lambda>j. case j of JNum r \<Rightarrow> Some (Fin r) | JStr _ \<Rightarrow> Some NaN | _ \<Rightarrow> None)\<rparr>"

theorem judge_validates_witness:
  "\<exists>v. judge demo_decoder \<lparr>generate = (\<lambda>k u. Some (Some ''{}'', None))\<rparr>
       \<lparr>je_id = ''a'', je_text = ''x'', je_date = []\<rparr> [\<lparr>je_id = ''b'', je_text = ''y'', je_date = []\<rparr>] =
     Inr ([v], None) \<and> v_id v = ''b'' \<and> v_verdict v \<in> VERDICTS"
proof -
  let ?L = "\<lparr>generate = (\<lambda>k u. Some (Some ''{}'', None))\<rparr>"
  let ?a = "\<lparr>je_id = ''a'', je_text = ''x'', je_date = []\<rparr>" and ?b = "\<lparr>je_id = ''b'', je_text = ''y'', je_date = []\<rparr>"
  let ?item = "JObj [(''id'', JStr ''b''), (''verdict'', JStr ''kept''), (''confidence'', JStr ''NaN'')]"
  have raw: "raw_judgments demo_decoder (unfence demo_decoder ''{}'') = Inr [?item]"
    by (simp add: raw_judgments_def unfence_def strip_def is_space_def demo_decoder_def jget_def)
  have up: "upper ''kept'' = ''KEPT''" by code_simp
  obtain v where v: "judgment_of demo_decoder {''b''} ?item = Some v"
    by (simp add: judgment_of_def str_field_def jget_def demo_decoder_def up VERDICTS_def Let_def)
  have j: "judge demo_decoder ?L ?a [?b] = Inr ([v], None)"
    by (simp add: judge_def ask_def parse_judgments_def raw v map_filter_simps)
  from judge_validates[OF j, of v] j show ?thesis by simp
qed

lemma parse_single_verdict:
  assumes "parse_single_judgment D response allowed d = Inr v"
  shows "v_verdict v \<in> insert d allowed \<and> 0 \<le> v_confidence v \<and> v_confidence v \<le> 1 \<and>
    py_length (v_reason v) \<le> 500"
  using assms confidence_range reason_length
  by (auto simp: parse_single_judgment_def and_then_Inr_iff Let_def split: option.splits if_splits)

lemma judge_single_verdict:
  assumes "judge_single D L k user allowed d = Inr (v, model)"
  shows "v_verdict v \<in> insert d allowed \<and> 0 \<le> v_confidence v \<and> v_confidence v \<le> 1 \<and>
    py_length (v_reason v) \<le> 500"
  using assms parse_single_verdict
  by (fastforce simp: judge_single_def and_then_Inr_iff split: prod.splits)

end
