(* ===== verification/Supersession.thy ===== *)
theory Supersession
  imports Memory_Store
begin

text \<open>
  Supersession edges: \<^verbatim>\<open>_assert_no_cycle\<close>, \<^verbatim>\<open>invalidate\<close>, \<^verbatim>\<open>revive\<close> and \<^verbatim>\<open>resolve_head\<close> of
  \<^verbatim>\<open>src/src/memline/staleness.py\<close>. The breadth-first walks of the code are bounded by
  \<open>MAX_CHAIN_DEPTH\<close> levels; the bound is the structural argument of the walks below, so it is the
  code's own and not a fuel of the model.
\<close>

definition MAX_CHAIN_DEPTH :: nat where
  "MAX_CHAIN_DEPTH = 100"

text \<open>The successors that the walk of \<^verbatim>\<open>_assert_no_cycle\<close> reads, and the edges of the store.\<close>

definition successors :: "'q env \<Rightarrow> 'q world \<Rightarrow> string \<Rightarrow> string list" where
  "successors E w n = (case payload_at E w n of None \<Rightarrow> [] | Some p \<Rightarrow> superseded_ids p)"

definition supersession :: "'q env \<Rightarrow> 'q world \<Rightarrow> (string \<times> string) set" where
  "supersession E w = {(a, b). b \<in> set (successors E w a)}"

subsection \<open>The cycle check\<close>

text \<open>One pass of the inner loop: \<open>Inl\<close> is the node that would close a cycle.\<close>

fun visit_level ::
  "(string \<Rightarrow> string list) \<Rightarrow> string \<Rightarrow> string list \<Rightarrow> string set \<Rightarrow> string list
     \<Rightarrow> string + (string set \<times> string list)" where
  "visit_level succ target [] visited nxt = Inr (visited, nxt)"
| "visit_level succ target (n # ns) visited nxt =
     (if n = target then Inl n
      else if n \<in> visited then visit_level succ target ns visited nxt
      else visit_level succ target ns (insert n visited) (nxt @ succ n))"

fun cycle_walk ::
  "(string \<Rightarrow> string list) \<Rightarrow> string \<Rightarrow> nat \<Rightarrow> string list \<Rightarrow> string set \<Rightarrow> stale_error + unit" where
  "cycle_walk succ target depth_left [] visited = Inr ()"
| "cycle_walk succ target 0 (n # ns) visited = Inl ChainTooLong"
| "cycle_walk succ target (Suc k) (n # ns) visited =
     (case visit_level succ target (n # ns) visited [] of
        Inl via \<Rightarrow> Inl (CycleVia via)
      | Inr (visited', nxt) \<Rightarrow> cycle_walk succ target k nxt visited')"

definition assert_no_cycle :: "'q env \<Rightarrow> 'q world \<Rightarrow> string \<Rightarrow> string list \<Rightarrow> stale_error + unit" where
  "assert_no_cycle E w target by_ids = cycle_walk (successors E w) target MAX_CHAIN_DEPTH by_ids {}"

subsection \<open>\<^verbatim>\<open>invalidate\<close> and \<^verbatim>\<open>revive\<close>\<close>

definition invalidate_patch ::
  "string list \<Rightarrow> string \<Rightarrow> string option \<Rightarrow> string option \<Rightarrow> string option \<Rightarrow> payload" where
  "invalidate_patch by_ids now reason actor session =
     [SUPERSEDED_BY \<mapsto> PList (map PStr by_ids), SUPERSEDED_AT \<mapsto> PStr now,
      SUPERSEDED_REASON \<mapsto> opt_str reason, ''invalidated_by_agent_id'' \<mapsto> opt_str actor,
      ''invalidated_session_id'' \<mapsto> opt_str session, DISPLACEMENT_PROTECTED_UNTIL \<mapsto> PNone,
      DISPLACEMENT_PROTECTION_REASON \<mapsto> PNone, DISPLACEMENT_PROTECTED_AT \<mapsto> PNone,
      DISPLACEMENT_PROTECTED_BY_AGENT \<mapsto> PNone, DISPLACEMENT_PROTECTED_BY_SESSION \<mapsto> PNone]"

record invalidation =
  inv_id :: string
  inv_by :: "string list"
  inv_at :: string
  inv_reason :: "string option"
  inv_closed :: nat

definition clean_ids :: "string list \<Rightarrow> string list" where
  "clean_ids by_ids = filter (\<lambda>b. b \<noteq> []) (dedup by_ids)"

text \<open>The checks of \<^verbatim>\<open>invalidate\<close>, in their order; they return the payload of the memory.\<close>

definition invalidate_check ::
  "'q env \<Rightarrow> string \<Rightarrow> string list \<Rightarrow> 'q world \<Rightarrow> stale_error + payload" where
  "invalidate_check E mid by_ids w =
     (if by_ids = [] then Inl NoSuperseder
      else if mid \<in> set by_ids then Inl SelfSupersession
      else case payload_at E w mid of
        None \<Rightarrow> Inl (MemoryNotFound mid)
      | Some payload \<Rightarrow>
          if superseded_ids payload \<noteq> [] then Inl (AlreadyInvalidated (superseded_ids payload))
          else case find (\<lambda>b. payload_at E w b = None) by_ids of
            Some b \<Rightarrow> Inl (SupersederNotFound b)
          | None \<Rightarrow> and_then (assert_no_cycle E w mid by_ids) (\<lambda>_. Inr payload))"

definition invalidate ::
  "'q env \<Rightarrow> string \<Rightarrow> string list \<Rightarrow> string option \<Rightarrow> string option \<Rightarrow> string option
     \<Rightarrow> string \<Rightarrow> time \<Rightarrow> 'q world \<Rightarrow> (stale_error + invalidation) \<times> 'q world" where
  "invalidate E mid by_ids0 reason actor session now t w =
     (let by_ids = clean_ids by_ids0 in
      case invalidate_check E mid by_ids w of
        Inl e \<Rightarrow> (Inl e, w)
      | Inr payload \<Rightarrow>
          (case patch_memory E mid (invalidate_patch by_ids now reason actor session) w of
             None \<Rightarrow> (Inl StoreFailed, w)
           | Some w1 \<Rightarrow>
               let w2 = try_history E (lifecycle_row mid (text_of payload) ''INVALIDATE'' now actor) w1
               in case with_pairs E (close_for_old mid DObsoleted actor None t) w2 of
                    None \<Rightarrow> (Inl PairsFailed, w2)
                  | Some (n_closed, w3) \<Rightarrow>
                      (Inr \<lparr>inv_id = mid, inv_by = by_ids, inv_at = now, inv_reason = reason,
                            inv_closed = n_closed\<rparr>, w3)))"

definition revive_patch :: "string \<Rightarrow> string option \<Rightarrow> string option \<Rightarrow> payload" where
  "revive_patch now actor session =
     [SUPERSEDED_BY \<mapsto> PNone, SUPERSEDED_AT \<mapsto> PNone, SUPERSEDED_REASON \<mapsto> PNone,
      ''revived_at'' \<mapsto> PStr now, ''revived_by_agent_id'' \<mapsto> opt_str actor,
      ''revived_session_id'' \<mapsto> opt_str session]"

record revival =
  rev_id :: string
  rev_previous :: "string list"
  rev_at :: string

definition revive ::
  "'q env \<Rightarrow> string \<Rightarrow> string option \<Rightarrow> string option \<Rightarrow> string \<Rightarrow> 'q world
     \<Rightarrow> (stale_error + revival) \<times> 'q world" where
  "revive E mid actor session now w =
     (case payload_at E w mid of
        None \<Rightarrow> (Inl (MemoryNotFound mid), w)
      | Some payload \<Rightarrow>
          if superseded_ids payload = [] then (Inl NotInvalidated, w)
          else (case patch_memory E mid (revive_patch now actor session) w of
             None \<Rightarrow> (Inl StoreFailed, w)
           | Some w1 \<Rightarrow>
               (Inr \<lparr>rev_id = mid, rev_previous = superseded_ids payload, rev_at = now\<rparr>,
                try_history E (lifecycle_row mid (text_of payload) ''REVIVE'' now actor) w1)))"

subsection \<open>\<^verbatim>\<open>resolve_head\<close>\<close>

text \<open>\<open>get\<close> is the caller's \<^verbatim>\<open>get_payload\<close>, \<open>None\<close> when it raises.\<close>

fun head_level ::
  "(string \<Rightarrow> payload option option) \<Rightarrow> string list \<Rightarrow> string set \<Rightarrow> string list \<Rightarrow> string list
     \<Rightarrow> (string set \<times> string list \<times> string list) option" where
  "head_level get [] visited heads nxt = Some (visited, heads, nxt)"
| "head_level get (n # ns) visited heads nxt =
     (if n \<in> visited then head_level get ns visited heads nxt
      else case get n of
        None \<Rightarrow> None
      | Some found \<Rightarrow>
          let payload = (case found of None \<Rightarrow> Map.empty | Some p \<Rightarrow> p);
              succs = superseded_ids payload
          in if succs \<noteq> [] then head_level get ns (insert n visited) heads (nxt @ succs)
             else if payload \<noteq> Map.empty then head_level get ns (insert n visited) (heads @ [n]) nxt
             else head_level get ns (insert n visited) heads nxt)"

text \<open>The first argument counts down from \<^verbatim>\<open>MAX_CHAIN_DEPTH + 1 - hops\<close>.\<close>

fun head_walk ::
  "nat \<Rightarrow> (string \<Rightarrow> payload option option) \<Rightarrow> string list \<Rightarrow> string set \<Rightarrow> string list \<Rightarrow> nat
     \<Rightarrow> (string list \<times> nat) option" where
  "head_walk k get [] visited heads hops = Some (heads, hops)"
| "head_walk 0 get (n # ns) visited heads hops = Some (heads, hops)"
| "head_walk (Suc k) get (n # ns) visited heads hops =
     (case head_level get (n # ns) visited heads [] of
        None \<Rightarrow> None
      | Some (visited', heads', nxt) \<Rightarrow>
          head_walk k get nxt visited' heads' (if nxt = [] then hops else Suc hops))"

record resolution =
  res_requested :: string
  res_heads :: "string list"
  res_hops :: nat

definition resolve_head ::
  "(string \<Rightarrow> payload option option) \<Rightarrow> string \<Rightarrow> stale_error + resolution" where
  "resolve_head get mid =
     (case get mid of
        None \<Rightarrow> Inl StoreFailed
      | Some None \<Rightarrow> Inl (MemoryNotFound mid)
      | Some (Some _) \<Rightarrow>
          (case head_walk (Suc MAX_CHAIN_DEPTH) get [mid] {} [] 0 of
             None \<Rightarrow> Inl StoreFailed
           | Some (heads, hops) \<Rightarrow>
               Inr \<lparr>res_requested = mid, res_heads = heads, res_hops = hops\<rparr>))"

subsection \<open>The walks\<close>

lemma visit_level_Inl: "visit_level succ t ns V nxt = Inl n \<longleftrightarrow> t \<in> set ns \<and> n = t"
  by (induction ns arbitrary: V nxt) auto

lemma visit_level_Inr:
  "visit_level succ t ns V nxt = Inr (V', nxt') \<Longrightarrow>
     t \<notin> set ns \<and> V' = V \<union> set ns \<and>
     set nxt' = set nxt \<union> (\<Union>n \<in> set ns - V. set (succ n))"
proof (induction ns arbitrary: V nxt)
  case (Cons n ns)
  show ?case
  proof (cases "n \<in> V")
    case True
    with Cons show ?thesis by (auto split: if_splits)
  next
    case False
    with Cons.prems have "n \<noteq> t"
      "visit_level succ t ns (insert n V) (nxt @ succ n) = Inr (V', nxt')"
      by (auto split: if_splits)
    with Cons.IH[OF this(2)] False show ?thesis by auto
  qed
qed simp

text \<open>A walk that succeeds has closed the set it visited, and the target is not in it.\<close>

lemma cycle_walk_closed:
  assumes "cycle_walk succ t k F V = Inr ()" "t \<notin> V" "\<forall>v \<in> V. set (succ v) \<subseteq> V \<union> set F"
  shows "\<exists>U. V \<union> set F \<subseteq> U \<and> t \<notin> U \<and> (\<forall>u \<in> U. set (succ u) \<subseteq> U)"
  using assms
proof (induction succ t k F V rule: cycle_walk.induct)
  case (1 succ t k V)
  then show ?case by (intro exI[of _ V]) auto
next
  case (3 succ t k n ns V)
  from 3(2) obtain V' nxt where lv: "visit_level succ t (n # ns) V [] = Inr (V', nxt)"
      and rest: "cycle_walk succ t k nxt V' = Inr ()"
    by (auto split: sum.splits)
  note f = visit_level_Inr[OF lv]
  have "\<exists>U. V' \<union> set nxt \<subseteq> U \<and> t \<notin> U \<and> (\<forall>u \<in> U. set (succ u) \<subseteq> U)"
  proof (rule 3(1)[OF lv refl rest])
    show "t \<notin> V'" using f 3(3) by simp
    show "\<forall>v \<in> V'. set (succ v) \<subseteq> V' \<union> set nxt" using f 3(4) by auto
  qed
  then obtain U where "V' \<union> set nxt \<subseteq> U" "t \<notin> U" "\<forall>u \<in> U. set (succ u) \<subseteq> U"
    by (elim exE conjE)
  moreover from this(1) f have "V \<union> set (n # ns) \<subseteq> U"
    by simp
  ultimately show ?case
    by (intro exI[of _ U] conjI)
qed simp

lemma closed_reach:
  assumes "\<forall>u \<in> U. set (succ u) \<subseteq> U" "(a, b) \<in> {(a, b). b \<in> set (succ a)}\<^sup>*" "a \<in> U"
  shows "b \<in> U"
  using assms(2,3) by (induction rule: rtrancl_induct) (use assms(1) in auto)

lemma cycle_walk_unreachable:
  assumes "cycle_walk succ t k F {} = Inr ()" "f \<in> set F"
  shows "(f, t) \<notin> {(a, b). b \<in> set (succ a)}\<^sup>*"
proof -
  obtain U where U: "set F \<subseteq> U" "t \<notin> U" "\<forall>u \<in> U. set (succ u) \<subseteq> U"
    using cycle_walk_closed[OF assms(1)] by auto
  show ?thesis
    using closed_reach[OF U(3), of f t] U(1,2) assms(2) by blast
qed

text \<open>One pass of \<^verbatim>\<open>resolve_head\<close>'s inner loop over the payloads \<open>pay\<close>.\<close>

definition pay_of :: "(string \<Rightarrow> payload option option) \<Rightarrow> string \<Rightarrow> payload" where
  "pay_of get n = (case get n of Some (Some p) \<Rightarrow> p | _ \<Rightarrow> Map.empty)"

definition is_head :: "(string \<Rightarrow> payload option option) \<Rightarrow> string \<Rightarrow> bool" where
  "is_head get n \<longleftrightarrow> superseded_ids (pay_of get n) = [] \<and> pay_of get n \<noteq> Map.empty"

definition next_of :: "(string \<Rightarrow> payload option option) \<Rightarrow> string \<Rightarrow> string list" where
  "next_of get n = superseded_ids (pay_of get n)"

lemma head_level_Some:
  "head_level get ns V hs nxt = Some (V', hs', nxt') \<Longrightarrow>
     V' = V \<union> set ns \<and> set nxt' = set nxt \<union> (\<Union>n \<in> set ns - V. set (next_of get n)) \<and>
     set hs' = set hs \<union> {n \<in> set ns - V. is_head get n} \<and>
     (distinct hs \<longrightarrow> set hs \<subseteq> V \<longrightarrow> distinct hs')"
proof (induction get ns V hs nxt rule: head_level.induct)
  case (2 get n ns V hs nxt)
  show ?case
  proof (cases "n \<in> V")
    case True
    with 2 show ?thesis by auto
  next
    case new: False
    with 2(5) obtain found where g: "get n = Some found"
      by (auto split: option.splits)
    have p: "(case found of None \<Rightarrow> Map.empty | Some p \<Rightarrow> p) = pay_of get n"
      by (simp add: pay_of_def g)
    consider (inner) "next_of get n \<noteq> []" | (head) "is_head get n" "next_of get n = []"
      | (gone) "\<not> is_head get n" "next_of get n = []"
      by blast
    then show ?thesis
    proof cases
      case inner
      then have "head_level get ns (insert n V) hs (nxt @ next_of get n) = Some (V', hs', nxt')"
          and nh: "\<not> is_head get n"
        using 2(5) new g p by (simp_all add: next_of_def is_head_def)
      with 2(2)[OF new g p[symmetric] _ ] inner new show ?thesis
        by (auto simp: next_of_def p)
    next
      case head
      then have "head_level get ns (insert n V) (hs @ [n]) nxt = Some (V', hs', nxt')"
        using 2(5) new g p by (simp add: next_of_def is_head_def)
      with 2(3)[OF new g p[symmetric]] head new show ?thesis
        by (auto simp: next_of_def is_head_def p)
    next
      case gone
      then have "head_level get ns (insert n V) hs nxt = Some (V', hs', nxt')"
        using 2(5) new g p by (simp add: next_of_def is_head_def)
      with 2(4)[OF new g p[symmetric]] gone new show ?thesis
        by (auto simp: next_of_def is_head_def p)
    qed
  qed
qed simp

definition head_edges :: "(string \<Rightarrow> payload option option) \<Rightarrow> (string \<times> string) set" where
  "head_edges get = {(a, b). b \<in> set (next_of get a)}"

lemma head_walk_spec:
  assumes "head_walk k get F V hs h = Some (hs', h')" "set hs = {v \<in> V. is_head get v}" "distinct hs"
    "V \<union> set F \<subseteq> R" "\<forall>r \<in> R. set (next_of get r) \<subseteq> R"
    "\<forall>v \<in> V. set (next_of get v) \<subseteq> V \<union> set F" "F \<noteq> [] \<longrightarrow> k + h = N" "h \<le> N"
  shows "distinct hs' \<and> set hs' \<subseteq> {n \<in> R. is_head get n} \<and> h' \<le> N \<and>
    (h' < N \<longrightarrow> (\<exists>U. V \<union> set F \<subseteq> U \<and> U \<subseteq> R \<and> (\<forall>u \<in> U. set (next_of get u) \<subseteq> U) \<and>
                     set hs' = {n \<in> U. is_head get n}))"
  using assms
proof (induction k get F V hs h rule: head_walk.induct)
  case (1 k get V hs h)
  then have "V \<subseteq> R" "\<forall>u \<in> V. set (next_of get u) \<subseteq> V" by auto
  with 1 show ?case by (auto intro!: exI[of _ V])
next
  case (2 get n ns V hs h)
  then show ?case by auto
next
  case (3 k get n ns V hs h)
  from 3(2) obtain V1 hs1 nxt where lv: "head_level get (n # ns) V hs [] = Some (V1, hs1, nxt)"
      and rest: "head_walk k get nxt V1 hs1 (if nxt = [] then h else Suc h) = Some (hs', h')"
    by (auto split: option.splits)
  note f = head_level_Some[OF lv]
  have V1: "V1 = V \<union> set (n # ns)"
      and nxt: "set nxt = (\<Union>m \<in> set (n # ns) - V. set (next_of get m))"
      and hs1: "set hs1 = set hs \<union> {m \<in> set (n # ns) - V. is_head get m}"
    using f by simp_all
  have "set hs \<subseteq> V" using 3(3) by blast
  with f 3(4) have d: "distinct hs1" by blast
  have heads: "set hs1 = {v \<in> V1. is_head get v}" unfolding V1 hs1 3(3) by blast
  have inR: "V1 \<union> set nxt \<subseteq> R" using 3(5,6) unfolding V1 nxt by auto
  have cl: "\<forall>v \<in> V1. set (next_of get v) \<subseteq> V1 \<union> set nxt"
    using 3(7) unfolding V1 nxt by auto
  have kh: "nxt \<noteq> [] \<longrightarrow> k + (if nxt = [] then h else Suc h) = N"
    "(if nxt = [] then h else Suc h) \<le> N" using 3(8) by simp_all
  have "V \<union> set (n # ns) \<subseteq> V1 \<union> set nxt" unfolding V1 by blast
  moreover note 3(1)[OF lv refl refl rest heads d inR 3(6) cl kh]
  ultimately show ?case by (meson subset_trans)
qed

lemma resolve_head_facts:
  assumes "resolve_head get mid = Inr r"
  shows "res_requested r = mid \<and> distinct (res_heads r) \<and> res_hops r \<le> Suc MAX_CHAIN_DEPTH \<and>
    set (res_heads r) \<subseteq> {n. (mid, n) \<in> (head_edges get)\<^sup>* \<and> is_head get n} \<and>
    (res_hops r \<le> MAX_CHAIN_DEPTH \<longrightarrow>
       set (res_heads r) = {n. (mid, n) \<in> (head_edges get)\<^sup>* \<and> is_head get n})"
proof -
  let ?R = "{n. (mid, n) \<in> (head_edges get)\<^sup>*}"
  obtain hs h where w: "head_walk (Suc MAX_CHAIN_DEPTH) get [mid] {} [] 0 = Some (hs, h)"
      and r: "r = \<lparr>res_requested = mid, res_heads = hs, res_hops = h\<rparr>"
    using assms by (auto simp: resolve_head_def split: option.splits)
  have R: "\<forall>r \<in> ?R. set (next_of get r) \<subseteq> ?R"
    by (auto simp: head_edges_def intro: rtrancl_into_rtrancl)
  have spec: "distinct hs \<and> set hs \<subseteq> {n \<in> ?R. is_head get n} \<and> h \<le> Suc MAX_CHAIN_DEPTH \<and>
    (h < Suc MAX_CHAIN_DEPTH \<longrightarrow> (\<exists>U. {} \<union> set [mid] \<subseteq> U \<and> U \<subseteq> ?R \<and>
        (\<forall>u \<in> U. set (next_of get u) \<subseteq> U) \<and> set hs = {n \<in> U. is_head get n}))"
    by (rule head_walk_spec[OF w]) (use R in auto)
  have "set hs = {n \<in> ?R. is_head get n}" if "h \<le> MAX_CHAIN_DEPTH"
  proof -
    have "h < Suc MAX_CHAIN_DEPTH" using that by simp
    with spec obtain U where U: "mid \<in> U" "U \<subseteq> ?R" "\<forall>u \<in> U. set (next_of get u) \<subseteq> U"
        "set hs = {n \<in> U. is_head get n}"
      by auto
    have "?R \<subseteq> U"
      using closed_reach[OF U(3) _ U(1)] by (auto simp: head_edges_def)
    with U show ?thesis by auto
  qed
  with spec show ?thesis by (simp add: r)
qed

text \<open>C7: \<^verbatim>\<open>resolve_head\<close> answers with heads only: distinct memories that are stored, active and
  reachable along supersession edges. When it reports at most \<open>MAX_CHAIN_DEPTH\<close> hops the
  answer is all of them.\<close>

theorem resolve_head_correct:
  assumes "resolve_head get mid = Inr r"
  shows "res_requested r = mid \<and> distinct (res_heads r) \<and> res_hops r \<le> Suc MAX_CHAIN_DEPTH \<and>
    set (res_heads r) \<subseteq> {n. (mid, n) \<in> (head_edges get)\<^sup>* \<and> is_head get n} \<and>
    (res_hops r \<le> MAX_CHAIN_DEPTH \<longrightarrow>
       set (res_heads r) = {n. (mid, n) \<in> (head_edges get)\<^sup>* \<and> is_head get n})"
  by (rule resolve_head_facts[OF assms])

theorem resolve_head_correct_witness:
  "\<exists>r. resolve_head (\<lambda>n. if n = ''a'' then Some (Some [''data'' \<mapsto> PStr ''x'']) else Some None) ''a'' = Inr r \<and>
     res_requested r = ''a'' \<and> distinct (res_heads r)"
proof -
  let ?get = "\<lambda>n. if n = ''a'' then Some (Some [''data'' \<mapsto> PStr ''x'']) else Some None"
  have "resolve_head ?get ''a'' = Inr \<lparr>res_requested = ''a'', res_heads = [''a''], res_hops = 0\<rparr>"
    by (simp add: resolve_head_def superseded_ids_def dget_def)
  from this resolve_head_correct[OF this] show ?thesis by blast
qed

text \<open>A chain longer than the bound is cut silently: along \<open>c 0, c 1, ...\<close> of at least
  \<open>MAX_CHAIN_DEPTH + 2\<close> memories, each superseded by the next, \<^verbatim>\<open>resolve_head\<close> on the first
  reports success with no head at all.\<close>

theorem resolve_head_cut:
  assumes "inj c" "\<And>i. i \<le> MAX_CHAIN_DEPTH \<Longrightarrow> get (c i) = Some (Some [SUPERSEDED_BY \<mapsto> PStr (c (Suc i))])"
    and "\<And>i. c i \<noteq> []"
  shows "resolve_head get (c 0) =
    Inr \<lparr>res_requested = c 0, res_heads = [], res_hops = Suc MAX_CHAIN_DEPTH\<rparr>"
proof -
  have "head_walk k get [c i] (c ` {..<i}) [] i = Some ([], Suc MAX_CHAIN_DEPTH)"
    if "i + k = Suc MAX_CHAIN_DEPTH" for i k
    using that
  proof (induction k arbitrary: i)
    case (Suc k)
    have "c i \<notin> c ` {..<i}" using assms(1) by (auto simp: inj_def)
    then have "head_level get [c i] (c ` {..<i}) [] [] = Some (c ` {..<Suc i}, [], [c (Suc i)])"
      using assms(2)[of i] assms(3)[of "Suc i"] Suc.prems
      by (simp add: superseded_ids_def dget_def lessThan_Suc)
    with Suc show ?case by simp
  qed simp
  from this[of 0 "Suc MAX_CHAIN_DEPTH"] assms(2)[of 0] show ?thesis
    by (simp add: resolve_head_def del: head_walk.simps(3))
qed

theorem resolve_head_cut_witness:
  "resolve_head (\<lambda>n. Some (Some [''superseded_by'' \<mapsto> PStr (CHR ''a'' # n)])) ''a'' =
     Inr \<lparr>res_requested = ''a'', res_heads = [], res_hops = Suc MAX_CHAIN_DEPTH\<rparr>"
  using resolve_head_cut[of "\<lambda>i. replicate (Suc i) CHR ''a''"
      "\<lambda>n. Some (Some [''superseded_by'' \<mapsto> PStr (CHR ''a'' # n)])"]
  by (simp add: inj_def replicate_eq_replicate)

subsection \<open>What \<^verbatim>\<open>invalidate\<close> and \<^verbatim>\<open>revive\<close> do to the store\<close>

lemma acyclic_fan:
  assumes "acyclic r" "\<forall>b \<in> set bs. (b, m) \<notin> r\<^sup>*"
  shows "acyclic (r \<union> {m} \<times> set bs) \<and> (\<forall>b. (b, m) \<notin> r\<^sup>* \<longrightarrow> (b, m) \<notin> (r \<union> {m} \<times> set bs)\<^sup>*)"
  using assms(2)
proof (induction bs)
  case Nil
  then show ?case using assms(1) by simp
next
  case (Cons b bs)
  let ?r = "r \<union> {m} \<times> set bs"
  have ih: "acyclic ?r" "\<And>x. (x, m) \<notin> r\<^sup>* \<Longrightarrow> (x, m) \<notin> ?r\<^sup>*"
    using Cons by simp_all
  have eq: "r \<union> {m} \<times> set (b # bs) = insert (m, b) ?r" by auto
  have "(b, m) \<notin> ?r\<^sup>*" using ih(2) Cons.prems by simp
  then show ?case
    using ih unfolding eq by (simp add: acyclic_insert rtrancl_insert)
qed

lemma superseded_ids_patch:
  "superseded_ids (d ++ p) =
     (case p SUPERSEDED_BY of None \<Rightarrow> superseded_ids d | Some v \<Rightarrow> superseded_ids [SUPERSEDED_BY \<mapsto> v])"
  by (simp add: superseded_ids_def dget_map_add dget_def map_add_def split: option.splits)

lemma clean_ids_facts [simp]: "[] \<notin> set (clean_ids xs)" "distinct (clean_ids xs)"
  by (simp_all add: clean_ids_def)

lemma superseded_ids_list: "[] \<notin> set bs \<Longrightarrow> superseded_ids [SUPERSEDED_BY \<mapsto> PList (map PStr bs)] = bs"
  by (induction bs) (auto simp: superseded_ids_def dget_def)

lemma superseded_ids_null: "superseded_ids [SUPERSEDED_BY \<mapsto> PNone] = []"
  by (simp add: superseded_ids_def dget_def)

lemma patch_SUPERSEDED [simp]:
  "invalidate_patch bs now rs a s SUPERSEDED_BY = Some (PList (map PStr bs))"
  "revive_patch now a s SUPERSEDED_BY = Some PNone"
  by (simp_all add: invalidate_patch_def revive_patch_def)

lemma payload_at_patch:
  assumes "qdrant_ok (qd E)" "patch_memory E mid p w = Some w'"
  shows "payload_at E w' n =
    (if n = mid then map_option (\<lambda>d. d ++ p) (payload_at E w n) else payload_at E w n)"
  using assms point_payload_put[of "qd E"] unfolding patch_memory_Some by blast

lemma payload_at_cong: "store w = store w' \<Longrightarrow> payload_at E w n = payload_at E w' n"
  by simp

lemma successors_cong: "store w = store w' \<Longrightarrow> successors E w = successors E w'"
  by (rule ext) (simp add: successors_def)

lemma supersession_cong: "store w = store w' \<Longrightarrow> supersession E w = supersession E w'"
  using successors_cong[of w w' E] by (simp add: supersession_def)

lemma successors_patch:
  assumes "qdrant_ok (qd E)" "patch_memory E mid p w = Some w'"
  shows "successors E w' n =
    (if n = mid \<and> payload_at E w mid \<noteq> None
     then (case p SUPERSEDED_BY of None \<Rightarrow> successors E w mid
           | Some v \<Rightarrow> superseded_ids [SUPERSEDED_BY \<mapsto> v])
     else successors E w n)"
  using payload_at_patch[OF assms, of n]
  by (auto simp: successors_def superseded_ids_patch split: option.splits)

lemma supersession_patch_other:
  assumes "qdrant_ok (qd E)" "patch_memory E mid p w = Some w'" "p SUPERSEDED_BY = None"
  shows "supersession E w' = supersession E w"
proof -
  have "successors E w' n = successors E w n" for n
    using successors_patch[OF assms(1,2), of n] assms(3) by simp
  then show ?thesis by (simp add: supersession_def)
qed

lemma invalidate_checkD:
  assumes "invalidate_check E mid bs w = Inr payload"
  shows "bs \<noteq> []" "mid \<notin> set bs" "payload_at E w mid = Some payload"
    "superseded_ids payload = []" "\<forall>b \<in> set bs. payload_at E w b \<noteq> None"
    "cycle_walk (successors E w) mid MAX_CHAIN_DEPTH bs {} = Inr ()"
  using assms
  by (auto simp: invalidate_check_def and_then_Inr_iff assert_no_cycle_def find_None_iff
      split: if_splits option.splits)

text \<open>The three ways an invalidation ends.\<close>

lemma invalidate_cases:
  assumes "invalidate E mid bs0 reason actor session now t w = (r, w')"
  obtains (refused) e where "r = Inl e" "e \<noteq> PairsFailed" "w' = w"
  | (written) payload w1 where
      "invalidate_check E mid (clean_ids bs0) w = Inr payload"
      "patch_memory E mid (invalidate_patch (clean_ids bs0) now reason actor session) w = Some w1"
      "store w' = store w1" "pairs_up E \<longleftrightarrow> is_ok r"
      "r = (if pairs_up E
            then Inr \<lparr>inv_id = mid, inv_by = clean_ids bs0, inv_at = now, inv_reason = reason,
                      inv_closed = fst (close_for_old mid DObsoleted actor None t (pairs w))\<rparr>
            else Inl PairsFailed)"
      "pairs w' = (if pairs_up E then snd (close_for_old mid DObsoleted actor None t (pairs w)) else pairs w)"
      "history w' = history w @ (if history_up E
         then [lifecycle_row mid (text_of payload) ''INVALIDATE'' now actor] else [])"
proof -
  consider (a) e where "invalidate_check E mid (clean_ids bs0) w = Inl e"
    | (b) payload where "invalidate_check E mid (clean_ids bs0) w = Inr payload"
        "patch_memory E mid (invalidate_patch (clean_ids bs0) now reason actor session) w = None"
    | (c) payload w1 where "invalidate_check E mid (clean_ids bs0) w = Inr payload"
        "patch_memory E mid (invalidate_patch (clean_ids bs0) now reason actor session) w = Some w1"
    by (metis not_None_eq sum.exhaust)
  then show ?thesis
  proof cases
    case a
    have "e \<noteq> PairsFailed"
    proof
      assume "e = PairsFailed"
      with a have "\<exists>k ns V. cycle_walk (successors E w) mid k ns V = Inl PairsFailed"
        by (auto simp: invalidate_check_def and_then_def assert_no_cycle_def
            split: if_splits option.splits sum.splits)
      moreover have "cycle_walk succ t k ns V \<noteq> Inl PairsFailed" for succ t k ns V
        by (induction succ t k ns V rule: cycle_walk.induct) (auto split: sum.splits)
      ultimately show False by blast
    qed
    with a assms show ?thesis by (auto simp: invalidate_def intro: refused)
  next
    case b
    with assms show ?thesis by (auto simp: invalidate_def intro: refused)
  next
    case c
    have pw: "pairs w1 = pairs w" "history w1 = history w"
      using c(2) by (auto simp: patch_memory_def)
    show ?thesis
    proof (rule written[OF c])
    qed (use c assms pw in \<open>auto simp: invalidate_def Let_def with_pairs_def try_history_def
          add_history_def split: prod.splits if_splits\<close>)
  qed
qed

lemma invalidate_edges:
  assumes "qdrant_ok (qd E)" "invalidate_check E mid bs w = Inr payload" "[] \<notin> set bs"
    "patch_memory E mid (invalidate_patch bs now reason actor session) w = Some w1" "store w' = store w1"
  shows "successors E w' = (successors E w)(mid := bs)"
    "supersession E w' = supersession E w \<union> {mid} \<times> set bs"
proof -
  note chk = invalidate_checkD[OF assms(2)]
  have m: "successors E w mid = []" using chk by (simp add: successors_def)
  show s: "successors E w' = (successors E w)(mid := bs)"
    unfolding successors_cong[OF assms(5), of E]
    using successors_patch[OF assms(1,4)] chk(3) assms(3)
    by (auto simp: superseded_ids_list)
  show "supersession E w' = supersession E w \<union> {mid} \<times> set bs"
    using m by (auto simp: supersession_def s split: if_splits)
qed

subsection \<open>Concrete stores for the witnesses\<close>

definition demo_env :: "(string \<times> payload) list env" where
  "demo_env = \<lparr>qd = dict_qdrant, sha = (\<lambda>s. s), md5 = (\<lambda>s. s), lemmatize = (\<lambda>s. s),
     embeds = (\<lambda>s. True), mem_expired = (\<lambda>p. False), norm_time = (\<lambda>v. v), history_up = True, pairs_up = True\<rparr>"

definition demo_world :: "(string \<times> payload) list \<Rightarrow> (string \<times> payload) list world" where
  "demo_world q = \<lparr>store = q, history = [], pairs = []\<rparr>"

definition two_memories :: "(string \<times> payload) list" where
  "two_memories = [(''a'', [''data'' \<mapsto> PStr ''old text'']), (''b'', [''data'' \<mapsto> PStr ''new text''])]"

lemma demo_env_simps [simp]:
  "qd demo_env = dict_qdrant" "sha demo_env s = s" "md5 demo_env s = s" "lemmatize demo_env s = s"
  "embeds demo_env s" "\<not> mem_expired demo_env p" "history_up demo_env" "pairs_up demo_env"
  by (simp_all add: demo_env_def)

lemma demo_world_simps [simp]:
  "store (demo_world q) = q" "history (demo_world q) = []" "pairs (demo_world q) = []"
  by (simp_all add: demo_world_def)

lemma dict_point [simp]: "point_payload dict_qdrant q i = (if i = [] then None else map_of q i)"
  by (simp add: point_payload_def vs_get_def dict_qdrant_def)

lemma dict_put [simp]:
  "vs_update dict_qdrant False q i p = Some (map (\<lambda>(j, d). (j, if j = i then d ++ p else d)) q)"
  by (simp add: vs_update_def dict_qdrant_def)

lemma demo_successors: "successors demo_env (demo_world two_memories) n = []"
  by (simp add: successors_def two_memories_def superseded_ids_def dget_def)

lemma demo_acyclic: "acyclic (supersession demo_env (demo_world two_memories))"
  by (simp add: supersession_def demo_successors acyclic_def)

lemma cycle_walk_step:
  "0 < k \<Longrightarrow> cycle_walk succ t k (n # ns) V =
     (case visit_level succ t (n # ns) V [] of
        Inl via \<Rightarrow> Inl (CycleVia via)
      | Inr (V', nxt) \<Rightarrow> cycle_walk succ t (k - 1) nxt V')"
  by (cases k) (simp, simp only: cycle_walk.simps diff_Suc_1)

lemma head_walk_step:
  "0 < k \<Longrightarrow> head_walk k get (n # ns) V hs h =
     (case head_level get (n # ns) V hs [] of
        None \<Rightarrow> None
      | Some (V', hs', nxt) \<Rightarrow> head_walk (k - 1) get nxt V' hs' (if nxt = [] then h else Suc h))"
  by (cases k) (simp, simp only: head_walk.simps diff_Suc_1)

definition invalidated_memories :: "(string \<times> payload) list" where
  "invalidated_memories =
     [(''a'', [''data'' \<mapsto> PStr ''old text''] ++ invalidate_patch [''b''] ''now'' None None None),
      (''b'', [''data'' \<mapsto> PStr ''new text''])]"

lemma demo_invalidate:
  "\<exists>w'. invalidate demo_env ''a'' [''b''] None None None ''now'' 0 (demo_world two_memories) =
     (Inr \<lparr>inv_id = ''a'', inv_by = [''b''], inv_at = ''now'', inv_reason = None, inv_closed = 0\<rparr>, w') \<and>
     store w' = invalidated_memories"
proof -
  have "assert_no_cycle demo_env (demo_world two_memories) ''a'' [''b''] = Inr ()"
    by (simp add: assert_no_cycle_def MAX_CHAIN_DEPTH_def cycle_walk_step demo_successors)
  then have "invalidate_check demo_env ''a'' [''b''] (demo_world two_memories) =
      Inr [''data'' \<mapsto> PStr ''old text'']"
    by (simp add: invalidate_check_def) (simp add: two_memories_def superseded_ids_def dget_def)
  then show ?thesis
    by (simp add: invalidate_def clean_ids_def patch_memory_def with_pairs_def close_for_old_def
        upd_where_def rowcount_def)
      (simp add: two_memories_def invalidated_memories_def Let_def)
qed

lemma invalidate_acyclic:
  assumes "qdrant_ok (qd E)" "acyclic (supersession E w)"
  shows "acyclic (supersession E (snd (invalidate E mid bs reason actor session now t w)))"
proof -
  obtain r w' where i: "invalidate E mid bs reason actor session now t w = (r, w')"
    by (cases "invalidate E mid bs reason actor session now t w")
  from i show ?thesis
  proof (cases rule: invalidate_cases)
    case refused
    with i assms(2) show ?thesis by simp
  next
    case (written payload w1)
    note edges = invalidate_edges(2)[OF assms(1) written(1) clean_ids_facts(1) written(2,3)]
    have "(b, mid) \<notin> (supersession E w)\<^sup>*" if "b \<in> set (clean_ids bs)" for b
      using cycle_walk_unreachable[OF invalidate_checkD(6)[OF written(1)] that]
      by (simp add: supersession_def)
    with acyclic_fan[OF assms(2)] show ?thesis by (simp add: i edges)
  qed
qed

text \<open>C1: The supersession relation stays a DAG. From an acyclic store, \<^verbatim>\<open>invalidate\<close> leaves an acyclic
  store, whatever it is asked and however it ends.\<close>

theorem invalidate_keeps_dag:
  assumes "qdrant_ok (qd E)" "acyclic (supersession E w)"
  shows "acyclic (supersession E (snd (invalidate E mid bs reason actor session now t w)))"
  by (rule invalidate_acyclic[OF assms])

theorem invalidate_keeps_dag_witness:
  "acyclic (supersession demo_env
     (snd (invalidate demo_env ''a'' [''b''] None None None ''now'' 0 (demo_world two_memories))))"
  by (rule invalidate_keeps_dag) (simp_all add: dict_qdrant_ok demo_acyclic)

lemma invalidate_facts:
  assumes "qdrant_ok (qd E)" "invalidate E mid bs reason actor session now t w = (Inr v, w')"
  shows "inv_by v = clean_ids bs \<and> clean_ids bs \<noteq> [] \<and> mid \<notin> set (clean_ids bs) \<and>
    (\<exists>d d'. payload_at E w mid = Some d \<and> payload_at E w' mid = Some d' \<and>
       superseded_ids d = [] \<and> superseded_ids d' = clean_ids bs \<and> text_of d' = text_of d \<and>
       (\<forall>k. k \<notin> dom (invalidate_patch [] [] None None None) \<longrightarrow> d' k = d k) \<and>
       (\<forall>clock. \<not> is_displacement_protected d' clock)) \<and>
    (\<forall>n. n \<noteq> mid \<longrightarrow> payload_at E w' n = payload_at E w n) \<and>
    (\<forall>x \<in> set (pairs w'). pr_old x = mid \<longrightarrow> pr_disposition x \<noteq> DOpen) \<and>
    inv_closed v = rowcount (\<lambda>x. pr_old x = mid \<and> pr_disposition x = DOpen) (pairs w)"
  using assms(2)
proof (cases rule: invalidate_cases)
  case (written payload w1)
  note chk = invalidate_checkD[OF written(1)]
  let ?p = "invalidate_patch (clean_ids bs) now reason actor session"
  have up: "pairs_up E" using written(4) by simp
  have same: "payload_at E w' n = payload_at E w1 n" for n
    using written(3) by simp
  have d': "payload_at E w' mid = Some (payload ++ ?p)"
    using payload_at_patch[OF assms(1) written(2), of mid] chk(3) same by simp
  have other: "\<forall>n. n \<noteq> mid \<longrightarrow> payload_at E w' n = payload_at E w n"
    using payload_at_patch[OF assms(1) written(2)] same by simp
  have dom: "dom ?p = dom (invalidate_patch [] [] None None None)"
    by (simp add: invalidate_patch_def)
  have fields: "(payload ++ ?p) k = payload k" if "k \<notin> dom (invalidate_patch [] [] None None None)" for k
    using that unfolding dom[symmetric] by (auto simp: map_add_def split: option.splits)
  have data: "dget (payload ++ ?p) ''data'' = dget payload ''data''"
    unfolding dget_map_add by (simp add: invalidate_patch_def)
  have "dget (payload ++ ?p) DISPLACEMENT_PROTECTED_UNTIL = PNone"
    unfolding dget_map_add by (simp add: invalidate_patch_def)
  moreover have "superseded_ids (payload ++ ?p) = clean_ids bs"
    by (simp add: superseded_ids_patch superseded_ids_list)
  moreover have "\<forall>x \<in> set (pairs w'). pr_old x = mid \<longrightarrow> pr_disposition x \<noteq> DOpen"
    using up by (simp add: written(6) close_for_old_def Let_def ball_upd_where set_disposition_def)
  moreover have "inv_by v = clean_ids bs"
    "inv_closed v = rowcount (\<lambda>x. pr_old x = mid \<and> pr_disposition x = DOpen) (pairs w)"
    using written(5) up by (simp_all add: close_for_old_def Let_def)
  ultimately show ?thesis
    using chk d' other fields data by (simp add: is_displacement_protected_def text_of_def)
qed simp

text \<open>C5: \<^verbatim>\<open>invalidate\<close> on success: the memory's successors are the named ids, without repetitions and
  blanks; every other memory and every payload field outside the lifecycle fields is untouched, so
  the text is; it is not protected any more, no open suspicion about it is left, and the result counts
  the suspicions closed.\<close>

theorem invalidate_effect:
  assumes "qdrant_ok (qd E)" "invalidate E mid bs reason actor session now t w = (Inr v, w')"
  shows "inv_by v = clean_ids bs \<and> clean_ids bs \<noteq> [] \<and> mid \<notin> set (clean_ids bs) \<and>
    (\<exists>d d'. payload_at E w mid = Some d \<and> payload_at E w' mid = Some d' \<and>
       superseded_ids d = [] \<and> superseded_ids d' = clean_ids bs \<and> text_of d' = text_of d \<and>
       (\<forall>k. k \<notin> dom (invalidate_patch [] [] None None None) \<longrightarrow> d' k = d k) \<and>
       (\<forall>clock. \<not> is_displacement_protected d' clock)) \<and>
    (\<forall>n. n \<noteq> mid \<longrightarrow> payload_at E w' n = payload_at E w n) \<and>
    (\<forall>x \<in> set (pairs w'). pr_old x = mid \<longrightarrow> pr_disposition x \<noteq> DOpen) \<and>
    inv_closed v = rowcount (\<lambda>x. pr_old x = mid \<and> pr_disposition x = DOpen) (pairs w)"
  by (rule invalidate_facts[OF assms])

theorem invalidate_effect_witness:
  "\<exists>v w'. invalidate demo_env ''a'' [''b''] None None None ''now'' 0 (demo_world two_memories) = (Inr v, w') \<and>
     inv_by v = [''b''] \<and> (\<forall>n. n \<noteq> ''a'' \<longrightarrow> payload_at demo_env w' n = payload_at demo_env (demo_world two_memories) n)"
proof -
  obtain v w' where i: "invalidate demo_env ''a'' [''b''] None None None ''now'' 0 (demo_world two_memories) = (Inr v, w')"
    using demo_invalidate by blast
  with invalidate_effect[OF _ i] show ?thesis
    by (intro exI[of _ v] exI[of _ w']) (simp add: dict_qdrant_ok clean_ids_def)
qed

text \<open>The two ways a revival ends.\<close>

lemma revive_cases:
  assumes "revive E mid actor session now w = (r, w')"
  obtains (refused) e where "r = Inl e" "w' = w"
  | (written) payload w1 where
      "payload_at E w mid = Some payload" "superseded_ids payload \<noteq> []"
      "patch_memory E mid (revive_patch now actor session) w = Some w1"
      "store w' = store w1" "pairs w' = pairs w"
      "r = Inr \<lparr>rev_id = mid, rev_previous = superseded_ids payload, rev_at = now\<rparr>"
proof (cases r)
  case (Inl e)
  with assms show ?thesis
    by (intro refused[of e]) (auto simp: revive_def Let_def split: option.splits if_splits)
next
  case (Inr v)
  from assms Inr obtain payload w1 where p: "payload_at E w mid = Some payload"
      "superseded_ids payload \<noteq> []" "patch_memory E mid (revive_patch now actor session) w = Some w1"
    by (auto simp: revive_def Let_def split: option.splits if_splits)
  moreover from p(3) have "pairs w1 = pairs w" by (auto simp: patch_memory_def)
  ultimately show ?thesis
    using assms by (intro written[of payload w1]) (auto simp: revive_def Let_def)
qed

lemma revive_edges:
  assumes "qdrant_ok (qd E)" "revive E mid actor session now w = (r, w')"
  shows "supersession E w' \<subseteq> supersession E w"
  using assms(2)
proof (cases rule: revive_cases)
  case (written payload w1)
  have "successors E w' n = (if n = mid then [] else successors E w n)" for n
    using successors_patch[OF assms(1) written(3), of n] written(1)
    by (simp add: successors_cong[OF written(4), of E] superseded_ids_null)
  then show ?thesis by (auto simp: supersession_def split: if_splits)
qed simp

text \<open>C6: An invalidation is reversible. Reviving a memory that was just invalidated brings it back to
  the pool with every field outside the lifecycle bookkeeping at its old value, and names what had
  superseded it. A protection that the invalidation ended is not brought back. The only failure left
  is that of the store's own write.\<close>

theorem revive_undoes_invalidate:
  assumes "qdrant_ok (qd E)" "invalidate E mid bs reason actor session now t w = (Inr v, w')"
    and "revive E mid actor' session' now' w' = (r, w'')"
  shows "((r = Inl StoreFailed \<and> w'' = w') \<or>
    (\<exists>d d''. r = Inr \<lparr>rev_id = mid, rev_previous = clean_ids bs, rev_at = now'\<rparr> \<and>
       payload_at E w mid = Some d \<and> payload_at E w'' mid = Some d'' \<and>
       superseded_ids d'' = [] \<and>
       (\<forall>k. k \<notin> dom (invalidate_patch [] [] None None None) \<union> dom (revive_patch [] None None) \<longrightarrow>
          d'' k = d k) \<and>
       (\<forall>clock. \<not> is_displacement_protected d'' clock))) \<and>
    (\<forall>n. n \<noteq> mid \<longrightarrow> payload_at E w'' n = payload_at E w n)"
proof -
  from invalidate_facts[OF assms(1,2)] obtain d d' where d: "payload_at E w mid = Some d"
      "payload_at E w' mid = Some d'" "superseded_ids d' = clean_ids bs" "clean_ids bs \<noteq> []"
      "\<forall>k. k \<notin> dom (invalidate_patch [] [] None None None) \<longrightarrow> d' k = d k"
      "\<forall>clock. \<not> is_displacement_protected d' clock"
      "\<forall>n. n \<noteq> mid \<longrightarrow> payload_at E w' n = payload_at E w n"
    by blast
  let ?p = "revive_patch now' actor' session'"
  show ?thesis
  proof (cases "patch_memory E mid ?p w'")
    case None
    with assms(3) d show ?thesis by (simp add: revive_def)
  next
    case (Some w1)
    have r: "r = Inr \<lparr>rev_id = mid, rev_previous = clean_ids bs, rev_at = now'\<rparr>"
        and st: "store w'' = store w1"
      using assms(3) d Some by (auto simp: revive_def)
    have at: "payload_at E w'' n = (if n = mid then Some (d' ++ ?p) else payload_at E w' n)" for n
      using payload_at_patch[OF assms(1) Some, of n] d(2) st by simp
    have dom: "dom ?p = dom (revive_patch [] None None)"
      by (simp add: revive_patch_def)
    have "(d' ++ ?p) k = d k"
      if "k \<notin> dom (invalidate_patch [] [] None None None) \<union> dom (revive_patch [] None None)" for k
      using that d(5) unfolding dom[symmetric] by (auto simp: map_add_def split: option.splits)
    moreover have "superseded_ids (d' ++ ?p) = []"
      by (simp add: superseded_ids_patch superseded_ids_null)
    moreover have "dget (d' ++ ?p) DISPLACEMENT_PROTECTED_UNTIL = dget d' DISPLACEMENT_PROTECTED_UNTIL"
      unfolding dget_map_add by (simp add: revive_patch_def)
    ultimately show ?thesis
      using r at d by (simp add: is_displacement_protected_def)
  qed
qed

theorem revive_undoes_invalidate_witness:
  "\<exists>v w' r w''. invalidate demo_env ''a'' [''b''] None None None ''now'' 0 (demo_world two_memories) = (Inr v, w') \<and>
     revive demo_env ''a'' None None ''later'' w' = (r, w'') \<and>
     payload_at demo_env w'' ''b'' = payload_at demo_env (demo_world two_memories) ''b''"
proof -
  obtain v w' where i: "invalidate demo_env ''a'' [''b''] None None None ''now'' 0 (demo_world two_memories) = (Inr v, w')"
    using demo_invalidate by blast
  obtain r w'' where r: "revive demo_env ''a'' None None ''later'' w' = (r, w'')"
    by (cases "revive demo_env ''a'' None None ''later'' w'")
  have "\<forall>n. n \<noteq> ''a'' \<longrightarrow> payload_at demo_env w'' n = payload_at demo_env (demo_world two_memories) n"
    using revive_undoes_invalidate[OF _ i r] dict_qdrant_ok by simp
  then have "payload_at demo_env w'' ''b'' = payload_at demo_env (demo_world two_memories) ''b''"
    by (rule allE[of _ "''b''"]) simp
  with i r show ?thesis by blast
qed

subsection \<open>The check and the walk agree\<close>

lemma vs_get_pay: "pay_of (vs_get (qd E) (store w)) n =
    (case payload_at E w n of None \<Rightarrow> Map.empty | Some p \<Rightarrow> p)"
  by (simp add: pay_of_def point_payload_def split: option.splits)

lemma vs_get_next: "next_of (vs_get (qd E) (store w)) n = successors E w n"
  by (simp add: next_of_def vs_get_pay successors_def superseded_ids_def dget_def split: option.splits)

lemma head_level_nxt:
  "head_level get ns V hs nxt = Some (V', hs', nxt') \<Longrightarrow> t \<notin> set ns \<Longrightarrow>
   (\<And>n. n \<noteq> t \<Longrightarrow> next_of get n = succ n) \<Longrightarrow>
   \<exists>U. visit_level succ t ns (V - {t}) nxt = Inr (U, nxt') \<and> V' - {t} = U"
proof (induction get ns V hs nxt rule: head_level.induct)
  case (2 get n ns V hs nxt)
  show ?case
  proof (cases "n \<in> V")
    case True
    with 2 show ?thesis by auto
  next
    case new: False
    with 2(5) obtain found where g: "get n = Some found"
      by (auto split: option.splits)
    have p: "(case found of None \<Rightarrow> Map.empty | Some p \<Rightarrow> p) = pay_of get n"
      by (simp add: pay_of_def g)
    have t: "n \<noteq> t" "t \<notin> set ns" using 2(6) by auto
    have sn: "succ n = superseded_ids (pay_of get n)" using 2(7)[OF t(1)] by (simp add: next_of_def)
    have ins: "insert n (V - {t}) = insert n V - {t}" using t by auto
    show ?thesis
      using 2(2-4)[OF new g p[symmetric]] 2(5,7) t new g p sn
      by (auto simp: ins Let_def simp del: not_None_eq split: if_splits)
  qed
qed simp

lemma head_walk_bounded:
  assumes "cycle_walk succ t k F (V - {t}) = Inr ()" "\<And>n. n \<noteq> t \<Longrightarrow> next_of get n = succ n"
    "head_walk k get F V hs h = Some (hs', h')"
  shows "if F = [] then h' = h else h' < h + k"
  using assms
proof (induction k get F V hs h rule: head_walk.induct)
  case (3 k get n ns V hs h)
  from 3(4) obtain V1 hs1 nxt where lv: "head_level get (n # ns) V hs [] = Some (V1, hs1, nxt)"
      and rest: "head_walk k get nxt V1 hs1 (if nxt = [] then h else Suc h) = Some (hs', h')"
    by (auto split: option.splits)
  from 3(2) obtain U nx where "visit_level succ t (n # ns) (V - {t}) [] = Inr (U, nx)"
    by (auto split: sum.splits simp del: visit_level.simps)
  then have "t \<notin> set (n # ns)" by (drule_tac visit_level_Inr) blast
  from head_level_nxt[OF lv this 3(3)]
  have vl: "visit_level succ t (n # ns) (V - {t}) [] = Inr (V1 - {t}, nxt)" by auto
  with 3(2) have "cycle_walk succ t k nxt (V1 - {t}) = Inr ()" by simp
  from 3(1)[OF lv refl refl this 3(3) rest] show ?case by (auto split: if_splits)
qed simp_all

text \<open>C8: The two walks agree: right after a successful \<^verbatim>\<open>invalidate\<close>, \<^verbatim>\<open>resolve_head\<close> on the memory is
  never cut by the bound. Unless the client raises on the way, it lists every active memory that
  the memory leads to, and the memory itself is not among them.\<close>

theorem invalidate_resolvable:
  assumes "qdrant_ok (qd E)" "invalidate E mid bs reason actor session now t w = (Inr v, w')"
    and "resolve_head (vs_get (qd E) (store w')) mid = Inr res"
  shows "res_hops res \<le> MAX_CHAIN_DEPTH \<and> mid \<notin> set (res_heads res) \<and>
    set (res_heads res) =
      {n. (mid, n) \<in> (supersession E w')\<^sup>* \<and> is_head (vs_get (qd E) (store w')) n}"
proof -
  let ?get = "vs_get (qd E) (store w')"
  obtain payload w1 where chk: "invalidate_check E mid (clean_ids bs) w = Inr payload"
      and pw: "patch_memory E mid (invalidate_patch (clean_ids bs) now reason actor session) w = Some w1"
      and st: "store w' = store w1"
    using assms(2) by (cases rule: invalidate_cases) auto
  have succs: "successors E w' = (successors E w)(mid := clean_ids bs)"
    by (rule invalidate_edges(1)[OF assms(1) chk clean_ids_facts(1) pw st])
  have nx: "next_of ?get n = successors E w n" if "n \<noteq> mid" for n
    using that by (simp add: vs_get_next succs)
  have nm: "next_of ?get mid = clean_ids bs" "clean_ids bs \<noteq> []"
    using invalidate_checkD(1)[OF chk] by (simp_all add: vs_get_next succs)
  obtain hs h where w: "head_walk (Suc MAX_CHAIN_DEPTH) ?get [mid] {} [] 0 = Some (hs, h)"
      and res: "res_heads res = hs" "res_hops res = h"
    using assms(3) by (auto simp: resolve_head_def split: option.splits)
  from w obtain V1 hs1 nxt where lv: "head_level ?get [mid] {} [] [] = Some (V1, hs1, nxt)"
      and rest: "head_walk MAX_CHAIN_DEPTH ?get nxt V1 hs1 (if nxt = [] then 0 else Suc 0) = Some (hs, h)"
    by (auto split: option.splits simp del: head_level.simps)
  have nxt: "nxt = clean_ids bs" "V1 = {mid}"
    using lv nm by (auto simp: next_of_def pay_of_def Let_def split: option.splits if_splits)
  have "cycle_walk (successors E w) mid MAX_CHAIN_DEPTH nxt (V1 - {mid}) = Inr ()"
    using invalidate_checkD(6)[OF chk] by (simp add: nxt)
  from head_walk_bounded[OF this nx rest] have hops: "h \<le> MAX_CHAIN_DEPTH"
    using nm by (simp add: nxt)
  have edges: "head_edges ?get = supersession E w'"
    by (simp add: head_edges_def supersession_def vs_get_next)
  have heads: "set hs = {n. (mid, n) \<in> (supersession E w')\<^sup>* \<and> is_head ?get n}"
    using resolve_head_facts[OF assms(3)] hops by (simp add: res edges)
  moreover have "\<not> is_head ?get mid" using nm by (simp add: is_head_def next_of_def)
  ultimately show ?thesis using hops by (simp add: res)
qed

theorem invalidate_resolvable_witness:
  "\<exists>v w' res. invalidate demo_env ''a'' [''b''] None None None ''now'' 0 (demo_world two_memories) = (Inr v, w') \<and>
     resolve_head (vs_get (qd demo_env) (store w')) ''a'' = Inr res \<and> res_hops res \<le> MAX_CHAIN_DEPTH"
proof -
  obtain v w' where i: "invalidate demo_env ''a'' [''b''] None None None ''now'' 0 (demo_world two_memories) = (Inr v, w')"
      and st: "store w' = invalidated_memories"
    using demo_invalidate by blast
  let ?a = "[''data'' \<mapsto> PStr ''old text''] ++ invalidate_patch [''b''] ''now'' None None None"
  let ?b = "[''data'' \<mapsto> PStr ''new text''] :: payload"
  have g: "vs_get dict_qdrant (store w') ''a'' = Some (Some ?a)"
      "vs_get dict_qdrant (store w') ''b'' = Some (Some ?b)"
    by (simp_all add: vs_get_def dict_qdrant_def st invalidated_memories_def)
  have s: "superseded_ids ?a = [''b'']" "superseded_ids ?b = []"
    by (simp_all add: superseded_ids_patch superseded_ids_list del: list.map) (simp add: superseded_ids_def dget_def)
  have "\<exists>res. resolve_head (vs_get (qd demo_env) (store w')) ''a'' = Inr res"
    by (simp add: resolve_head_def head_walk_step g s MAX_CHAIN_DEPTH_def Let_def del: map_add_upd)
  then obtain res where res: "resolve_head (vs_get (qd demo_env) (store w')) ''a'' = Inr res" by blast
  from invalidate_resolvable[OF _ i res] i res show ?thesis
    by (simp add: dict_qdrant_ok)
qed

end
