(* ===== verification/Mem0_Client.thy ===== *)
theory Mem0_Client
  imports Memory_Store
begin

text \<open>
  The operations of the vendored mem0 client that the memory operations call:
  \<^verbatim>\<open>Memory.get_all\<close>, \<^verbatim>\<open>update\<close> and \<^verbatim>\<open>delete\<close> of \<^verbatim>\<open>src/vendor/mem0ai/mem0/memory/main.py\<close>, down to
  the calls of the vector store and of the history table. The entity collection, which mem0
  maintains beside the memories and whose errors it swallows, telemetry and notices are left out.
\<close>

subsection \<open>Listing\<close>

definition promoted_payload_keys :: "string list" where
  "promoted_payload_keys =
     [''user_id'', ''agent_id'', ''run_id'', ''actor_id'', ''role'', ''attributed_to'', ''expiration_date'']"

definition core_and_promoted_keys :: "string list" where
  "core_and_promoted_keys =
     [''data'', ''hash'', ''created_at'', ''updated_at'', ''id'', ''text_lemmatized'', ''attributed_to'']
       @ promoted_payload_keys"

definition format_item :: "string \<times> payload \<Rightarrow> item" where
  "format_item mp =
     (let (mid, p) = mp in
      \<lparr>it_fields =
         [''id'' \<mapsto> PStr mid,
          ''memory'' \<mapsto> (case p ''data'' of None \<Rightarrow> PStr [] | Some v \<Rightarrow> v),
          ''hash'' \<mapsto> dget p ''hash'', ''created_at'' \<mapsto> dget p ''created_at'',
          ''updated_at'' \<mapsto> dget p ''updated_at'']
         ++ (\<lambda>k. if k \<in> set promoted_payload_keys then p k else None),
       it_metadata = (\<lambda>k. if k \<in> set core_and_promoted_keys then None else p k)\<rparr>)"

text \<open>\<^verbatim>\<open>_validate_and_trim_entity_id\<close>: \<open>None\<close> is the \<^verbatim>\<open>ValueError\<close>.\<close>

definition trim_entity_id :: "pyval \<Rightarrow> pyval option" where
  "trim_entity_id v =
     (if v = PNone then Some PNone
      else let t = strip (py_str v)
           in if t = [] \<or> list_ex is_space t then None else Some (PStr t))"

fun trim_filters :: "string list \<Rightarrow> payload \<Rightarrow> payload option" where
  "trim_filters [] flt = Some flt"
| "trim_filters (k # ks) flt =
     (case flt k of
        None \<Rightarrow> trim_filters ks flt
      | Some v \<Rightarrow> (case trim_entity_id v of
                     None \<Rightarrow> None | Some v' \<Rightarrow> trim_filters ks (flt(k \<mapsto> v'))))"

definition scope_keys :: "string list" where
  "scope_keys = [''user_id'', ''agent_id'', ''run_id'']"

text \<open>
  \<^verbatim>\<open>Memory.get_all\<close> with its default \<^verbatim>\<open>show_expired=False\<close>; \<open>None\<close> is any exception. The loop of
  \<^verbatim>\<open>_get_all_from_vector_store\<close> tests the limit after it has appended an item, so a limit of zero
  still returns one.
\<close>

definition get_all :: "'q env \<Rightarrow> payload \<Rightarrow> nat \<Rightarrow> 'q world \<Rightarrow> item list option" where
  "get_all E flt limit w =
     (case trim_filters scope_keys flt of
        None \<Rightarrow> None
      | Some flt' \<Rightarrow>
          if \<not> list_ex (\<lambda>k. flt' k \<noteq> None) scope_keys then None
          else (case q_scroll (qd E) (store w) flt' (max (limit * 4) 60) of
            None \<Rightarrow> None
          | Some rows \<Rightarrow>
              Some (map format_item (take (max 1 limit) (filter (\<lambda>r. \<not> mem_expired E (snd r)) rows)))))"

subsection \<open>Updating and deleting one memory\<close>

definition updated_payload ::
  "'q env \<Rightarrow> payload \<Rightarrow> string \<Rightarrow> payload \<Rightarrow> string \<Rightarrow> payload" where
  "updated_payload E p txt metadata now =
     (let new = p ++ metadata ++
            [''data'' \<mapsto> PStr txt, ''hash'' \<mapsto> PStr (md5 E txt),
             ''text_lemmatized'' \<mapsto> PStr (lemmatize E txt), ''created_at'' \<mapsto> dget p ''created_at'',
             ''updated_at'' \<mapsto> PStr now]
      in case p ''actor_id'' of None \<Rightarrow> new | Some a \<Rightarrow> new(''actor_id'' \<mapsto> a))"

text \<open>\<^verbatim>\<open>Memory.update(memory_id, text, metadata=metadata)\<close>. The text is embedded before the store is
  read.\<close>

definition mem0_update ::
  "'q env \<Rightarrow> string \<Rightarrow> string \<Rightarrow> payload \<Rightarrow> string \<Rightarrow> 'q world \<Rightarrow> (stale_error + unit) \<times> 'q world" where
  "mem0_update E mid txt metadata now w =
     (if \<not> embeds E txt then (Inl EmbedFailed, w)
      else case vs_get (qd E) (store w) mid of
        None \<Rightarrow> (Inl StoreFailed, w)
      | Some None \<Rightarrow> (Inl (MemoryNotFound mid), w)
      | Some (Some p) \<Rightarrow>
          let new = updated_payload E p txt metadata now in
          (case vs_update (qd E) True (store w) mid new of
             None \<Rightarrow> (Inl StoreFailed, w)
           | Some q \<Rightarrow>
               let w1 = w\<lparr>store := q\<rparr>;
                   row = \<lparr>h_memory = mid, h_old = dget p ''data'', h_new = PStr txt,
                          h_event = ''UPDATE'', h_created = dget new ''created_at'',
                          h_updated = PStr now, h_deleted = False,
                          h_actor = dget new ''actor_id'', h_role = dget new ''role''\<rparr>
               in case add_history E row w1 of
                    None \<Rightarrow> (Inl HistoryFailed, w1)
                  | Some w2 \<Rightarrow> (Inr (), w2)))"

text \<open>\<^verbatim>\<open>Memory.delete(memory_id)\<close>.\<close>

definition mem0_delete ::
  "'q env \<Rightarrow> string \<Rightarrow> string \<Rightarrow> 'q world \<Rightarrow> (stale_error + unit) \<times> 'q world" where
  "mem0_delete E mid now w =
     (case vs_get (qd E) (store w) mid of
        None \<Rightarrow> (Inl StoreFailed, w)
      | Some None \<Rightarrow> (Inl (MemoryNotFound mid), w)
      | Some (Some p) \<Rightarrow>
          (case vs_delete (qd E) (store w) mid of
             None \<Rightarrow> (Inl StoreFailed, w)
           | Some q \<Rightarrow>
               let w1 = w\<lparr>store := q\<rparr>;
                   row = \<lparr>h_memory = mid,
                          h_old = (case p ''data'' of None \<Rightarrow> PStr [] | Some v \<Rightarrow> v), h_new = PNone,
                          h_event = ''DELETE'', h_created = norm_time E (dget p ''created_at''),
                          h_updated = PStr now, h_deleted = True,
                          h_actor = dget p ''actor_id'', h_role = dget p ''role''\<rparr>
               in case add_history E row w1 of
                    None \<Rightarrow> (Inl HistoryFailed, w1)
                  | Some w2 \<Rightarrow> (Inr (), w2)))"

subsection \<open>Facts\<close>

lemma trim_filters_None:
  "(\<And>k. k \<in> set ks \<Longrightarrow> flt k = None) \<Longrightarrow> trim_filters ks flt = Some flt"
  by (induction ks) auto

text \<open>A filter without a scope key is refused.\<close>

lemma get_all_unscoped:
  assumes "\<And>k. k \<in> set scope_keys \<Longrightarrow> flt k = None"
  shows "get_all E flt limit w = None"
  using assms trim_filters_None[of scope_keys flt]
  by (auto simp: get_all_def list_ex_iff split: option.splits)

lemma format_item_fields [simp]:
  "it_fields (format_item (mid, p)) ''id'' = Some (PStr mid)"
  "dget (it_fields (format_item (mid, p))) ''memory'' =
     (case p ''data'' of None \<Rightarrow> PStr [] | Some v \<Rightarrow> v)"
  by (simp_all add: format_item_def promoted_payload_keys_def dget_def map_add_def)

lemma format_item_metadata:
  "k \<notin> set core_and_promoted_keys \<Longrightarrow> dget (it_metadata (format_item (mid, p))) k = dget p k"
  by (simp add: format_item_def dget_def)

text \<open>A text update keeps the successors and the rest of the lifecycle fields, unless the metadata
  sets them.\<close>

lemma updated_payload_keeps:
  assumes "metadata k = None"
    "k \<notin> {''data'', ''hash'', ''text_lemmatized'', ''created_at'', ''updated_at''}"
  shows "updated_payload E p txt metadata now k = p k"
  using assms by (auto simp: updated_payload_def Let_def map_add_def split: option.splits)

lemma updated_payload_text: "text_of (updated_payload E p txt metadata now) = txt"
  by (simp add: updated_payload_def Let_def text_of_def dget_def str_or_empty_def split: option.splits)

lemma mem0_update_effect:
  assumes "qdrant_ok (qd E)" "mem0_update E mid txt metadata now w = (Inr (), w')"
  shows "\<exists>p. payload_at E w mid = Some p \<and>
    payload_at E w' mid = Some (updated_payload E p txt metadata now) \<and> pairs w' = pairs w \<and>
    (\<forall>n. n \<noteq> mid \<longrightarrow> payload_at E w' n = payload_at E w n)"
proof -
  from assms(2) obtain p where p: "vs_get (qd E) (store w) mid = Some (Some p)"
      and u: "vs_update (qd E) True (store w) mid (updated_payload E p txt metadata now) = Some (store w')"
      and "pairs w' = pairs w"
    by (auto simp: mem0_update_def Let_def add_history_def split: if_splits option.splits)
  then show ?thesis
    using point_payload_upsert[OF assms(1) u] by (simp add: point_payload_def)
qed

lemma mem0_delete_effect:
  assumes "qdrant_ok (qd E)" "mem0_delete E mid now w = (Inr (), w')"
  shows "payload_at E w mid \<noteq> None \<and> payload_at E w' mid = None \<and> pairs w' = pairs w \<and>
    (\<forall>n. n \<noteq> mid \<longrightarrow> payload_at E w' n = payload_at E w n)"
proof -
  from assms(2) obtain p where p: "vs_get (qd E) (store w) mid = Some (Some p)"
      and u: "vs_delete (qd E) (store w) mid = Some (store w')" and "pairs w' = pairs w"
    by (auto simp: mem0_delete_def Let_def add_history_def split: if_splits option.splits)
  then show ?thesis
    using point_payload_delete[OF assms(1) u] by (simp add: point_payload_def)
qed

end
