(* ===== verification/Lifecycle.thy ===== *)
theory Lifecycle
  imports Supersession Mem0_Client
begin

text \<open>
  Pool exit by time and its relatives: \<^verbatim>\<open>set_displacement_protection\<close>,
  \<^verbatim>\<open>clear_displacement_protection\<close>, \<^verbatim>\<open>set_ttl\<close>, \<^verbatim>\<open>harvest_expired\<close> and \<^verbatim>\<open>delete_guard\<close> of
  \<^verbatim>\<open>src/src/memline/staleness.py\<close>. A number of days is the rational it denotes; a
  \<^verbatim>\<open>timedelta\<close> is its exact value in microseconds, rounded half to even.
\<close>

definition DEFAULT_TTL_DAYS :: rat where "DEFAULT_TTL_DAYS = 7"
definition DEFAULT_DISPLACEMENT_PROTECTION_DAYS :: rat where "DEFAULT_DISPLACEMENT_PROTECTION_DAYS = 30"
definition MAX_DISPLACEMENT_PROTECTION_DAYS :: rat where "MAX_DISPLACEMENT_PROTECTION_DAYS = 90"
definition MAX_PROTECTION_REASON_CHARS :: nat where "MAX_PROTECTION_REASON_CHARS = 500"

definition round_half_even :: "rat \<Rightarrow> int" where
  "round_half_even r =
     (let f = \<lfloor>r\<rfloor>; d = r - of_int f
      in if d < 1 / 2 then f else if 1 / 2 < d then f + 1 else if even f then f else f + 1)"

text \<open>\<^verbatim>\<open>timedelta(days=d)\<close>, \<open>None\<close> for the \<^verbatim>\<open>OverflowError\<close>; and adding it to a clock reading.\<close>

definition timedelta_us :: "rat \<Rightarrow> int option" where
  "timedelta_us d =
     (let us = round_half_even (d * 86400000000); n = us div 86400000000
      in if \<bar>n\<bar> \<le> 999999999 then Some us else None)"

definition add_us :: "time \<Rightarrow> int \<Rightarrow> time option" where
  "add_us t us =
     (let s = int t + us in if 0 \<le> s \<and> s < int time_end then Some (nat s) else None)"

definition days_later :: "time \<Rightarrow> rat \<Rightarrow> time option" where
  "days_later t d = (case timedelta_us d of None \<Rightarrow> None | Some us \<Rightarrow> add_us t us)"

definition or_empty :: "string option \<Rightarrow> string" where
  "or_empty s = (case s of None \<Rightarrow> [] | Some x \<Rightarrow> x)"

subsection \<open>Displacement protection\<close>

definition protection_fields :: "string list" where
  "protection_fields =
     [DISPLACEMENT_PROTECTED_UNTIL, DISPLACEMENT_PROTECTION_REASON, DISPLACEMENT_PROTECTED_AT,
      DISPLACEMENT_PROTECTED_BY_AGENT, DISPLACEMENT_PROTECTED_BY_SESSION]"

record protection =
  prot_id :: string
  prot_until :: string
  prot_reason :: string
  prot_agent :: string
  prot_session :: string
  prot_count :: nat
  prot_pairs :: "string list"

text \<open>
  \<open>t0\<close>, \<open>t1\<close> and \<open>t2\<close> are the clock readings of the expiry test, of \<^verbatim>\<open>now\<close> and of the deadline's
  base.
\<close>

definition set_displacement_protection ::
  "'q env \<Rightarrow> string \<Rightarrow> rat \<Rightarrow> string \<Rightarrow> string option \<Rightarrow> string option
     \<Rightarrow> time \<Rightarrow> time \<Rightarrow> time \<Rightarrow> 'q world \<Rightarrow> (stale_error + protection) \<times> 'q world" where
  "set_displacement_protection E mid days reason0 actor0 session0 t0 t1 t2 w =
     (case payload_at E w mid of
        None \<Rightarrow> (Inl (MemoryNotFound mid), w)
      | Some payload \<Rightarrow>
          let reason = strip reason0; actor = strip (or_empty actor0);
              session = strip (or_empty session0); txt = text_of payload in
          if is_invalidated payload then (Inl ProtectInvalidated, w)
          else if is_ttl_expired payload (iso_text t0) then (Inl ProtectExpired, w)
          else if reason = [] then (Inl EmptyReason, w)
          else if MAX_PROTECTION_REASON_CHARS < py_length reason then (Inl LongReason, w)
          else if days \<le> 0 \<or> MAX_DISPLACEMENT_PROTECTION_DAYS < days then (Inl BadDays, w)
          else if actor = [] \<or> session = [] then (Inl NoActor, w)
          else if \<not> pairs_up E then (Inl PairsFailed, w)
          else case consecutive_dismissed_displacement_evidence (sha E) mid txt
                      (int REQUIRED_CONSECUTIVE) (pairs w) of
            Inl _ \<Rightarrow> (Inl (BadArgument ''required''), w)
          | Inr ev \<Rightarrow>
              if \<not> eligible ev then (Inl (NotEligible (consecutive_count ev)), w)
              else case days_later t2 days of
                None \<Rightarrow> (Inl DateOverflow, w)
              | Some u \<Rightarrow>
                  let patch =
                        [DISPLACEMENT_PROTECTED_UNTIL \<mapsto> PStr (iso_text u),
                         DISPLACEMENT_PROTECTION_REASON \<mapsto> PStr reason,
                         DISPLACEMENT_PROTECTED_AT \<mapsto> PStr (iso_text t1),
                         DISPLACEMENT_PROTECTED_BY_AGENT \<mapsto> PStr actor,
                         DISPLACEMENT_PROTECTED_BY_SESSION \<mapsto> PStr session]
                  in case patch_memory E mid patch w of
                    None \<Rightarrow> (Inl StoreFailed, w)
                  | Some w1 \<Rightarrow>
                      (Inr \<lparr>prot_id = mid, prot_until = iso_text u, prot_reason = reason,
                            prot_agent = actor, prot_session = session,
                            prot_count = consecutive_count ev, prot_pairs = evidence_pair_ids ev\<rparr>,
                       try_history E (lifecycle_row mid txt ''PROTECT_DISPLACEMENT'' (iso_text t1)
                         (Some actor)) w1))"

definition null_patch :: "string list \<Rightarrow> payload" where
  "null_patch ks = map_of (map (\<lambda>k. (k, PNone)) ks)"

text \<open>The result is \<^verbatim>\<open>changed\<close>.\<close>

definition clear_displacement_protection ::
  "'q env \<Rightarrow> string \<Rightarrow> string option \<Rightarrow> string \<Rightarrow> 'q world \<Rightarrow> (stale_error + bool) \<times> 'q world" where
  "clear_displacement_protection E mid actor now w =
     (case payload_at E w mid of
        None \<Rightarrow> (Inl (MemoryNotFound mid), w)
      | Some payload \<Rightarrow>
          if list_ex (\<lambda>k. dget payload k \<noteq> PNone) protection_fields then
            (case patch_memory E mid (null_patch protection_fields) w of
               None \<Rightarrow> (Inl StoreFailed, w)
             | Some w1 \<Rightarrow>
                 (Inr True, try_history E (lifecycle_row mid (text_of payload)
                    ''UNPROTECT_DISPLACEMENT'' now actor) w1))
          else (Inr False, w))"

subsection \<open>Deadlines\<close>

datatype ttl_request = TtlClear | TtlExpireNow | TtlAt string | TtlDays "rat option"

text \<open>The keyword arguments of \<^verbatim>\<open>set_ttl\<close> in the order the code looks at them.\<close>

definition ttl_request_of ::
  "rat option \<Rightarrow> string option \<Rightarrow> bool \<Rightarrow> bool \<Rightarrow> ttl_request" where
  "ttl_request_of days expires_at clear expire_now =
     (if clear then TtlClear else if expire_now then TtlExpireNow
      else case expires_at of Some e \<Rightarrow> TtlAt e | None \<Rightarrow> TtlDays days)"

definition ttl_deadline :: "ttl_request \<Rightarrow> string \<Rightarrow> time \<Rightarrow> stale_error + string option" where
  "ttl_deadline rq now t =
     (case rq of
        TtlClear \<Rightarrow> Inr None
      | TtlExpireNow \<Rightarrow> Inr (Some now)
      | TtlAt e \<Rightarrow> Inr (Some e)
      | TtlDays d \<Rightarrow>
          (case days_later t (case d of None \<Rightarrow> DEFAULT_TTL_DAYS | Some x \<Rightarrow> x) of
             None \<Rightarrow> Inl DateOverflow | Some u \<Rightarrow> Inr (Some (iso_text u))))"

definition ttl_patch :: "ttl_request \<Rightarrow> string option \<Rightarrow> string \<Rightarrow> string option \<Rightarrow> payload" where
  "ttl_patch rq deadline now actor =
     (case deadline of
        None \<Rightarrow> [TTL_EXPIRES_AT \<mapsto> PNone, TTL_EXPIRED_AT \<mapsto> PNone]
      | Some e \<Rightarrow>
          [TTL_EXPIRES_AT \<mapsto> PStr e,
           TTL_EXPIRED_AT \<mapsto> (if rq = TtlExpireNow then PStr now else PNone),
           ''ttl_set_at'' \<mapsto> PStr now, ''ttl_set_by'' \<mapsto> opt_str actor])"

definition ttl_event :: "ttl_request \<Rightarrow> string" where
  "ttl_event rq =
     (case rq of TtlClear \<Rightarrow> ''TTL_CLEAR'' | TtlExpireNow \<Rightarrow> ''TTL_EXPIRE'' | _ \<Rightarrow> ''TTL_SET'')"

text \<open>The result is the new deadline. \<open>now\<close> is the text of \<^verbatim>\<open>_now_iso()\<close>, \<open>t\<close> the base of a deadline in
  days, \<open>tc\<close> the reading stored in the closed pairs.\<close>

definition set_ttl ::
  "'q env \<Rightarrow> string \<Rightarrow> ttl_request \<Rightarrow> string option \<Rightarrow> string \<Rightarrow> time \<Rightarrow> time \<Rightarrow> 'q world
     \<Rightarrow> (stale_error + string option) \<times> 'q world" where
  "set_ttl E mid rq actor now t tc w =
     (case payload_at E w mid of
        None \<Rightarrow> (Inl (MemoryNotFound mid), w)
      | Some payload \<Rightarrow>
          (case ttl_deadline rq now t of
             Inl e \<Rightarrow> (Inl e, w)
           | Inr deadline \<Rightarrow>
               (case patch_memory E mid (ttl_patch rq deadline now actor) w of
                  None \<Rightarrow> (Inl StoreFailed, w)
                | Some w1 \<Rightarrow>
                    let w2 = try_pairs E (close_for_old mid DTtl actor (Some TtlExpiry) tc) w1
                    in (Inr deadline,
                        try_history E (lifecycle_row mid (text_of payload) (ttl_event rq) now actor) w2))))"

subsection \<open>Harvest\<close>

text \<open>\<open>uid\<close>, \<open>tc\<close> and \<open>tj\<close> of the \<open>i\<close>-th item: the row id and the clock readings of the two pair
  statements.\<close>

record stamps =
  st_uid :: "nat \<Rightarrow> string"
  st_close :: "nat \<Rightarrow> time"
  st_judge :: "nat \<Rightarrow> time"

definition item_id :: "item \<Rightarrow> string" where
  "item_id it = str_or_empty (dget (it_fields it) ''id'')"

definition item_memory :: "item \<Rightarrow> string" where
  "item_memory it = str_or_empty (dget (it_fields it) ''memory'')"

definition item_deadline :: "item \<Rightarrow> string" where
  "item_deadline it =
     str_or_empty (por (dget (it_metadata it) TTL_EXPIRES_AT) (dget (it_fields it) TTL_EXPIRES_AT))"

definition harvestable :: "item \<Rightarrow> string \<Rightarrow> bool" where
  "harvestable it now \<longleftrightarrow>
     item_id it \<noteq> [] \<and> \<not> truthy (dget (it_metadata it) TTL_EXPIRED_AT) \<and>
     (is_ttl_expired (it_metadata it) now \<or> is_ttl_expired (it_fields it) now)"

definition ttl_reason :: "string \<Rightarrow> string \<Rightarrow> string" where
  "ttl_reason expires now =
     ''ttl expired at '' @ (if expires = [] then now else expires) @
     ''; the entry left the search pool. `stale confirm` accepts the expiry, `stale ttl` renews.''"

definition harvest_flag :: "'q env \<Rightarrow> string \<Rightarrow> string \<Rightarrow> item \<Rightarrow> string \<Rightarrow> time \<Rightarrow> time \<Rightarrow> 'q world \<Rightarrow> 'q world" where
  "harvest_flag E mid now it uid tc tj w =
     try_pairs E (\<lambda>rows.
       let (_, rows1) = close_for_old mid DExpired None None tc rows;
           old_text = item_memory it @ ''@@'' @ item_deadline it
       in record_judgment (sha E) uid tj TtlExpiry mid mid old_text ''TTL_EXPIRED'' (Some 1)
            (Some (ttl_reason (item_deadline it) now)) None None rows1) w"

definition harvest_item ::
  "'q env \<Rightarrow> string \<Rightarrow> stamps \<Rightarrow> nat \<Rightarrow> item \<Rightarrow> 'q world \<Rightarrow> (stale_error + nat) \<times> 'q world" where
  "harvest_item E now st i it w =
     (if \<not> harvestable it now then (Inr 0, w)
      else case patch_memory E (item_id it) [TTL_EXPIRED_AT \<mapsto> PStr now] w of
        None \<Rightarrow> (Inl StoreFailed, w)
      | Some w1 \<Rightarrow>
          let w2 = try_history E (lifecycle_row (item_id it) (item_memory it) ''TTL_EXPIRE'' now None) w1
          in (Inr 1, harvest_flag E (item_id it) now it (st_uid st i) (st_close st i) (st_judge st i) w2))"

fun harvest_loop ::
  "'q env \<Rightarrow> string \<Rightarrow> stamps \<Rightarrow> nat \<Rightarrow> item list \<Rightarrow> 'q world \<Rightarrow> (stale_error + nat) \<times> 'q world" where
  "harvest_loop E now st i [] w = (Inr 0, w)"
| "harvest_loop E now st i (it # its) w =
     (case harvest_item E now st i it w of
        (Inl e, w1) \<Rightarrow> (Inl e, w1)
      | (Inr n, w1) \<Rightarrow>
          (case harvest_loop E now st (Suc i) its w1 of
             (Inl e, w2) \<Rightarrow> (Inl e, w2)
           | (Inr m, w2) \<Rightarrow> (Inr (n + m), w2)))"

text \<open>The scan, and the result \<open>None\<close> of a scan that failed (\<^verbatim>\<open>{"harvested": 0, "error": ...}\<close>).\<close>

definition ttl_scan :: "string \<Rightarrow> string \<Rightarrow> payload" where
  "ttl_scan user now =
     [''user_id'' \<mapsto> PStr user, TTL_EXPIRES_AT \<mapsto> PDict [(''lte'', PStr now)]]"

definition harvest_expired ::
  "'q env \<Rightarrow> string \<Rightarrow> string \<Rightarrow> nat \<Rightarrow> stamps \<Rightarrow> 'q world \<Rightarrow> (stale_error + nat option) \<times> 'q world" where
  "harvest_expired E user now limit st w =
     (case get_all E (ttl_scan user now) limit w of
        None \<Rightarrow> (Inr None, w)
      | Some items \<Rightarrow>
          (case harvest_loop E now st 0 items w of
             (Inl e, w') \<Rightarrow> (Inl e, w')
           | (Inr n, w') \<Rightarrow> (Inr (Some n), w')))"

subsection \<open>The guard of hard deletion\<close>

datatype guard_verdict = GuardMissing | GuardSuperseded | GuardSupersedes | GuardFree

definition participates :: "guard_verdict \<Rightarrow> bool" where
  "participates g = (g = GuardSuperseded \<or> g = GuardSupersedes)"

definition delete_guard :: "'q env \<Rightarrow> string \<Rightarrow> 'q world \<Rightarrow> guard_verdict" where
  "delete_guard E mid w =
     (case payload_at E w mid of
        None \<Rightarrow> GuardMissing
      | Some payload \<Rightarrow>
          if superseded_ids payload \<noteq> [] then GuardSuperseded
          else (case get_all E [SUPERSEDED_BY \<mapsto> PStr mid] 1 w of
            None \<Rightarrow> GuardFree
          | Some items \<Rightarrow> if items \<noteq> [] then GuardSupersedes else GuardFree))"

subsection \<open>What a payload-only write keeps\<close>

text \<open>The part of a payload that pool membership and the text rest on.\<close>

definition core_view :: "payload \<Rightarrow> string list \<times> string \<times> pyval" where
  "core_view p = (superseded_ids p, text_of p, dget p TTL_EXPIRES_AT)"

lemma superseded_ids_keep: "p SUPERSEDED_BY = None \<Longrightarrow> superseded_ids (d ++ p) = superseded_ids d"
  by (simp add: superseded_ids_patch)

lemma text_of_keep: "p ''data'' = None \<Longrightarrow> text_of (d ++ p) = text_of d"
  by (simp add: text_of_def dget_map_add)

lemma dget_keep: "p k = None \<Longrightarrow> dget (d ++ p) k = dget d k"
  by (simp add: dget_map_add)

lemma core_view_keep:
  "p SUPERSEDED_BY = None \<Longrightarrow> p ''data'' = None \<Longrightarrow> p TTL_EXPIRES_AT = None \<Longrightarrow>
   core_view (d ++ p) = core_view d"
  by (simp add: core_view_def superseded_ids_keep text_of_keep dget_keep)

lemma core_view_patch:
  assumes "qdrant_ok (qd E)" "patch_memory E mid p w = Some w'"
    "p SUPERSEDED_BY = None" "p ''data'' = None" "p TTL_EXPIRES_AT = None"
  shows "map_option core_view (payload_at E w' n) = map_option core_view (payload_at E w n)"
  using payload_at_patch[OF assms(1,2), of n] core_view_keep[OF assms(3-5)]
  by (simp add: option.map_comp comp_def)

lemma pairs_patch: "patch_memory E mid p w = Some w' \<Longrightarrow> pairs w' = pairs w"
  by (auto simp: patch_memory_def)

subsection \<open>Rounding and deadlines\<close>

lemma round_half_even_bounds: "of_int (round_half_even r) - r \<le> 1 / 2 \<and> r - of_int (round_half_even r) \<le> 1 / 2"
  unfolding round_half_even_def Let_def by (simp split: if_split) linarith

lemma round_half_even_mono: "of_int a \<le> r \<Longrightarrow> a \<le> round_half_even r"
  using round_half_even_bounds[of r] by linarith

lemma round_half_even_le: "r \<le> of_int a \<Longrightarrow> round_half_even r \<le> a"
  using round_half_even_bounds[of r] by linarith

lemma days_later_range:
  assumes "days_later t d = Some u"
  shows "u < time_end" "0 \<le> d \<Longrightarrow> t \<le> u" "d \<le> of_nat n \<Longrightarrow> u \<le> t + n * us_per_day"
proof -
  define us where "us = round_half_even (d * 86400000000)"
  have u: "int u = int t + us" "u < time_end"
    using assms by (auto simp: days_later_def timedelta_us_def add_us_def us_def Let_def split: if_splits)
  show "u < time_end" by (rule u(2))
  show "t \<le> u" if "0 \<le> d"
  proof -
    have "0 \<le> us" unfolding us_def using that by (intro round_half_even_mono) simp
    with u show ?thesis by linarith
  qed
  show "u \<le> t + n * us_per_day" if "d \<le> of_nat n"
  proof -
    have "us \<le> int n * 86400000000"
      unfolding us_def using that by (intro round_half_even_le) simp
    then have "int u \<le> int t + int n * 86400000000" using u by linarith
    then have "int u \<le> int (t + n * 86400000000)" by simp
    then show ?thesis unfolding zle_int by (simp add: us_per_day_def)
  qed
qed

lemma set_ttl_facts:
  assumes "qdrant_ok (qd E)" "set_ttl E mid rq actor now t tc w = (Inr deadline, w')" "now \<noteq> []"
  shows "(\<exists>d d'. payload_at E w mid = Some d \<and> payload_at E w' mid = Some d' \<and>
       text_of d' = text_of d \<and> superseded_ids d' = superseded_ids d \<and>
       (\<forall>clock. is_ttl_expired d' clock \<longleftrightarrow>
          (case deadline of None \<Rightarrow> False | Some e \<Rightarrow> e \<noteq> [] \<and> e \<le> clock)) \<and>
       (\<forall>x u. rq = TtlDays x \<longrightarrow> days_later t (case x of None \<Rightarrow> 7 | Some y \<Rightarrow> y) = Some u \<longrightarrow>
          (\<forall>c. c < time_end \<longrightarrow> (is_ttl_expired d' (iso_text c) \<longleftrightarrow> u \<le> c)))) \<and>
    (\<forall>n. n \<noteq> mid \<longrightarrow> payload_at E w' n = payload_at E w n) \<and>
    (pairs_up E \<longrightarrow> (\<forall>r \<in> set (pairs w'). pr_old r = mid \<longrightarrow> pr_kind r = TtlExpiry \<longrightarrow>
       pr_disposition r \<noteq> DOpen))"
proof -
  from assms(2) obtain d w1 where d: "payload_at E w mid = Some d"
      and dl: "ttl_deadline rq now t = Inr deadline"
      and w1: "patch_memory E mid (ttl_patch rq deadline now actor) w = Some w1"
      and w': "w' = try_history E (lifecycle_row mid (text_of d) (ttl_event rq) now actor)
                 (try_pairs E (close_for_old mid DTtl actor (Some TtlExpiry) tc) w1)"
    by (auto simp: set_ttl_def split: option.splits sum.splits)
  let ?p = "ttl_patch rq deadline now actor"
  have p: "?p SUPERSEDED_BY = None" "?p ''data'' = None" "?p TTL_EXPIRES_AT = Some (opt_str deadline)"
    by (simp_all add: ttl_patch_def opt_str_def split: option.splits)
  have at: "payload_at E w' n = (if n = mid then Some (d ++ ?p) else payload_at E w n)" for n
    using payload_at_patch[OF assms(1) w1, of n] d by (simp add: w')
  have expired: "is_ttl_expired (d ++ ?p) clock \<longleftrightarrow>
      (case deadline of None \<Rightarrow> False | Some e \<Rightarrow> e \<noteq> [] \<and> e \<le> clock)" for clock
    by (simp add: is_ttl_expired_def dget_map_add p opt_str_def split: option.splits)
  have days: "is_ttl_expired (d ++ ?p) (iso_text c) \<longleftrightarrow> u \<le> c"
    if "rq = TtlDays x" "days_later t (case x of None \<Rightarrow> 7 | Some y \<Rightarrow> y) = Some u" "c < time_end" for x u c
  proof -
    have "deadline = Some (iso_text u)"
      using dl that(1,2) by (cases x) (simp_all add: ttl_deadline_def DEFAULT_TTL_DAYS_def)
    then show ?thesis
      unfolding expired
      using iso_le_iff[OF days_later_range(1)[OF that(2)] that(3)] by (simp add: iso_text_not_Nil)
  qed
  have flags: "\<forall>r \<in> set (pairs w'). pr_old r = mid \<longrightarrow> pr_kind r = TtlExpiry \<longrightarrow> pr_disposition r \<noteq> DOpen"
    if "pairs_up E"
    using that by (auto simp: w' try_pairs_def with_pairs_def close_for_old_def Let_def ball_upd_where
        set_disposition_def)
  show ?thesis
    using d at expired days flags
    by (auto simp: text_of_keep superseded_ids_keep p(1,2))
qed

text \<open>\<^verbatim>\<open>set_ttl\<close> decides pool membership by time. On success the memory is out of the pool exactly
  from its new deadline on; a deadline in days is that many days after the clock, a cleared deadline is
  no deadline. Text, successors and every other memory are untouched, and no open expiry flag
  on it is left when the pair file can be written.\<close>

theorem set_ttl_pool_exit:
  assumes "qdrant_ok (qd E)" "set_ttl E mid rq actor now t tc w = (Inr deadline, w')" "now \<noteq> []"
  shows "(\<exists>d d'. payload_at E w mid = Some d \<and> payload_at E w' mid = Some d' \<and>
       text_of d' = text_of d \<and> superseded_ids d' = superseded_ids d \<and>
       (\<forall>clock. is_ttl_expired d' clock \<longleftrightarrow>
          (case deadline of None \<Rightarrow> False | Some e \<Rightarrow> e \<noteq> [] \<and> e \<le> clock)) \<and>
       (\<forall>x u. rq = TtlDays x \<longrightarrow> days_later t (case x of None \<Rightarrow> 7 | Some y \<Rightarrow> y) = Some u \<longrightarrow>
          (\<forall>c. c < time_end \<longrightarrow> (is_ttl_expired d' (iso_text c) \<longleftrightarrow> u \<le> c)))) \<and>
    (\<forall>n. n \<noteq> mid \<longrightarrow> payload_at E w' n = payload_at E w n) \<and>
    (pairs_up E \<longrightarrow> (\<forall>r \<in> set (pairs w'). pr_old r = mid \<longrightarrow> pr_kind r = TtlExpiry \<longrightarrow>
       pr_disposition r \<noteq> DOpen))"
  by (rule set_ttl_facts[OF assms])

theorem set_ttl_pool_exit_witness:
  "\<exists>d w'. set_ttl demo_env ''a'' (TtlAt ''2030'') None ''2026'' 0 0 (demo_world two_memories) = (Inr (Some ''2030''), w') \<and>
     payload_at demo_env w' ''a'' = Some d \<and> \<not> is_ttl_expired d ''2029'' \<and> is_ttl_expired d ''2031''"
proof -
  have d: "map_of two_memories ''a'' = Some [''data'' \<mapsto> PStr ''old text'']"
    by (simp add: two_memories_def)
  obtain w' where s: "set_ttl demo_env ''a'' (TtlAt ''2030'') None ''2026'' 0 0 (demo_world two_memories) =
      (Inr (Some ''2030''), w')"
    by (simp add: set_ttl_def ttl_deadline_def patch_memory_def d Let_def)
  have order: "\<not> ''2030'' \<le> ''2029''" "''2030'' \<le> ''2031''"
    by (simp_all add: less_char_def less_eq_char_def)
  from set_ttl_pool_exit[OF _ s] show ?thesis
    by (auto simp: dict_qdrant_ok s order simp del: dict_point)
qed

text \<open>C9: Protection is narrow. \<^verbatim>\<open>set_displacement_protection\<close> succeeds only on an active memory whose
  latest three displacement judgments of its current text were all dismissed, with a reason and a
  named actor and session; the suppression it grants ends at most ninety days after the
  clock, and text, successors, deadline and pairs are untouched.\<close>

theorem protection_is_narrow:
  assumes "qdrant_ok (qd E)" "t2 < time_end"
    and "set_displacement_protection E mid days reason actor session t0 t1 t2 w = (Inr v, w')"
  shows "\<exists>d d' ev u. payload_at E w mid = Some d \<and> payload_at E w' mid = Some d' \<and>
    \<not> is_invalidated d \<and> \<not> is_ttl_expired d (iso_text t0) \<and> core_view d' = core_view d \<and>
    consecutive_dismissed_displacement_evidence (sha E) mid (text_of d) 3 (pairs w) = Inr ev \<and>
    eligible ev \<and> prot_reason v \<noteq> [] \<and> prot_agent v \<noteq> [] \<and> prot_session v \<noteq> [] \<and>
    prot_until v = iso_text u \<and> t2 \<le> u \<and> u \<le> t2 + 90 * us_per_day \<and>
    (\<forall>c. c < time_end \<longrightarrow> (is_displacement_protected d' (iso_text c) \<longleftrightarrow> c < u)) \<and>
    pairs w' = pairs w"
proof -
  from assms(3) obtain d ev u w1 where d: "payload_at E w mid = Some d"
      and guards: "\<not> is_invalidated d" "\<not> is_ttl_expired d (iso_text t0)" "0 < days" "days \<le> 90"
        "strip reason \<noteq> []" "strip (or_empty actor) \<noteq> []" "strip (or_empty session) \<noteq> []"
      and ev: "consecutive_dismissed_displacement_evidence (sha E) mid (text_of d) 3 (pairs w) = Inr ev"
        "eligible ev"
      and u: "days_later t2 days = Some u"
      and w1: "patch_memory E mid
          [DISPLACEMENT_PROTECTED_UNTIL \<mapsto> PStr (iso_text u),
           DISPLACEMENT_PROTECTION_REASON \<mapsto> PStr (strip reason),
           DISPLACEMENT_PROTECTED_AT \<mapsto> PStr (iso_text t1),
           DISPLACEMENT_PROTECTED_BY_AGENT \<mapsto> PStr (strip (or_empty actor)),
           DISPLACEMENT_PROTECTED_BY_SESSION \<mapsto> PStr (strip (or_empty session))] w = Some w1"
      and st: "store w' = store w1" "pairs w' = pairs w1"
      and v: "prot_until v = iso_text u" "prot_reason v = strip reason"
        "prot_agent v = strip (or_empty actor)" "prot_session v = strip (or_empty session)"
    by (auto simp: set_displacement_protection_def Let_def not_le MAX_DISPLACEMENT_PROTECTION_DAYS_def
        REQUIRED_CONSECUTIVE_def split: option.splits sum.splits if_splits)
  let ?p = "[DISPLACEMENT_PROTECTED_UNTIL \<mapsto> PStr (iso_text u),
           DISPLACEMENT_PROTECTION_REASON \<mapsto> PStr (strip reason),
           DISPLACEMENT_PROTECTED_AT \<mapsto> PStr (iso_text t1),
           DISPLACEMENT_PROTECTED_BY_AGENT \<mapsto> PStr (strip (or_empty actor)),
           DISPLACEMENT_PROTECTED_BY_SESSION \<mapsto> PStr (strip (or_empty session))]"
  have at: "payload_at E w' mid = Some (d ++ ?p)"
    using payload_at_patch[OF assms(1) w1, of mid] d st by simp
  have core: "core_view (d ++ ?p) = core_view d"
    by (rule core_view_keep) simp_all
  have prot: "is_displacement_protected (d ++ ?p) (iso_text c) \<longleftrightarrow> c < u" if "c < time_end" for c
  proof -
    have "dget (d ++ ?p) DISPLACEMENT_PROTECTED_UNTIL = PStr (iso_text u)"
      unfolding dget_map_add by simp
    then show ?thesis
      using iso_less_iff[OF that days_later_range(1)[OF u]]
      by (simp add: is_displacement_protected_def iso_text_not_Nil)
  qed
  have "t2 \<le> u" "u \<le> t2 + 90 * us_per_day"
    using days_later_range(2)[OF u] days_later_range(3)[OF u, of 90] guards(3,4) by simp_all
  with d at guards ev v core prot st show ?thesis
    by (intro exI[of _ d] exI[of _ "d ++ ?p"] exI[of _ ev] exI[of _ u]) (simp add: pairs_patch[OF w1])
qed

definition dismissed_three :: "pair_row list" where
  "dismissed_three =
     map (\<lambda>r. r\<lparr>pr_old := ''a'', pr_hash := ''old text''\<rparr>)
       [wrow ''p1'' ''x'' ''1'' DDismissed, wrow ''p2'' ''y'' ''2'' DDismissed, wrow ''p3'' ''z'' ''3'' DDismissed]"

theorem protection_is_narrow_witness:
  "\<exists>v w'. set_displacement_protection demo_env ''a'' 30 ''why'' (Some ''agent'') (Some ''session'') 0 0 0
       ((demo_world two_memories)\<lparr>pairs := dismissed_three\<rparr>) = (Inr v, w') \<and> prot_agent v \<noteq> [] \<and>
     (\<exists>u. prot_until v = iso_text u \<and> u \<le> 90 * us_per_day)"
proof -
  let ?w = "(demo_world two_memories)\<lparr>pairs := dismissed_three\<rparr>"
  have d: "payload_at demo_env ?w ''a'' = Some [''data'' \<mapsto> PStr ''old text'']"
    by (simp add: two_memories_def)
  have ev: "consecutive_dismissed_displacement_evidence (sha demo_env) ''a'' ''old text'' 3 dismissed_three =
      Inr \<lparr>eligible = True, required_count = 3, consecutive_count = 3,
           evidence_pair_ids = [''p3'', ''p2'', ''p1'']\<rparr>"
    by (simp add: consecutive_dismissed_displacement_evidence_def latest_evidence_def dismissed_three_def
        is_evidence_def SUSPICION_CONFIDENCE_FLOOR_def float_0_6_def demo_env_def)
  have u: "days_later 0 30 = Some 2592000000000"
    by (simp add: days_later_def timedelta_us_def round_half_even_def add_us_def time_end_def)
  have "\<exists>v w'. set_displacement_protection demo_env ''a'' 30 ''why'' (Some ''agent'') (Some ''session'') 0 0 0 ?w
      = (Inr v, w')"
    using d ev u
    by (simp add: set_displacement_protection_def is_invalidated_def is_ttl_expired_def superseded_ids_def
        dget_def strip_def is_space_def or_empty_def MAX_PROTECTION_REASON_CHARS_def
        MAX_DISPLACEMENT_PROTECTION_DAYS_def REQUIRED_CONSECUTIVE_def text_of_def patch_memory_def Let_def
        py_length_def continues_def)
  then obtain v w' where s: "set_displacement_protection demo_env ''a'' 30 ''why'' (Some ''agent'')
      (Some ''session'') 0 0 0 ?w = (Inr v, w')"
    by blast
  have "(0::time) < time_end" by (simp add: time_end_def)
  from protection_is_narrow[OF _ this s] s show ?thesis
    by (auto simp: dict_qdrant_ok simp del: dict_point)
qed

subsection \<open>Harvest\<close>

lemma supersession_of_core:
  assumes "\<And>n. map_option core_view (payload_at E w' n) = map_option core_view (payload_at E w n)"
  shows "supersession E w' = supersession E w"
proof -
  have "successors E w' n = successors E w n" for n
    using assms[of n] by (auto simp: successors_def core_view_def split: option.splits)
  then show ?thesis by (simp add: supersession_def)
qed

lemma try_pairs_up: "pairs_up E \<Longrightarrow> pairs (try_pairs E f w) = snd (f (pairs w))"
  by (simp add: try_pairs_def with_pairs_def split: prod.splits)

lemma record_judgment_rows:
  "snd (record_judgment h uid t kind n ol txt v c rs m sn rows) =
     snd (insert_or_ignore (make_row h uid t kind n ol txt v c rs m sn) rows)"
  by (simp add: record_judgment_def Let_def split: prod.splits)

lemma harvest_flag_simps [simp]:
  "store (harvest_flag E mid now it uid tc tj w) = store w"
  by (simp add: harvest_flag_def)

lemma harvest_flag_cong:
  "pairs w = pairs v \<Longrightarrow>
   pairs (harvest_flag E mid now it uid tc tj w) = pairs (harvest_flag E mid now it uid tc tj v)"
  by (simp add: harvest_flag_def try_pairs_def with_pairs_def split: prod.splits)

text \<open>One harvested item.\<close>

lemma harvest_item_cases:
  assumes "qdrant_ok (qd E)" "harvest_item E now st i it w = (r, w')"
  shows "(\<forall>n. map_option core_view (payload_at E w' n) = map_option core_view (payload_at E w n)) \<and>
    (r = Inl StoreFailed \<and> w' = w \<or> r = Inr 0 \<and> \<not> harvestable it now \<and> w' = w \<or>
     r = Inr 1 \<and> harvestable it now \<and>
       (\<forall>n. payload_at E w' n = (if n = item_id it
          then map_option (\<lambda>d. d ++ [TTL_EXPIRED_AT \<mapsto> PStr now]) (payload_at E w n)
          else payload_at E w n)) \<and>
       pairs w' = pairs (harvest_flag E (item_id it) now it (st_uid st i) (st_close st i) (st_judge st i) w))"
proof (cases "harvestable it now")
  case False
  with assms(2) show ?thesis by (simp add: harvest_item_def)
next
  case True
  show ?thesis
  proof (cases "patch_memory E (item_id it) [TTL_EXPIRED_AT \<mapsto> PStr now] w")
    case None
    with assms(2) True show ?thesis by (simp add: harvest_item_def)
  next
    case (Some w1)
    have w': "store w' = store w1" "r = Inr 1"
      "pairs w' = pairs (harvest_flag E (item_id it) now it (st_uid st i) (st_close st i) (st_judge st i) w)"
      using assms(2) True Some by (auto simp: harvest_item_def Let_def pairs_patch[OF Some] intro: harvest_flag_cong)
    have "map_option core_view (payload_at E w1 n) = map_option core_view (payload_at E w n)" for n
      by (rule core_view_patch[OF assms(1) Some]) simp_all
    with w' True payload_at_patch[OF assms(1) Some] show ?thesis by simp
  qed
qed

lemma harvest_flag_rows:
  assumes "pairs_up E" "uid \<notin> set (map pr_id (pairs w))"
  shows "has_judgment (sha E) mid mid (item_memory it @ ''@@'' @ item_deadline it) TtlExpiry
      (pairs (harvest_flag E mid now it uid tc tj w)) \<and>
    set (map pair_key (pairs w)) \<subseteq> set (map pair_key (pairs (harvest_flag E mid now it uid tc tj w))) \<and>
    set (map pr_id (pairs (harvest_flag E mid now it uid tc tj w))) \<subseteq> insert uid (set (map pr_id (pairs w)))"
proof -
  let ?rows = "snd (close_for_old mid DExpired None None tc (pairs w))"
  have keys: "map pair_key ?rows = map pair_key (pairs w)" "map pr_id ?rows = map pr_id (pairs w)"
    by (simp_all add: close_for_old_def Let_def map_key_upd_where set_disposition_def pair_key_def)
  let ?row = "make_row (sha E) uid tj TtlExpiry mid mid (item_memory it @ ''@@'' @ item_deadline it)
      ''TTL_EXPIRED'' (Some 1) (Some (ttl_reason (item_deadline it) now)) None None"
  have p: "pairs (harvest_flag E mid now it uid tc tj w) = snd (insert_or_ignore ?row ?rows)"
    using assms(1) by (simp add: harvest_flag_def try_pairs_up record_judgment_rows Let_def case_prod_beta)
  have row: "pr_id ?row = uid"
    "pair_key ?row = (TtlExpiry, mid, mid, sha E (item_memory it @ ''@@'' @ item_deadline it))"
    by (simp_all add: make_row_def pair_key_def)
  have ids: "pr_id ?row \<notin> set (map pr_id ?rows)" unfolding row keys by (rule assms(2))
  show ?thesis
    using ids row keys unfolding p has_judgment_def
    by (cases "pair_key ?row \<in> set (map pair_key ?rows)")
      (auto simp: insert_or_ignore_def simp del: set_map)
qed

definition stamped :: "'q env \<Rightarrow> 'q world \<Rightarrow> string \<Rightarrow> string \<Rightarrow> bool" where
  "stamped E w now n \<longleftrightarrow> (\<forall>d. payload_at E w n = Some d \<longrightarrow> dget d TTL_EXPIRED_AT = PStr now)"

lemma harvest_item_stamp:
  assumes "qdrant_ok (qd E)" "harvest_item E now st i it w = (r, w')"
  shows "stamped E w now n \<Longrightarrow> stamped E w' now n"
    and "harvestable it now \<Longrightarrow> is_ok r \<Longrightarrow> stamped E w' now (item_id it)"
proof -
  have c: "w' = w \<or> (\<forall>n. payload_at E w' n = (if n = item_id it
          then map_option (\<lambda>d. d ++ [TTL_EXPIRED_AT \<mapsto> PStr now]) (payload_at E w n)
          else payload_at E w n))"
    using harvest_item_cases[OF assms] by blast
  then show "stamped E w now n \<Longrightarrow> stamped E w' now n"
    by (cases "n = item_id it") (auto simp: stamped_def dget_upd)
  show "harvestable it now \<Longrightarrow> is_ok r \<Longrightarrow> stamped E w' now (item_id it)"
    using harvest_item_cases[OF assms] by (auto simp: stamped_def dget_upd)
qed

lemma harvest_item_rows:
  assumes "qdrant_ok (qd E)" "harvest_item E now st i it w = (r, w')" "pairs_up E"
    "st_uid st i \<notin> set (map pr_id (pairs w))"
  shows "set (map pair_key (pairs w)) \<subseteq> set (map pair_key (pairs w')) \<and>
    set (map pr_id (pairs w')) \<subseteq> insert (st_uid st i) (set (map pr_id (pairs w))) \<and>
    (harvestable it now \<longrightarrow> is_ok r \<longrightarrow>
       has_judgment (sha E) (item_id it) (item_id it) (item_memory it @ ''@@'' @ item_deadline it)
         TtlExpiry (pairs w'))"
  using harvest_item_cases[OF assms(1,2)]
    harvest_flag_rows[OF assms(3,4), of "item_id it" it now "st_close st i" "st_judge st i"]
  by (elim conjE disjE) (simp_all add: subset_insertI)

lemma harvest_loop_spec:
  assumes "qdrant_ok (qd E)" "harvest_loop E now st i its w = (r, w')"
  shows "(\<forall>n. map_option core_view (payload_at E w' n) = map_option core_view (payload_at E w n)) \<and>
    (\<forall>n. stamped E w now n \<longrightarrow> stamped E w' now n) \<and>
    (\<forall>k. r = Inr k \<longrightarrow> k = length (filter (\<lambda>it. harvestable it now) its) \<and>
       (\<forall>it \<in> set its. harvestable it now \<longrightarrow> stamped E w' now (item_id it)))"
  using assms
proof (induction E now st i its w arbitrary: r w' rule: harvest_loop.induct)
  case (2 E now st i it its w)
  obtain r1 w1 where one: "harvest_item E now st i it w = (r1, w1)"
    by (cases "harvest_item E now st i it w")
  note item = harvest_item_cases[OF 2(2) one] harvest_item_stamp[OF 2(2) one]
  show ?case
  proof (cases r1)
    case (Inl e)
    with 2(3) one have "r = Inl e" "w' = w1" by simp_all
    with item show ?thesis by simp
  next
    case (Inr n1)
    obtain r2 w2 where rest: "harvest_loop E now st (Suc i) its w1 = (r2, w2)"
      by (cases "harvest_loop E now st (Suc i) its w1")
    have res: "w' = w2" "r = (case r2 of Inl e \<Rightarrow> Inl e | Inr m \<Rightarrow> Inr (n1 + m))"
      using 2(3) one Inr rest by (auto split: sum.splits)
    have "n1 = (if harvestable it now then 1 else 0)"
      using item(1) Inr by auto
    then show ?thesis
      using 2(1)[OF one[symmetric] Inr 2(2) rest] item Inr res
      by (auto simp: split: sum.splits)
  qed
qed (auto simp: stamped_def)

lemma harvest_loop_rows:
  assumes "qdrant_ok (qd E)" "harvest_loop E now st i its w = (Inr k, w')" "pairs_up E" "inj (st_uid st)"
    "\<And>j. i \<le> j \<Longrightarrow> st_uid st j \<notin> set (map pr_id (pairs w))"
  shows "set (map pair_key (pairs w)) \<subseteq> set (map pair_key (pairs w')) \<and>
    (\<forall>it \<in> set its. harvestable it now \<longrightarrow>
       has_judgment (sha E) (item_id it) (item_id it) (item_memory it @ ''@@'' @ item_deadline it)
         TtlExpiry (pairs w'))"
  using assms
proof (induction E now st i its w arbitrary: k rule: harvest_loop.induct)
  case (2 E now st i it its w)
  from 2(3) obtain n1 w1 m where one: "harvest_item E now st i it w = (Inr n1, w1)"
      and rest: "harvest_loop E now st (Suc i) its w1 = (Inr m, w')"
    by (auto split: prod.splits sum.splits)
  note rows = harvest_item_rows[OF 2(2) one 2(4) 2(6)[OF order_refl]]
  have "st_uid st j \<notin> set (map pr_id (pairs w1))" if "Suc i \<le> j" for j
  proof -
    have "st_uid st j \<noteq> st_uid st i" "st_uid st j \<notin> set (map pr_id (pairs w))"
      using that inj_eq[OF 2(5), of j i] 2(6)[of j] by auto
    with rows show ?thesis by blast
  qed
  from 2(1)[OF one[symmetric] refl 2(2) rest 2(4,5) this] rows show ?case
    by (auto simp: has_judgment_def simp del: set_map)
qed simp

text \<open>The harvest changes no pool. Whatever it finds and however it ends, no memory's successors,
  deadline or text change. When it completes, every expired item that it scanned carries the
  stamp, is counted once, and is not picked up by a later scan; with a writable pair file each has an
  expiry judgment recorded for this deadline.\<close>

theorem harvest_stamps_and_flags:
  assumes "qdrant_ok (qd E)" "now \<noteq> []" "get_all E (ttl_scan user now) limit w = Some items"
    "harvest_expired E user now limit st w = (r, w')" "inj (st_uid st)"
    "range (st_uid st) \<inter> set (map pr_id (pairs w)) = {}"
  shows "(\<forall>n. map_option core_view (payload_at E w' n) = map_option core_view (payload_at E w n)) \<and>
    supersession E w' = supersession E w \<and>
    (\<forall>k. r = Inr k \<longrightarrow> k = Some (length (filter (\<lambda>it. harvestable it now) items)) \<and>
      (\<forall>it \<in> set items. harvestable it now \<longrightarrow>
        (\<forall>d later. payload_at E w' (item_id it) = Some d \<longrightarrow>
           dget d TTL_EXPIRED_AT = PStr now \<and> \<not> harvestable (format_item (item_id it, d)) later) \<and>
        (pairs_up E \<longrightarrow> has_judgment (sha E) (item_id it) (item_id it)
           (item_memory it @ ''@@'' @ item_deadline it) TtlExpiry (pairs w'))))"
proof -
  obtain r' where loop: "harvest_loop E now st 0 items w = (r', w')"
      and r: "r = (case r' of Inl e \<Rightarrow> Inl e | Inr n \<Rightarrow> Inr (Some n))"
    using assms(3,4) by (auto simp: harvest_expired_def split: prod.splits sum.splits)
  note spec = harvest_loop_spec[OF assms(1) loop]
  have again: "\<not> harvestable (format_item (n, d)) later" if "dget d TTL_EXPIRED_AT = PStr now" for n d later
    using that assms(2)
    by (simp add: harvestable_def format_item_metadata core_and_promoted_keys_def promoted_payload_keys_def)
  have flags: "\<forall>it \<in> set items. harvestable it now \<longrightarrow>
      has_judgment (sha E) (item_id it) (item_id it) (item_memory it @ ''@@'' @ item_deadline it)
        TtlExpiry (pairs w')" if "r' = Inr k" "pairs_up E" for k
    using harvest_loop_rows[OF assms(1) _ that(2) assms(5), of now 0 items w k w'] loop that(1) assms(6)
    by auto
  show ?thesis
    using spec supersession_of_core[of E w' w] again flags r
    by (auto simp: stamped_def split: sum.splits)
qed

definition expired_memory :: "(string \<times> payload) list" where
  "expired_memory =
     [(''a'', [''data'' \<mapsto> PStr ''text'', ''user_id'' \<mapsto> PStr ''u'', ''ttl_expires_at'' \<mapsto> PStr ''2020''])]"

definition demo_stamps :: stamps where
  "demo_stamps = \<lparr>st_uid = (\<lambda>i. replicate i CHR ''x''), st_close = (\<lambda>i. 0), st_judge = (\<lambda>i. 0)\<rparr>"

theorem harvest_stamps_and_flags_witness:
  "\<exists>r w' items. get_all demo_env (ttl_scan ''u'' ''2026'') 5 (demo_world expired_memory) = Some items \<and>
     harvest_expired demo_env ''u'' ''2026'' 5 demo_stamps (demo_world expired_memory) = (r, w') \<and>
     supersession demo_env w' = supersession demo_env (demo_world expired_memory)"
proof -
  have "\<exists>items. get_all demo_env (ttl_scan ''u'' ''2026'') 5 (demo_world expired_memory) = Some items"
    by (simp add: get_all_def ttl_scan_def scope_keys_def trim_entity_id_def strip_def is_space_def
        dict_qdrant_def dict_scroll_def Let_def)
  then obtain items where items:
    "get_all demo_env (ttl_scan ''u'' ''2026'') 5 (demo_world expired_memory) = Some items" by blast
  obtain r w' where run: "harvest_expired demo_env ''u'' ''2026'' 5 demo_stamps (demo_world expired_memory) = (r, w')"
    by (cases "harvest_expired demo_env ''u'' ''2026'' 5 demo_stamps (demo_world expired_memory)")
  have "inj (st_uid demo_stamps)"
    by (simp add: demo_stamps_def inj_def replicate_eq_replicate)
  from harvest_stamps_and_flags[OF _ _ items run this] items run show ?thesis
    by (simp add: dict_qdrant_ok)
qed

lemma delete_guard_eq:
  "delete_guard E mid w =
     (case payload_at E w mid of
        None \<Rightarrow> GuardMissing
      | Some p \<Rightarrow> if superseded_ids p \<noteq> [] then GuardSuperseded else GuardFree)"
proof -
  have "get_all E [SUPERSEDED_BY \<mapsto> PStr mid] 1 w = None"
    by (rule get_all_unscoped) (auto simp: scope_keys_def)
  then show ?thesis by (simp add: delete_guard_def split: option.splits)
qed

text \<open>The guard of hard deletion sees only one side of an edge. mem0 refuses the scan for memories that
  this one supersedes, since its filter names no user, agent or run, and the guard fails open; so the
  verdict never is that the memory supersedes others, and a memory with predecessors but no
  successor counts as free.\<close>

theorem delete_guard_one_sided:
  "delete_guard E mid w =
     (case payload_at E w mid of
        None \<Rightarrow> GuardMissing
      | Some p \<Rightarrow> if superseded_ids p \<noteq> [] then GuardSuperseded else GuardFree)"
  by (rule delete_guard_eq)

end
