(* ===== verification/Stale_Check.thy ===== *)
theory Stale_Check
  imports Judge Lifecycle
begin

text \<open>
  The background check of a new entry (\<^verbatim>\<open>run_stale_check\<close>, \<^verbatim>\<open>_run_self_checks\<close>) and the default search
  (\<^verbatim>\<open>search_with_staleness\<close>, \<^verbatim>\<open>annotate_suspected\<close>) of \<^verbatim>\<open>src/src/memline/staleness.py\<close>. The vector
  search of mem0, which ranks by embeddings, is an argument; the language model and the decoder of
  its answers are those of \<^verbatim>\<open>Judge\<close>. Row ids and clock readings of the recorded judgments are the
  functions \<open>fr_uid\<close> and \<open>fr_time\<close> of the number of the judgment in the run.
\<close>

subsection \<open>Search\<close>

record suspicion =
  su_kind :: pair_kind
  su_by :: string
  su_verdict :: string
  su_confidence :: "rat option"
  su_reason :: "string option"

record hit =
  hit_item :: item
  hit_suspicions :: "suspicion list"

definition suspicion_of :: "pair_row \<Rightarrow> suspicion" where
  "suspicion_of p =
     \<lparr>su_kind = (if pr_kind p = OtherKind [] then Displacement else pr_kind p), su_by = pr_new p,
      su_verdict = pr_verdict p, su_confidence = pr_confidence p, su_reason = pr_reason p\<rparr>"

definition item_key :: "item \<Rightarrow> string" where
  "item_key it = py_str (dget (it_fields it) ''id'')"

definition annotate_suspected :: "'q env \<Rightarrow> 'q world \<Rightarrow> item list \<Rightarrow> hit list" where
  "annotate_suspected E w items =
     (let ids = map item_key (filter (\<lambda>i. truthy (dget (it_fields i) ''id'')) items);
          open_by_old = (if ids = [] \<or> \<not> pairs_up E then (\<lambda>_. None) else open_for_old_ids ids (pairs w))
      in map (\<lambda>i. \<lparr>hit_item = i,
           hit_suspicions = (case open_by_old (item_key i) of None \<Rightarrow> [] | Some ps \<Rightarrow> map suspicion_of ps)\<rparr>) items)"

definition fetch_count :: "nat \<Rightarrow> nat" where
  "fetch_count top_k = max (top_k * 2) (top_k + 10)"

definition in_pool :: "string \<Rightarrow> item \<Rightarrow> bool" where
  "in_pool now i \<longleftrightarrow> result_item_superseded i = [] \<and> \<not> result_item_expired i now"

text \<open>\<open>srch\<close> is \<^verbatim>\<open>client.search\<close> with the request's query, filters and options, a function of \<^verbatim>\<open>top_k\<close>.\<close>

definition search_with_staleness ::
  "'q env \<Rightarrow> 'q world \<Rightarrow> (nat \<Rightarrow> item list option) \<Rightarrow> nat \<Rightarrow> bool \<Rightarrow> string \<Rightarrow> hit list option" where
  "search_with_staleness E w srch top_k include_superseded now =
     (case srch (if include_superseded then top_k else fetch_count top_k) of
        None \<Rightarrow> None
      | Some items \<Rightarrow>
          if include_superseded then Some (map (\<lambda>i. \<lparr>hit_item = i, hit_suspicions = []\<rparr>) items)
          else Some (annotate_suspected E w (take top_k (filter (in_pool now) items))))"

subsection \<open>Checking a new entry\<close>

definition after :: "('e + 'a) \<times> 'w \<Rightarrow> ('a \<Rightarrow> 'w \<Rightarrow> ('e + 'b) \<times> 'w) \<Rightarrow> ('e + 'b) \<times> 'w" where
  "after m f = (case m of (Inl e, w) \<Rightarrow> (Inl e, w) | (Inr x, w) \<Rightarrow> f x w)"

record 'q checker =
  ck_decoder :: decoder
  ck_llm :: llm
  ck_sgt :: "string \<Rightarrow> string"
  ck_search :: "'q world \<Rightarrow> string \<Rightarrow> nat \<Rightarrow> payload option \<Rightarrow> item list option"
  ck_model :: "string option"
  ck_session :: "string option"
  fr_uid :: "nat \<Rightarrow> string"
  fr_time :: "nat \<Rightarrow> time"

text \<open>\<^verbatim>\<open>active_model(llm, judge_model)\<close>.\<close>

definition active_model :: "string option \<Rightarrow> string option \<Rightarrow> string option" where
  "active_model answered dflt = (if truthy_text answered then answered else dflt)"

definition record_verdict ::
  "'q env \<Rightarrow> 'q checker \<Rightarrow> nat \<Rightarrow> pair_kind \<Rightarrow> string \<Rightarrow> string \<Rightarrow> string \<Rightarrow> verdict \<Rightarrow> string option
     \<Rightarrow> 'q world \<Rightarrow> (stale_error + bool) \<times> 'q world" where
  "record_verdict E C i kind new_id old_id old_text v model w =
     (case with_pairs E (record_judgment (sha E) (fr_uid C i) (fr_time C i) kind new_id old_id old_text
              (v_verdict v) (Some (v_confidence v)) (Some (v_reason v))
              (active_model model (ck_model C)) (ck_session C)) w of
        None \<Rightarrow> (Inl PairsFailed, w)
      | Some ((row, inserted), w') \<Rightarrow> (Inr (pr_disposition row = DOpen \<and> inserted), w'))"

text \<open>One self-check: \<open>None\<close> when this text version was judged before.\<close>

definition self_check ::
  "'q env \<Rightarrow> 'q checker \<Rightarrow> nat \<Rightarrow> pair_kind \<Rightarrow> string \<Rightarrow> string \<Rightarrow> (judge_error + verdict \<times> string option)
     \<Rightarrow> 'q world \<Rightarrow> (stale_error + (string \<times> bool) option) \<times> 'q world" where
  "self_check E C i kind new_id new_text judged w =
     (if \<not> pairs_up E then (Inl PairsFailed, w)
      else if has_judgment (sha E) new_id new_id new_text kind (pairs w) then (Inr None, w)
      else case judged of
        Inl _ \<Rightarrow> (Inl JudgeFailed, w)
      | Inr (v, model) \<Rightarrow>
          after (record_verdict E C i kind new_id new_id new_text v model w)
            (\<lambda>is_open w'. (Inr (Some (v_verdict v, is_open)), w')))"

definition import_exempt :: "payload \<Rightarrow> verdict \<Rightarrow> verdict" where
  "import_exempt payload v =
     (if dget payload ''origin'' = PStr ''ledger_import'' \<and>
         (v_verdict v = ''TIMESTAMP_SUSPECT'' \<or> v_verdict v = ''ATTRIBUTION_SUSPECT'')
      then v\<lparr>v_verdict := ''CONSISTENT'',
             v_reason := clip 500 (''ledger_import exempt from '' @ v_verdict v @ '': '' @ v_reason v)\<rparr>
      else v)"

record self_report =
  sr_necessity :: "(string \<times> bool) option"
  sr_safety :: "(string \<times> bool) option"
  sr_correctness :: "(string \<times> bool) option"

definition entry_of :: "string \<Rightarrow> string \<Rightarrow> payload \<Rightarrow> judgment_entry" where
  "entry_of new_id new_text payload =
     \<lparr>je_id = new_id, je_text = new_text,
      je_date = take 10 (str_or_empty (dget payload ''created_at''))\<rparr>"

definition run_self_checks ::
  "'q env \<Rightarrow> 'q checker \<Rightarrow> string \<Rightarrow> string \<Rightarrow> payload \<Rightarrow> 'q world \<Rightarrow> (stale_error + self_report) \<times> 'q world" where
  "run_self_checks E C new_id new_text payload w =
     (let entry = entry_of new_id new_text payload; D = ck_decoder C; L = ck_llm C in
      after (self_check E C 0 Necessity new_id new_text (judge_necessity D L entry) w) (\<lambda>nec w1.
      after (self_check E C 1 Safety new_id new_text (judge_safety D L entry) w1) (\<lambda>saf w2.
      after (self_check E C 2 Correctness new_id new_text
               (and_then
                 (judge_correctness D L (ck_sgt C) entry
                   (str_or_empty (por (dget payload ''ingested_at'') (dget payload ''created_at'')))
                   (str_or_empty (dget payload ''created_at''))
                   (str_or_empty (por (dget payload ''source'') (dget payload ''writer_agent_id''))))
                 (\<lambda>(v, model). Inr (import_exempt payload v, model))) w2) (\<lambda>cor w3.
      (Inr \<lparr>sr_necessity = nec, sr_safety = saf, sr_correctness = cor\<rparr>, w3)))))"

definition skipped_candidate :: "string \<Rightarrow> string \<Rightarrow> item \<Rightarrow> bool" where
  "skipped_candidate new_id now it \<longleftrightarrow>
     item_id it = [] \<or> item_id it = new_id \<or> result_item_superseded it \<noteq> [] \<or>
     result_item_displacement_protected it now"

definition candidate_of :: "item \<Rightarrow> judgment_entry" where
  "candidate_of it =
     \<lparr>je_id = item_id it, je_text = item_memory it,
      je_date = take 10 (str_or_empty (dget (it_fields it) ''created_at''))\<rparr>"

text \<open>The loop tests \<^verbatim>\<open>len(candidates) >= top_k\<close> after it has appended.\<close>

fun select_candidates :: "string \<Rightarrow> string \<Rightarrow> nat \<Rightarrow> item list \<Rightarrow> judgment_entry list" where
  "select_candidates new_id now k [] = []"
| "select_candidates new_id now k (it # its) =
     (if skipped_candidate new_id now it then select_candidates new_id now k its
      else candidate_of it # (if k \<le> 1 then [] else select_candidates new_id now (k - 1) its))"

definition text_by_id :: "judgment_entry list \<Rightarrow> string \<Rightarrow> string" where
  "text_by_id cs i = (case map_of (rev (map (\<lambda>c. (je_id c, je_text c)) cs)) i of None \<Rightarrow> [] | Some t \<Rightarrow> t)"

fun record_all ::
  "'q env \<Rightarrow> 'q checker \<Rightarrow> nat \<Rightarrow> string \<Rightarrow> judgment_entry list \<Rightarrow> string option \<Rightarrow> verdict list
     \<Rightarrow> 'q world \<Rightarrow> (stale_error + nat) \<times> 'q world" where
  "record_all E C i new_id cs model [] w = (Inr 0, w)"
| "record_all E C i new_id cs model (v # vs) w =
     after (record_verdict E C i Displacement new_id (v_id v) (text_by_id cs (v_id v)) v model w)
       (\<lambda>is_open w1. after (record_all E C (Suc i) new_id cs model vs w1)
          (\<lambda>n w2. (Inr ((if is_open then 1 else 0) + n), w2)))"

datatype check_result =
    SkippedGone
  | SkippedInvalidated
  | SkippedEmpty
  | SelfOnly self_report
  | Checked nat nat nat self_report

definition check_neighbours ::
  "'q env \<Rightarrow> 'q checker \<Rightarrow> string \<Rightarrow> string \<Rightarrow> payload \<Rightarrow> nat \<Rightarrow> string \<Rightarrow> self_report \<Rightarrow> 'q world
     \<Rightarrow> (stale_error + check_result) \<times> 'q world" where
  "check_neighbours E C new_id new_text payload top_k now report w =
     (let filters = (if truthy (dget payload ''user_id'')
                     then Some [''user_id'' \<mapsto> dget payload ''user_id''] else None) in
      case ck_search C w new_text (fetch_count top_k) filters of
        None \<Rightarrow> (Inl SearchFailed, w)
      | Some items \<Rightarrow>
          let found = select_candidates new_id now top_k items in
          if \<not> pairs_up E then (Inl PairsFailed, w)
          else
            let already = judged_either (sha E) new_id new_text
                            (map (\<lambda>c. (je_id c, je_text c)) found) (pairs w);
                cands = filter (\<lambda>c. je_id c \<notin> already) found
            in if cands = [] then (Inr (Checked 0 0 (card already) report), w)
               else case judge (ck_decoder C) (ck_llm C) (entry_of new_id new_text payload) cands of
                 Inl _ \<Rightarrow> (Inl JudgeFailed, w)
               | Inr (vs, model) \<Rightarrow>
                   after (record_all E C 3 new_id cands model vs w)
                     (\<lambda>opened w'. (Inr (Checked (length vs) opened (card already) report), w')))"

definition run_stale_check ::
  "'q env \<Rightarrow> 'q checker \<Rightarrow> string \<Rightarrow> nat \<Rightarrow> bool \<Rightarrow> string \<Rightarrow> 'q world
     \<Rightarrow> (stale_error + check_result) \<times> 'q world" where
  "run_stale_check E C new_id top_k self_only now w =
     (case payload_at E w new_id of
        None \<Rightarrow> (Inr SkippedGone, w)
      | Some payload \<Rightarrow>
          if is_invalidated payload then (Inr SkippedInvalidated, w)
          else if text_of payload = [] then (Inr SkippedEmpty, w)
          else after (run_self_checks E C new_id (text_of payload) payload w) (\<lambda>report w1.
            if self_only then (Inr (SelfOnly report), w1)
            else check_neighbours E C new_id (text_of payload) payload top_k now report w1))"

subsection \<open>Search returns the pool\<close>

lemma take_filter_prefix:
  assumes "k \<le> length (filter P (take n xs)) \<or> length xs \<le> n"
  shows "take k (filter P (take n xs)) = take k (filter P xs)"
proof -
  have split: "filter P xs = filter P (take n xs) @ filter P (drop n xs)"
    by (metis append_take_drop_id filter_append)
  from assms show ?thesis
  proof
    assume "k \<le> length (filter P (take n xs))"
    then show ?thesis unfolding split by simp
  qed simp
qed

lemma annotate_items: "map hit_item (annotate_suspected E w items) = items"
  by (simp add: annotate_suspected_def Let_def comp_def)

text \<open>The over-fetch keeps \<^verbatim>\<open>top_k\<close> honest. When at most \<open>max top_k 10\<close> of the entries it fetched have left
  the pool, the default search returns exactly the first \<^verbatim>\<open>top_k\<close> entries of the whole ranking that are
  in the pool, in their order. Asked for superseded entries, it returns the ranking unchanged.\<close>

theorem search_returns_pool:
  assumes "length (filter (\<lambda>i. \<not> in_pool now i) (take (fetch_count k) ranking)) \<le> max k 10"
  shows "map_option (map hit_item) (search_with_staleness E w (\<lambda>n. Some (take n ranking)) k False now) =
      Some (take k (filter (in_pool now) ranking)) \<and>
    map_option (map hit_item) (search_with_staleness E w (\<lambda>n. Some (take n ranking)) k True now) =
      Some (take k ranking)"
proof -
  let ?t = "take (fetch_count k) ranking"
  have "length (filter (in_pool now) ?t) + length (filter (\<lambda>i. \<not> in_pool now i) ?t) = length ?t"
    by (rule sum_length_filter_compl)
  then have "k \<le> length (filter (in_pool now) ?t) \<or> length ranking \<le> fetch_count k"
    using assms by (auto simp: fetch_count_def)
  from take_filter_prefix[OF this] show ?thesis
    by (simp add: search_with_staleness_def annotate_items comp_def)
qed

lemma demo_ranking_pool: "in_pool now \<lparr>it_fields = [''id'' \<mapsto> PStr ''a''], it_metadata = Map.empty\<rparr>"
  by (simp add: in_pool_def result_item_superseded_def result_item_expired_def superseded_ids_def
      is_ttl_expired_def dget_def)

theorem search_returns_pool_witness:
  "map_option (map hit_item) (search_with_staleness demo_env (demo_world []) (\<lambda>n. Some (take n
       [\<lparr>it_fields = [''id'' \<mapsto> PStr ''a''], it_metadata = Map.empty\<rparr>])) 5 False ''2026'') =
     Some [\<lparr>it_fields = [''id'' \<mapsto> PStr ''a''], it_metadata = Map.empty\<rparr>]"
  using search_returns_pool[of "''2026''" 5 "[\<lparr>it_fields = [''id'' \<mapsto> PStr ''a''], it_metadata = Map.empty\<rparr>]"
      demo_env "demo_world []"]
  by (simp add: fetch_count_def demo_ranking_pool)

text \<open>The candidates of a stale check are the first \<^verbatim>\<open>top_k\<close> neighbours (one when \<^verbatim>\<open>top_k\<close> is zero) that
  carry an id, are not the entry itself, not superseded and not protected. An expired
  neighbour is a candidate like any other.\<close>

theorem select_candidates_eq:
  "select_candidates new_id now k items =
     map candidate_of (take (max 1 k) (filter (\<lambda>it. \<not> skipped_candidate new_id now it) items))"
proof (induction items arbitrary: k)
  case (Cons it its)
  show ?case
  proof (cases "k \<le> 1")
    case True
    then have "max 1 k = Suc 0" by simp
    with True Cons show ?thesis by simp
  next
    case False
    then obtain j where "k = Suc j" "1 \<le> j" by (cases k) auto
    then have "max 1 k = Suc j" "max 1 j = j" by auto
    with Cons.IH[of j] Cons.IH[of k] \<open>k = Suc j\<close> False show ?thesis by simp
  qed
qed simp

subsection \<open>A check only appends evidence\<close>

definition appends :: "string \<Rightarrow> 'q world \<Rightarrow> 'q world \<Rightarrow> bool" where
  "appends new_id w w' \<longleftrightarrow>
     store w' = store w \<and> history w' = history w \<and>
     (\<exists>rows. pairs w' = pairs w @ rows \<and> (\<forall>r \<in> set rows. pr_new r = new_id))"

lemma appends_refl [simp]: "appends n w w"
  by (simp add: appends_def)

lemma appends_trans: "appends n a b \<Longrightarrow> appends n b c \<Longrightarrow> appends n a c"
  by (force simp: appends_def)

lemma after_appends:
  assumes "appends n w (snd m)" "\<And>x w1. m = (Inr x, w1) \<Longrightarrow> appends n w1 (snd (f x w1))"
  shows "appends n w (snd (after m f))"
  using assms by (cases m) (auto simp: after_def split: sum.splits intro: appends_trans)

lemma record_verdict_appends: "appends new_id w (snd (record_verdict E C i kind new_id old_id txt v model w))"
  by (auto simp: record_verdict_def with_pairs_def record_judgment_def insert_or_ignore_def appends_def
      make_row_def Let_def)

lemma self_check_appends: "appends new_id w (snd (self_check E C i kind new_id txt judged w))"
  by (auto simp: self_check_def record_verdict_appends intro!: after_appends split: sum.splits)

lemma run_self_checks_appends: "appends new_id w (snd (run_self_checks E C new_id txt payload w))"
  unfolding run_self_checks_def Let_def
  by (intro after_appends self_check_appends) simp

lemma record_all_appends: "appends new_id w (snd (record_all E C i new_id cs model vs w))"
proof (induction vs arbitrary: i w)
  case (Cons v vs)
  show ?case
    unfolding record_all.simps
    by (intro after_appends record_verdict_appends Cons.IH) simp
qed simp

lemma check_neighbours_appends:
  "appends new_id w (snd (check_neighbours E C new_id txt payload k now report w))"
  unfolding check_neighbours_def Let_def
  by (auto intro!: after_appends record_all_appends split: option.splits sum.splits)

text \<open>The stale check is advisory. However it ends, the store and its history are as they were, and the
  pair table has only gained rows judged from the new entry.\<close>

theorem stale_check_advisory:
  "\<exists>rows. store (snd (run_stale_check E C new_id k self_only now w)) = store w \<and>
     history (snd (run_stale_check E C new_id k self_only now w)) = history w \<and>
     pairs (snd (run_stale_check E C new_id k self_only now w)) = pairs w @ rows \<and>
     pr_new ` set rows \<subseteq> {new_id}"
proof -
  have "appends new_id w (snd (run_stale_check E C new_id k self_only now w))"
    unfolding run_stale_check_def
    by (auto intro!: after_appends run_self_checks_appends check_neighbours_appends split: option.splits)
  then show ?thesis by (auto simp: appends_def)
qed

text \<open>A check that has been done is not done again. When the three self-judgments of this text
  version exist and every candidate found was judged in either direction, the check returns
  without a call to the model and changes nothing, whatever the model would have said.\<close>

theorem stale_check_cached:
  assumes "pairs_up E" "payload_at E w new_id = Some payload" "superseded_ids payload = []"
    "text_of payload \<noteq> []"
    and "has_judgment (sha E) new_id new_id (text_of payload) Necessity (pairs w)"
    "has_judgment (sha E) new_id new_id (text_of payload) Safety (pairs w)"
    "has_judgment (sha E) new_id new_id (text_of payload) Correctness (pairs w)"
    and "ck_search C w (text_of payload) (fetch_count k)
           (if truthy (dget payload ''user_id'') then Some [''user_id'' \<mapsto> dget payload ''user_id''] else None)
         = Some items"
    "je_id ` set (select_candidates new_id now k items) \<subseteq>
       judged_either (sha E) new_id (text_of payload)
         (map (\<lambda>c. (je_id c, je_text c)) (select_candidates new_id now k items)) (pairs w)"
  shows "\<exists>n. run_stale_check E C new_id k False now w =
    (Inr (Checked 0 0 n \<lparr>sr_necessity = None, sr_safety = None, sr_correctness = None\<rparr>), w)"
proof -
  let ?found = "select_candidates new_id now k items"
  let ?already = "judged_either (sha E) new_id (text_of payload)
         (map (\<lambda>c. (je_id c, je_text c)) ?found) (pairs w)"
  have sc: "self_check E C i kind new_id (text_of payload) judged w = (Inr None, w)"
    if "kind \<in> {Necessity, Safety, Correctness}" for i kind judged
    using assms(1,5-7) that by (auto simp: self_check_def)
  have self: "run_self_checks E C new_id (text_of payload) payload w =
      (Inr \<lparr>sr_necessity = None, sr_safety = None, sr_correctness = None\<rparr>, w)"
    by (simp add: run_self_checks_def sc after_def Let_def)
  have none: "filter (\<lambda>c. je_id c \<notin> ?already) ?found = []"
    using assms(9) by (auto simp: filter_empty_conv)
  have nb: "check_neighbours E C new_id (text_of payload) payload k now report w =
      (Inr (Checked 0 0 (card ?already) report), w)" for report
    using assms(1,8) none by (simp add: check_neighbours_def Let_def)
  show ?thesis
    using assms(2-4) self nb by (simp add: run_stale_check_def is_invalidated_def after_def)
qed

definition cached_rows :: "pair_row list" where
  "cached_rows = map (\<lambda>(u, k). \<lparr>pr_id = u, pr_kind = k, pr_new = ''a'', pr_old = ''a'', pr_hash = ''old text'',
      pr_verdict = ''x'', pr_confidence = None, pr_reason = None, pr_judged_at = ''1'', pr_model = None,
      pr_session = None, pr_disposition = DCached, pr_disposed_by = None, pr_disposed_at = None\<rparr>)
     [(''p'', Necessity), (''q'', Safety), (''r'', Correctness)]"

definition quiet_checker :: "(string \<times> payload) list checker" where
  "quiet_checker = \<lparr>ck_decoder = demo_decoder, ck_llm = \<lparr>generate = (\<lambda>k u. None)\<rparr>, ck_sgt = (\<lambda>s. s),
     ck_search = (\<lambda>w q n f. Some []), ck_model = None, ck_session = None, fr_uid = (\<lambda>i. ''u''),
     fr_time = (\<lambda>i. 0)\<rparr>"

theorem stale_check_cached_witness:
  "\<exists>n. run_stale_check demo_env quiet_checker ''a'' 10 False ''2026''
       ((demo_world two_memories)\<lparr>pairs := cached_rows\<rparr>) =
     (Inr (Checked 0 0 n \<lparr>sr_necessity = None, sr_safety = None, sr_correctness = None\<rparr>),
      (demo_world two_memories)\<lparr>pairs := cached_rows\<rparr>)"
proof (rule stale_check_cached[where payload = "[''data'' \<mapsto> PStr ''old text'']" and items = "[]"])
qed (simp_all add: two_memories_def superseded_ids_def text_of_def dget_def has_judgment_def cached_rows_def
    pair_key_def quiet_checker_def)

end
