(* ===== verification/Event_Queue.thy ===== *)
theory Event_Queue
  imports Iso_Time Sql_Table
begin

text \<open>
  The persistent queue of asynchronous adds, \<^verbatim>\<open>src/src/memline/queue.py\<close>. The state is the
  \<^verbatim>\<open>events\<close> table, the alerts file that the CLI banner reads, and the number of times the
  queue's condition variable was notified. Arguments and results are stored as JSON text and
  read back with \<^verbatim>\<open>json.loads\<close>; on JSON values that round trip is the identity, so the rows
  hold the values. Clock readings are arguments, event ids (\<^verbatim>\<open>uuid4\<close>) are arguments.
\<close>

type_synonym args = "(string \<times> pyval) list"

definition aget :: "args \<Rightarrow> string \<Rightarrow> pyval" where
  "aget a k = (case map_of a k of None \<Rightarrow> PNone | Some v \<Rightarrow> v)"

lemma aget_Cons: "aget ((k, v) # kvs) j = (if j = k then v else aget kvs j)"
  by (simp add: aget_def)

lemma aget_Nil: "aget [] j = PNone"
  by (simp add: aget_def)

datatype ev_status = Queued | Processing | Done | Failed

fun status_text :: "ev_status \<Rightarrow> string" where
  "status_text Queued = ''queued''"
| "status_text Processing = ''processing''"
| "status_text Done = ''done''"
| "status_text Failed = ''failed''"

record event =
  ev_id :: string
  ev_op :: string
  ev_args :: args
  ev_status :: ev_status
  ev_attempts :: nat
  ev_acked :: bool
  ev_created :: string
  ev_updated :: string
  ev_result :: "pyval option"
  ev_error :: "string option"

record alert =
  failed_unacked :: nat
  latest_error :: "string option"
  alert_updated_at :: "string option"

record event_queue =
  events :: "event list"
  alerts_file :: "alert option"
  notified :: nat

record claim =
  cl_id :: string
  cl_op :: string
  cl_args :: args
  cl_attempts :: nat

record event_view =
  vw_event_id :: string
  vw_op :: string
  vw_status :: string
  vw_attempts :: nat
  vw_acked :: bool
  vw_created_at :: string
  vw_updated_at :: string
  vw_error :: "string option"
  vw_content_preview :: "string option"
  vw_result :: pyval

datatype sql_error = IntegrityError

definition MAX_ATTEMPTS :: nat where
  "MAX_ATTEMPTS = 3"

definition RETENTION_DAYS :: nat where
  "RETENTION_DAYS = 30"

subsection \<open>Operations\<close>

definition notify :: "event_queue \<Rightarrow> event_queue" where
  "notify q = q\<lparr>notified := notified q + 1\<rparr>"

text \<open>A new row; the primary key makes a repeated id an error before anything is stored.\<close>

definition enqueue ::
  "string \<Rightarrow> string \<Rightarrow> args \<Rightarrow> time \<Rightarrow> event_queue \<Rightarrow> (sql_error + string) \<times> event_queue" where
  "enqueue eid op a t q =
     (if eid \<in> set (map ev_id (events q)) then (Inl IntegrityError, q)
      else let now = iso_text t;
               row = \<lparr>ev_id = eid, ev_op = op, ev_args = a, ev_status = Queued, ev_attempts = 0,
                      ev_acked = False, ev_created = now, ev_updated = now,
                      ev_result = None, ev_error = None\<rparr>
           in (Inr eid, notify (q\<lparr>events := events q @ [row]\<rparr>)))"

definition claim_next :: "time \<Rightarrow> event_queue \<Rightarrow> claim option \<times> event_queue" where
  "claim_next t q =
     (case first_row (order_asc ev_created (filter (\<lambda>r. ev_status r = Queued) (events q))) of
        None \<Rightarrow> (None, q)
      | Some row \<Rightarrow>
          (Some \<lparr>cl_id = ev_id row, cl_op = ev_op row, cl_args = ev_args row,
                 cl_attempts = ev_attempts row + 1\<rparr>,
           q\<lparr>events := upd_where (\<lambda>r. ev_id r = ev_id row)
               (\<lambda>r. r\<lparr>ev_status := Processing, ev_attempts := ev_attempts r + 1,
                      ev_updated := iso_text t\<rparr>) (events q)\<rparr>))"

definition complete :: "string \<Rightarrow> pyval \<Rightarrow> time \<Rightarrow> event_queue \<Rightarrow> event_queue" where
  "complete eid result t q =
     q\<lparr>events := upd_where (\<lambda>r. ev_id r = eid)
         (\<lambda>r. r\<lparr>ev_status := Done, ev_result := Some result, ev_error := None,
                ev_updated := iso_text t\<rparr>) (events q)\<rparr>"

definition fail ::
  "string \<Rightarrow> string \<Rightarrow> nat \<Rightarrow> time \<Rightarrow> event_queue \<Rightarrow> bool \<times> event_queue" where
  "fail eid err attempts t q =
     (let terminal = (MAX_ATTEMPTS \<le> attempts);
          q' = q\<lparr>events := upd_where (\<lambda>r. ev_id r = eid)
                 (\<lambda>r. r\<lparr>ev_status := (if terminal then Failed else Queued), ev_error := Some err,
                        ev_updated := iso_text t\<rparr>) (events q)\<rparr>
      in (terminal, if terminal then q' else notify q'))"

definition purgeable :: "string \<Rightarrow> event \<Rightarrow> bool" where
  "purgeable cutoff r \<longleftrightarrow>
     ev_updated r < cutoff \<and> (ev_status r = Done \<or> (ev_status r = Failed \<and> ev_acked r))"

definition purge :: "nat \<Rightarrow> time \<Rightarrow> event_queue \<Rightarrow> nat \<times> event_queue" where
  "purge retention_days t q =
     (let cutoff = iso_text (t - retention_days * us_per_day)
      in (rowcount (purgeable cutoff) (events q),
          q\<lparr>events := delete_where (purgeable cutoff) (events q)\<rparr>))"

definition recover_stale :: "time \<Rightarrow> event_queue \<Rightarrow> nat \<times> event_queue" where
  "recover_stale t q =
     (rowcount (\<lambda>r. ev_status r = Processing) (events q),
      q\<lparr>events := upd_where (\<lambda>r. ev_status r = Processing)
          (\<lambda>r. r\<lparr>ev_status := Queued, ev_updated := iso_text t\<rparr>) (events q)\<rparr>)"

definition row_to_dict :: "event \<Rightarrow> event_view" where
  "row_to_dict r =
     (let content = aget (ev_args r) ''content''
      in \<lparr>vw_event_id = ev_id r, vw_op = ev_op r, vw_status = status_text (ev_status r),
          vw_attempts = ev_attempts r, vw_acked = ev_acked r, vw_created_at = ev_created r,
          vw_updated_at = ev_updated r, vw_error = ev_error r,
          vw_content_preview = (if content = PNone then None else Some (clip 120 (py_str content))),
          vw_result = (case ev_result r of None \<Rightarrow> PNone | Some v \<Rightarrow> v)\<rparr>)"

definition get_event :: "string \<Rightarrow> event_queue \<Rightarrow> event_view option" where
  "get_event eid q = map_option row_to_dict (lookup_row ev_id eid (events q))"

definition get_args :: "string \<Rightarrow> event_queue \<Rightarrow> args option" where
  "get_args eid q = map_option ev_args (lookup_row ev_id eid (events q))"

definition list_events ::
  "string option \<Rightarrow> int \<Rightarrow> int \<Rightarrow> event_queue \<Rightarrow> event_view list" where
  "list_events status limit offset q =
     (let wanted = (case status of None \<Rightarrow> events q
                    | Some s \<Rightarrow> if s = [] then events q
                                else filter (\<lambda>r. status_text (ev_status r) = s) (events q))
      in map row_to_dict (sql_limit limit (sql_offset offset (order_desc ev_created wanted))))"

definition retry :: "string \<Rightarrow> time \<Rightarrow> event_queue \<Rightarrow> bool \<times> event_queue" where
  "retry eid t q =
     (let P = (\<lambda>r. ev_id r = eid \<and> ev_status r = Failed);
          n = rowcount P (events q);
          q' = q\<lparr>events := upd_where P
                 (\<lambda>r. r\<lparr>ev_status := Queued, ev_attempts := 0, ev_acked := False,
                        ev_error := None, ev_updated := iso_text t\<rparr>) (events q)\<rparr>
      in (0 < n, if 0 < n then notify q' else q'))"

definition unacked :: "event \<Rightarrow> bool" where
  "unacked r \<longleftrightarrow> ev_status r = Failed \<and> \<not> ev_acked r"

definition ack_target :: "string option \<Rightarrow> event \<Rightarrow> bool" where
  "ack_target eid r =
     (case eid of
        Some e \<Rightarrow> if e = [] then unacked r else ev_id r = e \<and> ev_status r = Failed
      | None \<Rightarrow> unacked r)"

definition ack :: "string option \<Rightarrow> time \<Rightarrow> event_queue \<Rightarrow> nat \<times> event_queue" where
  "ack eid t q =
     (rowcount (ack_target eid) (events q),
      q\<lparr>events := upd_where (ack_target eid)
          (\<lambda>r. r\<lparr>ev_acked := True, ev_updated := iso_text t\<rparr>) (events q)\<rparr>)"

definition refresh_alerts :: "event_queue \<Rightarrow> event_queue" where
  "refresh_alerts q =
     (let bad = filter unacked (events q);
          latest = first_row (order_desc ev_updated bad)
      in if 0 < length bad
         then q\<lparr>alerts_file := Some \<lparr>failed_unacked = length bad,
                 latest_error = (case latest of Some r \<Rightarrow> ev_error r | None \<Rightarrow> None),
                 alert_updated_at = (if bad = [] then None else Some (Max (ev_updated ` set bad)))\<rparr>\<rparr>
         else q\<lparr>alerts_file := None\<rparr>)"

definition read_alerts :: "event_queue \<Rightarrow> alert option" where
  "read_alerts q = alerts_file q"

subsection \<open>Effects on the table\<close>

lemma events_notify [simp]: "events (notify q) = events q"
  by (simp add: notify_def)

lemma enqueue_Inr:
  "enqueue eid op a t q = (Inr x, q') \<longleftrightarrow>
   x = eid \<and> eid \<notin> ev_id ` set (events q) \<and>
   q' = notify (q\<lparr>events := events q @ [\<lparr>ev_id = eid, ev_op = op, ev_args = a, ev_status = Queued,
     ev_attempts = 0, ev_acked = False, ev_created = iso_text t, ev_updated = iso_text t,
     ev_result = None, ev_error = None\<rparr>]\<rparr>)"
  by (auto simp: enqueue_def Let_def)

lemma claim_next_None: "claim_next t q = (None, q') \<longleftrightarrow> q' = q \<and> (\<forall>r \<in> set (events q). ev_status r \<noteq> Queued)"
proof -
  have "first_row (order_asc ev_created (filter (\<lambda>r. ev_status r = Queued) (events q))) = None \<longleftrightarrow>
      (\<forall>r \<in> set (events q). ev_status r \<noteq> Queued)"
    by (auto simp: row_simps filter_empty_conv)
  then show ?thesis
    by (cases "first_row (order_asc ev_created (filter (\<lambda>r. ev_status r = Queued) (events q)))")
      (auto simp: claim_next_def)
qed

lemma claim_next_Some:
  assumes "claim_next t q = (Some c, q')"
  obtains row where "row \<in> set (events q)" "ev_status row = Queued"
    "\<And>r. r \<in> set (events q) \<Longrightarrow> ev_status r = Queued \<Longrightarrow> ev_created row \<le> ev_created r"
    "c = \<lparr>cl_id = ev_id row, cl_op = ev_op row, cl_args = ev_args row,
          cl_attempts = ev_attempts row + 1\<rparr>"
    "q' = q\<lparr>events := upd_where (\<lambda>r. ev_id r = ev_id row)
       (\<lambda>r. r\<lparr>ev_status := Processing, ev_attempts := ev_attempts r + 1,
              ev_updated := iso_text t\<rparr>) (events q)\<rparr>"
proof -
  let ?queued = "filter (\<lambda>r. ev_status r = Queued) (events q)"
  obtain row where row: "first_row (order_asc ev_created ?queued) = Some row"
    using assms by (cases "first_row (order_asc ev_created ?queued)") (auto simp: claim_next_def)
  have "row \<in> set ?queued"
    using first_row_in[OF row] by (simp add: row_simps)
  moreover have "ev_created row \<le> ev_created r" if "r \<in> set (events q)" "ev_status r = Queued" for r
    using first_order_asc_min[OF row, of r] that by simp
  ultimately show thesis
    using assms row that by (auto simp: claim_next_def)
qed

subsection \<open>Workers, clients and the daemon's restarts as steps\<close>

text \<open>
  The queue together with the claims its workers hold. The daemon's workers claim, then
  complete or fail what they claimed; clients enqueue, retry and acknowledge; the daemon
  purges and refreshes the alerts; a crash loses the workers and the next start runs
  \<^verbatim>\<open>recover_stale\<close>.
\<close>

record q_world =
  wq :: event_queue
  held :: "claim list"

datatype q_label =
    QEnqueue string string args time
  | QClaim time
  | QComplete claim pyval time
  | QFail claim string time
  | QRetry string time
  | QAck "string option" time
  | QPurge nat time
  | QRefresh
  | QRestart time

inductive q_step :: "q_world \<Rightarrow> q_label \<Rightarrow> q_world \<Rightarrow> bool" where
  enqueue: "enqueue eid op a t (wq w) = (Inr eid, q') \<Longrightarrow>
     q_step w (QEnqueue eid op a t) (w\<lparr>wq := q'\<rparr>)"
| claim: "claim_next t (wq w) = (Some c, q') \<Longrightarrow>
     q_step w (QClaim t) (w\<lparr>wq := q', held := c # held w\<rparr>)"
| complete: "c \<in> set (held w) \<Longrightarrow>
     q_step w (QComplete c res t)
       (w\<lparr>wq := complete (cl_id c) res t (wq w), held := remove1 c (held w)\<rparr>)"
| fail: "c \<in> set (held w) \<Longrightarrow> fail (cl_id c) err (cl_attempts c) t (wq w) = (terminal, q') \<Longrightarrow>
     q_step w (QFail c err t) (w\<lparr>wq := q', held := remove1 c (held w)\<rparr>)"
| retry: "q_step w (QRetry eid t) (w\<lparr>wq := snd (retry eid t (wq w))\<rparr>)"
| ack: "q_step w (QAck eid t) (w\<lparr>wq := snd (ack eid t (wq w))\<rparr>)"
| purge: "q_step w (QPurge days t) (w\<lparr>wq := snd (purge days t (wq w))\<rparr>)"
| refresh: "q_step w QRefresh (w\<lparr>wq := refresh_alerts (wq w)\<rparr>)"
| restart: "q_step w (QRestart t) \<lparr>wq = snd (recover_stale t (wq w)), held = []\<rparr>"

inductive_simps q_step_enqueue [simp]: "q_step w (QEnqueue eid op a t) w'"
inductive_simps q_step_claim [simp]: "q_step w (QClaim t) w'"
inductive_simps q_step_complete [simp]: "q_step w (QComplete c res t) w'"
inductive_simps q_step_fail [simp]: "q_step w (QFail c err t) w'"
inductive_simps q_step_restart [simp]: "q_step w (QRestart t) w'"
inductive_cases q_stepE: "q_step w l w'"

definition empty_queue :: event_queue where
  "empty_queue = \<lparr>events = [], alerts_file = None, notified = 0\<rparr>"

inductive q_reach :: "q_world \<Rightarrow> bool" where
  start: "q_reach \<lparr>wq = empty_queue, held = []\<rparr>"
| step: "q_reach w \<Longrightarrow> q_step w l w' \<Longrightarrow> q_reach w'"

text \<open>What the columns of one row keep true of each other.\<close>

definition row_ok :: "event \<Rightarrow> bool" where
  "row_ok r \<longleftrightarrow>
     (ev_acked r \<longrightarrow> ev_status r = Failed) \<and>
     (ev_status r = Failed \<longrightarrow> MAX_ATTEMPTS \<le> ev_attempts r \<and> ev_error r \<noteq> None) \<and>
     (ev_status r = Done \<longrightarrow> ev_result r \<noteq> None \<and> ev_error r = None) \<and>
     (ev_status r = Processing \<longrightarrow> 1 \<le> ev_attempts r)"

text \<open>The claims and the rows agree: one claim per row being processed, with its attempt count.\<close>

definition claims_ok :: "claim list \<Rightarrow> event list \<Rightarrow> bool" where
  "claims_ok cs rows \<longleftrightarrow>
     distinct (map cl_id cs) \<and>
     (\<forall>c \<in> set cs. \<exists>r \<in> set rows. ev_id r = cl_id c \<and> ev_status r = Processing \<and>
        ev_attempts r = cl_attempts c) \<and>
     (\<forall>r \<in> set rows. ev_status r = Processing \<longrightarrow> ev_id r \<in> cl_id ` set cs)"

definition q_inv :: "q_world \<Rightarrow> bool" where
  "q_inv w \<longleftrightarrow>
     distinct (map ev_id (events (wq w))) \<and> (\<forall>r \<in> set (events (wq w)). row_ok r) \<and>
     claims_ok (held w) (events (wq w))"

lemma upd_keeps_ids: "(\<And>r. ev_id (f r) = ev_id r) \<Longrightarrow> map ev_id (upd_where P f rows) = map ev_id rows"
  by (rule map_key_upd_where)

text \<open>An update of rows that are not being processed keeps the agreement.\<close>

lemma claims_ok_upd_idle:
  assumes "claims_ok cs rows" "\<And>r. ev_id (f r) = ev_id r"
    "\<And>r. r \<in> set rows \<Longrightarrow> P r \<Longrightarrow> ev_status r \<noteq> Processing \<and> ev_status (f r) \<noteq> Processing"
  shows "claims_ok cs (upd_where P f rows)"
  unfolding claims_ok_def
proof (intro conjI ballI)
  show "distinct (map cl_id cs)" using assms(1) by (simp add: claims_ok_def)
next
  fix c assume "c \<in> set cs"
  then obtain r where "r \<in> set rows" "ev_id r = cl_id c" "ev_status r = Processing"
      "ev_attempts r = cl_attempts c"
    using assms(1) by (auto simp: claims_ok_def)
  then show "\<exists>r \<in> set (upd_where P f rows).
      ev_id r = cl_id c \<and> ev_status r = Processing \<and> ev_attempts r = cl_attempts c"
    unfolding bex_upd_where using assms(3)[of r] by (intro bexI[of _ r]) auto
next
  fix r assume "r \<in> set (upd_where P f rows)"
  then obtain r0 where "r0 \<in> set rows" "r = (if P r0 then f r0 else r0)"
    by (auto simp: row_simps)
  then show "ev_status r = Processing \<longrightarrow> ev_id r \<in> cl_id ` set cs"
    using assms by (cases "P r0") (auto simp: claims_ok_def)
qed

lemma claims_ok_delete:
  assumes "claims_ok cs rows" "\<And>r. P r \<Longrightarrow> ev_status r \<noteq> Processing"
  shows "claims_ok cs (delete_where P rows)"
  unfolding claims_ok_def
proof (intro conjI ballI)
  fix c assume "c \<in> set cs"
  then obtain r where "r \<in> set rows" "ev_id r = cl_id c" "ev_status r = Processing"
      "ev_attempts r = cl_attempts c"
    using assms(1) by (auto simp: claims_ok_def)
  then show "\<exists>r \<in> set (delete_where P rows).
      ev_id r = cl_id c \<and> ev_status r = Processing \<and> ev_attempts r = cl_attempts c"
    using assms(2)[of r] by (intro bexI[of _ r]) (auto simp: row_simps)
qed (use assms(1) in \<open>auto simp: claims_ok_def row_simps\<close>)

lemma row_ok_upd:
  assumes "\<forall>r \<in> set rows. row_ok r" "\<And>r. r \<in> set rows \<Longrightarrow> P r \<Longrightarrow> row_ok r \<Longrightarrow> row_ok (f r)"
  shows "\<forall>r \<in> set (upd_where P f rows). row_ok r"
  using assms by (auto simp: row_simps)

text \<open>Ending a claim: its row leaves \<^const>\<open>Processing\<close>, no other row changes.\<close>

lemma claims_ok_finish:
  assumes ok: "claims_ok cs rows" and c: "c \<in> set cs"
    and d: "distinct (map ev_id rows)"
    and f: "\<And>r. ev_id (f r) = ev_id r" "\<And>r. ev_status (f r) \<noteq> Processing"
  shows "claims_ok (remove1 c cs) (upd_where (\<lambda>r. ev_id r = cl_id c) f rows)"
proof -
  have dc: "distinct (map cl_id cs)" using ok by (simp add: claims_ok_def)
  then have dcs: "distinct cs" by (simp add: distinct_map)
  have other: "cl_id c' \<noteq> cl_id c" if "c' \<in> set (remove1 c cs)" for c'
    using that c dc dcs by (auto simp: distinct_map inj_on_def)
  show ?thesis
    unfolding claims_ok_def
  proof (intro conjI ballI)
    show "distinct (map cl_id (remove1 c cs))"
      using dc dcs by (auto simp: distinct_map inj_on_def distinct_remove1)
  next
    fix c' assume c': "c' \<in> set (remove1 c cs)"
    then have "c' \<in> set cs" by (meson notin_set_remove1)
    then obtain r where "r \<in> set rows" "ev_id r = cl_id c'" "ev_status r = Processing"
        "ev_attempts r = cl_attempts c'"
      using ok by (auto simp: claims_ok_def)
    then show "\<exists>r \<in> set (upd_where (\<lambda>r. ev_id r = cl_id c) f rows).
        ev_id r = cl_id c' \<and> ev_status r = Processing \<and> ev_attempts r = cl_attempts c'"
      unfolding bex_upd_where using other[OF c'] by (intro bexI[of _ r]) auto
  next
    fix r assume "r \<in> set (upd_where (\<lambda>r. ev_id r = cl_id c) f rows)"
    then obtain r0 where r0: "r0 \<in> set rows" "r = (if ev_id r0 = cl_id c then f r0 else r0)"
      by (auto simp: row_simps)
    show "ev_status r = Processing \<longrightarrow> ev_id r \<in> cl_id ` set (remove1 c cs)"
    proof
      assume p: "ev_status r = Processing"
      with r0 f have "r = r0" "ev_id r0 \<noteq> cl_id c" by (auto split: if_splits)
      moreover from this p r0 obtain c' where "c' \<in> set cs" "ev_id r0 = cl_id c'"
        using ok by (auto simp: claims_ok_def)
      ultimately show "ev_id r \<in> cl_id ` set (remove1 c cs)"
        using dcs by auto
    qed
  qed
qed


lemma claims_ok_claim:
  assumes ok: "claims_ok cs rows" and d: "distinct (map ev_id rows)"
    and row: "row \<in> set rows" "ev_status row = Queued"
    and c: "cl_id c = ev_id row" "cl_attempts c = ev_attempts row + 1"
  shows "claims_ok (c # cs) (upd_where (\<lambda>r. ev_id r = ev_id row)
    (\<lambda>r. r\<lparr>ev_status := Processing, ev_attempts := ev_attempts r + 1, ev_updated := u\<rparr>) rows)"
proof -
  have new: "cl_id c' \<noteq> ev_id row" if c': "c' \<in> set cs" for c'
  proof -
    obtain r where "r \<in> set rows" "ev_id r = cl_id c'" "ev_status r = Processing"
      using ok c' by (auto simp: claims_ok_def)
    then show ?thesis using row d by (auto simp: distinct_map inj_on_def)
  qed
  have "\<exists>r \<in> set (upd_where (\<lambda>r. ev_id r = ev_id row)
      (\<lambda>r. r\<lparr>ev_status := Processing, ev_attempts := ev_attempts r + 1, ev_updated := u\<rparr>) rows).
      ev_id r = cl_id c' \<and> ev_status r = Processing \<and> ev_attempts r = cl_attempts c'"
    if "c' \<in> set (c # cs)" for c'
  proof (cases "c' = c")
    case True
    with row c show ?thesis unfolding bex_upd_where by (intro bexI[of _ row]) auto
  next
    case False
    with that have c': "c' \<in> set cs" by simp
    then obtain r where "r \<in> set rows" "ev_id r = cl_id c'" "ev_status r = Processing"
        "ev_attempts r = cl_attempts c'"
      using ok by (auto simp: claims_ok_def)
    with new[OF c'] show ?thesis unfolding bex_upd_where by (intro bexI[of _ r]) auto
  qed
  moreover have "ev_id row \<notin> cl_id ` set cs"
    using new by (metis imageE)
  then have "distinct (map cl_id (c # cs))"
    using ok c by (simp add: claims_ok_def)
  ultimately show ?thesis
    using ok c by (auto simp: claims_ok_def row_simps)
qed

lemma row_at: "distinct (map ev_id rows) \<Longrightarrow> r \<in> set rows \<Longrightarrow> r' \<in> set rows \<Longrightarrow>
    ev_id r = ev_id r' \<Longrightarrow> r = r'"
  by (auto simp: distinct_map inj_on_def)

lemma events_refresh [simp]: "events (refresh_alerts q) = events q"
  by (simp add: refresh_alerts_def Let_def)

lemma events_retry:
  "events (snd (retry eid t q)) = upd_where (\<lambda>r. ev_id r = eid \<and> ev_status r = Failed)
     (\<lambda>r. r\<lparr>ev_status := Queued, ev_attempts := 0, ev_acked := False,
            ev_error := None, ev_updated := iso_text t\<rparr>) (events q)"
  by (simp add: retry_def Let_def)

lemma events_fail:
  assumes "fail eid err n t q = (terminal, q')"
  shows "terminal = (MAX_ATTEMPTS \<le> n)"
    "events q' = upd_where (\<lambda>r. ev_id r = eid)
       (\<lambda>r. r\<lparr>ev_status := (if MAX_ATTEMPTS \<le> n then Failed else Queued), ev_error := Some err,
              ev_updated := iso_text t\<rparr>) (events q)"
  using assms by (auto simp: fail_def Let_def split: if_splits)

lemma events_ack:
  "events (snd (ack eid t q)) =
     upd_where (ack_target eid) (\<lambda>r. r\<lparr>ev_acked := True, ev_updated := iso_text t\<rparr>) (events q)"
  by (simp add: ack_def)

lemma ack_target_failed: "ack_target eid r \<Longrightarrow> ev_status r = Failed"
  by (auto simp: ack_target_def unacked_def split: option.splits if_splits)

lemma events_recover:
  "events (snd (recover_stale t q)) = upd_where (\<lambda>r. ev_status r = Processing)
     (\<lambda>r. r\<lparr>ev_status := Queued, ev_updated := iso_text t\<rparr>) (events q)"
  by (simp add: recover_stale_def)

lemma events_purge:
  "events (snd (purge days t q)) =
     delete_where (purgeable (iso_text (t - days * us_per_day))) (events q)"
  by (simp add: purge_def Let_def)

lemma events_complete:
  "events (complete eid res t q) = upd_where (\<lambda>r. ev_id r = eid)
     (\<lambda>r. r\<lparr>ev_status := Done, ev_result := Some res, ev_error := None,
            ev_updated := iso_text t\<rparr>) (events q)"
  by (simp add: complete_def)

lemmas queue_effects = events_refresh events_retry events_recover events_purge events_complete

lemma held_row:
  assumes "q_inv w" "c \<in> set (held w)" "r \<in> set (events (wq w))" "ev_id r = cl_id c"
  shows "ev_status r = Processing \<and> ev_attempts r = cl_attempts c"
proof -
  obtain r' where "r' \<in> set (events (wq w))" "ev_id r' = cl_id c" "ev_status r' = Processing"
      "ev_attempts r' = cl_attempts c"
    using assms by (auto simp: q_inv_def claims_ok_def)
  then show ?thesis using row_at[of "events (wq w)" r r'] assms by (simp add: q_inv_def)
qed

text \<open>Every step keeps the invariant, so every reachable state has it.\<close>

lemma q_step_inv:
  assumes "q_step w l w'" "q_inv w"
  shows "q_inv w'"
  using assms
proof (induction rule: q_step.induct)
  case (enqueue eid op a t w q')
  then show ?case
    by (auto simp: q_inv_def enqueue_Inr claims_ok_def row_ok_def)
next
  case (claim t w c q')
  obtain row where row: "row \<in> set (events (wq w))" "ev_status row = Queued"
      "c = \<lparr>cl_id = ev_id row, cl_op = ev_op row, cl_args = ev_args row,
            cl_attempts = ev_attempts row + 1\<rparr>"
      "q' = (wq w)\<lparr>events := upd_where (\<lambda>r. ev_id r = ev_id row)
         (\<lambda>r. r\<lparr>ev_status := Processing, ev_attempts := ev_attempts r + 1,
                ev_updated := iso_text t\<rparr>) (events (wq w))\<rparr>"
    by (rule claim_next_Some[OF claim(1)]) blast
  have rows: "ev_status r = Queued \<and> \<not> ev_acked r"
    if "r \<in> set (events (wq w))" "ev_id r = ev_id row" for r
    using that row claim(2) row_at[of "events (wq w)" r row] by (auto simp: q_inv_def row_ok_def)
  have q': "events q' = upd_where (\<lambda>r. ev_id r = ev_id row)
      (\<lambda>r. r\<lparr>ev_status := Processing, ev_attempts := ev_attempts r + 1,
             ev_updated := iso_text t\<rparr>) (events (wq w))"
    unfolding row(4) by simp
  have "claims_ok (c # held w) (events q')"
    unfolding q' by (rule claims_ok_claim) (use claim(2) row in \<open>simp_all add: q_inv_def\<close>)
  moreover have "\<forall>r \<in> set (events q'). row_ok r"
    unfolding q' using claim(2) rows
    by (intro row_ok_upd) (auto simp: q_inv_def row_ok_def)
  ultimately show ?case
    using claim(2) q' by (simp add: q_inv_def upd_keeps_ids)
next
  case (complete c w res t)
  have "claims_ok (remove1 c (held w)) (events (Event_Queue.complete (cl_id c) res t (wq w)))"
    using complete unfolding events_complete by (intro claims_ok_finish) (auto simp: q_inv_def)
  moreover have "\<forall>r \<in> set (events (Event_Queue.complete (cl_id c) res t (wq w))). row_ok r"
    unfolding events_complete using complete held_row[OF complete(2,1)]
    by (intro row_ok_upd) (auto simp: q_inv_def row_ok_def)
  ultimately show ?case
    using complete(2) by (simp add: q_inv_def events_complete upd_keeps_ids)
next
  case (fail c w err t terminal q')
  note q' = events_fail(2)[OF fail(2)]
  have "claims_ok (remove1 c (held w)) (events q')"
    using fail unfolding q' by (intro claims_ok_finish) (auto simp: q_inv_def)
  moreover have "\<forall>r \<in> set (events q'). row_ok r"
    unfolding q' using fail held_row[OF fail(3,1)]
    by (intro row_ok_upd) (auto simp: q_inv_def row_ok_def)
  ultimately show ?case
    using fail(3) by (simp add: q_inv_def q' upd_keeps_ids)
next
  case (retry w eid t)
  then show ?case
    by (auto simp: q_inv_def events_retry upd_keeps_ids row_ok_def row_simps
        intro!: claims_ok_upd_idle)
next
  case (ack w eid t)
  then show ?case
    by (auto simp: q_inv_def events_ack upd_keeps_ids row_ok_def row_simps
        intro!: claims_ok_upd_idle dest: ack_target_failed)
next
  case (purge w days t)
  then show ?case
    by (auto simp: q_inv_def events_purge distinct_delete_where row_simps purgeable_def
        intro!: claims_ok_delete)
next
  case (refresh w)
  then show ?case by (simp add: q_inv_def)
next
  case (restart w t)
  then show ?case
    by (auto simp: q_inv_def events_recover upd_keeps_ids row_ok_def row_simps claims_ok_def)
qed

lemma q_reach_inv: "q_reach w \<Longrightarrow> q_inv w"
proof (induction rule: q_reach.induct)
  case start
  show ?case by (simp add: q_inv_def empty_queue_def claims_ok_def)
next
  case (step w l w')
  then show ?case by (blast intro: q_step_inv)
qed


subsection \<open>What the queue promises\<close>

lemma ids_claim: "claim_next t q = (c, q') \<Longrightarrow> map ev_id (events q') = map ev_id (events q)"
  by (auto simp: claim_next_def upd_keeps_ids split: option.splits)

lemma ids_fail: "fail eid err n t q = (terminal, q') \<Longrightarrow> map ev_id (events q') = map ev_id (events q)"
  by (simp add: events_fail upd_keeps_ids)

lemma ids_unchanged:
  assumes "q_step w l w'" "\<And>days t. l \<noteq> QPurge days t"
  shows "set (map ev_id (events (wq w))) \<subseteq> set (map ev_id (events (wq w')))"
  using assms
proof (induction rule: q_step.induct)
  case (purge w days t)
  then show ?case by blast
qed (simp_all add: enqueue_Inr queue_effects events_ack upd_keeps_ids ids_claim ids_fail
      subset_insertI del: set_map)

text \<open>C3: Durability. Once an add is accepted its row stays in the table through claims, failures,
  retries, acknowledgements and daemon restarts. Only a purge removes a row, and only one that
  is finished (done, or failed and acknowledged) and was last touched before the cutoff.\<close>

theorem queue_never_loses:
  assumes "q_step w l w'" "r \<in> set (events (wq w))" "ev_id r \<notin> ev_id ` set (events (wq w'))"
  shows "\<exists>days t. l = QPurge days t \<and> purgeable (iso_text (t - days * us_per_day)) r"
proof (cases "\<exists>days t. l = QPurge days t")
  case True
  then obtain days t where l: "l = QPurge days t" by blast
  from assms(1) have "wq w' = snd (purge days t (wq w))"
    unfolding l by (cases rule: q_step.cases) auto
  with assms(2,3) have "purgeable (iso_text (t - days * us_per_day)) r"
    by (auto simp: events_purge row_simps)
  with l show ?thesis by blast
next
  case False
  then have "ev_id ` set (events (wq w)) \<subseteq> ev_id ` set (events (wq w'))"
    using ids_unchanged[OF assms(1)] by simp
  with assms(2,3) show ?thesis by blast
qed

text \<open>C13: In every reachable state each row being processed is claimed by exactly one worker, which
  knows its attempt count; ids are unique; acknowledged rows are failures, and failures used up
  their attempts.\<close>

theorem queue_reachable_ok: "q_reach w \<Longrightarrow> q_inv w"
  by (rule q_reach_inv)

text \<open>First in, first out. A claim takes a queued event whose creation instant is no later than
  that of any other queued event; it becomes the only row changed, processing, with one more
  attempt.\<close>

theorem claim_next_oldest:
  assumes "claim_next t q = (Some c, q')" "distinct (map ev_id (events q))"
    and "\<And>r. r \<in> set (events q) \<Longrightarrow> ev_created r = iso_text (born (ev_id r)) \<and> born (ev_id r) < time_end"
    and "r \<in> set (events q)" "ev_status r = Queued"
  shows "born (cl_id c) \<le> born (ev_id r) \<and>
    (\<exists>row \<in> set (events q). ev_id row = cl_id c \<and> ev_status row = Queued \<and>
       cl_attempts c = ev_attempts row + 1 \<and>
       lookup_row ev_id (cl_id c) (events q') =
         Some (row\<lparr>ev_status := Processing, ev_attempts := cl_attempts c,
                  ev_updated := iso_text t\<rparr>) \<and>
       (\<forall>eid. eid \<noteq> cl_id c \<longrightarrow>
          lookup_row ev_id eid (events q') = lookup_row ev_id eid (events q)))"
proof -
  obtain row where row: "row \<in> set (events q)" "ev_status row = Queued"
    "\<And>r. r \<in> set (events q) \<Longrightarrow> ev_status r = Queued \<Longrightarrow> ev_created row \<le> ev_created r"
    "c = \<lparr>cl_id = ev_id row, cl_op = ev_op row, cl_args = ev_args row,
          cl_attempts = ev_attempts row + 1\<rparr>"
    "q' = q\<lparr>events := upd_where (\<lambda>r. ev_id r = ev_id row)
       (\<lambda>r. r\<lparr>ev_status := Processing, ev_attempts := ev_attempts r + 1,
              ev_updated := iso_text t\<rparr>) (events q)\<rparr>"
    using claim_next_Some[OF assms(1)] by blast
  have "born (cl_id c) \<le> born (ev_id r)"
    using row(3)[OF assms(4,5)] assms(3)[OF row(1)] assms(3)[OF assms(4)] row(4)
    by (simp add: iso_le_iff)
  moreover have "\<exists>row \<in> set (events q). ev_id row = cl_id c \<and> ev_status row = Queued \<and>
       cl_attempts c = ev_attempts row + 1 \<and>
       lookup_row ev_id (cl_id c) (events q') =
         Some (row\<lparr>ev_status := Processing, ev_attempts := cl_attempts c,
                  ev_updated := iso_text t\<rparr>) \<and>
       (\<forall>eid. eid \<noteq> cl_id c \<longrightarrow>
          lookup_row ev_id eid (events q') = lookup_row ev_id eid (events q))"
    using row lookup_row_in[OF assms(2) row(1)]
    by (intro bexI[of _ row])
      (auto simp: lookup_upd_where dest: lookup_row_Some intro!: option.map_ident_strong)
  ultimately show ?thesis by blast
qed

text \<open>Steps without a restart of the daemon.\<close>

inductive q_calm :: "q_world \<Rightarrow> bool" where
  start: "q_calm \<lparr>wq = empty_queue, held = []\<rparr>"
| step: "q_calm w \<Longrightarrow> q_step w l w' \<Longrightarrow> (\<And>t. l \<noteq> QRestart t) \<Longrightarrow> q_calm w'"

lemma q_calm_reach: "q_calm w \<Longrightarrow> q_reach w"
  by (induction rule: q_calm.induct) (auto intro: q_reach.intros)

definition attempts_ok :: "event \<Rightarrow> bool" where
  "attempts_ok r \<longleftrightarrow> ev_attempts r \<le> MAX_ATTEMPTS \<and>
     (ev_status r = Queued \<longrightarrow> ev_attempts r < MAX_ATTEMPTS)"

lemma q_step_attempts:
  assumes "q_step w l w'" "q_inv w" "\<And>t. l \<noteq> QRestart t"
    "\<forall>r \<in> set (events (wq w)). attempts_ok r"
  shows "\<forall>r \<in> set (events (wq w')). attempts_ok r"
  using assms
proof (induction rule: q_step.induct)
  case (claim t w c q')
  obtain row where row: "row \<in> set (events (wq w))" "ev_status row = Queued"
      "q' = (wq w)\<lparr>events := upd_where (\<lambda>r. ev_id r = ev_id row)
         (\<lambda>r. r\<lparr>ev_status := Processing, ev_attempts := ev_attempts r + 1,
                ev_updated := iso_text t\<rparr>) (events (wq w))\<rparr>"
    by (rule claim_next_Some[OF claim(1)]) blast
  have "ev_attempts r < MAX_ATTEMPTS"
    if "r \<in> set (events (wq w))" "ev_id r = ev_id row" for r
    using that row claim row_at[of "events (wq w)" r row] by (auto simp: q_inv_def attempts_ok_def)
  then show ?case using claim(4) row(3) by (auto simp: row_simps attempts_ok_def Suc_le_eq)
next
  case (fail c w err t terminal q')
  have "ev_attempts r = cl_attempts c" if "r \<in> set (events (wq w))" "ev_id r = cl_id c" for r
    using held_row[OF fail(3,1) that] by simp
  then show ?case
    using fail(5) by (auto simp: events_fail(2)[OF fail(2)] row_simps attempts_ok_def)
qed (auto simp: enqueue_Inr queue_effects events_ack row_simps attempts_ok_def MAX_ATTEMPTS_def)

text \<open>Without a restart no event is attempted more than \<^const>\<open>MAX_ATTEMPTS\<close> times, and the attempt
  that exhausts them is the one that ends as a failure.\<close>

theorem queue_attempts_bounded:
  assumes "q_calm w" "r \<in> set (events (wq w))"
  shows "ev_attempts r \<le> MAX_ATTEMPTS \<and>
    (ev_status r = Failed \<longrightarrow> ev_attempts r = MAX_ATTEMPTS)"
proof -
  have "\<forall>r \<in> set (events (wq w)). attempts_ok r"
    using assms(1)
  proof (induction rule: q_calm.induct)
    case start
    show ?case by (simp add: empty_queue_def)
  next
    case (step w l w')
    then show ?case
      using q_step_attempts q_reach_inv[OF q_calm_reach] by blast
  qed
  with assms(2) have "ev_attempts r \<le> MAX_ATTEMPTS"
    by (simp add: attempts_ok_def)
  moreover have "row_ok r"
    using q_reach_inv[OF q_calm_reach[OF assms(1)]] assms(2) by (simp add: q_inv_def)
  ultimately show ?thesis
    by (simp add: row_ok_def)
qed


text \<open>\<^verbatim>\<open>retry\<close> reports success exactly for a failed event; that event is then queued afresh, with no
  attempts, no error and its acknowledgement withdrawn, and every other row is untouched.\<close>

theorem retry_failed_only:
  assumes "distinct (map ev_id (events q))"
  shows "(fst (retry eid t q) \<longleftrightarrow>
      (\<exists>r. lookup_row ev_id eid (events q) = Some r \<and> ev_status r = Failed)) \<and>
    lookup_row ev_id eid' (events (snd (retry eid t q))) =
      (case lookup_row ev_id eid' (events q) of
         None \<Rightarrow> None
       | Some r \<Rightarrow>
           Some (if eid' = eid \<and> ev_status r = Failed
                 then r\<lparr>ev_status := Queued, ev_attempts := 0, ev_acked := False,
                        ev_error := None, ev_updated := iso_text t\<rparr>
                 else r)) \<and>
    notified (snd (retry eid t q)) = notified q + (if fst (retry eid t q) then 1 else 0)"
proof -
  have n: "rowcount (\<lambda>r. ev_id r = eid \<and> ev_status r = Failed) (events q) =
      (case lookup_row ev_id eid (events q) of
         None \<Rightarrow> 0 | Some r \<Rightarrow> if ev_status r = Failed then 1 else 0)"
    by (rule rowcount_key[OF assms])
  have "fst (retry eid t q) \<longleftrightarrow>
      (\<exists>r. lookup_row ev_id eid (events q) = Some r \<and> ev_status r = Failed)"
    unfolding retry_def Let_def n by (auto split: option.splits)
  moreover have "notified (snd (retry eid t q)) =
      notified q + (if fst (retry eid t q) then 1 else 0)"
    by (simp add: retry_def Let_def notify_def)
  ultimately show ?thesis
    by (auto simp: events_retry lookup_upd_where split: option.splits dest: lookup_row_Some)
qed

text \<open>The alerts file exists exactly while some failure is unacknowledged, and then carries their
  number and the error of a failure that no other unacknowledged failure was updated after.\<close>

theorem alerts_report_unacked:
  "case read_alerts (refresh_alerts q) of
     None \<Rightarrow> \<forall>r \<in> set (events q). \<not> unacked r
   | Some a \<Rightarrow> failed_unacked a = rowcount unacked (events q) \<and> 0 < failed_unacked a \<and>
       (\<exists>r \<in> set (events q). unacked r \<and> latest_error a = ev_error r \<and>
          alert_updated_at a = Some (ev_updated r) \<and>
          (\<forall>r' \<in> set (events q). unacked r' \<longrightarrow> ev_updated r' \<le> ev_updated r))"
proof (cases "filter unacked (events q) = []")
  case True
  then show ?thesis
    by (auto simp: read_alerts_def refresh_alerts_def filter_empty_conv)
next
  case False
  let ?bad = "filter unacked (events q)"
  obtain r where r: "first_row (order_desc ev_updated ?bad) = Some r"
    using False by (cases "first_row (order_desc ev_updated ?bad)") (auto simp: row_simps)
  have mem: "r \<in> set ?bad"
    using first_row_in[OF r] by (simp add: row_simps)
  have top: "ev_updated r' \<le> ev_updated r" if "r' \<in> set ?bad" for r'
    by (rule first_order_desc_max[OF r that])
  have "Max (ev_updated ` set ?bad) = ev_updated r"
    using mem top by (intro Max_eqI) auto
  with False r mem top show ?thesis
    by (auto simp: read_alerts_def refresh_alerts_def rowcount_def Let_def intro!: bexI[of _ r])
qed


subsection \<open>Instances\<close>

text \<open>One event, queued at instant 0, then claimed; and the same event finished.\<close>

definition ex_event :: "ev_status \<Rightarrow> nat \<Rightarrow> event" where
  "ex_event st n =
     \<lparr>ev_id = ''a'', ev_op = ''add'', ev_args = [], ev_status = st, ev_attempts = n,
      ev_acked = False, ev_created = iso_text 0, ev_updated = iso_text 0,
      ev_result = (if st = Done then Some PNone else None),
      ev_error = (if st = Failed then Some ''boom'' else None)\<rparr>"

definition ex_queue :: "ev_status \<Rightarrow> nat \<Rightarrow> event_queue" where
  "ex_queue st n = \<lparr>events = [ex_event st n], alerts_file = None, notified = 1\<rparr>"

definition ex_claim :: claim where
  "ex_claim = \<lparr>cl_id = ''a'', cl_op = ''add'', cl_args = [], cl_attempts = 1\<rparr>"

lemmas ex_queue_defs = ex_queue_def ex_event_def ex_claim_def

lemma ex_enqueue: "enqueue ''a'' ''add'' [] 0 empty_queue = (Inr ''a'', ex_queue Queued 0)"
  by (simp add: enqueue_def empty_queue_def ex_queue_defs notify_def Let_def)

lemma ex_claim_next: "claim_next 0 (ex_queue Queued 0) = (Some ex_claim, ex_queue Processing 1)"
  by (simp add: claim_next_def ex_queue_defs first_row_def order_asc_def upd_where_def)

lemma ex_calm: "q_calm \<lparr>wq = ex_queue Processing 1, held = [ex_claim]\<rparr>"
proof -
  have "q_step \<lparr>wq = empty_queue, held = []\<rparr> (QEnqueue ''a'' ''add'' [] 0)
      \<lparr>wq = ex_queue Queued 0, held = []\<rparr>"
    by (simp add: ex_enqueue)
  then have "q_calm \<lparr>wq = ex_queue Queued 0, held = []\<rparr>"
    using q_calm.step[OF q_calm.start] by blast
  moreover have "q_step \<lparr>wq = ex_queue Queued 0, held = []\<rparr> (QClaim 0)
      \<lparr>wq = ex_queue Processing 1, held = [ex_claim]\<rparr>"
    by (simp add: ex_claim_next)
  ultimately show ?thesis
    using q_calm.step by blast
qed

theorem queue_never_loses_witness:
  "\<exists>days t. QPurge 30 (31 * us_per_day) = QPurge days t \<and>
     purgeable (iso_text (t - days * us_per_day)) (ex_event Done 1)"
proof (rule queue_never_loses[where w = "\<lparr>wq = ex_queue Done 1, held = []\<rparr>"])
  let ?w = "\<lparr>wq = ex_queue Done 1, held = []\<rparr>"
  show "q_step ?w (QPurge 30 (31 * us_per_day)) (?w\<lparr>wq := snd (purge 30 (31 * us_per_day) (wq ?w))\<rparr>)"
    by (rule q_step.purge)
  show "ex_event Done 1 \<in> set (events (wq ?w))"
    by (simp add: ex_queue_def)
  have "iso_text 0 < iso_text us_per_day"
    by (simp add: iso_less_iff time_end_def us_per_day_def)
  then show "ev_id (ex_event Done 1) \<notin> ev_id ` set (events (wq
      (?w\<lparr>wq := snd (purge 30 (31 * us_per_day) (wq ?w))\<rparr>)))"
    by (simp add: ex_queue_defs purge_def delete_where_def purgeable_def)
qed

theorem queue_reachable_ok_witness: "q_inv \<lparr>wq = ex_queue Processing 1, held = [ex_claim]\<rparr>"
  by (rule queue_reachable_ok) (rule q_calm_reach[OF ex_calm])

theorem claim_next_oldest_witness:
  "(0::nat) \<le> 0 \<and>
    (\<exists>row \<in> set (events (ex_queue Queued 0)). ev_id row = cl_id ex_claim \<and>
       ev_status row = Queued \<and> cl_attempts ex_claim = ev_attempts row + 1 \<and>
       lookup_row ev_id (cl_id ex_claim) (events (ex_queue Processing 1)) =
         Some (row\<lparr>ev_status := Processing, ev_attempts := cl_attempts ex_claim,
                  ev_updated := iso_text 0\<rparr>) \<and>
       (\<forall>eid. eid \<noteq> cl_id ex_claim \<longrightarrow>
          lookup_row ev_id eid (events (ex_queue Processing 1)) =
          lookup_row ev_id eid (events (ex_queue Queued 0))))"
  using claim_next_oldest[OF ex_claim_next, of "\<lambda>_. 0" "ex_event Queued 0"]
  by (simp add: ex_queue_defs time_end_def)

theorem queue_attempts_bounded_witness:
  "ev_attempts (ex_event Processing 1) \<le> MAX_ATTEMPTS"
  by (rule queue_attempts_bounded[OF ex_calm, THEN conjunct1]) (simp add: ex_queue_def)

theorem retry_failed_only_witness:
  "fst (retry ''a'' 0 (ex_queue Failed 3)) \<and>
   lookup_row ev_id ''a'' (events (snd (retry ''a'' 0 (ex_queue Failed 3)))) = Some (ex_event Queued 0)"
proof -
  have d: "distinct (map ev_id (events (ex_queue Failed 3)))"
    by (simp add: ex_queue_def)
  show ?thesis
    using retry_failed_only[OF d, of "''a''" 0 "''a''"]
    by (simp add: ex_queue_defs lookup_row_def)
qed

theorem alerts_report_unacked_witness:
  "\<exists>a. read_alerts (refresh_alerts (ex_queue Failed 3)) = Some a \<and> failed_unacked a = 1"
proof -
  obtain a where a: "read_alerts (refresh_alerts (ex_queue Failed 3)) = Some a"
    by (simp add: read_alerts_def refresh_alerts_def ex_queue_defs unacked_def Let_def)
  with alerts_report_unacked[of "ex_queue Failed 3"] show ?thesis
    by (simp add: rowcount_def ex_queue_defs unacked_def)
qed

end
