(* ===== verification/Ops.thy ===== *)
theory Ops
  imports Stale_Check Event_Queue "HOL-Library.Product_Lexorder"
begin

text \<open>
  The operation registry \<^verbatim>\<open>src/src/memline/ops.py\<close>, with the entity listing of
  \<^verbatim>\<open>src/src/memline/entity_ops.py\<close> and \<^verbatim>\<open>normalize_items\<close> of \<^verbatim>\<open>runtime.py\<close>. A request's
  arguments are the key/value list of its JSON object; a missing required key is the \<^verbatim>\<open>KeyError\<close>
  \<open>BadArgument\<close>, and so is a value of a type the callers never send. What mem0 does with embeddings
  and models (search, add, bulk deletion, single reads) is the record \<open>backend\<close>. \<open>T i\<close> is the \<open>i\<close>-th reading
  of the clock during the call.
\<close>

subsection \<open>Arguments\<close>

definition required :: "args \<Rightarrow> string \<Rightarrow> stale_error + pyval" where
  "required a k = (case map_of a k of None \<Rightarrow> Inl (BadArgument k) | Some v \<Rightarrow> Inr v)"

definition required_str :: "args \<Rightarrow> string \<Rightarrow> stale_error + string" where
  "required_str a k = (case map_of a k of Some (PStr s) \<Rightarrow> Inr s | _ \<Rightarrow> Inl (BadArgument k))"

definition required_nat :: "args \<Rightarrow> string \<Rightarrow> stale_error + nat" where
  "required_nat a k =
     (case map_of a k of Some (PInt i) \<Rightarrow> if 0 \<le> i then Inr (nat i) else Inl (BadArgument k)
      | _ \<Rightarrow> Inl (BadArgument k))"

definition required_dict :: "args \<Rightarrow> string \<Rightarrow> stale_error + payload" where
  "required_dict a k =
     (case map_of a k of Some (PDict kvs) \<Rightarrow> Inr (map_of kvs) | Some PNone \<Rightarrow> Inr Map.empty
      | _ \<Rightarrow> Inl (BadArgument k))"

definition optional_str :: "args \<Rightarrow> string \<Rightarrow> string option" where
  "optional_str a k = (case map_of a k of Some (PStr s) \<Rightarrow> Some s | _ \<Rightarrow> None)"

definition optional_rat :: "args \<Rightarrow> string \<Rightarrow> rat option" where
  "optional_rat a k =
     (case map_of a k of Some (PInt i) \<Rightarrow> Some (of_int i) | Some (PFloat r s) \<Rightarrow> Some r | _ \<Rightarrow> None)"

definition flag :: "args \<Rightarrow> string \<Rightarrow> bool \<Rightarrow> bool" where
  "flag a k dflt = (case map_of a k of None \<Rightarrow> dflt | Some v \<Rightarrow> truthy v)"

fun str_items :: "pyval list \<Rightarrow> string list option" where
  "str_items [] = Some []"
| "str_items (PStr s # vs) = (case str_items vs of None \<Rightarrow> None | Some ss \<Rightarrow> Some (s # ss))"
| "str_items (v # vs) = None"

definition required_ids :: "args \<Rightarrow> string \<Rightarrow> stale_error + string list" where
  "required_ids a k =
     (case map_of a k of
        Some (PList vs) \<Rightarrow> (case str_items vs of None \<Rightarrow> Inl (BadArgument k) | Some ss \<Rightarrow> Inr ss)
      | _ \<Rightarrow> Inl (BadArgument k))"

text \<open>A handler that needs an argument first.\<close>

definition given ::
  "stale_error + 'a \<Rightarrow> ('a \<Rightarrow> 'w \<Rightarrow> (stale_error + 'b) \<times> 'w) \<Rightarrow> 'w \<Rightarrow> (stale_error + 'b) \<times> 'w" where
  "given r f w = (case r of Inl e \<Rightarrow> (Inl e, w) | Inr x \<Rightarrow> f x w)"

text \<open>A Python slice \<^verbatim>\<open>xs[start:end]\<close>.\<close>

definition slice_index :: "nat \<Rightarrow> pyval \<Rightarrow> nat \<Rightarrow> nat" where
  "slice_index n v dflt =
     (case v of PInt i \<Rightarrow> if i < 0 then nat (int n + i) else min n (nat i) | _ \<Rightarrow> dflt)"

definition py_slice :: "pyval \<Rightarrow> pyval \<Rightarrow> 'a list \<Rightarrow> 'a list" where
  "py_slice s e xs =
     (let i = slice_index (length xs) s 0; j = slice_index (length xs) e (length xs)
      in take (j - i) (drop i xs))"

subsection \<open>What mem0 does by itself\<close>

record 'q backend =
  b_get :: "'q world \<Rightarrow> string \<Rightarrow> pyval option"
  b_search :: "'q world \<Rightarrow> args \<Rightarrow> nat \<Rightarrow> item list option"
  b_add :: "args \<Rightarrow> 'q world \<Rightarrow> pyval option \<times> 'q world"
  b_delete_all :: "args \<Rightarrow> 'q world \<Rightarrow> pyval option \<times> 'q world"
  b_history :: "'q world \<Rightarrow> string \<Rightarrow> pyval option"
  b_entities :: "'q world \<Rightarrow> string option \<Rightarrow> nat \<Rightarrow> (string \<times> payload) list option"
  b_entity :: "'q world \<Rightarrow> string \<Rightarrow> (string \<times> payload) option option"
  b_entity_delete :: "string \<Rightarrow> 'q world \<Rightarrow> 'q world option"

subsection \<open>Entities\<close>

record entity =
  en_id :: string
  en_type :: pyval
  en_data :: pyval
  en_links :: pyval
  en_user :: pyval

definition entity_row :: "string \<times> payload \<Rightarrow> entity" where
  "entity_row r =
     \<lparr>en_id = fst r, en_type = dget (snd r) ''entity_type'', en_data = dget (snd r) ''data'',
      en_links = por (dget (snd r) ''linked_memory_ids'') (PList []),
      en_user = dget (snd r) ''user_id''\<rparr>"

definition lower_char :: "char \<Rightarrow> char" where
  "lower_char c = (let n = (of_char c :: nat) in if 65 \<le> n \<and> n \<le> 90 then char_of (n + 32) else c)"

definition lower :: "string \<Rightarrow> string" where "lower s = map lower_char s"

fun infix_of :: "string \<Rightarrow> string \<Rightarrow> bool" where
  "infix_of needle [] = (needle = [])"
| "infix_of needle (c # cs) = (take (length needle) (c # cs) = needle \<or> infix_of needle cs)"

definition py_len :: "pyval \<Rightarrow> nat" where
  "py_len v = (case v of PList vs \<Rightarrow> length vs | PStr s \<Rightarrow> length s | PDict kvs \<Rightarrow> length kvs | _ \<Rightarrow> 0)"

definition list_entities ::
  "'q backend \<Rightarrow> 'q world \<Rightarrow> string option \<Rightarrow> string option \<Rightarrow> nat \<Rightarrow> entity list option" where
  "list_entities B w entity_type needle0 scan_limit =
     (case b_entities B w (if truthy_text entity_type then entity_type else None) scan_limit of
        None \<Rightarrow> None
      | Some listed \<Rightarrow>
          let needle = lower (or_empty needle0);
              rows = filter (\<lambda>e. truthy (en_data e) \<and>
                       (needle = [] \<or> infix_of needle (lower (py_str (en_data e))))) (map entity_row listed)
          in Some (sort_key (\<lambda>e. (- int (py_len (en_links e)), py_str (en_data e))) rows))"

subsection \<open>Handlers\<close>

record protection_row =
  lp_id :: pyval
  lp_memory :: pyval
  lp_active :: bool
  lp_until :: pyval
  lp_reason :: pyval
  lp_at :: pyval
  lp_agent :: pyval
  lp_session :: pyval

datatype op_result =
    RValue pyval
  | RHits "hit list"
  | RItems "item list"
  | RUpdated "bool option"
  | RDeleted
  | RDowngraded guard_verdict "string option"
  | RTtl "string option"
  | RProtection protection
  | RCleared bool
  | RProtections "protection_row list"
  | RInvalidation invalidation
  | RRevival revival
  | RResolution resolution
  | REntities "entity list"
  | REntity "entity option"

type_synonym 'q handler =
  "'q env \<Rightarrow> 'q backend \<Rightarrow> (nat \<Rightarrow> time) \<Rightarrow> args \<Rightarrow> 'q world \<Rightarrow> (stale_error + op_result) \<times> 'q world"

text \<open>A result of one of the lifecycle operations as a handler's result.\<close>

definition returning :: "('a \<Rightarrow> op_result) \<Rightarrow> (stale_error + 'a) \<times> 'w \<Rightarrow> (stale_error + op_result) \<times> 'w" where
  "returning c r = after r (\<lambda>x w. (Inr (c x), w))"

definition read_only ::
  "('w \<Rightarrow> 'a option) \<Rightarrow> ('a \<Rightarrow> op_result) \<Rightarrow> 'w \<Rightarrow> (stale_error + op_result) \<times> 'w" where
  "read_only f c w = (case f w of None \<Rightarrow> (Inl StoreFailed, w) | Some x \<Rightarrow> (Inr (c x), w))"

definition op_get :: "'q handler" where
  "op_get E B T a = given (required_str a ''memory_id'') (\<lambda>mid. read_only (\<lambda>w. b_get B w mid) RValue)"

definition op_search :: "'q handler" where
  "op_search E B T a =
     given (required a ''query'') (\<lambda>_.
     given (required_nat a ''top_k'') (\<lambda>k.
     given (required a ''filters'') (\<lambda>_.
     given (required a ''threshold'') (\<lambda>_.
     given (required a ''rerank'') (\<lambda>_.
     given (required a ''explain'') (\<lambda>_.
       read_only (\<lambda>w. search_with_staleness E w (b_search B w a) k (flag a ''include_superseded'' False)
                        (iso_text (T 0))) RHits))))))"

definition op_list :: "'q handler" where
  "op_list E B T a =
     given (required_dict a ''filters'') (\<lambda>flt.
     given (required_nat a ''top_k'') (\<lambda>k.
     given (required a ''start'') (\<lambda>s.
     given (required a ''end'') (\<lambda>e.
       read_only (\<lambda>w. get_all E flt k w) (\<lambda>items. RItems (py_slice s e items))))))"

definition op_add :: "'q handler" where
  "op_add E B T a w =
     (case b_add B a w of (None, w') \<Rightarrow> (Inl StoreFailed, w') | (Some v, w') \<Rightarrow> (Inr (RValue v), w'))"

definition op_update :: "'q handler" where
  "op_update E B T a =
     given (required_str a ''memory_id'') (\<lambda>mid w.
       case vs_get (qd E) (store w) mid of
         None \<Rightarrow> (Inl StoreFailed, w)
       | Some found \<Rightarrow>
           given (required_str a ''text'') (\<lambda>txt.
           given (required_dict a ''metadata'') (\<lambda>metadata w.
             let text_changed = (text_of (case found of None \<Rightarrow> Map.empty | Some p \<Rightarrow> p) \<noteq> txt) in
             after (mem0_update E mid txt metadata (iso_text (T 0)) w) (\<lambda>_ w1.
             after (if text_changed
                    then (case map_of a ''metadata'' of
                            Some (PDict kvs) \<Rightarrow>
                              returning RCleared (clear_displacement_protection E mid
                                (case metadata ''last_updated_by_agent_id'' of
                                   Some (PStr s) \<Rightarrow> Some s | _ \<Rightarrow> None) (iso_text (T 1)) w1)
                          | _ \<Rightarrow> (Inl (BadArgument ''metadata''), w1))
                    else (Inr (RUpdated None), w1)) (\<lambda>cleared w2.
               (Inr (RUpdated (case cleared of RCleared c \<Rightarrow> Some c | _ \<Rightarrow> None)),
                try_pairs E (close_for_updated_text (sha E) mid txt (T 2)) w2)))) ) w)"

definition ttl_clocks ::
  "'q env \<Rightarrow> (nat \<Rightarrow> time) \<Rightarrow> string \<Rightarrow> ttl_request \<Rightarrow> string option \<Rightarrow> 'q world
     \<Rightarrow> (stale_error + string option) \<times> 'q world" where
  "ttl_clocks E T mid rq actor = set_ttl E mid rq actor (iso_text (T 0)) (T 1) (T 2)"

definition op_delete :: "'q handler" where
  "op_delete E B T a w =
     (if truthy (aget a ''all'') then
        (case b_delete_all B a w of
           (None, w') \<Rightarrow> (Inl StoreFailed, w') | (Some v, w') \<Rightarrow> (Inr (RValue v), w'))
      else given (required_str a ''memory_id'') (\<lambda>mid w.
        let guard = delete_guard E mid w in
        if participates guard
        then returning (RDowngraded guard) (ttl_clocks E T mid TtlExpireNow (optional_str a ''actor_id'') w)
        else returning (\<lambda>_. RDeleted) (mem0_delete E mid (iso_text (T 0)) w)) w)"

definition op_set_ttl :: "'q handler" where
  "op_set_ttl E B T a =
     given (required_str a ''memory_id'') (\<lambda>mid w.
       returning RTtl (ttl_clocks E T mid
         (ttl_request_of (optional_rat a ''days'') (optional_str a ''expires_at'')
            (flag a ''clear'' False) (flag a ''expire_now'' False))
         (optional_str a ''actor_id'') w))"

definition op_set_displacement_protection :: "'q handler" where
  "op_set_displacement_protection E B T a =
     given (required_str a ''memory_id'') (\<lambda>mid.
     given (required_str a ''reason'') (\<lambda>reason.
     given (case map_of a ''days'' of
              None \<Rightarrow> Inr DEFAULT_DISPLACEMENT_PROTECTION_DAYS
            | Some _ \<Rightarrow> (case optional_rat a ''days'' of None \<Rightarrow> Inl (BadArgument ''days'') | Some d \<Rightarrow> Inr d))
       (\<lambda>days w.
       returning RProtection (set_displacement_protection E mid days reason (optional_str a ''actor_id'')
         (optional_str a ''session_id'') (T 0) (T 1) (T 2) w))))"

definition op_clear_displacement_protection :: "'q handler" where
  "op_clear_displacement_protection E B T a =
     given (required_str a ''memory_id'') (\<lambda>mid w.
       returning RCleared (clear_displacement_protection E mid (optional_str a ''actor_id'') (iso_text (T 0)) w))"

definition item_until :: "item \<Rightarrow> pyval" where
  "item_until it =
     por (dget (it_metadata it) DISPLACEMENT_PROTECTED_UNTIL) (dget (it_fields it) DISPLACEMENT_PROTECTED_UNTIL)"

definition protection_row_of :: "(nat \<Rightarrow> time) \<Rightarrow> nat \<Rightarrow> item \<Rightarrow> protection_row" where
  "protection_row_of T i it =
     (let meta = it_metadata it in
      \<lparr>lp_id = dget (it_fields it) ''id'', lp_memory = dget (it_fields it) ''memory'',
       lp_active = (is_displacement_protected meta (iso_text (T (2 * i))) \<or>
                    is_displacement_protected (it_fields it) (iso_text (T (2 * i + 1)))),
       lp_until = item_until it, lp_reason = dget meta DISPLACEMENT_PROTECTION_REASON,
       lp_at = dget meta DISPLACEMENT_PROTECTED_AT, lp_agent = dget meta DISPLACEMENT_PROTECTED_BY_AGENT,
       lp_session = dget meta DISPLACEMENT_PROTECTED_BY_SESSION\<rparr>)"

definition op_list_displacement_protections :: "'q handler" where
  "op_list_displacement_protections E B T a =
     given (required a ''user_id'') (\<lambda>user.
     given (required_nat a ''scan_limit'') (\<lambda>limit.
       read_only (get_all E [''user_id'' \<mapsto> user] limit) (\<lambda>items.
         let rows = map (\<lambda>(i, it). protection_row_of T i it) (enumerate 0 items);
             kept = filter (\<lambda>r. truthy (lp_until r) \<and> (lp_active r \<or> flag a ''include_expired'' False)) rows
         in RProtections (order_desc (\<lambda>r. py_str (lp_until r)) kept))))"

definition op_history :: "'q handler" where
  "op_history E B T a =
     given (required_str a ''memory_id'') (\<lambda>mid. read_only (\<lambda>w. b_history B w mid) RValue)"

definition op_invalidate :: "'q handler" where
  "op_invalidate E B T a =
     given (required_str a ''memory_id'') (\<lambda>mid.
     given (required_ids a ''by_ids'') (\<lambda>by_ids w.
       returning RInvalidation (invalidate E mid by_ids (optional_str a ''reason'') (optional_str a ''actor_id'')
         (optional_str a ''session_id'') (iso_text (T 0)) (T 1) w)))"

definition op_revive :: "'q handler" where
  "op_revive E B T a =
     given (required_str a ''memory_id'') (\<lambda>mid w.
       returning RRevival (revive E mid (optional_str a ''actor_id'') (optional_str a ''session_id'')
         (iso_text (T 0)) w))"

definition op_resolve_head :: "'q handler" where
  "op_resolve_head E B T a =
     given (required_str a ''memory_id'') (\<lambda>mid w.
       (map_sum id RResolution (resolve_head (vs_get (qd E) (store w)) mid), w))"

definition op_entity_list :: "'q handler" where
  "op_entity_list E B T a =
     read_only (\<lambda>w. list_entities B w (optional_str a ''entity_type'') (optional_str a ''contains'')
       (case map_of a ''scan_limit'' of Some (PInt i) \<Rightarrow> nat i | _ \<Rightarrow> 50000))
       (\<lambda>rows. REntities (py_slice (aget a ''start'') (aget a ''end'') rows))"

definition op_entity_get :: "'q handler" where
  "op_entity_get E B T a =
     given (required_str a ''entity_id'') (\<lambda>eid.
       read_only (\<lambda>w. b_entity B w eid) (\<lambda>r. REntity (map_option entity_row r)))"

definition op_entity_delete :: "'q handler" where
  "op_entity_delete E B T a =
     given (required_str a ''entity_id'') (\<lambda>eid w.
       case b_entity_delete B eid w of None \<Rightarrow> (Inl StoreFailed, w) | Some w' \<Rightarrow> (Inr RDeleted, w'))"

subsection \<open>The registry\<close>

record 'q op_spec =
  os_handler :: "'q handler"
  os_timeout :: "args \<Rightarrow> rat"
  os_llm_bound :: "args \<Rightarrow> bool"
  os_exclusive :: "args \<Rightarrow> bool"

definition DEFAULT_TIMEOUT :: rat where "DEFAULT_TIMEOUT = 300"
definition QUEUE_OP_TIMEOUT :: rat where "QUEUE_OP_TIMEOUT = 30"

definition quick :: "'q handler \<Rightarrow> 'q op_spec" where
  "quick h = \<lparr>os_handler = h, os_timeout = (\<lambda>_. 30), os_llm_bound = (\<lambda>_. False), os_exclusive = (\<lambda>_. False)\<rparr>"

definition OPS :: "(string \<times> 'q op_spec) list" where
  "OPS =
     [(''get'', quick op_get),
      (''search'', (quick op_search)\<lparr>
         os_timeout := (\<lambda>a. if truthy (aget a ''rerank'') then 180 else 30),
         os_llm_bound := (\<lambda>a. truthy (aget a ''rerank''))\<rparr>),
      (''list'', quick op_list),
      (''add'', (quick op_add)\<lparr>
         os_timeout := (\<lambda>a. if truthy (aget a ''infer'') then 300 else 30),
         os_llm_bound := (\<lambda>a. flag a ''infer'' True)\<rparr>),
      (''update'', (quick op_update)\<lparr>os_timeout := (\<lambda>_. DEFAULT_TIMEOUT)\<rparr>),
      (''delete'', (quick op_delete)\<lparr>os_exclusive := (\<lambda>a. truthy (aget a ''all''))\<rparr>),
      (''set_displacement_protection'', quick op_set_displacement_protection),
      (''clear_displacement_protection'', quick op_clear_displacement_protection),
      (''list_displacement_protections'', quick op_list_displacement_protections),
      (''history'', quick op_history),
      (''invalidate'', quick op_invalidate),
      (''revive'', quick op_revive),
      (''set_ttl'', quick op_set_ttl),
      (''resolve_head'', quick op_resolve_head),
      (''entity_list'', quick op_entity_list),
      (''entity_get'', quick op_entity_get),
      (''entity_delete'', quick op_entity_delete)]"

definition dispatch ::
  "'q env \<Rightarrow> 'q backend \<Rightarrow> (nat \<Rightarrow> time) \<Rightarrow> string \<Rightarrow> args \<Rightarrow> 'q world
     \<Rightarrow> (stale_error + op_result) \<times> 'q world" where
  "dispatch E B T op a w =
     (case map_of OPS op of
        None \<Rightarrow> (Inl (UnsupportedOp op), w)
      | Some spec \<Rightarrow> os_handler spec E B T a w)"

datatype queue_result =
    QList "event_view list" | QEvent "event_view option" | QRetried string bool | QAcked nat

type_synonym queue_handler =
  "time \<Rightarrow> args \<Rightarrow> event_queue \<Rightarrow> (stale_error + queue_result) \<times> event_queue"

definition int_arg :: "args \<Rightarrow> string \<Rightarrow> int \<Rightarrow> int" where
  "int_arg a k dflt = (case map_of a k of Some (PInt i) \<Rightarrow> i | _ \<Rightarrow> dflt)"

definition q_event_list :: queue_handler where
  "q_event_list t a q =
     (Inr (QList (list_events (optional_str a ''status'') (int_arg a ''limit'' 50) (int_arg a ''offset'' 0) q)), q)"

definition q_event_get :: queue_handler where
  "q_event_get t a = given (required_str a ''event_id'') (\<lambda>eid q. (Inr (QEvent (get_event eid q)), q))"

definition q_event_retry :: queue_handler where
  "q_event_retry t a = given (required_str a ''event_id'') (\<lambda>eid q.
     let (ok, q1) = retry eid t q in (Inr (QRetried eid ok), refresh_alerts q1))"

definition q_event_ack :: queue_handler where
  "q_event_ack t a q =
     (let (n, q1) = ack (optional_str a ''event_id'') t q in (Inr (QAcked n), refresh_alerts q1))"

definition QUEUE_OPS :: "(string \<times> queue_handler) list" where
  "QUEUE_OPS =
     [(''event_list'', q_event_list), (''event_get'', q_event_get),
      (''event_retry'', q_event_retry), (''event_ack'', q_event_ack)]"

definition dispatch_queue :: "time \<Rightarrow> string \<Rightarrow> args \<Rightarrow> event_queue \<Rightarrow> (stale_error + queue_result) \<times> event_queue" where
  "dispatch_queue t op a q =
     (case map_of QUEUE_OPS op of None \<Rightarrow> (Inl (UnsupportedOp op), q) | Some handler \<Rightarrow> handler t a q)"

text \<open>\<open>env\<close> is \<^verbatim>\<open>MEMLINE_DAEMON_TIMEOUT\<close>, already read as a float when it is one.\<close>

definition op_timeout :: "rat option \<Rightarrow> string \<Rightarrow> args \<Rightarrow> rat" where
  "op_timeout env op a =
     (case env of
        Some x \<Rightarrow> x
      | None \<Rightarrow>
          (case map_of (OPS :: (string \<times> unit op_spec) list) op of
             Some spec \<Rightarrow> os_timeout spec a
           | None \<Rightarrow> if map_of QUEUE_OPS op \<noteq> None then QUEUE_OP_TIMEOUT else DEFAULT_TIMEOUT))"

definition is_llm_bound :: "string \<Rightarrow> args \<Rightarrow> bool" where
  "is_llm_bound op a =
     (case map_of (OPS :: (string \<times> unit op_spec) list) op of None \<Rightarrow> False | Some spec \<Rightarrow> os_llm_bound spec a)"

definition is_exclusive :: "string \<Rightarrow> args \<Rightarrow> bool" where
  "is_exclusive op a =
     (case map_of (OPS :: (string \<times> unit op_spec) list) op of None \<Rightarrow> False | Some spec \<Rightarrow> os_exclusive spec a)"

subsection \<open>Every operation keeps the relation acyclic\<close>

text \<open>What is asked of mem0's own operations: an addition whose metadata names no successors brings in no edge, and a bulk
  or an entity deletion only removes memories. An addition or an update whose metadata sets \<^verbatim>\<open>superseded_by\<close> is stored as it
  is, without the check that \<^verbatim>\<open>invalidate\<close> makes, so the requests of a history are asked not to.\<close>

definition names_no_successor :: "args \<Rightarrow> bool" where
  "names_no_successor a \<longleftrightarrow>
     (case map_of a ''metadata'' of Some (PDict kvs) \<Rightarrow> map_of kvs SUPERSEDED_BY = None | _ \<Rightarrow> True)"

definition backend_ok :: "'q env \<Rightarrow> 'q backend \<Rightarrow> bool" where
  "backend_ok E B \<longleftrightarrow>
     (\<forall>a w. names_no_successor a \<longrightarrow> supersession E (snd (b_add B a w)) \<subseteq> supersession E w) \<and>
     (\<forall>a w. supersession E (snd (b_delete_all B a w)) \<subseteq> supersession E w) \<and>
     (\<forall>i w w'. b_entity_delete B i w = Some w' \<longrightarrow> supersession E w' \<subseteq> supersession E w)"

definition dag_step :: "'q env \<Rightarrow> 'q world \<Rightarrow> 'q world \<Rightarrow> bool" where
  "dag_step E w w' \<longleftrightarrow> (acyclic (supersession E w) \<longrightarrow> acyclic (supersession E w'))"

lemma dag_step_refl [simp]: "dag_step E w w"
  by (simp add: dag_step_def)

lemma dag_step_trans: "dag_step E a b \<Longrightarrow> dag_step E b c \<Longrightarrow> dag_step E a c"
  by (simp add: dag_step_def)

lemma dag_step_sub: "supersession E w' \<subseteq> supersession E w \<Longrightarrow> dag_step E w w'"
  by (auto simp: dag_step_def intro: acyclic_subset)

lemma given_step:
  "(\<And>x. r = Inr x \<Longrightarrow> dag_step E w (snd (f x w))) \<Longrightarrow> dag_step E w (snd (given r f w))"
  by (cases r) (auto simp: given_def)

lemma after_step:
  assumes "dag_step E w (snd m)" "\<And>x w1. m = (Inr x, w1) \<Longrightarrow> dag_step E w1 (snd (f x w1))"
  shows "dag_step E w (snd (after m f))"
  using assms by (cases m) (auto simp: after_def split: sum.splits intro: dag_step_trans)

lemma snd_read_only [simp]: "snd (read_only f c w) = w"
  by (simp add: read_only_def split: option.splits)

lemma snd_returning [simp]: "snd (returning c r) = snd r"
  by (cases r) (auto simp: returning_def after_def split: sum.splits)

lemma supersession_try [simp]:
  "supersession E (try_history E row w) = supersession E w"
  "supersession E (try_pairs E f w) = supersession E w"
  by (rule supersession_cong, simp)+

lemma null_patch_None: "k \<notin> set ks \<Longrightarrow> null_patch ks k = None"
  by (auto simp: null_patch_def map_of_eq_None_iff)

lemma set_ttl_edges:
  assumes "qdrant_ok (qd E)"
  shows "supersession E (snd (set_ttl E mid rq actor now t tc w)) = supersession E w"
proof -
  have "ttl_patch rq d now actor SUPERSEDED_BY = None" for d
    by (simp add: ttl_patch_def split: option.splits)
  with supersession_patch_other[OF assms]
  have "supersession E w1 = supersession E w" if "patch_memory E mid (ttl_patch rq d now actor) w = Some w1" for d w1
    using that by blast
  then show ?thesis
    by (simp add: set_ttl_def Let_def split: option.splits sum.splits)
qed

lemma clear_protection_edges:
  assumes "qdrant_ok (qd E)"
  shows "supersession E (snd (clear_displacement_protection E mid actor now w)) = supersession E w"
proof -
  have "supersession E w1 = supersession E w"
    if "patch_memory E mid (null_patch protection_fields) w = Some w1" for w1
    by (rule supersession_patch_other[OF assms that]) (simp add: null_patch_None protection_fields_def)
  then show ?thesis
    by (simp add: clear_displacement_protection_def split: option.splits)
qed

lemma set_protection_edges:
  assumes "qdrant_ok (qd E)"
  shows "supersession E (snd (set_displacement_protection E mid days rs ac se t0 t1 t2 w)) = supersession E w"
proof (cases "set_displacement_protection E mid days rs ac se t0 t1 t2 w")
  case (Pair r w')
  show ?thesis
  proof (cases r)
    case (Inl e)
    with Pair have "w' = w"
      by (auto simp: set_displacement_protection_def Let_def split: option.splits sum.splits if_splits)
    with Pair show ?thesis by simp
  next
    case (Inr v)
    with Pair obtain p w1 where p: "patch_memory E mid p w = Some w1" "p SUPERSEDED_BY = None"
        and "store w' = store w1"
      by (fastforce simp: set_displacement_protection_def Let_def split: option.splits sum.splits if_splits)
    with supersession_patch_other[OF assms p] supersession_cong[of w' w1 E] Pair show ?thesis by simp
  qed
qed

lemma successors_ids: "payload_at E w n = Some p \<Longrightarrow> successors E w n = superseded_ids p"
  by (simp add: successors_def)

lemma superseded_ids_dget: "dget p SUPERSEDED_BY = dget q SUPERSEDED_BY \<Longrightarrow> superseded_ids p = superseded_ids q"
  by (simp add: superseded_ids_def)

lemma mem0_update_edges:
  assumes "qdrant_ok (qd E)" "metadata SUPERSEDED_BY = None"
  shows "supersession E (snd (mem0_update E mid txt metadata now w)) = supersession E w"
proof -
  have "supersession E w' = supersession E w"
    if get: "vs_get (qd E) (store w) mid = Some (Some p)"
      and put: "vs_update (qd E) True (store w) mid (updated_payload E p txt metadata now) = Some q"
      and st: "store w' = q" for p q w'
  proof -
    have "superseded_ids (updated_payload E p txt metadata now) = superseded_ids p"
      using updated_payload_keeps[of metadata SUPERSEDED_BY E p "txt" now] assms(2)
      by (intro superseded_ids_dget) (simp add: dget_def)
    then have "successors E w' n = successors E w n" for n
      using point_payload_upsert[OF assms(1) put, of n] get st
      by (simp add: successors_def point_payload_def)
    then show ?thesis by (simp add: supersession_def)
  qed
  then show ?thesis
    by (auto simp: mem0_update_def Let_def add_history_def split: option.splits)
qed

lemma mem0_delete_edges:
  assumes "qdrant_ok (qd E)"
  shows "supersession E (snd (mem0_delete E mid now w)) \<subseteq> supersession E w"
proof -
  have "supersession E w' \<subseteq> supersession E w"
    if "vs_delete (qd E) (store w) mid = Some (store w')" for w'
    using point_payload_delete[OF assms that]
    by (auto simp: supersession_def successors_def split: if_splits)
  then show ?thesis
    by (auto simp: mem0_delete_def Let_def add_history_def split: option.splits)
qed

lemma op_update_step:
  assumes "qdrant_ok (qd E)" "names_no_successor a"
  shows "dag_step E w (snd (op_update E B T a w))"
proof -
  have meta: "m SUPERSEDED_BY = None" if "required_dict a ''metadata'' = Inr m" for m
    using that assms(2) by (auto simp: required_dict_def names_no_successor_def split: option.splits pyval.splits)
  have upd: "dag_step E w (snd (mem0_update E mid tx m now w))" if "m SUPERSEDED_BY = None" for mid tx m now w
    by (rule dag_step_sub) (simp add: mem0_update_edges[OF assms(1)] that)
  have clear: "dag_step E w (snd (clear_displacement_protection E mid ac now w))" for mid ac now w
    using clear_protection_edges[OF assms(1)] by (intro dag_step_sub) simp
  have tried: "dag_step E w (try_pairs E f w)" for f w
    by (intro dag_step_sub) simp
  show ?thesis
    unfolding op_update_def
    by (auto intro!: given_step after_step upd meta clear tried simp: Let_def split: option.splits pyval.splits)
qed

lemma handler_steps:
  assumes "qdrant_ok (qd E)" "backend_ok E B" "names_no_successor a" "spec \<in> snd ` set OPS"
  shows "dag_step E w (snd (os_handler spec E B T a w))"
proof -
  have E: "dag_step E w (snd (set_ttl E mid rq ac now t tc w))"
    "dag_step E w (snd (clear_displacement_protection E mid ac now w))"
    "dag_step E w (snd (set_displacement_protection E mid days rs ac se t0 t t2 w))"
    "dag_step E w (snd (mem0_delete E mid now w))" for mid rq ac now t tc w days rs se t0 t2
    using set_ttl_edges[OF assms(1)] clear_protection_edges[OF assms(1)] set_protection_edges[OF assms(1)]
      mem0_delete_edges[OF assms(1)]
    by (simp_all add: dag_step_sub)
  have inv: "dag_step E w (snd (invalidate E mid bs rs ac se now t w))" for mid bs rs ac se now t w
    using invalidate_acyclic[OF assms(1)] by (simp add: dag_step_def)
  have rev: "dag_step E w (snd (revive E mid ac se now w))" for mid ac se now w
    using revive_edges[OF assms(1), of mid ac se now w] by (cases "revive E mid ac se now w") (auto intro: dag_step_sub)
  have bk: "supersession E (snd (b_add B a w)) \<subseteq> supersession E w"
    "supersession E (snd (b_delete_all B a' w)) \<subseteq> supersession E w"
    "b_entity_delete B i w = Some w' \<Longrightarrow> supersession E w' \<subseteq> supersession E w" for a' i w w'
    using assms(2,3) by (auto simp: backend_ok_def)
  have del: "dag_step E w (snd (op_delete E B T a w))"
    using bk(2)[of a w, THEN dag_step_sub] unfolding op_delete_def
    by (cases "b_delete_all B a w") (auto simp: Let_def ttl_clocks_def E intro!: given_step split: option.splits)
  have add: "dag_step E w (snd (op_add E B T a w))"
    using bk(1)[of w, THEN dag_step_sub] by (cases "b_add B a w") (auto simp: op_add_def split: option.splits)
  have ent: "dag_step E w (snd (op_entity_delete E B T a w))"
    using bk(3)[THEN dag_step_sub] by (auto simp: op_entity_delete_def intro!: given_step split: option.splits)
  have rest: "dag_step E w (snd (h E B T a w))"
    if "h \<in> {op_get, op_search, op_list, op_set_displacement_protection, op_clear_displacement_protection,
          op_list_displacement_protections, op_history, op_invalidate, op_revive, op_set_ttl,
          op_resolve_head, op_entity_list, op_entity_get}" for h
    using that
    by (auto simp: op_get_def op_search_def op_list_def op_set_displacement_protection_def
        op_clear_displacement_protection_def op_list_displacement_protections_def op_history_def
        op_invalidate_def op_revive_def op_set_ttl_def op_resolve_head_def op_entity_list_def
        op_entity_get_def ttl_clocks_def E inv rev intro!: given_step)
  show ?thesis
    using assms(4) op_update_step[OF assms(1,3)] del add ent rest
    by (auto simp: OPS_def quick_def)
qed

lemma dispatch_step:
  assumes "qdrant_ok (qd E)" "backend_ok E B" "names_no_successor a"
  shows "dag_step E w (snd (dispatch E B T op a w))"
proof (cases "map_of (OPS :: (string \<times> 'a op_spec) list) op")
  case None
  then show ?thesis by (simp add: dispatch_def)
next
  case (Some spec)
  then have "spec \<in> snd ` set OPS" by (force dest: map_of_SomeD)
  from handler_steps[OF assms this] Some show ?thesis by (simp add: dispatch_def)
qed

fun serve_all ::
  "'q env \<Rightarrow> 'q backend \<Rightarrow> (string \<times> args \<times> (nat \<Rightarrow> time)) list \<Rightarrow> 'q world \<Rightarrow> 'q world" where
  "serve_all E B [] w = w"
| "serve_all E B ((op, a, T) # rs) w = serve_all E B rs (snd (dispatch E B T op a w))"

text \<open>C16: Requests that are handled one after the other keep the supersession relation acyclic. Whatever operations, known
  or not, are dispatched in whatever order and with whatever outcome, a store that started acyclic stays acyclic, provided
  that no request carries metadata that itself names successors, which additions and updates would store unchecked.
  (mem0's addition brings in no edge of its own then, and its deletions only remove memories.) The daemon runs the
  invalidations of different connections side by side; of those the theorem says nothing.
\<close>

theorem store_stays_dag:
  assumes "qdrant_ok (qd E)" "backend_ok E B" "acyclic (supersession E w)"
    "\<And>op a T. (op, a, T) \<in> set rs \<Longrightarrow> names_no_successor a"
  shows "acyclic (supersession E (serve_all E B rs w))"
  using assms(3,4)
proof (induction rs arbitrary: w)
  case (Cons r rs)
  obtain op a T where r: "r = (op, a, T)" by (cases r)
  have "names_no_successor a" using Cons.prems(2)[of op a T] by (simp add: r)
  then have "acyclic (supersession E (snd (dispatch E B T op a w)))"
    using dispatch_step[OF assms(1,2)] Cons.prems(1) by (simp add: dag_step_def)
  moreover have "names_no_successor a'" if "(op', a', T') \<in> set rs" for op' a' T'
    using Cons.prems(2)[of op' a' T'] that by simp
  ultimately have "acyclic (supersession E (serve_all E B rs (snd (dispatch E B T op a w))))"
    by (rule Cons.IH)
  then show ?case by (simp add: r)
qed simp

definition demo_backend :: "(string \<times> payload) list backend" where
  "demo_backend =
     \<lparr>b_get = (\<lambda>w i. None), b_search = (\<lambda>w a k. Some []), b_add = (\<lambda>a w. (None, w)),
      b_delete_all = (\<lambda>a w. (None, w)), b_history = (\<lambda>w i. None), b_entities = (\<lambda>w t k. Some []),
      b_entity = (\<lambda>w i. Some None), b_entity_delete = (\<lambda>i w. Some w)\<rparr>"

lemma demo_backend_ok: "backend_ok demo_env demo_backend"
  by (simp add: backend_ok_def demo_backend_def)

theorem store_stays_dag_witness:
  "acyclic (supersession demo_env (serve_all demo_env demo_backend
     [(''invalidate'', [(''memory_id'', PStr ''a''), (''by_ids'', PList [PStr ''b''])], \<lambda>i. 0),
      (''invalidate'', [(''memory_id'', PStr ''b''), (''by_ids'', PList [PStr ''a''])], \<lambda>i. 0),
      (''nope'', [], \<lambda>i. 0)] (demo_world two_memories)))"
  by (rule store_stays_dag) (auto simp: dict_qdrant_ok demo_backend_ok demo_acyclic names_no_successor_def)

text \<open>
  Why the order matters: two invalidations that are both checked before either is written pass the check for cycles
  and close one.
\<close>

lemma raced_invalidations_cycle:
  "\<not> isl (invalidate_check demo_env ''a'' [''b''] (demo_world two_memories))"
  "\<not> isl (invalidate_check demo_env ''b'' [''a''] (demo_world two_memories))"
  "\<exists>w1 w2. patch_memory demo_env ''a'' (invalidate_patch [''b''] ''now'' None None None) (demo_world two_memories) = Some w1 \<and>
     patch_memory demo_env ''b'' (invalidate_patch [''a''] ''now'' None None None) w1 = Some w2 \<and>
     \<not> acyclic (supersession demo_env w2)"
proof -
  have walk: "assert_no_cycle demo_env (demo_world two_memories) ''a'' [''b''] = Inr ()"
    "assert_no_cycle demo_env (demo_world two_memories) ''b'' [''a''] = Inr ()"
    by (simp_all add: assert_no_cycle_def MAX_CHAIN_DEPTH_def cycle_walk_step demo_successors)
  show "\<not> isl (invalidate_check demo_env ''a'' [''b''] (demo_world two_memories))"
    "\<not> isl (invalidate_check demo_env ''b'' [''a''] (demo_world two_memories))"
    using walk by (simp_all add: invalidate_check_def) (simp_all add: two_memories_def superseded_ids_def dget_def)
  let ?p = "patch_memory demo_env ''a'' (invalidate_patch [''b''] ''now'' None None None) (demo_world two_memories)"
  obtain w1 where w1: "?p = Some w1" by (simp add: patch_memory_def two_memories_def)
  obtain w2 where w2: "patch_memory demo_env ''b'' (invalidate_patch [''a''] ''now'' None None None) w1 = Some w2"
    using w1 by (auto simp: patch_memory_def two_memories_def)
  have "(''a'', ''b'') \<in> supersession demo_env w2" "(''b'', ''a'') \<in> supersession demo_env w2"
    using w1 w2
    by (auto simp: patch_memory_def two_memories_def supersession_def successors_def superseded_ids_def dget_def invalidate_patch_def)
  then have "(''a'', ''a'') \<in> (supersession demo_env w2)\<^sup>+" by (meson r_into_trancl' trancl_into_trancl)
  then show "\<exists>w1 w2. ?p = Some w1 \<and>
     patch_memory demo_env ''b'' (invalidate_patch [''a''] ''now'' None None None) w1 = Some w2 \<and>
     \<not> acyclic (supersession demo_env w2)"
    using w1 w2 by (auto simp: acyclic_def)
qed

subsection \<open>Deletion\<close>

lemma dispatch_delete:
  "dispatch E B T ''delete'' a w = op_delete E B T a w"
  by (simp add: dispatch_def OPS_def quick_def)

lemma dispatch_update:
  "dispatch E B T ''update'' a w = op_update E B T a w"
  by (simp add: dispatch_def OPS_def quick_def)

text \<open>Deleting a superseded memory never removes it: the request is downgraded to an immediate expiry.
  Every point stays stored, the chain through the memory is intact, and on success the memory is out of
  the pool from the clock reading on.\<close>

theorem delete_keeps_chain_nodes:
  assumes "qdrant_ok (qd E)" "payload_at E w mid = Some p" "superseded_ids p \<noteq> []"
    "\<not> truthy (aget a ''all'')" "map_of a ''memory_id'' = Some (PStr mid)"
    and "dispatch E B T ''delete'' a w = (r, w')"
  shows "(\<forall>n. payload_at E w' n = None \<longleftrightarrow> payload_at E w n = None) \<and>
    supersession E w' = supersession E w \<and>
    (\<forall>v. r = Inr v \<longrightarrow> v = RDowngraded GuardSuperseded (Some (iso_text (T 0))) \<and>
       (\<exists>d. payload_at E w' mid = Some d \<and> (\<forall>clock. is_ttl_expired d clock \<longleftrightarrow> iso_text (T 0) \<le> clock)))"
proof -
  obtain r0 where s: "set_ttl E mid TtlExpireNow (optional_str a ''actor_id'') (iso_text (T 0)) (T 1) (T 2) w
      = (r0, w')" and r: "r = map_sum id (RDowngraded GuardSuperseded) r0"
    using assms(2-6)
    by (auto simp: dispatch_delete op_delete_def given_def required_str_def delete_guard_eq
        participates_def ttl_clocks_def returning_def after_def Let_def split: prod.splits sum.splits)
  have edges: "supersession E w' = supersession E w"
    using set_ttl_edges[OF assms(1), of mid TtlExpireNow "optional_str a ''actor_id''" "iso_text (T 0)" "T 1" "T 2" w]
    by (simp only: s snd_conv)
  have dl: "ttl_deadline TtlExpireNow (iso_text (T 0)) (T 1) = Inr (Some (iso_text (T 0)))"
    by (simp add: ttl_deadline_def)
  show ?thesis
  proof (cases r0)
    case (Inl e)
    then have "w' = w"
      using s by (auto simp: set_ttl_def Let_def split: option.splits sum.splits)
    with Inl r edges show ?thesis by simp
  next
    case (Inr d0)
    have d0: "d0 = Some (iso_text (T 0))"
      using s Inr assms(2) dl by (auto simp: set_ttl_def Let_def split: option.splits)
    note facts = set_ttl_facts[OF assms(1) s[unfolded Inr] iso_text_not_Nil]
    have "payload_at E w' n = None \<longleftrightarrow> payload_at E w n = None" for n
      using facts by (cases "n = mid") auto
    then show ?thesis
      using facts edges r Inr d0 by (auto simp: iso_text_not_Nil)
  qed
qed

lemma demo_chain:
  "payload_at demo_env (demo_world invalidated_memories) ''a'' =
     Some ([''data'' \<mapsto> PStr ''old text''] ++ invalidate_patch [''b''] ''now'' None None None)"
  "payload_at demo_env (demo_world invalidated_memories) ''b'' = Some [''data'' \<mapsto> PStr ''new text'']"
  "superseded_ids ([''data'' \<mapsto> PStr ''old text''] ++ invalidate_patch [''b''] ''now'' None None None) = [''b'']"
  by (simp_all add: invalidated_memories_def superseded_ids_patch superseded_ids_list[of "[''b'']", simplified])

theorem delete_keeps_chain_nodes_witness:
  "\<exists>r w'. dispatch demo_env demo_backend (\<lambda>i. 0) ''delete'' [(''memory_id'', PStr ''a'')]
       (demo_world invalidated_memories) = (r, w') \<and>
     supersession demo_env w' = supersession demo_env (demo_world invalidated_memories)"
proof -
  obtain r w' where d: "dispatch demo_env demo_backend (\<lambda>i. 0) ''delete'' [(''memory_id'', PStr ''a'')]
      (demo_world invalidated_memories) = (r, w')"
    by (cases "dispatch demo_env demo_backend (\<lambda>i. 0) ''delete'' [(''memory_id'', PStr ''a'')]
      (demo_world invalidated_memories)")
  from delete_keeps_chain_nodes[OF _ demo_chain(1) _ _ _ d] d show ?thesis
    by (simp add: dict_qdrant_ok demo_chain(3) aget_def)
qed

text \<open>Deleting a memory that supersedes others is not stopped: when the client's calls work, the
  point is gone, and its predecessor still names it as successor.\<close>

theorem delete_leaves_dangling:
  assumes "qdrant_ok (qd E)" "payload_at E w b = Some p" "superseded_ids p = []" "b \<in> set (successors E w a)" "a \<noteq> b"
    "\<not> truthy (aget args ''all'')" "map_of args ''memory_id'' = Some (PStr b)"
    and "dispatch E B T ''delete'' args w = (Inr v, w')"
  shows "v = RDeleted \<and> payload_at E w' b = None \<and> b \<in> set (successors E w' a)"
proof -
  have d: "mem0_delete E b (iso_text (T 0)) w = (Inr (), w')" and v: "v = RDeleted"
    using assms(2,3,6-8)
    by (auto simp: dispatch_delete op_delete_def given_def required_str_def delete_guard_eq
        participates_def returning_def after_def Let_def split: prod.splits sum.splits)
  from mem0_delete_effect[OF assms(1) d] assms(4,5) v show ?thesis
    by (simp add: successors_def)
qed

theorem delete_leaves_dangling_witness:
  "\<exists>v w'. dispatch demo_env demo_backend (\<lambda>i. 0) ''delete'' [(''memory_id'', PStr ''b'')]
       (demo_world invalidated_memories) = (Inr v, w') \<and>
     payload_at demo_env w' ''b'' = None \<and> ''b'' \<in> set (successors demo_env w' ''a'')"
proof -
  have sb: "superseded_ids [''data'' \<mapsto> PStr ''new text''] = []"
    by (simp add: superseded_ids_def dget_def)
  have get: "vs_get dict_qdrant invalidated_memories ''b'' = Some (Some [''data'' \<mapsto> PStr ''new text''])"
    by (simp add: vs_get_def dict_qdrant_def invalidated_memories_def)
  have del: "\<exists>q. vs_delete dict_qdrant invalidated_memories ''b'' = Some q"
    by (simp add: vs_delete_def dict_qdrant_def)
  have "\<exists>w'. dispatch demo_env demo_backend (\<lambda>i. 0) ''delete'' [(''memory_id'', PStr ''b'')]
      (demo_world invalidated_memories) = (Inr RDeleted, w')"
    using del demo_chain(2) sb get
    by (auto simp: dispatch_delete op_delete_def aget_def given_def required_str_def delete_guard_eq
        participates_def returning_def after_def mem0_delete_def add_history_def Let_def)
  then obtain w' where d: "dispatch demo_env demo_backend (\<lambda>i. 0) ''delete'' [(''memory_id'', PStr ''b'')]
      (demo_world invalidated_memories) = (Inr RDeleted, w')"
    by blast
  have "''b'' \<in> set (successors demo_env (demo_world invalidated_memories) ''a'')"
    unfolding successors_ids[OF demo_chain(1)] demo_chain(3) by simp
  from delete_leaves_dangling[OF _ demo_chain(2) sb this _ _ _ d] d show ?thesis
    by (simp add: dict_qdrant_ok aget_def del: dict_point)
qed

lemma after_Inr_iff:
  "after m f = (Inr x, w') \<longleftrightarrow> (\<exists>y w1. m = (Inr y, w1) \<and> f y w1 = (Inr x, w'))"
  by (cases m) (auto simp: after_def split: sum.splits)

lemma clear_protection_facts:
  assumes "qdrant_ok (qd E)" "clear_displacement_protection E mid actor now w = (Inr b, w')"
    "payload_at E w mid = Some p"
  shows "\<exists>p'. payload_at E w' mid = Some p' \<and> text_of p' = text_of p \<and> superseded_ids p' = superseded_ids p \<and>
    (\<forall>clock. \<not> is_displacement_protected p' clock) \<and>
    (\<forall>n. n \<noteq> mid \<longrightarrow> payload_at E w' n = payload_at E w n)"
proof (cases "list_ex (\<lambda>k. dget p k \<noteq> PNone) protection_fields")
  case False
  then have "dget p DISPLACEMENT_PROTECTED_UNTIL = PNone" by (simp add: protection_fields_def)
  with False assms(2,3) show ?thesis
    by (auto simp: clear_displacement_protection_def is_displacement_protected_def)
next
  case True
  let ?q = "null_patch protection_fields"
  from True assms(2,3) obtain w1 where w1: "patch_memory E mid ?q w = Some w1" and st: "store w' = store w1"
    by (auto simp: clear_displacement_protection_def split: option.splits)
  have keep: "text_of (p ++ ?q) = text_of p" "superseded_ids (p ++ ?q) = superseded_ids p"
    by (rule text_of_keep superseded_ids_keep, simp add: null_patch_None protection_fields_def)+
  have "dget (p ++ ?q) DISPLACEMENT_PROTECTED_UNTIL = PNone"
    unfolding dget_map_add by (simp add: null_patch_def protection_fields_def)
  with keep st payload_at_patch[OF assms(1) w1] assms(3) show ?thesis
    by (auto simp: is_displacement_protected_def)
qed

text \<open>An update of the text. On success the memory has the new text and its old successors, every other
  memory is untouched; when the text changed, its displacement protection is over; and with a writable
  pair file every suspicion still open about it was judged against the new text.\<close>

theorem update_effect:
  assumes "qdrant_ok (qd E)" "map_of a ''memory_id'' = Some (PStr mid)" "map_of a ''text'' = Some (PStr new)"
    "map_of a ''metadata'' = Some (PDict kvs)" "map_of kvs SUPERSEDED_BY = None"
    and "dispatch E B T ''update'' a w = (Inr v, w')"
  shows "\<exists>p p'. payload_at E w mid = Some p \<and> payload_at E w' mid = Some p' \<and> text_of p' = new \<and>
    superseded_ids p' = superseded_ids p \<and>
    (text_of p \<noteq> new \<longrightarrow> (\<forall>clock. \<not> is_displacement_protected p' clock)) \<and>
    (\<forall>n. n \<noteq> mid \<longrightarrow> payload_at E w' n = payload_at E w n) \<and>
    (pairs_up E \<longrightarrow> (\<forall>r \<in> set (pairs w'). pr_old r = mid \<longrightarrow> pr_disposition r = DOpen \<longrightarrow>
       pr_hash r = sha E new))"
proof -
  let ?ac = "(case map_of kvs ''last_updated_by_agent_id'' of Some (PStr s) \<Rightarrow> Some s | _ \<Rightarrow> None)"
  from assms(2,6) obtain found where get: "vs_get (qd E) (store w) mid = Some found"
    by (auto simp: dispatch_update op_update_def given_def required_str_def split: option.splits)
  let ?clear = "\<lambda>w1. if text_of (case found of None \<Rightarrow> Map.empty | Some p \<Rightarrow> p) \<noteq> new
      then returning RCleared (clear_displacement_protection E mid ?ac (iso_text (T 1)) w1)
      else (Inr (RUpdated None), w1)"
  have "dispatch E B T ''update'' a w =
      after (mem0_update E mid new (map_of kvs) (iso_text (T 0)) w) (\<lambda>_ w1.
      after (?clear w1) (\<lambda>cleared w2.
        (Inr (RUpdated (case cleared of RCleared c \<Rightarrow> Some c | _ \<Rightarrow> None)),
         try_pairs E (close_for_updated_text (sha E) mid new (T 2)) w2)))"
    using assms(2-4)
    by (simp add: dispatch_update op_update_def given_def required_str_def required_dict_def get Let_def cong: if_cong)
  with assms(6) obtain w1 c w2
    where upd: "mem0_update E mid new (map_of kvs) (iso_text (T 0)) w = (Inr (), w1)"
      and clr: "?clear w1 = (Inr c, w2)"
      and w': "w' = try_pairs E (close_for_updated_text (sha E) mid new (T 2)) w2"
    by (auto simp: after_Inr_iff)
  obtain p where p: "payload_at E w mid = Some p"
      "payload_at E w1 mid = Some (updated_payload E p new (map_of kvs) (iso_text (T 0)))"
      "\<forall>n. n \<noteq> mid \<longrightarrow> payload_at E w1 n = payload_at E w n"
    using mem0_update_effect[OF assms(1) upd] by blast
  let ?u = "updated_payload E p new (map_of kvs) (iso_text (T 0))"
  have f: "found = Some p" using get p(1) by (simp add: point_payload_def)
  have su: "superseded_ids ?u = superseded_ids p"
    using updated_payload_keeps[of "map_of kvs" SUPERSEDED_BY E p new "iso_text (T 0)"] assms(5)
    by (intro superseded_ids_dget) (simp add: dget_def)
  have "\<exists>p'. payload_at E w2 mid = Some p' \<and> text_of p' = new \<and> superseded_ids p' = superseded_ids p \<and>
      (text_of p \<noteq> new \<longrightarrow> (\<forall>clock. \<not> is_displacement_protected p' clock)) \<and>
      (\<forall>n. n \<noteq> mid \<longrightarrow> payload_at E w2 n = payload_at E w1 n)"
  proof (cases "text_of p = new")
    case True
    with clr f p su show ?thesis by (simp add: updated_payload_text)
  next
    case False
    with clr f obtain b where cl: "clear_displacement_protection E mid ?ac (iso_text (T 1)) w1 = (Inr b, w2)"
      by (auto simp: returning_def after_Inr_iff)
    from clear_protection_facts[OF assms(1) cl p(2)] su show ?thesis
      by (auto simp: updated_payload_text)
  qed
  moreover have "pairs_up E \<longrightarrow> (\<forall>r \<in> set (pairs w'). pr_old r = mid \<longrightarrow> pr_disposition r = DOpen \<longrightarrow>
       pr_hash r = sha E new)"
    by (auto simp: w' try_pairs_up close_for_updated_text_def Let_def ball_upd_where)
  ultimately show ?thesis using p by (auto simp: w')
qed

theorem update_effect_witness:
  "\<exists>v w' p'. dispatch demo_env demo_backend (\<lambda>i. 0) ''update''
       [(''memory_id'', PStr ''a''), (''text'', PStr ''newer''), (''metadata'', PDict [])]
       (demo_world two_memories) = (Inr v, w') \<and> payload_at demo_env w' ''a'' = Some p' \<and> text_of p' = ''newer''"
proof -
  let ?a = "[(''memory_id'', PStr ''a''), (''text'', PStr ''newer''), (''metadata'', PDict [])]"
  let ?p = "[''data'' \<mapsto> PStr ''old text''] :: payload"
  have get: "vs_get dict_qdrant two_memories ''a'' = Some (Some ?p)"
    by (simp add: vs_get_def dict_qdrant_def two_memories_def)
  obtain q where q: "vs_update dict_qdrant True two_memories ''a''
      (updated_payload demo_env ?p ''newer'' Map.empty (iso_text 0)) = Some q"
    by (simp add: vs_update_def dict_qdrant_def)
  obtain w1 where u: "mem0_update demo_env ''a'' ''newer'' Map.empty (iso_text 0) (demo_world two_memories) =
      (Inr (), w1)"
    using get q by (simp add: mem0_update_def add_history_def Let_def)
  have "payload_at demo_env w1 ''a'' \<noteq> None"
    using mem0_update_effect[OF _ u] by (auto simp: dict_qdrant_ok simp del: dict_point)
  then have "\<exists>c w2. clear_displacement_protection demo_env ''a'' None (iso_text 0) w1 = (Inr c, w2)"
    by (auto simp: clear_displacement_protection_def patch_memory_def simp del: dict_point)
  then obtain c w2 where c: "clear_displacement_protection demo_env ''a'' None (iso_text 0) w1 = (Inr c, w2)"
    by blast
  have "\<exists>v w'. dispatch demo_env demo_backend (\<lambda>i. 0) ''update'' ?a (demo_world two_memories) = (Inr v, w')"
    using get u c by (simp add: dispatch_update op_update_def given_def required_str_def required_dict_def
        after_def returning_def Let_def)
  then obtain v w' where d: "dispatch demo_env demo_backend (\<lambda>i. 0) ''update'' ?a (demo_world two_memories) = (Inr v, w')"
    by blast
  from update_effect[OF _ _ _ _ _ d, of "''a''" "''newer''" "[]"] d show ?thesis
    by (auto simp: dict_qdrant_ok simp del: dict_point)
qed

end
