(* ===== verification/Bridge_Queue.thy ===== *)
theory Bridge_Queue
  imports Event_Queue
begin

text \<open>
  The mailbox between sandboxed clients and the host daemon, \<^verbatim>\<open>src/src/memline/bridge.py\<close>: the
  single row of \<^verbatim>\<open>bridge_state\<close> (who serves, and its heartbeat) and the table of requests. Client
  and daemon open the database from different processes, so a function below is one committed
  statement, and \<open>br_claim_next\<close>, which reads first and updates conditionally, takes what other
  processes do in between as an argument. Payloads and responses are JSON objects, stored as text
  and read back; the rows hold the objects. Times are clock readings, \<^verbatim>\<open>None\<close> as a heartbeat age
  is Python's \<^verbatim>\<open>inf\<close>.
\<close>

datatype br_status = BQueued | BProcessing | BDone | BError

fun br_status_text :: "br_status \<Rightarrow> string" where
  "br_status_text BQueued = ''queued''"
| "br_status_text BProcessing = ''processing''"
| "br_status_text BDone = ''done''"
| "br_status_text BError = ''error''"

record br_daemon =
  bd_version :: int
  bd_id :: string
  bd_pid :: int
  bd_ready :: bool
  bd_heartbeat_at :: string

record br_request =
  rq_id :: string
  rq_version :: int
  rq_payload :: args
  rq_status :: br_status
  rq_created :: string
  rq_updated :: string
  rq_response :: "args option"
  rq_acknowledged :: bool

record bridge =
  br_daemon_row :: "br_daemon option"
  br_requests :: "br_request list"

record br_liveness =
  lv_version :: int
  lv_id :: string
  lv_pid :: int
  lv_ready :: bool
  lv_heartbeat_at :: string
  lv_age :: "int option"

definition PROTOCOL_VERSION :: int where
  "PROTOCOL_VERSION = 1"

text \<open>Five seconds, in the microseconds of the clock.\<close>

definition HEARTBEAT_STALE :: int where
  "HEARTBEAT_STALE = 5000000"

definition RETENTION_HOURS :: nat where
  "RETENTION_HOURS = 24"

definition finished :: "br_status \<Rightarrow> bool" where
  "finished st = (st = BDone \<or> st = BError)"

text \<open>\<^verbatim>\<open>d[k] = v\<close> and \<^verbatim>\<open>d.pop(k, None)\<close> on a JSON object.\<close>

fun aset :: "string \<Rightarrow> pyval \<Rightarrow> args \<Rightarrow> args" where
  "aset k v [] = [(k, v)]"
| "aset k v ((k', v') # a) = (if k' = k then (k, v) # a else (k', v') # aset k v a)"

definition apop :: "string \<Rightarrow> args \<Rightarrow> args" where
  "apop k a = filter (\<lambda>kv. fst kv \<noteq> k) a"

subsection \<open>Daemon lifecycle\<close>

text \<open>\<^verbatim>\<open>_parse_time\<close>: the empty text and a malformed one are no time.\<close>

definition parse_time :: "string \<Rightarrow> time option" where
  "parse_time s = (if s = [] then None else parse_iso s)"

definition mark_ready :: "string \<Rightarrow> int \<Rightarrow> time \<Rightarrow> bridge \<Rightarrow> bridge" where
  "mark_ready daemon_id pid t b =
     b\<lparr>br_daemon_row := Some \<lparr>bd_version = PROTOCOL_VERSION, bd_id = daemon_id, bd_pid = pid,
         bd_ready = True, bd_heartbeat_at = iso_text t\<rparr>\<rparr>"

definition heartbeat :: "string \<Rightarrow> time \<Rightarrow> bridge \<Rightarrow> bool \<times> bridge" where
  "heartbeat daemon_id t b =
     (case br_daemon_row b of
        None \<Rightarrow> (False, b)
      | Some d \<Rightarrow>
          if bd_id d = daemon_id \<and> bd_ready d
          then (True, b\<lparr>br_daemon_row := Some (d\<lparr>bd_heartbeat_at := iso_text t\<rparr>)\<rparr>)
          else (False, b))"

definition mark_stopped :: "string \<Rightarrow> time \<Rightarrow> bridge \<Rightarrow> bridge" where
  "mark_stopped daemon_id t b =
     (case br_daemon_row b of
        None \<Rightarrow> b
      | Some d \<Rightarrow>
          if bd_id d = daemon_id
          then b\<lparr>br_daemon_row := Some (d\<lparr>bd_ready := False, bd_heartbeat_at := iso_text t\<rparr>)\<rparr>
          else b)"

definition br_state :: "time \<Rightarrow> bridge \<Rightarrow> br_liveness option" where
  "br_state t b =
     (case br_daemon_row b of
        None \<Rightarrow> None
      | Some d \<Rightarrow>
          Some \<lparr>lv_version = bd_version d, lv_id = bd_id d, lv_pid = bd_pid d,
                lv_ready = bd_ready d, lv_heartbeat_at = bd_heartbeat_at d,
                lv_age = map_option (\<lambda>h. int t - int h) (parse_time (bd_heartbeat_at d))\<rparr>)"

definition is_ready :: "time \<Rightarrow> bridge \<Rightarrow> bool" where
  "is_ready t b =
     (case br_state t b of
        None \<Rightarrow> False
      | Some s \<Rightarrow> lv_version s = PROTOCOL_VERSION \<and> lv_ready s \<and>
          (case lv_age s of None \<Rightarrow> False | Some age \<Rightarrow> age \<le> HEARTBEAT_STALE))"

subsection \<open>Client side\<close>

text \<open>\<^verbatim>\<open>enqueue\<close>: the caller's id if it gives a non-empty one, else a fresh \<open>uid\<close>; a repeated id
  changes nothing.\<close>

definition br_enqueue ::
  "args \<Rightarrow> string option \<Rightarrow> string \<Rightarrow> time \<Rightarrow> bridge \<Rightarrow> string \<times> bridge" where
  "br_enqueue payload request_id uid t b =
     (let rid = (case request_id of Some r \<Rightarrow> if r = [] then uid else r | None \<Rightarrow> uid);
          now = iso_text t
      in if rid \<in> set (map rq_id (br_requests b)) then (rid, b)
         else (rid, b\<lparr>br_requests := br_requests b @
           [\<lparr>rq_id = rid, rq_version = PROTOCOL_VERSION, rq_payload = payload,
             rq_status = BQueued, rq_created = now, rq_updated = now, rq_response = None,
             rq_acknowledged = False\<rparr>]\<rparr>))"

definition br_response :: "string \<Rightarrow> bridge \<Rightarrow> args option" where
  "br_response rid b =
     (case lookup_row rq_id rid (br_requests b) of
        None \<Rightarrow> None
      | Some r \<Rightarrow>
          if \<not> finished (rq_status r) then None
          else Some (aset ''_bridge_status'' (PStr (br_status_text (rq_status r)))
                 (case rq_response r of None \<Rightarrow> [] | Some p \<Rightarrow> p)))"

definition br_acknowledge :: "string \<Rightarrow> bridge \<Rightarrow> bridge" where
  "br_acknowledge rid b =
     b\<lparr>br_requests := delete_where (\<lambda>r. rq_id r = rid \<and> finished (rq_status r)) (br_requests b)\<rparr>"

definition error_response :: "string \<Rightarrow> args" where
  "error_response reason = [(''status'', PStr ''error''), (''error'', PStr reason)]"

definition cancel_if_queued :: "string \<Rightarrow> string \<Rightarrow> time \<Rightarrow> bridge \<Rightarrow> bool \<times> bridge" where
  "cancel_if_queued rid reason t b =
     (let P = (\<lambda>r. rq_id r = rid \<and> rq_status r = BQueued)
      in (0 < rowcount P (br_requests b),
          b\<lparr>br_requests := upd_where P
              (\<lambda>r. r\<lparr>rq_status := BError, rq_response := Some (error_response reason),
                     rq_updated := iso_text t\<rparr>) (br_requests b)\<rparr>))"

subsection \<open>Daemon worker side\<close>

definition br_candidate :: "bridge \<Rightarrow> br_request option" where
  "br_candidate b =
     first_row (order_asc rq_created
       (filter (\<lambda>r. rq_status r = BQueued \<and> rq_version r = PROTOCOL_VERSION) (br_requests b)))"

text \<open>The conditional update, the atomic claim point.\<close>

definition br_take :: "string \<Rightarrow> time \<Rightarrow> bridge \<Rightarrow> bool \<times> bridge" where
  "br_take rid t b =
     (let P = (\<lambda>r. rq_id r = rid \<and> rq_status r = BQueued)
      in (0 < rowcount P (br_requests b),
          b\<lparr>br_requests := upd_where P
              (\<lambda>r. r\<lparr>rq_status := BProcessing, rq_updated := iso_text t\<rparr>) (br_requests b)\<rparr>))"

text \<open>The end of \<^verbatim>\<open>claim_next\<close>: the row that was read is handed out only when the update met it.\<close>

definition br_finish_claim :: "br_request \<Rightarrow> time \<Rightarrow> bridge \<Rightarrow> (string \<times> args) option \<times> bridge" where
  "br_finish_claim row t b =
     (case br_take (rq_id row) t b of
        (False, b') \<Rightarrow> (None, b')
      | (True, b') \<Rightarrow> (Some (rq_id row, rq_payload row), b'))"

definition br_claim_next ::
  "(bridge \<Rightarrow> bridge) \<Rightarrow> time \<Rightarrow> bridge \<Rightarrow> (string \<times> args) option \<times> bridge" where
  "br_claim_next between t b =
     (case br_candidate b of
        None \<Rightarrow> (None, b)
      | Some row \<Rightarrow> br_finish_claim row t (between b))"

definition br_complete :: "string \<Rightarrow> args \<Rightarrow> time \<Rightarrow> bridge \<Rightarrow> bridge" where
  "br_complete rid response t b =
     (let status = (if aget response ''status'' = PStr ''ok'' then BDone else BError)
      in b\<lparr>br_requests := upd_where (\<lambda>r. rq_id r = rid)
            (\<lambda>r. r\<lparr>rq_status := status, rq_response := Some response, rq_updated := iso_text t\<rparr>)
            (br_requests b)\<rparr>)"

definition restart_reason :: string where
  "restart_reason = ''host daemon restarted while bridge request was processing; ''
     @ ''execution outcome is unknown''"

definition br_recover_stale :: "time \<Rightarrow> bridge \<Rightarrow> nat \<times> bridge" where
  "br_recover_stale t b =
     (let P = (\<lambda>r. rq_status r = BProcessing)
      in (rowcount P (br_requests b),
          b\<lparr>br_requests := upd_where P
              (\<lambda>r. r\<lparr>rq_status := BError, rq_response := Some (error_response restart_reason),
                     rq_updated := iso_text t\<rparr>) (br_requests b)\<rparr>))"

definition br_purgeable :: "string \<Rightarrow> br_request \<Rightarrow> bool" where
  "br_purgeable cutoff r \<longleftrightarrow> rq_acknowledged r \<or> (rq_updated r < cutoff \<and> finished (rq_status r))"

definition br_purge :: "nat \<Rightarrow> time \<Rightarrow> bridge \<Rightarrow> nat \<times> bridge" where
  "br_purge hours t b =
     (let cutoff = iso_text (t - hours * 3600000000)
      in (rowcount (br_purgeable cutoff) (br_requests b),
          b\<lparr>br_requests := delete_where (br_purgeable cutoff) (br_requests b)\<rparr>))"

subsection \<open>The client's request\<close>

text \<open>\<^verbatim>\<open>bridge_state()\<close>, which never creates the database: \<^verbatim>\<open>None\<close> when there is no file, or when
  opening it fails.\<close>

datatype db_file = NoFile | Unreadable | Database bridge

definition bridge_state :: "time \<Rightarrow> db_file \<Rightarrow> br_liveness option" where
  "bridge_state t file =
     (case file of NoFile \<Rightarrow> None | Unreadable \<Rightarrow> None | Database b \<Rightarrow> br_state t b)"

datatype unavailable_reason =
  NoDatabase | NoHeartbeat | DatabaseUnavailable | StoppedWhilePending | TimedOut

datatype br_error = BridgeUnavailable unavailable_reason | RequestFailed string

text \<open>One turn of the polling loop sees the clock at \<open>t\<close>; while the client sleeps, the daemon and
  other processes change the mailbox by \<open>f\<close>. The list of turns ends when the deadline passes.\<close>

fun br_poll ::
  "(time \<times> (bridge \<Rightarrow> bridge)) list \<Rightarrow> time \<Rightarrow> string \<Rightarrow> bridge \<Rightarrow> (br_error + pyval) \<times> bridge" where
  "br_poll [] t_end rid b =
     (Inl (BridgeUnavailable TimedOut),
      snd (cancel_if_queued rid ''sandbox bridge request timed out'' t_end b))"
| "br_poll ((t, f) # turns) t_end rid b =
     (case br_response rid b of
        Some resp \<Rightarrow>
          (let b' = br_acknowledge rid b; resp = apop ''_bridge_status'' resp
           in if aget resp ''status'' \<noteq> PStr ''ok''
              then (Inl (RequestFailed (if truthy (aget resp ''error'')
                           then py_str (aget resp ''error'') else ''daemon bridge request failed'')),
                    b')
              else (Inr (aget resp ''result''), b'))
      | None \<Rightarrow>
          if is_ready t b then br_poll turns t_end rid (f b)
          else (case cancel_if_queued rid
                  ''host daemon stopped before bridge request was claimed'' t b of
                  (True, b') \<Rightarrow> (Inl (BridgeUnavailable StoppedWhilePending), b')
                | (False, b') \<Rightarrow> br_poll turns t_end rid (f b')))"

definition br_request ::
  "args \<Rightarrow> string \<Rightarrow> time \<Rightarrow> (time \<times> (bridge \<Rightarrow> bridge)) list \<Rightarrow> time \<Rightarrow> db_file
     \<Rightarrow> (br_error + pyval) \<times> db_file" where
  "br_request payload uid t turns t_end file =
     (case file of
        NoFile \<Rightarrow> (Inl (BridgeUnavailable NoDatabase), file)
      | Unreadable \<Rightarrow> (Inl (BridgeUnavailable DatabaseUnavailable), file)
      | Database b \<Rightarrow>
          if \<not> is_ready t b then (Inl (BridgeUnavailable NoHeartbeat), file)
          else (let (rid, b') = br_enqueue payload None uid t b;
                    (res, b'') = br_poll turns t_end rid b'
                in (res, Database b'')))"

subsection \<open>Effects on the table of requests\<close>

lemma requests_enqueue:
  "br_requests (snd (br_enqueue payload None uid t b)) =
     (if uid \<in> rq_id ` set (br_requests b) then br_requests b
      else br_requests b @
        [\<lparr>rq_id = uid, rq_version = PROTOCOL_VERSION, rq_payload = payload,
          rq_status = BQueued, rq_created = iso_text t, rq_updated = iso_text t,
          rq_response = None, rq_acknowledged = False\<rparr>])"
  by (simp add: br_enqueue_def Let_def)

lemma requests_take:
  "br_requests (snd (br_take rid t b)) = upd_where (\<lambda>r. rq_id r = rid \<and> rq_status r = BQueued)
     (\<lambda>r. r\<lparr>rq_status := BProcessing, rq_updated := iso_text t\<rparr>) (br_requests b)"
  by (simp add: br_take_def Let_def)

lemma requests_complete:
  "br_requests (br_complete rid resp t b) = upd_where (\<lambda>r. rq_id r = rid)
     (\<lambda>r. r\<lparr>rq_status := (if aget resp ''status'' = PStr ''ok'' then BDone else BError),
            rq_response := Some resp, rq_updated := iso_text t\<rparr>) (br_requests b)"
  by (simp add: br_complete_def Let_def)

lemma requests_cancel:
  "br_requests (snd (cancel_if_queued rid reason t b)) =
     upd_where (\<lambda>r. rq_id r = rid \<and> rq_status r = BQueued)
       (\<lambda>r. r\<lparr>rq_status := BError, rq_response := Some (error_response reason),
              rq_updated := iso_text t\<rparr>) (br_requests b)"
  by (simp add: cancel_if_queued_def Let_def)

lemma requests_recover:
  "br_requests (snd (br_recover_stale t b)) = upd_where (\<lambda>r. rq_status r = BProcessing)
     (\<lambda>r. r\<lparr>rq_status := BError, rq_response := Some (error_response restart_reason),
            rq_updated := iso_text t\<rparr>) (br_requests b)"
  by (simp add: br_recover_stale_def Let_def)

lemma requests_purge:
  "br_requests (snd (br_purge hours t b)) =
     delete_where (br_purgeable (iso_text (t - hours * 3600000000))) (br_requests b)"
  by (simp add: br_purge_def Let_def)

lemma requests_acknowledge:
  "br_requests (br_acknowledge rid b) =
     delete_where (\<lambda>r. rq_id r = rid \<and> finished (rq_status r)) (br_requests b)"
  by (simp add: br_acknowledge_def)

lemmas bridge_effects = requests_enqueue requests_take requests_complete requests_cancel
  requests_recover requests_purge requests_acknowledge

lemma take_True_iff:
  "fst (br_take rid t b) \<longleftrightarrow> (\<exists>r \<in> set (br_requests b). rq_id r = rid \<and> rq_status r = BQueued)"
  by (simp add: br_take_def Let_def rowcount_pos_iff)

lemma cancel_True_iff:
  "fst (cancel_if_queued rid reason t b) \<longleftrightarrow>
     (\<exists>r \<in> set (br_requests b). rq_id r = rid \<and> rq_status r = BQueued)"
  by (simp add: cancel_if_queued_def Let_def rowcount_pos_iff)

lemma cancel_unqueues:
  "\<forall>r \<in> set (br_requests (snd (cancel_if_queued rid reason t b))).
     rq_id r = rid \<longrightarrow> rq_status r \<noteq> BQueued"
  by (simp add: requests_cancel row_simps)

subsection \<open>Clients, workers and restarts as steps\<close>

text \<open>
  The mailbox with the history the table itself forgets: the ids handed out (\<^verbatim>\<open>uuid4\<close> never
  repeats one), the rows that workers have read in \<^verbatim>\<open>claim_next\<close> and not yet claimed, the requests that
  \<^verbatim>\<open>claim_next\<close> handed to a worker for execution, latest first, and the requests that workers of the running daemon
  are executing. A claim is two steps, the read and the conditional update, with anything in between.
\<close>

record b_world =
  mailbox :: bridge
  handed_out :: "string set"
  looked_at :: "br_request list"
  executed :: "string list"
  running :: "string list"

datatype b_label =
    BrEnqueue string args time
  | BrRead
  | BrClaim br_request time
  | BrComplete string args time
  | BrCancel string string time
  | BrAcknowledge string
  | BrPurge nat time
  | BrRestart time

text \<open>What a worker does with the result of \<^verbatim>\<open>claim_next\<close>: a row is executed, \<^verbatim>\<open>None\<close> is not.\<close>

definition start_execution :: "(string \<times> args) option \<Rightarrow> b_world \<Rightarrow> b_world" where
  "start_execution got w =
     (case got of
        None \<Rightarrow> w
      | Some (rid, payload) \<Rightarrow> w\<lparr>executed := rid # executed w, running := rid # running w\<rparr>)"

inductive b_step :: "b_world \<Rightarrow> b_label \<Rightarrow> b_world \<Rightarrow> bool" where
  enqueue: "uid \<notin> handed_out w \<Longrightarrow>
     b_step w (BrEnqueue uid payload t)
       (w\<lparr>mailbox := snd (br_enqueue payload None uid t (mailbox w)),
          handed_out := insert uid (handed_out w)\<rparr>)"
| read: "br_candidate (mailbox w) = Some row \<Longrightarrow> b_step w BrRead (w\<lparr>looked_at := row # looked_at w\<rparr>)"
| claim: "row \<in> set (looked_at w) \<Longrightarrow> br_finish_claim row t (mailbox w) = (got, b') \<Longrightarrow>
     b_step w (BrClaim row t) (start_execution got (w\<lparr>mailbox := b', looked_at := remove1 row (looked_at w)\<rparr>))"
| complete: "rid \<in> set (running w) \<Longrightarrow>
     b_step w (BrComplete rid resp t)
       (w\<lparr>mailbox := br_complete rid resp t (mailbox w), running := remove1 rid (running w)\<rparr>)"
| cancel: "b_step w (BrCancel rid reason t)
     (w\<lparr>mailbox := snd (cancel_if_queued rid reason t (mailbox w))\<rparr>)"
| acknowledge: "b_step w (BrAcknowledge rid) (w\<lparr>mailbox := br_acknowledge rid (mailbox w)\<rparr>)"
| purge: "b_step w (BrPurge hours t) (w\<lparr>mailbox := snd (br_purge hours t (mailbox w))\<rparr>)"
| restart: "b_step w (BrRestart t)
     (w\<lparr>mailbox := snd (br_recover_stale t (mailbox w)), looked_at := [], running := []\<rparr>)"

inductive_simps b_step_enqueue [simp]: "b_step w (BrEnqueue uid payload t) w'"
inductive_simps b_step_read [simp]: "b_step w BrRead w'"
inductive_simps b_step_claim [simp]: "b_step w (BrClaim row t) w'"
inductive_simps b_step_cancel [simp]: "b_step w (BrCancel rid reason t) w'"

definition empty_world :: b_world where
  "empty_world = \<lparr>mailbox = \<lparr>br_daemon_row = None, br_requests = []\<rparr>,
     handed_out = {}, looked_at = [], executed = [], running = []\<rparr>"

inductive b_star :: "b_world \<Rightarrow> b_world \<Rightarrow> bool" where
  refl: "b_star w w"
| step: "b_star w w' \<Longrightarrow> b_step w' l w'' \<Longrightarrow> b_star w w''"

definition b_inv :: "b_world \<Rightarrow> bool" where
  "b_inv w \<longleftrightarrow>
     distinct (map rq_id (br_requests (mailbox w))) \<and>
     rq_id ` set (br_requests (mailbox w)) \<subseteq> handed_out w \<and>
     set (executed w) \<subseteq> handed_out w \<and> set (running w) \<subseteq> set (executed w) \<and>
     distinct (executed w) \<and>
     (\<forall>r \<in> set (br_requests (mailbox w)). rq_status r = BQueued \<longrightarrow> rq_id r \<notin> set (executed w))"

text \<open>An update that keeps the ids and queues nothing keeps the invariant.\<close>

lemma b_inv_update:
  assumes "b_inv w" "br_requests m = upd_where P f (br_requests (mailbox w))"
    "\<And>r. rq_id (f r) = rq_id r" "\<And>r. rq_status (f r) \<noteq> BQueued" "set run \<subseteq> set (running w)"
  shows "b_inv (w\<lparr>mailbox := m, looked_at := l, running := run\<rparr>)"
proof -
  have ids: "map rq_id (br_requests m) = map rq_id (br_requests (mailbox w))"
    unfolding assms(2) by (rule map_key_upd_where) (rule assms(3))
  then have "rq_id ` set (br_requests m) = rq_id ` set (br_requests (mailbox w))"
    by (metis list.set_map)
  moreover have "\<forall>r \<in> set (br_requests m). rq_status r = BQueued \<longrightarrow> rq_id r \<notin> set (executed w)"
    unfolding assms(2) using assms(1,4) by (simp add: b_inv_def row_simps)
  ultimately show ?thesis
    using assms(1,5) ids by (auto simp: b_inv_def)
qed

lemma taken_inv:
  assumes took: "br_take rid t (mailbox w) = (True, b')" and inv: "b_inv w"
  shows "b_inv (w\<lparr>mailbox := b', looked_at := l, executed := rid # executed w, running := rid # running w\<rparr>)"
proof -
  have b': "br_requests b' = br_requests (snd (br_take rid t (mailbox w)))" by (simp add: took)
  obtain r where r: "r \<in> set (br_requests (mailbox w))" "rq_id r = rid" "rq_status r = BQueued"
    using took take_True_iff[of rid t "mailbox w"] by auto
  have other: "\<forall>r' \<in> set (br_requests b'). rq_status r' = BQueued \<longrightarrow> rq_id r' \<noteq> rid"
    unfolding b' requests_take by (auto simp: row_simps)
  have ids: "map rq_id (br_requests b') = map rq_id (br_requests (mailbox w))"
    unfolding b' requests_take by (simp add: row_simps)
  then have set_ids: "rq_id ` set (br_requests b') = rq_id ` set (br_requests (mailbox w))"
    by (metis list.set_map)
  have q: "\<forall>r' \<in> set (br_requests b'). rq_status r' = BQueued \<longrightarrow> rq_id r' \<notin> set (executed w)"
    unfolding b' requests_take using inv by (simp add: b_inv_def row_simps)
  have rid: "rid \<in> handed_out w" "rid \<notin> set (executed w)"
    using inv r by (auto simp: b_inv_def)
  show ?thesis
    using inv rid q other by (auto simp: b_inv_def ids set_ids)
qed

lemma b_step_inv:
  assumes "b_step w l w'" "b_inv w"
  shows "b_inv w'"
  using assms
proof (induction rule: b_step.induct)
  case (enqueue uid w payload t)
  then show ?case by (auto simp: b_inv_def requests_enqueue)
next
  case (read w row)
  then show ?case by (simp add: b_inv_def)
next
  case (claim row w t got b')
  show ?case
  proof (cases got)
    case None
    then have b': "br_requests b' = br_requests (snd (br_take (rq_id row) t (mailbox w)))"
      using claim(2) by (auto simp: br_finish_claim_def split: prod.splits bool.splits)
    have "b_inv (w\<lparr>mailbox := b', looked_at := remove1 row (looked_at w), running := running w\<rparr>)"
      by (rule b_inv_update[OF claim(3) b'[unfolded requests_take]]) auto
    then show ?thesis by (simp add: None start_execution_def)
  next
    case (Some rp)
    let ?rid = "rq_id row"
    have took: "br_take ?rid t (mailbox w) = (True, b')" and rp: "rp = (?rid, rq_payload row)"
      using claim(2) Some by (auto simp: br_finish_claim_def split: prod.splits bool.splits)
    show ?thesis using taken_inv[OF took claim(3)] by (simp add: Some rp start_execution_def)
  qed
next
  case (complete rid w resp t)
  then have "b_inv (w\<lparr>mailbox := br_complete rid resp t (mailbox w), looked_at := looked_at w,
      running := remove1 rid (running w)\<rparr>)"
    by (intro b_inv_update[OF _ requests_complete]) (auto intro: set_remove1_subset[THEN subsetD])
  then show ?case by simp
next
  case (cancel w rid reason t)
  then have "b_inv (w\<lparr>mailbox := snd (cancel_if_queued rid reason t (mailbox w)),
      looked_at := looked_at w, running := running w\<rparr>)"
    by (intro b_inv_update[OF _ requests_cancel]) auto
  then show ?case by simp
next
  case (acknowledge w rid)
  then show ?case by (auto simp: b_inv_def requests_acknowledge distinct_delete_where row_simps)
next
  case (purge w hours t)
  then show ?case by (auto simp: b_inv_def requests_purge distinct_delete_where row_simps)
next
  case (restart w t)
  then show ?case
    by (intro b_inv_update[OF _ requests_recover]) auto
qed

lemma b_star_inv: "b_star w w' \<Longrightarrow> b_inv w \<Longrightarrow> b_inv w'"
  by (induction rule: b_star.induct) (auto intro: b_step_inv)

lemma b_inv_empty: "b_inv empty_world"
  by (simp add: b_inv_def empty_world_def)

text \<open>C2: At most once. Whatever clients, workers, purges and daemon restarts do, and however the reads of several workers
  interleave with their conditional updates, no request of the mailbox is handed out for execution twice, and a request
  still queued has never been executed.\<close>

theorem bridge_at_most_once:
  assumes "b_star empty_world w"
  shows "distinct (executed w) \<and>
    (\<forall>r \<in> set (br_requests (mailbox w)). rq_status r = BQueued \<longrightarrow> rq_id r \<notin> set (executed w))"
  using b_star_inv[OF assms b_inv_empty] by (simp add: b_inv_def)

text \<open>A request that is known, not queued and not executed stays unexecuted.\<close>

definition dead :: "string \<Rightarrow> b_world \<Rightarrow> bool" where
  "dead rid w \<longleftrightarrow> rid \<in> handed_out w \<and> rid \<notin> set (executed w) \<and>
     (\<forall>r \<in> set (br_requests (mailbox w)). rq_id r = rid \<longrightarrow> rq_status r \<noteq> BQueued)"

lemma b_step_dead: "b_step w l w' \<Longrightarrow> dead rid w \<Longrightarrow> dead rid w'"
proof (induction rule: b_step.induct)
  case (claim row w t got b')
  have b': "br_requests b' = br_requests (snd (br_take (rq_id row) t (mailbox w)))"
    and got: "got = None \<or> got = Some (rq_id row, rq_payload row) \<and> fst (br_take (rq_id row) t (mailbox w))"
    using claim(2) by (auto simp: br_finish_claim_def split: prod.splits bool.splits)
  have "\<not> fst (br_take rid t (mailbox w))"
    using claim(3) take_True_iff[of rid t "mailbox w"] by (auto simp: dead_def)
  then have "got = None \<or> rq_id row \<noteq> rid" "got = None \<or> got = Some (rq_id row, rq_payload row)"
    using got by auto
  then show ?case using claim(3)
    by (auto simp: dead_def start_execution_def b' requests_take row_simps)
qed (auto simp: dead_def bridge_effects row_simps)

lemma b_star_dead: "b_star w w' \<Longrightarrow> dead rid w \<Longrightarrow> dead rid w'"
  by (induction rule: b_star.induct) (auto intro: b_step_dead)

text \<open>A cancelled request is never executed: if \<^verbatim>\<open>cancel_if_queued\<close> reports success in a
  reachable mailbox, no later step begins its execution.\<close>

theorem bridge_cancel_final:
  assumes "b_star empty_world w" "fst (cancel_if_queued rid reason t (mailbox w))"
    and "b_star (w\<lparr>mailbox := snd (cancel_if_queued rid reason t (mailbox w))\<rparr>) w'"
  shows "rid \<notin> set (executed w')"
proof -
  obtain r where "r \<in> set (br_requests (mailbox w))" "rq_id r = rid" "rq_status r = BQueued"
    using assms(2) cancel_True_iff by blast
  moreover have "b_inv w"
    by (rule b_star_inv[OF assms(1) b_inv_empty])
  ultimately have "dead rid (w\<lparr>mailbox := snd (cancel_if_queued rid reason t (mailbox w))\<rparr>)"
    by (auto simp: dead_def b_inv_def requests_cancel row_simps)
  with assms(3) have "dead rid w'"
    by (rule b_star_dead)
  then show ?thesis by (simp add: dead_def)
qed

text \<open>A client that gives up leaves nothing claimable behind: when its polling loop ends as
  unavailable, whatever happened to the mailbox between the turns, its request is not queued.\<close>

theorem poll_unavailable_unclaimable:
  assumes "br_poll turns t_end rid b = (Inl (BridgeUnavailable why), b')"
    and "r \<in> set (br_requests b')" "rq_id r = rid"
  shows "rq_status r \<noteq> BQueued"
  using assms
proof (induction turns t_end rid b rule: br_poll.induct)
  case (1 t_end rid b)
  then show ?case using cancel_unqueues by auto
next
  case (2 t f turns t_end rid b)
  let ?c = "cancel_if_queued rid ''host daemon stopped before bridge request was claimed'' t b"
  show ?case
  proof (cases "br_response rid b")
    case (Some resp)
    with 2 show ?thesis by (auto simp: Let_def split: if_splits)
  next
    case None
    show ?thesis
    proof (cases "is_ready t b")
      case True
      with 2 None show ?thesis by simp
    next
      case False
      obtain won b1 where c: "?c = (won, b1)" by fastforce
      have "\<forall>r \<in> set (br_requests b1). rq_id r = rid \<longrightarrow> rq_status r \<noteq> BQueued"
        using cancel_unqueues[of rid _ t b] c by (metis snd_conv)
      with 2 None False c show ?thesis
        by (cases won) auto
    qed
  qed
qed


subsection \<open>Liveness and delivery\<close>

lemma is_ready_row:
  assumes "br_daemon_row b = Some d" "bd_heartbeat_at d = iso_text t" "t < time_end"
  shows "is_ready now b \<longleftrightarrow>
    bd_version d = PROTOCOL_VERSION \<and> bd_ready d \<and> int now - int t \<le> HEARTBEAT_STALE"
  using assms by (simp add: is_ready_def br_state_def parse_time_def parse_iso_text)

text \<open>The mailbox is served exactly within the heartbeat window. After \<^verbatim>\<open>mark_ready\<close> or an accepted
  heartbeat at instant \<open>t\<close> clients see a ready daemon until five seconds later and no longer;
  after \<^verbatim>\<open>mark_stopped\<close> they see none; a heartbeat of another daemon is refused.\<close>

theorem bridge_ready_window:
  assumes "t < time_end" "t' < time_end"
  shows "(is_ready now (mark_ready d pid t b) \<longleftrightarrow> int now - int t \<le> HEARTBEAT_STALE) \<and>
    fst (heartbeat d t' (mark_ready d pid t b)) \<and>
    (is_ready now (snd (heartbeat d t' (mark_ready d pid t b))) \<longleftrightarrow>
       int now - int t' \<le> HEARTBEAT_STALE) \<and>
    \<not> is_ready now (mark_stopped d t' (mark_ready d pid t b)) \<and>
    (d' \<noteq> d \<longrightarrow> heartbeat d' t' (mark_ready d pid t b) = (False, mark_ready d pid t b))"
  using assms by (simp add: mark_ready_def heartbeat_def mark_stopped_def is_ready_row)

lemma aget_aset: "aget (aset k v a) k' = (if k' = k then v else aget a k')"
  by (induction k v a rule: aset.induct) (auto simp: aget_def)

lemma map_of_filter_key: "map_of (filter (\<lambda>kv. fst kv \<noteq> k) a) k' = (if k' = k then None else map_of a k')"
  by (induction a) auto

lemma aget_apop: "aget (apop k a) k' = (if k' = k then PNone else aget a k')"
  by (simp add: aget_def apop_def map_of_filter_key)

text \<open>Delivery. What a worker records with \<^verbatim>\<open>complete\<close> is what the client's next turn returns: the
  result of an ok response, the error text of any other, and the row is gone from the mailbox.\<close>

theorem bridge_delivers:
  assumes "distinct (map rq_id (br_requests b))" "rid \<in> rq_id ` set (br_requests b)"
  shows "\<exists>b'. br_poll ((t, f) # turns) t_end rid (br_complete rid resp t0 b) =
      ((if aget resp ''status'' = PStr ''ok'' then Inr (aget resp ''result'')
        else Inl (RequestFailed (if truthy (aget resp ''error'') then py_str (aget resp ''error'')
                                 else ''daemon bridge request failed''))), b') \<and>
      lookup_row rq_id rid (br_requests b') = None \<and>
      (\<forall>rid'. rid' \<noteq> rid \<longrightarrow>
         lookup_row rq_id rid' (br_requests b') = lookup_row rq_id rid' (br_requests b))"
proof -
  let ?b = "br_complete rid resp t0 b"
  let ?st = "if aget resp ''status'' = PStr ''ok'' then BDone else BError"
  obtain r where r: "lookup_row rq_id rid (br_requests b) = Some r"
    using assms(2) by (cases "lookup_row rq_id rid (br_requests b)") (auto simp: lookup_row_None_iff)
  then have row: "lookup_row rq_id rid (br_requests ?b) =
      Some (r\<lparr>rq_status := ?st, rq_response := Some resp, rq_updated := iso_text t0\<rparr>)"
    using lookup_row_Some[OF r] by (simp add: requests_complete lookup_upd_where)
  then have resp: "br_response rid ?b = Some (aset ''_bridge_status'' (PStr (br_status_text ?st)) resp)"
    by (simp add: br_response_def finished_def)
  have d: "distinct (map rq_id (br_requests ?b))"
    using assms(1) by (simp add: requests_complete row_simps)
  have gone: "lookup_row rq_id rid (br_requests (br_acknowledge rid ?b)) = None"
    using lookup_row_Some[OF r] row
    by (simp add: requests_acknowledge lookup_delete_where[OF d] finished_def)
  have "lookup_row rq_id rid' (br_requests (br_acknowledge rid ?b)) =
      lookup_row rq_id rid' (br_requests b)" if "rid' \<noteq> rid" for rid'
    using that unfolding requests_acknowledge lookup_delete_where[OF d]
    by (cases "lookup_row rq_id rid' (br_requests b)")
      (auto simp: requests_complete lookup_upd_where dest: lookup_row_Some)
  with gone show ?thesis
    by (simp add: resp Let_def aget_apop aget_aset)
qed


subsection \<open>Instances\<close>

definition ex_request :: "br_status \<Rightarrow> args option \<Rightarrow> br_request" where
  "ex_request st resp =
     \<lparr>rq_id = ''q1'', rq_version = PROTOCOL_VERSION, rq_payload = [(''op'', PStr ''ping'')],
      rq_status = st, rq_created = iso_text 0, rq_updated = iso_text 0, rq_response = resp,
      rq_acknowledged = False\<rparr>"

definition ex_box :: "br_status \<Rightarrow> args option \<Rightarrow> bridge" where
  "ex_box st resp = \<lparr>br_daemon_row = None, br_requests = [ex_request st resp]\<rparr>"

lemmas ex_box_defs = ex_box_def ex_request_def

definition ex_world :: b_world where
  "ex_world = \<lparr>mailbox = ex_box BQueued None, handed_out = {''q1''}, looked_at = [], executed = [], running = []\<rparr>"

text \<open>Two workers read the same row; the first claims it, the second then goes away empty-handed.\<close>

definition ex_world_read :: b_world where
  "ex_world_read = ex_world\<lparr>looked_at := [ex_request BQueued None, ex_request BQueued None]\<rparr>"

definition ex_world_raced :: b_world where
  "ex_world_raced =
     \<lparr>mailbox = ex_box BProcessing None, handed_out = {''q1''}, looked_at = [], executed = [''q1''],
      running = [''q1'']\<rparr>"

lemma ex_world_star: "b_star empty_world ex_world"
proof -
  have "b_step empty_world (BrEnqueue ''q1'' [(''op'', PStr ''ping'')] 0) ex_world"
    by (simp add: empty_world_def ex_world_def ex_box_defs br_enqueue_def Let_def)
  then show ?thesis using b_star.intros by blast
qed

lemma ex_candidate: "br_candidate (ex_box BQueued None) = Some (ex_request BQueued None)"
  by (simp add: br_candidate_def ex_box_defs first_row_def order_asc_def)

lemma ex_world_raced_star: "b_star empty_world ex_world_raced"
proof -
  let ?r = "ex_request BQueued None"
  let ?w1 = "ex_world\<lparr>looked_at := [?r]\<rparr>"
  let ?w2 = "\<lparr>mailbox = ex_box BProcessing None, handed_out = {''q1''}, looked_at = [?r], executed = [''q1''], running = [''q1'']\<rparr>"
  have "b_step ex_world BrRead ?w1" "b_step ?w1 BrRead ex_world_read"
    by (simp_all add: ex_world_def ex_world_read_def ex_candidate)
  moreover have "b_step ex_world_read (BrClaim ?r 0) ?w2" "b_step ?w2 (BrClaim ?r 0) ex_world_raced"
    by (simp_all add: ex_world_raced_def ex_world_read_def ex_world_def ex_box_defs br_finish_claim_def br_take_def Let_def
        rowcount_def upd_where_def start_execution_def)
  ultimately show ?thesis using ex_world_star by (meson b_star.step)
qed

theorem bridge_at_most_once_witness:
  "distinct (executed ex_world_raced)"
  using bridge_at_most_once[OF ex_world_raced_star] by (rule conjunct1)

theorem bridge_cancel_final_witness: "''q1'' \<notin> set (executed
    (ex_world\<lparr>mailbox := snd (cancel_if_queued ''q1'' ''gone'' 0 (mailbox ex_world))\<rparr>))"
  by (rule bridge_cancel_final[OF ex_world_star _ b_star.refl])
    (simp add: cancel_True_iff ex_world_def ex_box_defs)

theorem poll_unavailable_unclaimable_witness: "rq_status (ex_request BProcessing None) \<noteq> BQueued"
  by (rule poll_unavailable_unclaimable[of "[]" 0 "''q1''" "ex_box BProcessing None" TimedOut
        "ex_box BProcessing None"])
    (simp_all add: ex_box_defs cancel_if_queued_def Let_def upd_where_def)

theorem bridge_ready_window_witness:
  "is_ready 5000000 (mark_ready ''d'' 7 0 (ex_box BQueued None)) \<and>
   \<not> is_ready 5000001 (mark_ready ''d'' 7 0 (ex_box BQueued None))"
  using bridge_ready_window[of 0 0 5000000 "''d''" 7 "ex_box BQueued None"]
    bridge_ready_window[of 0 0 5000001 "''d''" 7 "ex_box BQueued None"]
  by (simp add: time_end_def HEARTBEAT_STALE_def)

theorem bridge_delivers_witness:
  "\<exists>b'. br_poll [(0, id)] 0 ''q1''
      (br_complete ''q1'' [(''status'', PStr ''ok''), (''result'', PInt 42)] 0
        (ex_box BProcessing None)) = (Inr (PInt 42), b')"
proof -
  have d: "distinct (map rq_id (br_requests (ex_box BProcessing None)))"
    and m: "''q1'' \<in> rq_id ` set (br_requests (ex_box BProcessing None))"
    by (simp_all add: ex_box_defs)
  show ?thesis
    using bridge_delivers[OF d m, of 0 id "[]" 0
        "[(''status'', PStr ''ok''), (''result'', PInt 42)]" 0]
    by (auto simp: aget_def simp del: br_poll.simps)
qed


end
