(* ===== verification/Manifest_Log.thy ===== *)
theory Manifest_Log
  imports Event_Queue
begin

text \<open>
  The append-only manifests of live mutations, \<^verbatim>\<open>src/src/memline/audit.py\<close>, and the per-session add
  counters they feed, \<^verbatim>\<open>src/src/memline/session_stats.py\<close>. A manifest row is the JSON object the code
  writes; \<open>manifest\<close> lists the rows with the file each went to. Whether the file system lets a row or a counter
  be written is an argument of the calls (\<open>manifest_up\<close>, \<open>counter_up\<close>), and so are the random audit id, the
  clock readings and the hash of a JSON object.
\<close>

subsection \<open>The counters\<close>

record session_row =
  sc_session :: string
  sc_count :: nat
  sc_first :: string
  sc_last :: string

definition record_add :: "string \<Rightarrow> string \<Rightarrow> session_row list \<Rightarrow> nat \<times> session_row list" where
  "record_add sid at_iso rows =
     (let rows' = (if sid \<in> sc_session ` set rows
                   then upd_where (\<lambda>r. sc_session r = sid)
                          (\<lambda>r. r\<lparr>sc_count := sc_count r + 1, sc_last := at_iso\<rparr>) rows
                   else rows @ [\<lparr>sc_session = sid, sc_count = 1, sc_first = at_iso, sc_last = at_iso\<rparr>])
      in (case lookup_row sc_session sid rows' of None \<Rightarrow> 0 | Some r \<Rightarrow> sc_count r, rows'))"

definition add_count :: "string \<Rightarrow> session_row list \<Rightarrow> nat" where
  "add_count sid rows = (case lookup_row sc_session sid rows of None \<Rightarrow> 0 | Some r \<Rightarrow> sc_count r)"

subsection \<open>The manifests\<close>

record audit_log =
  manifest :: "(string \<times> args) list"
  counters :: "session_row list"

record audit_host =
  payload_sha :: "args \<Rightarrow> string"
  manifest_up :: bool
  counter_up :: bool

definition dict_items :: "pyval \<Rightarrow> args" where
  "dict_items v = (case v of PDict kvs \<Rightarrow> kvs | _ \<Rightarrow> [])"

definition is_dict :: "pyval \<Rightarrow> bool" where
  "is_dict v = (case v of PDict _ \<Rightarrow> True | _ \<Rightarrow> False)"

definition memory_results :: "pyval \<Rightarrow> args list" where
  "memory_results result =
     (case result of
        PDict kvs \<Rightarrow> (case aget kvs ''results'' of
            PList vs \<Rightarrow> map dict_items (filter is_dict vs) | _ \<Rightarrow> [])
      | _ \<Rightarrow> [])"

text \<open>A timestamp too short to hold a month falls back to the clock, \<open>now\<close>.\<close>

definition live_manifest_path :: "string \<Rightarrow> string \<Rightarrow> string" where
  "live_manifest_path now ts = ''live-'' @ take 7 (if 7 \<le> length ts then ts else now) @ ''.jsonl''"

definition truthy_column :: "string \<Rightarrow> args list \<Rightarrow> pyval list" where
  "truthy_column k items = filter truthy (map (\<lambda>it. aget it k) items)"

record audit_call =
  ac_operation :: string
  ac_input :: args
  ac_metadata :: args
  ac_result :: pyval
  ac_started :: string
  ac_finished :: string
  ac_duration :: int
  ac_scope :: args

definition audit_item :: "string \<Rightarrow> audit_call \<Rightarrow> args" where
  "audit_item uid c =
     (let memories = memory_results (ac_result c)
      in [(''schema_version'', PInt 1), (''audit_id'', PStr uid), (''operation'', PStr (ac_operation c)),
          (''started_at'', PStr (ac_started c)), (''finished_at'', PStr (ac_finished c)),
          (''duration_ms'', PInt (ac_duration c)), (''input'', PDict (ac_input c)),
          (''metadata'', PDict (ac_metadata c)), (''scope'', PDict (ac_scope c)),
          (''memory_result'', ac_result c), (''result_count'', PInt (int (length memories))),
          (''events'', PList (truthy_column ''event'' memories)),
          (''memory_ids'', PList (truthy_column ''id'' memories)),
          (''result_memories'', PList (truthy_column ''memory'' memories))])"

definition counted_session :: "string \<Rightarrow> args \<Rightarrow> pyval \<Rightarrow> string option" where
  "counted_session operation metadata result =
     (if operation \<noteq> ''add'' then None
      else if is_dict result \<and> aget (dict_items result) ''error'' \<noteq> PNone then None
      else if aget metadata ''origin'' = PStr ''ledger_import'' then None
      else if \<not> truthy (aget metadata ''session_id'') then None
      else Some (py_str (aget metadata ''session_id'')))"

definition record_session_add ::
  "audit_host \<Rightarrow> string \<Rightarrow> args \<Rightarrow> pyval \<Rightarrow> string \<Rightarrow> session_row list \<Rightarrow> session_row list" where
  "record_session_add H operation metadata result finished_at rows =
     (case counted_session operation metadata result of
        None \<Rightarrow> rows
      | Some sid \<Rightarrow> if counter_up H then snd (record_add sid finished_at rows) else rows)"

datatype audit_error = ManifestFailed

record audit_receipt =
  rc_path :: string
  rc_audit_id :: string
  rc_sha :: string

definition append_live_audit ::
  "audit_host \<Rightarrow> string \<Rightarrow> string \<Rightarrow> audit_call \<Rightarrow> audit_log \<Rightarrow> (audit_error + audit_receipt) \<times> audit_log" where
  "append_live_audit H uid now c lg =
     (let item = audit_item uid c;
          row = item @ [(''payload_sha256'', PStr (payload_sha H item))];
          path = live_manifest_path now (ac_finished c)
      in if \<not> manifest_up H then (Inl ManifestFailed, lg)
         else (Inr \<lparr>rc_path = path, rc_audit_id = uid, rc_sha = payload_sha H item\<rparr>,
               \<lparr>manifest = manifest lg @ [(path, row)],
                counters = record_session_add H (ac_operation c) (ac_metadata c) (ac_result c)
                             (ac_finished c) (counters lg)\<rparr>))"

text \<open>
  The context manager: the audited block gets the span, may fill in its fields, and ends with or without an
  exception. \<open>text_of_error\<close> is \<^verbatim>\<open>str\<close> of the exception.
\<close>

record audit_span =
  sp_input :: args
  sp_metadata :: args
  sp_scope :: args
  sp_result :: pyval

datatype 'e audited_error = BlockError 'e | AuditError audit_error

definition audited ::
  "audit_host \<Rightarrow> ('e \<Rightarrow> string) \<Rightarrow> string \<Rightarrow> string \<Rightarrow> string \<Rightarrow> int \<Rightarrow> string \<Rightarrow> audit_span
     \<Rightarrow> (audit_span \<Rightarrow> 'w \<Rightarrow> ('e option \<times> audit_span) \<times> 'w) \<Rightarrow> 'w \<times> audit_log
     \<Rightarrow> ('e audited_error + audit_span) \<times> 'w \<times> audit_log" where
  "audited H text_of_error uid started finished duration operation span0 block s =
     (case s of (w, lg) \<Rightarrow>
      case block span0 w of ((failure, sp), w') \<Rightarrow>
        let result = (case failure of
               Some e \<Rightarrow> if sp_result sp = PNone then PDict [(''error'', PStr (text_of_error e))] else sp_result sp
             | None \<Rightarrow> sp_result sp);
            (written, lg') = append_live_audit H uid finished
               \<lparr>ac_operation = operation, ac_input = sp_input sp, ac_metadata = sp_metadata sp,
                ac_result = result, ac_started = started, ac_finished = finished, ac_duration = duration,
                ac_scope = sp_scope sp\<rparr> lg
        in (case failure of
              Some e \<Rightarrow> Inl (BlockError e)
            | None \<Rightarrow> (case written of Inl a \<Rightarrow> Inl (AuditError a) | Inr _ \<Rightarrow> Inr sp), w', lg'))"

subsection \<open>The counters follow the manifests\<close>

lemma add_count_record_add:
  "add_count s (snd (record_add sid t rows)) = add_count s rows + (if s = sid then 1 else 0)"
proof -
  have lookup: "lookup_row sc_session s (upd_where (\<lambda>r. sc_session r = sid) f rows) =
      map_option (\<lambda>r. if sc_session r = sid then f r else r) (lookup_row sc_session s rows)"
    if "\<And>r. sc_session (f r) = sc_session r" for f
    by (induction rows) (auto simp: lookup_row_def upd_where_def that)
  have hit: "lookup_row sc_session s rows = Some r \<Longrightarrow> sc_session r = s" for r
    by (auto simp: lookup_row_def find_Some_iff)
  have append: "lookup_row sc_session s (rows @ [r]) =
      (case lookup_row sc_session s rows of None \<Rightarrow> (if sc_session r = s then Some r else None) | x \<Rightarrow> x)" for r
    by (induction rows) (auto simp: lookup_row_def)
  show ?thesis
  proof (cases "sid \<in> sc_session ` set rows")
    case True
    show ?thesis
    proof (cases "lookup_row sc_session s rows")
      case None
      then have "s \<noteq> sid" using True by (auto simp: lookup_row_def find_None_iff)
      with None True show ?thesis by (simp add: record_add_def add_count_def lookup Let_def)
    next
      case (Some r)
      with True hit[OF Some] show ?thesis by (auto simp: record_add_def add_count_def lookup Let_def)
    qed
  next
    case False
    then have "lookup_row sc_session sid rows = None" by (auto simp: lookup_row_def find_None_iff)
    with False show ?thesis
      by (cases "lookup_row sc_session s rows") (auto simp: record_add_def add_count_def append Let_def)
  qed
qed

lemma record_add_returns: "fst (record_add sid t rows) = add_count sid (snd (record_add sid t rows))"
  by (simp add: record_add_def add_count_def Let_def)

text \<open>A manifest row that counts as an add of session \<open>sid\<close>.\<close>

definition counts_for :: "string \<Rightarrow> args \<Rightarrow> bool" where
  "counts_for sid row \<longleftrightarrow>
     counted_session (py_str (aget row ''operation'')) (dict_items (aget row ''metadata''))
       (aget row ''memory_result'') = Some sid"

lemma counts_for_item:
  "counts_for sid (audit_item uid c @ tail) \<longleftrightarrow>
     counted_session (ac_operation c) (ac_metadata c) (ac_result c) = Some sid"
  by (simp add: counts_for_def audit_item_def Let_def aget_Cons dict_items_def)

fun audit_all ::
  "(audit_host \<times> string \<times> string \<times> audit_call) list \<Rightarrow> audit_log \<Rightarrow> audit_log" where
  "audit_all [] lg = lg"
| "audit_all ((H, uid, now, c) # cs) lg = audit_all cs (snd (append_live_audit H uid now c lg))"

definition in_step :: "audit_log \<Rightarrow> bool" where
  "in_step lg \<longleftrightarrow>
     (\<forall>sid. add_count sid (counters lg) = length (filter (counts_for sid) (map snd (manifest lg))))"

lemma append_in_step:
  assumes "in_step lg" "counter_up H"
  shows "in_step (snd (append_live_audit H uid now c lg))"
  using assms
  by (auto simp: in_step_def append_live_audit_def Let_def counts_for_item record_session_add_def
      add_count_record_add split: option.splits)

lemma audit_all_in_step:
  "in_step lg \<Longrightarrow> (\<And>H uid now c. (H, uid, now, c) \<in> set cs \<Longrightarrow> counter_up H) \<Longrightarrow> in_step (audit_all cs lg)"
proof (induction cs arbitrary: lg)
  case (Cons x cs)
  obtain H uid now c where x: "x = (H, uid, now, c)" by (cases x)
  have "counter_up H" using Cons.prems(2)[of H uid now c] by (simp add: x)
  with Cons.prems(1) have "in_step (snd (append_live_audit H uid now c lg))"
    by (rule append_in_step)
  moreover have "counter_up H'" if "(H', u', n', c') \<in> set cs" for H' u' n' c'
    using Cons.prems(2)[of H' u' n' c'] that by simp
  ultimately have "in_step (audit_all cs (snd (append_live_audit H uid now c lg)))" by (rule Cons.IH)
  then show ?case by (simp add: x)
qed simp

text \<open>C26: The banner's counters tell what the manifests record. After any sequence of audit calls, whether or
  not the manifest could be written each time, the counter of a session is the number of manifest rows
  that are its own successful, not imported adds.\<close>

theorem counters_match_manifest:
  assumes "\<And>H uid now c. (H, uid, now, c) \<in> set calls \<Longrightarrow> counter_up H"
  shows "add_count sid (counters (audit_all calls \<lparr>manifest = [], counters = []\<rparr>)) =
    length (filter (counts_for sid) (map snd (manifest (audit_all calls \<lparr>manifest = [], counters = []\<rparr>))))"
proof -
  have "in_step \<lparr>manifest = [], counters = []\<rparr>"
    by (simp add: in_step_def add_count_def lookup_row_def)
  from audit_all_in_step[OF this assms] show ?thesis by (auto simp: in_step_def)
qed

definition demo_call :: audit_call where
  "demo_call = \<lparr>ac_operation = ''add'', ac_input = [], ac_metadata = [(''session_id'', PStr ''s'')],
     ac_result = PDict [], ac_started = ''2026-01'', ac_finished = ''2026-01'', ac_duration = 0, ac_scope = []\<rparr>"

definition demo_host :: audit_host where
  "demo_host = \<lparr>payload_sha = (\<lambda>a. ''h''), manifest_up = True, counter_up = True\<rparr>"

theorem counters_match_manifest_witness:
  "add_count ''s'' (counters (audit_all [(demo_host, ''u'', [], demo_call),
       (demo_host\<lparr>manifest_up := False\<rparr>, ''v'', [], demo_call)] \<lparr>manifest = [], counters = []\<rparr>)) =
     length (filter (counts_for ''s'') (map snd (manifest (audit_all [(demo_host, ''u'', [], demo_call),
       (demo_host\<lparr>manifest_up := False\<rparr>, ''v'', [], demo_call)] \<lparr>manifest = [], counters = []\<rparr>))))"
  by (rule counters_match_manifest) (auto simp: demo_host_def)

subsection \<open>Nothing escapes the audit\<close>

text \<open>C40: An audited mutation leaves exactly one row, in the file of the month it finished, whether the block
  ended normally or raised: with the result the block recorded, or with the text of the error when it
  recorded none. An error of the block always reaches the caller, whatever happens to the manifest,
  and the manifest's own failure is raised exactly when there is no other.\<close>

theorem audited_records:
  assumes "block span0 w = ((failure, sp), w')"
    and "audited H str uid started finished ms operation span0 block (w, lg) = (r, w'', lg')"
  shows "w'' = w' \<and>
    (\<forall>e. failure = Some e \<longrightarrow> r = Inl (BlockError e)) \<and>
    (failure = None \<longrightarrow> r = (if manifest_up H then Inr sp else Inl (AuditError ManifestFailed))) \<and>
    (if manifest_up H
     then \<exists>row. manifest lg' = manifest lg @ [(live_manifest_path finished finished, row)] \<and>
       aget row ''operation'' = PStr operation \<and> aget row ''input'' = PDict (sp_input sp) \<and>
       aget row ''memory_result'' = (case failure of
          Some e \<Rightarrow> (if sp_result sp = PNone then PDict [(''error'', PStr (str e))] else sp_result sp)
        | None \<Rightarrow> sp_result sp)
     else lg' = lg)"
  using assms
  by (cases failure)
    (auto simp: audited_def append_live_audit_def Let_def audit_item_def aget_Cons)

theorem audited_records_witness:
  "\<exists>r w' lg'. audited demo_host (\<lambda>e. e) ''u'' ''2026-01-01'' ''2026-02-01'' 5 ''delete''
       \<lparr>sp_input = [], sp_metadata = [], sp_scope = [], sp_result = PNone\<rparr>
       (\<lambda>sp w. ((Some ''boom'', sp), w + (1 :: nat))) (0, \<lparr>manifest = [], counters = []\<rparr>) = (r, w', lg') \<and>
     w' = 1 \<and> r = Inl (BlockError ''boom'')"
proof -
  let ?sp = "\<lparr>sp_input = [], sp_metadata = [], sp_scope = [], sp_result = PNone\<rparr>"
  obtain r w' lg' where run: "audited demo_host (\<lambda>e. e) ''u'' ''2026-01-01'' ''2026-02-01'' 5 ''delete'' ?sp
       (\<lambda>sp w. ((Some ''boom'', sp), w + (1 :: nat))) (0, \<lparr>manifest = [], counters = []\<rparr>) = (r, w', lg')"
    by (metis surj_pair)
  show ?thesis
    using audited_records[OF _ run, of "Some ''boom''" ?sp 1] run by simp
qed

end
