(* ===== verification/Rw_Gate.thy ===== *)
theory Rw_Gate
  imports Memline_Prelude
begin

text \<open>
  The shared/exclusive gate over the store, \<^verbatim>\<open>_RWGate\<close> of \<^verbatim>\<open>src/src/memline/daemon.py\<close>. The state is the
  gate's two fields and where each thread stands. Each \<^verbatim>\<open>with self._cond\<close> block runs under the condition's
  lock, and \<^verbatim>\<open>wait\<close> gives the lock up only after the test has failed, so one pass through the loop's test is
  one atomic step: a thread that wants the gate either gets it or goes to sleep. \<^verbatim>\<open>notify_all\<close> turns every
  sleeper into a thread that wants the gate again.
\<close>

datatype side = Shared | Exclusive

datatype position = Outside | Wants side | Sleeps side | Inside side

record 't gate =
  g_shared :: int
  g_exclusive :: bool
  g_at :: "'t \<Rightarrow> position"

definition new_gate :: "'t gate" where
  "new_gate = \<lparr>g_shared = 0, g_exclusive = False, g_at = (\<lambda>t. Outside)\<rparr>"

definition move :: "'t \<Rightarrow> position \<Rightarrow> 't gate \<Rightarrow> 't gate" where
  "move t p g = g\<lparr>g_at := (g_at g)(t := p)\<rparr>"

definition wake :: "position \<Rightarrow> position" where
  "wake p = (case p of Sleeps s \<Rightarrow> Wants s | _ \<Rightarrow> p)"

definition notify_all :: "'t gate \<Rightarrow> 't gate" where
  "notify_all g = g\<lparr>g_at := wake \<circ> g_at g\<rparr>"

definition acquire_shared :: "'t \<Rightarrow> 't gate \<Rightarrow> 't gate" where
  "acquire_shared t g =
     (if g_exclusive g then move t (Sleeps Shared) g
      else move t (Inside Shared) (g\<lparr>g_shared := g_shared g + 1\<rparr>))"

definition release_shared :: "'t \<Rightarrow> 't gate \<Rightarrow> 't gate" where
  "release_shared t g =
     (let g' = move t Outside (g\<lparr>g_shared := g_shared g - 1\<rparr>)
      in if g_shared g' = 0 then notify_all g' else g')"

definition acquire_exclusive :: "'t \<Rightarrow> 't gate \<Rightarrow> 't gate" where
  "acquire_exclusive t g =
     (if g_exclusive g \<or> g_shared g \<noteq> 0 then move t (Sleeps Exclusive) g
      else move t (Inside Exclusive) (g\<lparr>g_exclusive := True\<rparr>))"

definition release_exclusive :: "'t \<Rightarrow> 't gate \<Rightarrow> 't gate" where
  "release_exclusive t g = notify_all (move t Outside (g\<lparr>g_exclusive := False\<rparr>))"

fun acquire :: "side \<Rightarrow> 't \<Rightarrow> 't gate \<Rightarrow> 't gate" where
  "acquire Shared = acquire_shared"
| "acquire Exclusive = acquire_exclusive"

fun release :: "side \<Rightarrow> 't \<Rightarrow> 't gate \<Rightarrow> 't gate" where
  "release Shared = release_shared"
| "release Exclusive = release_exclusive"

text \<open>
  A step of the daemon's threads: a thread asks for a side, a thread that wants the gate passes the test
  once, a thread inside leaves. \<open>serves\<close> are the steps that bring in no new request.
\<close>

inductive serves :: "'t gate \<Rightarrow> 't gate \<Rightarrow> bool" where
  test: "g_at g t = Wants s \<Longrightarrow> serves g (acquire s t g)"
| leave: "g_at g t = Inside s \<Longrightarrow> serves g (release s t g)"

inductive gate_step :: "'t gate \<Rightarrow> 't gate \<Rightarrow> bool" where
  ask: "g_at g t = Outside \<Longrightarrow> gate_step g (move t (Wants s) g)"
| serve: "serves g g' \<Longrightarrow> gate_step g g'"

inductive_cases serves_cases: "serves g g'"
inductive_cases gate_step_cases: "gate_step g g'"

definition busy :: "'t gate \<Rightarrow> 't set" where
  "busy g = {t. g_at g t \<noteq> Outside}"

definition inside :: "side \<Rightarrow> 't gate \<Rightarrow> 't set" where
  "inside s g = {t. g_at g t = Inside s}"

text \<open>
  The gate's fields count who is inside; the two sides exclude each other; and a thread sleeps only
  while the test it failed would fail again, so no notification is lost.
\<close>

definition gate_ok :: "'t gate \<Rightarrow> bool" where
  "gate_ok g \<longleftrightarrow>
     finite (busy g) \<and> g_shared g = int (card (inside Shared g)) \<and>
     (if g_exclusive g then (\<exists>t. inside Exclusive g = {t}) \<and> g_shared g = 0 else inside Exclusive g = {}) \<and>
     (\<forall>t. g_at g t = Sleeps Shared \<longrightarrow> g_exclusive g) \<and>
     (\<forall>t. g_at g t = Sleeps Exclusive \<longrightarrow> g_exclusive g \<or> g_shared g \<noteq> 0)"

lemma gate_ok_new: "gate_ok new_gate"
  by (simp add: gate_ok_def new_gate_def busy_def inside_def)

lemma move_simps [simp]:
  "g_shared (move t p g) = g_shared g" "g_exclusive (move t p g) = g_exclusive g"
  "g_at (move t p g) = (g_at g)(t := p)"
  by (simp_all add: move_def)

lemma notify_simps [simp]:
  "g_shared (notify_all g) = g_shared g" "g_exclusive (notify_all g) = g_exclusive g"
  "g_at (notify_all g) t = wake (g_at g t)"
  by (simp_all add: notify_all_def)

lemma wake_iff [simp]:
  "wake p = Inside s \<longleftrightarrow> p = Inside s" "wake p = Outside \<longleftrightarrow> p = Outside" "wake p \<noteq> Sleeps s"
  by (cases p; simp add: wake_def)+

lemma inside_move:
  "inside s (move t p g) = (if p = Inside s then insert t (inside s g) else inside s g - {t})"
  by (auto simp: inside_def)

lemma inside_notify [simp]: "inside s (notify_all g) = inside s g"
  by (simp add: inside_def)

lemma inside_fields [simp]:
  "inside s (g\<lparr>g_shared := n\<rparr>) = inside s g" "inside s (g\<lparr>g_exclusive := b\<rparr>) = inside s g"
  by (simp_all add: inside_def)

lemma busy_move: "busy (move t p g) = (if p = Outside then busy g - {t} else insert t (busy g))"
  by (auto simp: busy_def)

lemma busy_other [simp]:
  "busy (notify_all g) = busy g" "busy (g\<lparr>g_shared := n\<rparr>) = busy g" "busy (g\<lparr>g_exclusive := b\<rparr>) = busy g"
  by (simp_all add: busy_def)

lemma inside_busy: "inside s g \<subseteq> busy g"
  by (auto simp: inside_def busy_def)

lemma in_inside: "t \<in> inside s g \<longleftrightarrow> g_at g t = Inside s"
  by (simp add: inside_def)

lemma finite_inside: "gate_ok g \<Longrightarrow> finite (inside s g)"
  using finite_subset[OF inside_busy] by (auto simp: gate_ok_def)

lemma ask_ok: "gate_ok g \<Longrightarrow> g_at g t = Outside \<Longrightarrow> gate_ok (move t (Wants s) g)"
  by (auto simp: gate_ok_def inside_move busy_move in_inside split: if_splits)

lemma acquire_ok:
  assumes "gate_ok g" "g_at g t = Wants s"
  shows "gate_ok (acquire s t g)"
proof -
  have out: "t \<notin> inside x g" for x using assms(2) by (simp add: in_inside)
  note fin = finite_inside[OF assms(1), of Shared]
  show ?thesis
  proof (cases s)
    case Shared
    then show ?thesis
      using assms out fin
      by (auto simp: gate_ok_def acquire_shared_def inside_move busy_move split: if_splits)
  next
    case Exclusive
    then show ?thesis
      using assms out fin
      by (auto simp: gate_ok_def acquire_exclusive_def inside_move busy_move split: if_splits)
  qed
qed

lemma release_ok:
  assumes "gate_ok g" "g_at g t = Inside s"
  shows "gate_ok (release s t g)"
proof -
  have t: "t \<in> inside s g" using assms(2) by (simp add: in_inside)
  note fin = finite_inside[OF assms(1), of Shared]
  have pos: "0 < card (inside Shared g)" if "s = Shared"
    using t that fin by (auto simp: card_gt_0_iff)
  show ?thesis
  proof (cases s)
    case Shared
    moreover have "\<not> g_exclusive g" using assms(1) pos[OF Shared] by (auto simp: gate_ok_def)
    moreover have "t \<notin> inside Exclusive g" using assms(2) Shared by (simp add: in_inside)
    ultimately show ?thesis
      using assms t fin pos
      by (auto simp: gate_ok_def release_shared_def inside_move busy_move Let_def split: if_splits)
  next
    case Exclusive
    moreover have "t \<notin> inside Shared g" using assms(2) Exclusive by (simp add: in_inside)
    moreover have "inside Exclusive g = {t}" "g_exclusive g" "g_shared g = 0"
      using assms(1) t Exclusive by (auto simp: gate_ok_def split: if_splits)
    ultimately show ?thesis
      using assms by (auto simp: gate_ok_def release_exclusive_def inside_move busy_move)
  qed
qed

lemma serves_ok: "serves g g' \<Longrightarrow> gate_ok g \<Longrightarrow> gate_ok g'"
  by (induction rule: serves.induct) (auto intro: acquire_ok release_ok)

lemma gate_step_ok: "gate_step g g' \<Longrightarrow> gate_ok g \<Longrightarrow> gate_ok g'"
  by (induction rule: gate_step.induct) (auto intro: ask_ok serves_ok)

lemma reachable_ok: "gate_step\<^sup>*\<^sup>* new_gate g \<Longrightarrow> gate_ok g"
  by (induction rule: rtranclp_induct) (auto intro: gate_ok_new gate_step_ok)

text \<open>C11: The two sides exclude each other. In every reachable state of any number of threads, a thread on
  the exclusive side is alone inside, and the gate's fields say exactly who is there.\<close>

theorem gate_excludes:
  assumes "gate_step\<^sup>*\<^sup>* new_gate g"
  shows "g_shared g = int (card (inside Shared g)) \<and>
    (g_at g t = Inside Exclusive \<and> g_at g u = Inside s \<longrightarrow> u = t) \<and>
    (g_exclusive g \<longleftrightarrow> (\<exists>t. g_at g t = Inside Exclusive))"
proof -
  have ok: "gate_ok g" by (rule reachable_ok[OF assms])
  have "inside Shared g = {}" if "g_exclusive g"
    using ok that finite_inside[OF ok, of Shared] by (auto simp: gate_ok_def)
  moreover have "u = t" if "g_at g t = Inside Exclusive" "g_at g u = Inside Exclusive"
  proof -
    have "t \<in> inside Exclusive g" "u \<in> inside Exclusive g" using that by (simp_all add: in_inside)
    with ok show ?thesis by (auto simp: gate_ok_def split: if_splits)
  qed
  ultimately show ?thesis
    using ok by (cases s) (auto simp: gate_ok_def inside_def split: if_splits)
qed

theorem gate_excludes_witness:
  "\<exists>g. gate_step\<^sup>*\<^sup>* new_gate g \<and> g_at g True = Inside Exclusive \<and> g_shared g = int (card (inside Shared g))"
proof -
  let ?w = "move True (Wants Exclusive) new_gate" and ?g = "acquire Exclusive True (move True (Wants Exclusive) new_gate)"
  have "gate_step new_gate ?w" by (rule gate_step.ask) (simp add: new_gate_def)
  moreover have "gate_step ?w ?g" by (rule gate_step.serve, rule serves.test) simp
  ultimately have "gate_step\<^sup>*\<^sup>* new_gate ?g" by (meson converse_rtranclp_into_rtranclp rtranclp.rtrancl_refl)
  with gate_excludes[OF this] show ?thesis
    by (intro exI[of _ ?g]) (simp add: acquire_exclusive_def new_gate_def)
qed

definition weight :: "position \<Rightarrow> nat" where
  "weight p = (case p of Outside \<Rightarrow> 0 | Wants s \<Rightarrow> 1 | Sleeps s \<Rightarrow> 0 | Inside s \<Rightarrow> 0)"

definition pending :: "'t gate \<Rightarrow> nat" where
  "pending g = (\<Sum>t \<in> busy g. weight (g_at g t))"

lemma busy_acquire: "g_at g t = Wants s \<Longrightarrow> busy (acquire s t g) = busy g"
  by (cases s) (auto simp: acquire_shared_def acquire_exclusive_def busy_def)

lemma busy_release: "busy (release s t g) = busy g - {t}"
  by (cases s) (auto simp: release_shared_def release_exclusive_def Let_def busy_move)

lemma pending_acquire:
  assumes "finite (busy g)" "g_at g t = Wants s"
  shows "pending (acquire s t g) < pending g"
proof -
  have t: "t \<in> busy g" using assms(2) by (simp add: busy_def)
  have at_u: "weight (g_at (acquire s t g) u) = (if u = t then 0 else weight (g_at g u))" for u
    by (cases s) (auto simp: acquire_shared_def acquire_exclusive_def weight_def)
  have "pending (acquire s t g) = (\<Sum>u \<in> busy g - {t}. weight (g_at g u))"
    unfolding pending_def busy_acquire[OF assms(2)] at_u
    using assms(1) t by (subst sum.remove[of _ t]) auto
  moreover have "pending g = weight (g_at g t) + (\<Sum>u \<in> busy g - {t}. weight (g_at g u))"
    unfolding pending_def by (rule sum.remove[OF assms(1) t])
  ultimately show ?thesis using assms(2) by (simp add: weight_def)
qed

definition serve_order :: "('t gate \<times> 't gate) set" where
  "serve_order = inv_image (less_than <*lex*> less_than) (\<lambda>g. (card (busy g), pending g))"

lemma serves_decreases:
  assumes "serves g g'" "gate_ok g"
  shows "(g', g) \<in> serve_order"
  using assms
proof (cases rule: serves.cases)
  case (test t s)
  with assms(2) pending_acquire[of g t s] busy_acquire[of g t s] show ?thesis
    by (simp add: serve_order_def gate_ok_def)
next
  case (leave t s)
  have "t \<in> busy g" using leave by (simp add: busy_def)
  then have "card (busy (release s t g)) < card (busy g)"
    unfolding busy_release using assms(2) by (intro card_Diff1_less) (simp_all add: gate_ok_def)
  with leave show ?thesis by (simp add: serve_order_def)
qed

lemma stuck_all_outside:
  assumes "gate_ok g" "\<nexists>g'. serves g g'"
  shows "g_at g t = Outside"
proof (rule ccontr)
  have none: "g_at g u \<noteq> Wants s" "g_at g u \<noteq> Inside s" for u s
    using assms(2) serves.test[of g u s] serves.leave[of g u s] by auto
  then have empty: "inside s g = {}" for s by (auto simp: inside_def)
  assume "g_at g t \<noteq> Outside"
  with none[of t] obtain s where "g_at g t = Sleeps s" by (cases "g_at g t") auto
  with assms(1) empty show False by (cases s) (auto simp: gate_ok_def split: if_splits)
qed

text \<open>C12: No thread is left waiting. Once no new request comes, every schedule of the threads inside and at the
  gate ends, and it can only end with every thread served and outside: no wakeup is lost.\<close>

theorem gate_drains:
  assumes "gate_step\<^sup>*\<^sup>* new_gate g"
  shows "(\<nexists>f. f 0 = g \<and> (\<forall>i. serves (f i) (f (Suc i)))) \<and>
    (\<forall>g'. serves\<^sup>*\<^sup>* g g' \<longrightarrow> (\<nexists>g''. serves g' g'') \<longrightarrow> g_at g' t = Outside)"
proof
  have wf: "wf (serve_order :: ('a gate \<times> 'a gate) set)" unfolding serve_order_def by (intro wf_inv_image wf_lex_prod wf_less_than)
  have False if "f 0 = g" "\<And>i. serves (f i) (f (Suc i))" for f
  proof -
    have "gate_ok (f i)" for i
      by (induction i) (auto simp: that(1) reachable_ok[OF assms] intro: serves_ok that(2))
    then have "(f (Suc i), f i) \<in> serve_order" for i
      using that(2) by (rule serves_decreases[rotated])
    with wf show False unfolding wf_iff_no_infinite_down_chain by blast
  qed
  then show "\<nexists>f. f 0 = g \<and> (\<forall>i. serves (f i) (f (Suc i)))" by blast
next
  have "gate_ok g'" if "serves\<^sup>*\<^sup>* g g'" for g'
    using that by (induction rule: rtranclp_induct) (auto simp: reachable_ok[OF assms] intro: serves_ok)
  then show "\<forall>g'. serves\<^sup>*\<^sup>* g g' \<longrightarrow> (\<nexists>g''. serves g' g'') \<longrightarrow> g_at g' t = Outside"
    by (metis stuck_all_outside)
qed

theorem gate_drains_witness:
  "\<exists>g g'. gate_step\<^sup>*\<^sup>* new_gate g \<and> g \<noteq> new_gate \<and> serves\<^sup>*\<^sup>* g g' \<and> g_at g' True = Outside"
proof -
  let ?w = "move True (Wants Exclusive) new_gate" and ?g = "acquire Exclusive True (move True (Wants Exclusive) new_gate)"
  let ?e = "release Exclusive True ?g"
  have ask: "gate_step new_gate ?w" by (rule gate_step.ask) (simp add: new_gate_def)
  have "serves ?w ?g" by (rule serves.test) simp
  moreover have "serves ?g ?e" by (rule serves.leave) (simp add: acquire_exclusive_def new_gate_def)
  ultimately have run: "serves\<^sup>*\<^sup>* ?w ?e" by (meson converse_rtranclp_into_rtranclp rtranclp.rtrancl_refl)
  have at_e: "g_at ?e t = Outside" for t
    by (simp add: acquire_exclusive_def release_exclusive_def new_gate_def)
  then have stuck: "\<nexists>g''. serves ?e g''" by (auto elim!: serves.cases)
  have start: "gate_step\<^sup>*\<^sup>* new_gate ?w" using ask by blast
  from gate_drains[OF start, of True] run stuck have "g_at ?e True = Outside" by blast
  moreover have "?w \<noteq> new_gate" by (auto simp: move_def new_gate_def fun_eq_iff dest!: arg_cong[of _ _ g_at])
  ultimately show ?thesis using start run by blast
qed

end
