(* ===== verification/Daemon.thy ===== *)
theory Daemon
  imports Ops Bridge_Queue Manifest_Log Rw_Gate
begin

text \<open>
  The request handling and the worker loops of the daemon, \<^verbatim>\<open>src/src/memline/daemon.py\<close>. The state of the
  process is the memory store with its side tables, the event queue, the manifests, and the log of what the
  process does with its two locks: \<open>Enter s\<close> and \<open>Leave s\<close> for a side of the gate (theory \<open>Rw_Gate\<close>),
  \<open>SlotTaken\<close> and \<open>SlotFreed\<close> for the semaphore of model calls. Sockets, signals, threads and the sampling of
  processes are not modelled. What the program reads of the machine is the record \<open>host\<close>: how exceptions
  and results become text and JSON, the judge of the \<^verbatim>\<open>judge\<close> job (\<open>None\<close> when its endpoint cannot be built),
  the process id. The clock readings of one request or one queue item are the record \<open>moment\<close>.
\<close>

subsection \<open>State\<close>

datatype sync_event = Enter side | Leave side | SlotTaken | SlotFreed

record 'q daemon =
  d_world :: "'q world"
  d_queue :: event_queue
  d_attached :: bool
  d_audit :: audit_log
  d_sync :: "sync_event list"
  d_stopping :: bool

record 'q host =
  h_env :: "'q env"
  h_backend :: "'q backend"
  h_judge :: "'q checker option"
  h_judge_model :: "string option"
  h_audit :: audit_host
  h_pid :: int
  h_socket :: string
  h_error :: "stale_error \<Rightarrow> string"
  h_value :: "op_result \<Rightarrow> pyval"
  h_queue_value :: "queue_result \<Rightarrow> pyval"
  h_check_value :: "check_result \<Rightarrow> pyval"
  h_traceback :: string

record moment =
  mo_clock :: "nat \<Rightarrow> time"
  mo_start :: time
  mo_finish :: time
  mo_settle :: time
  mo_uid :: string
  mo_ms :: int

definition note_sync :: "sync_event \<Rightarrow> 'q daemon \<Rightarrow> 'q daemon" where
  "note_sync s d = d\<lparr>d_sync := d_sync d @ [s]\<rparr>"

text \<open>The \<^verbatim>\<open>try ... finally\<close> around the gate, with the semaphore inside when the call is bound to a model.\<close>

definition under_gate ::
  "side \<Rightarrow> bool \<Rightarrow> ('q world \<Rightarrow> 'r \<times> 'q world) \<Rightarrow> 'q daemon \<Rightarrow> 'r \<times> 'q daemon" where
  "under_gate sd slot body d =
     (let d1 = note_sync (Enter sd) d;
          d2 = (if slot then note_sync SlotTaken d1 else d1);
          (r, w') = body (d_world d2);
          d3 = d2\<lparr>d_world := w'\<rparr>;
          d4 = (if slot then note_sync SlotFreed d3 else d3)
      in (r, note_sync (Leave sd) d4))"

subsection \<open>Requests\<close>

datatype reply =
    Pong int string
  | Stopping int
  | QueuedAs string
  | FromQueue queue_result
  | FromOp op_result

datatype request_error =
    NoEventQueue
  | EnqueueFailed sql_error
  | BadRequest
  | OpError stale_error

text \<open>\<^verbatim>\<open>request.get("args") or {}\<close>; anything but an object makes the first lookup in it raise.\<close>

definition request_args :: "args \<Rightarrow> request_error + args" where
  "request_args req =
     (case aget req ''args'' of
        PDict kvs \<Rightarrow> Inr kvs
      | v \<Rightarrow> if truthy v then Inl BadRequest else Inr [])"

text \<open>The operation's name; a JSON value that is no text is no key of the registries.\<close>

definition request_op :: "args \<Rightarrow> string" where
  "request_op req = (case aget req ''op'' of PStr s \<Rightarrow> s | v \<Rightarrow> py_repr v)"

definition handle_request ::
  "'q host \<Rightarrow> moment \<Rightarrow> args \<Rightarrow> 'q daemon \<Rightarrow> (request_error + reply) \<times> 'q daemon" where
  "handle_request H m req d =
     (let op = request_op req in
      if op = ''ping'' then (Inr (Pong (h_pid H) (h_socket H)), d)
      else if op = ''daemon_stop'' then (Inr (Stopping (h_pid H)), d\<lparr>d_stopping := True\<rparr>)
      else case request_args req of
        Inl e \<Rightarrow> (Inl e, d)
      | Inr args \<Rightarrow>
          if op = ''add'' \<and> truthy (aget args ''async'') then
            (if \<not> d_attached d then (Inl NoEventQueue, d)
             else case enqueue (mo_uid m) ''add'' (apop ''async'' args) (mo_start m) (d_queue d) of
               (Inl e, q) \<Rightarrow> (Inl (EnqueueFailed e), d\<lparr>d_queue := q\<rparr>)
             | (Inr eid, q) \<Rightarrow> (Inr (QueuedAs eid), d\<lparr>d_queue := q\<rparr>))
          else if map_of QUEUE_OPS op \<noteq> None then
            (case dispatch_queue (mo_start m) op args (d_queue d) of
               (Inl e, q) \<Rightarrow> (Inl (OpError e), d\<lparr>d_queue := q\<rparr>)
             | (Inr r, q) \<Rightarrow> (Inr (FromQueue r), d\<lparr>d_queue := q\<rparr>))
          else
            (case under_gate (if is_exclusive op args then Exclusive else Shared) (is_llm_bound op args)
                    (dispatch (h_env H) (h_backend H) (mo_clock m) op args) d of
               (r, d') \<Rightarrow> (map_sum OpError FromOp r, d')))"

text \<open>The object that goes back over the socket or into the mailbox.\<close>

definition reply_value :: "'q host \<Rightarrow> reply \<Rightarrow> pyval" where
  "reply_value H r =
     (case r of
        Pong pid sock \<Rightarrow> PDict [(''pid'', PInt pid), (''socket'', PStr sock)]
      | Stopping pid \<Rightarrow> PDict [(''pid'', PInt pid), (''stopping'', PBool True)]
      | QueuedAs eid \<Rightarrow> PDict [(''event_id'', PStr eid), (''status'', PStr ''queued'')]
      | FromQueue v \<Rightarrow> h_queue_value H v
      | FromOp v \<Rightarrow> h_value H v)"

definition error_text :: "'q host \<Rightarrow> request_error \<Rightarrow> string" where
  "error_text H e =
     (case e of
        NoEventQueue \<Rightarrow> ''event queue unavailable; use --wait for the synchronous path''
      | EnqueueFailed IntegrityError \<Rightarrow> ''UNIQUE constraint failed: events.id''
      | BadRequest \<Rightarrow> ''bad request''
      | OpError s \<Rightarrow> h_error H s)"

definition respond :: "'q host \<Rightarrow> request_error + reply \<Rightarrow> args" where
  "respond H r =
     (case r of
        Inr v \<Rightarrow> [(''status'', PStr ''ok''), (''result'', reply_value H v)]
      | Inl e \<Rightarrow> [(''status'', PStr ''error''), (''error'', PStr (error_text H e)),
                  (''traceback'', PStr (h_traceback H))])"

subsection \<open>Framing\<close>

text \<open>
  One JSON object per line. \<open>chunks\<close> are what successive calls of \<^verbatim>\<open>recv\<close> deliver; an empty one, like the end
  of the list, is the end of the stream.
\<close>

definition newline :: char where "newline = CHR 0x0A"

fun receive :: "string list \<Rightarrow> string" where
  "receive [] = []"
| "receive (chunk # chunks) =
     (if chunk = [] then [] else if newline \<in> set chunk then chunk else chunk @ receive chunks)"

datatype 'e read_error = EmptyRequest | BadJson 'e

definition read_json_line :: "(string \<Rightarrow> 'e + 'v) \<Rightarrow> string list \<Rightarrow> 'e read_error + 'v" where
  "read_json_line loads chunks =
     (let raw = takeWhile (\<lambda>c. c \<noteq> newline) (receive chunks)
      in if raw = [] then Inl EmptyRequest else map_sum BadJson id (loads raw))"

text \<open>\<^verbatim>\<open>write_json_line\<close>: the bytes handed to the socket.\<close>

definition write_json_line :: "('v \<Rightarrow> string) \<Rightarrow> 'v \<Rightarrow> string" where
  "write_json_line dumps v = dumps v @ [newline]"

definition serve_connection ::
  "'q host \<Rightarrow> moment \<Rightarrow> (string \<Rightarrow> string + args) \<Rightarrow> (args \<Rightarrow> string) \<Rightarrow> string list \<Rightarrow> 'q daemon
     \<Rightarrow> string \<times> 'q daemon" where
  "serve_connection H m loads dumps chunks d =
     (case read_json_line loads chunks of
        Inl e \<Rightarrow>
          (write_json_line dumps
             [(''status'', PStr ''error''),
              (''error'', PStr (case e of EmptyRequest \<Rightarrow> ''empty request'' | BadJson t \<Rightarrow> t)),
              (''traceback'', PStr (h_traceback H))], d)
      | Inr req \<Rightarrow>
          (case handle_request H m req d of (r, d') \<Rightarrow> (write_json_line dumps (respond H r), d')))"

subsection \<open>Queue workers\<close>

definition event_audit :: "claim \<Rightarrow> moment \<Rightarrow> pyval \<Rightarrow> audit_call" where
  "event_audit c m result =
     (let a = cl_args c in
      \<lparr>ac_operation = ''add'',
       ac_input = [(''content'', aget a ''content''),
                   (''infer'', case map_of a ''infer'' of None \<Rightarrow> PBool True | Some v \<Rightarrow> v),
                   (''event_id'', PStr (cl_id c)), (''attempts'', PInt (int (cl_attempts c)))],
       ac_metadata = dict_items (aget a ''metadata''), ac_result = result,
       ac_started = iso_text (mo_start m), ac_finished = iso_text (mo_finish m), ac_duration = mo_ms m,
       ac_scope = filter (\<lambda>kv. truthy (snd kv))
         [(''user_id'', aget a ''user_id''), (''agent_id'', aget a ''agent_id''), (''run_id'', aget a ''run_id'')]\<rparr>)"

text \<open>What becomes of the event: \<open>settle\<close> is \<^verbatim>\<open>complete\<close> or \<^verbatim>\<open>fail\<close> and the alert refresh, and tells whether the
  outcome is terminal.\<close>

definition settle :: "claim \<Rightarrow> string + pyval \<Rightarrow> time \<Rightarrow> event_queue \<Rightarrow> bool \<times> event_queue" where
  "settle c outcome t q =
     (case outcome of
        Inr v \<Rightarrow> (True, refresh_alerts (complete (cl_id c) v t q))
      | Inl e \<Rightarrow> (case fail (cl_id c) e (cl_attempts c) t q of (terminal, q') \<Rightarrow> (terminal, refresh_alerts q')))"

definition STALE_CHECK_TOP_K :: nat where "STALE_CHECK_TOP_K = 10"

definition stale_check_body ::
  "'q host \<Rightarrow> 'q checker \<Rightarrow> moment \<Rightarrow> args \<Rightarrow> 'q world \<Rightarrow> (stale_error + check_result) \<times> 'q world" where
  "stale_check_body H C m a =
     given (required_str a ''new_id'') (\<lambda>new_id.
       run_stale_check (h_env H) (C\<lparr>ck_session := optional_str a ''session_id'', ck_model := h_judge_model H\<rparr>)
         new_id STALE_CHECK_TOP_K (truthy (aget a ''self_only'')) (iso_text (mo_start m)))"

text \<open>The result tells whether the worker thread survives: the judge's endpoint is built outside the \<^verbatim>\<open>try\<close>.\<close>

definition process_stale_check :: "'q host \<Rightarrow> moment \<Rightarrow> claim \<Rightarrow> 'q daemon \<Rightarrow> bool \<times> 'q daemon" where
  "process_stale_check H m c d =
     (case h_judge H of
        None \<Rightarrow> (False, d)
      | Some C \<Rightarrow>
          (case under_gate Shared True (stale_check_body H C m (cl_args c)) d of (r, d1) \<Rightarrow>
            (True, d1\<lparr>d_queue := snd (settle c (map_sum (h_error H) (h_check_value H) r) (mo_settle m) (d_queue d1))\<rparr>)))"

definition process_event :: "'q host \<Rightarrow> moment \<Rightarrow> claim \<Rightarrow> 'q daemon \<Rightarrow> bool \<times> 'q daemon" where
  "process_event H m c d =
     (if cl_op c = ''stale_check'' then process_stale_check H m c d
      else case under_gate Shared (flag (cl_args c) ''infer'' True)
             (dispatch (h_env H) (h_backend H) (mo_clock m) ''add'' (cl_args c)) d of (r, d1) \<Rightarrow>
        (case settle c (map_sum (h_error H) (h_value H) r) (mo_settle m) (d_queue d1) of (terminal, q) \<Rightarrow>
          let d2 = d1\<lparr>d_queue := q\<rparr>;
              result = (case r of Inl e \<Rightarrow> PDict [(''error'', PStr (h_error H e))] | Inr v \<Rightarrow> h_value H v)
          in (True, if is_ok r \<or> terminal
                    then d2\<lparr>d_audit := snd (append_live_audit (h_audit H) (mo_uid m) (iso_text (mo_finish m))
                              (event_audit c m result) (d_audit d2))\<rparr>
                    else d2)))"

text \<open>One turn of \<^verbatim>\<open>_worker_loop\<close>; an empty queue makes it wait.\<close>

definition worker_turn :: "'q host \<Rightarrow> time \<times> moment \<Rightarrow> 'q daemon \<Rightarrow> bool \<times> 'q daemon" where
  "worker_turn H tm d =
     (case claim_next (fst tm) (d_queue d) of
        (None, q) \<Rightarrow> (True, d\<lparr>d_queue := q\<rparr>)
      | (Some c, q) \<Rightarrow> process_event H (snd tm) c (d\<lparr>d_queue := q\<rparr>))"

subsection \<open>The other threads\<close>

text \<open>One round of the TTL harvest; its errors are printed and forgotten.\<close>

definition harvest_turn :: "'q host \<Rightarrow> string \<Rightarrow> string \<Rightarrow> nat \<Rightarrow> stamps \<Rightarrow> 'q daemon \<Rightarrow> 'q daemon" where
  "harvest_turn H user now limit st d = snd (under_gate Shared False (harvest_expired (h_env H) user now limit st) d)"

definition process_bridge_request ::
  "'q host \<Rightarrow> moment \<Rightarrow> string \<times> args \<Rightarrow> 'q daemon \<times> bridge \<Rightarrow> 'q daemon \<times> bridge" where
  "process_bridge_request H m item s =
     (case s of (d, b) \<Rightarrow>
      case handle_request H m (snd item) d of (r, d') \<Rightarrow>
        (d', br_complete (fst item) (respond H r) (mo_settle m) b))"

definition bridge_turn ::
  "'q host \<Rightarrow> time \<times> moment \<Rightarrow> 'q daemon \<times> bridge \<Rightarrow> 'q daemon \<times> bridge" where
  "bridge_turn H tm s =
     (case s of (d, b) \<Rightarrow>
      case br_claim_next (\<lambda>b. b) (fst tm) b of
        (None, b') \<Rightarrow> (d, b')
      | (Some item, b') \<Rightarrow> process_bridge_request H (snd tm) item (d, b'))"

text \<open>One round of \<^verbatim>\<open>_bridge_heartbeat_loop\<close>; it goes on while this daemon owns the mailbox.\<close>

fun heartbeat_loop :: "string \<Rightarrow> time list \<Rightarrow> bridge \<Rightarrow> bridge" where
  "heartbeat_loop daemon_id [] b = b"
| "heartbeat_loop daemon_id (t # ts) b =
     (case heartbeat daemon_id t b of (True, b') \<Rightarrow> heartbeat_loop daemon_id ts b' | (False, b') \<Rightarrow> b')"

text \<open>What \<^verbatim>\<open>serve\<close> does to the stores before the workers run, and after they have drained.\<close>

definition serve_startup ::
  "'q host \<Rightarrow> string \<Rightarrow> (nat \<Rightarrow> time) \<Rightarrow> 'q daemon \<times> bridge \<Rightarrow> 'q daemon \<times> bridge" where
  "serve_startup H daemon_id T s =
     (case s of (d, b) \<Rightarrow>
      let q = refresh_alerts (snd (purge RETENTION_DAYS (T 1) (snd (recover_stale (T 0) (d_queue d)))));
          b' = mark_ready daemon_id (h_pid H) (T 4) (snd (br_purge RETENTION_HOURS (T 3) (snd (br_recover_stale (T 2) b))))
      in (d\<lparr>d_queue := q, d_attached := True, d_stopping := False\<rparr>, b'))"

definition serve_shutdown :: "string \<Rightarrow> time \<Rightarrow> 'q daemon \<times> bridge \<Rightarrow> 'q daemon \<times> bridge" where
  "serve_shutdown daemon_id t s = (fst s, mark_stopped daemon_id t (snd s))"

subsection \<open>Framing survives the transport\<close>

lemma receive_line:
  "concat chunks = line @ newline # rest \<Longrightarrow> newline \<notin> set line \<Longrightarrow> [] \<notin> set chunks \<Longrightarrow>
   takeWhile (\<lambda>c. c \<noteq> newline) (receive chunks) = line"
proof (induction chunks arbitrary: line)
  case (Cons c cs)
  show ?case
  proof (cases "newline \<in> set c")
    case True
    then have "takeWhile (\<lambda>x. x \<noteq> newline) (receive (c # cs)) = takeWhile (\<lambda>x. x \<noteq> newline) (concat (c # cs))"
      using Cons.prems(3) by (auto simp: takeWhile_append)
    also have "\<dots> = line" unfolding Cons.prems(1) using Cons.prems(2) by (simp add: takeWhile_append)
    finally show ?thesis .
  next
    case False
    with Cons.prems(1) obtain us where us: "line = c @ us" "concat cs = us @ newline # rest"
      by (auto simp: append_eq_append_conv2 append_eq_Cons_conv)
    with Cons.prems Cons.IH[of us] False show ?thesis by (auto simp: takeWhile_append)
  qed
qed simp

text \<open>Requests and responses survive the stream. However the transport cuts the written line into pieces,
  and whatever follows it, the reader gets the object back, for any encoder whose texts are not
  empty and have no raw newline and any decoder that inverts it.\<close>

theorem frame_roundtrip:
  assumes "loads (dumps v) = Inr v" "dumps v \<noteq> []" "newline \<notin> set (dumps v)"
    and "concat chunks = write_json_line dumps v @ rest" "[] \<notin> set chunks"
  shows "read_json_line loads chunks = Inr v"
proof -
  have "takeWhile (\<lambda>c. c \<noteq> newline) (receive chunks) = dumps v"
    using assms by (intro receive_line[where rest = rest]) (simp_all add: write_json_line_def)
  with assms(1,2) show ?thesis by (simp add: read_json_line_def)
qed

theorem frame_roundtrip_witness:
  "read_json_line (\<lambda>s. Inr (length s) :: string + nat) [''{'', ''{'' @ [newline, CHR ''x'']] = Inr 2"
proof (rule frame_roundtrip[where dumps = "\<lambda>n. replicate n CHR ''{''" and rest = "''x''"])
  show "concat [''{'', ''{'' @ [newline, CHR ''x'']] =
      write_json_line (\<lambda>n. replicate n CHR ''{'') 2 @ ''x''"
    by (simp add: write_json_line_def numeral_2_eq_2)
qed (simp_all add: newline_def)

subsection \<open>Who holds the gate\<close>

definition sync_trace :: "side \<Rightarrow> bool \<Rightarrow> sync_event list" where
  "sync_trace sd slot = Enter sd # (if slot then [SlotTaken, SlotFreed] else []) @ [Leave sd]"

lemma under_gate_eq:
  "under_gate sd slot body d = (fst (body (d_world d)),
     d\<lparr>d_world := snd (body (d_world d)), d_sync := d_sync d @ sync_trace sd slot\<rparr>)"
  by (simp add: under_gate_def note_sync_def sync_trace_def Let_def split: prod.splits)

lemma OPS_exclusive: "is_exclusive op a \<longleftrightarrow> op = ''delete'' \<and> truthy (aget a ''all'')"
  by (auto simp: is_exclusive_def OPS_def quick_def split: if_splits)

text \<open>A request never touches the store outside the gate, and never keeps what it took. Whatever the request
  and however its operation ends, the process has entered and left the gate at most once, the model
  slot taken inside is freed inside; when the gate was not entered the store is unchanged; and the exclusive
  side is taken by the bulk deletion and by nothing else.\<close>

theorem request_isolated:
  "\<exists>trace. d_sync (snd (handle_request H m req d)) = d_sync d @ trace \<and>
     (trace = [] \<and> d_world (snd (handle_request H m req d)) = d_world d \<or>
      (\<exists>args slot. request_args req = Inr args \<and>
         trace = sync_trace (if request_op req = ''delete'' \<and> truthy (aget args ''all'')
                             then Exclusive else Shared) slot))"
  by (auto simp: handle_request_def under_gate_eq OPS_exclusive Let_def split: sum.splits prod.splits if_splits)

subsection \<open>Workers drain their queue\<close>

text \<open>
  What the two worker loops share: each turn that finds work lowers a count of the work left, and a turn
  that finds none changes nothing of it.
\<close>

locale draining_loop =
  fixes turn :: "'s \<Rightarrow> 'd \<Rightarrow> 'd"
    and left :: "'d \<Rightarrow> nat"
    and good :: "'d \<Rightarrow> bool"
    and grows :: "'d \<Rightarrow> 'd \<Rightarrow> bool"
  assumes keeps: "good d \<Longrightarrow> good (turn s d)"
    and works: "good d \<Longrightarrow> 0 < left d \<Longrightarrow> left (turn s d) < left d"
    and rests: "good d \<Longrightarrow> left d = 0 \<Longrightarrow> left (turn s d) = 0"
    and grows_refl: "grows d d"
    and grows_trans: "grows a b \<Longrightarrow> grows b c \<Longrightarrow> grows a c"
    and grows_turn: "good d \<Longrightarrow> grows d (turn s d)"
begin

lemma drained: "good d \<Longrightarrow> left d \<le> length ss \<Longrightarrow> left (fold turn ss d) = 0"
proof (induction ss arbitrary: d)
  case (Cons s ss)
  have "left (turn s d) \<le> length ss"
    using works[OF Cons.prems(1), of s] rests[OF Cons.prems(1), of s] Cons.prems(2) by (cases "left d") auto
  with Cons.IH[OF keeps[OF Cons.prems(1)]] show ?case by simp
qed simp

lemma grown: "good d \<Longrightarrow> grows d (fold turn ss d)"
proof (induction ss arbitrary: d)
  case (Cons s ss)
  from grows_trans[OF grows_turn[OF Cons.prems] Cons.IH[OF keeps[OF Cons.prems]]] show ?case by simp
qed (simp add: grows_refl)

end

lemma sum_upd_less:
  fixes w :: "'r \<Rightarrow> nat"
  assumes "\<And>r. r \<in> set rows \<Longrightarrow> P r \<Longrightarrow> w (g r) < w r" "\<exists>r \<in> set rows. P r"
  shows "sum_list (map w (upd_where P g rows)) < sum_list (map w rows)"
  using assms
proof (induction rows)
  case (Cons r rows)
  have le: "sum_list (map w (upd_where P g rows)) \<le> sum_list (map w rows)"
    using Cons.IH Cons.prems(1)
    by (cases "\<exists>r \<in> set rows. P r") (force simp: upd_where_def intro: sum_list_mono)+
  show ?case
  proof (cases "P r")
    case True
    with le Cons.prems(1)[of r] show ?thesis by (simp add: upd_where_def)
  next
    case False
    with Cons show ?thesis by (simp add: upd_where_def)
  qed
qed simp

text \<open>Attempts left of the queued events.\<close>

definition event_work :: "event \<Rightarrow> nat" where
  "event_work r = (if ev_status r = Queued then 1 + (MAX_ATTEMPTS - ev_attempts r) else 0)"

definition work_left :: "event_queue \<Rightarrow> nat" where
  "work_left q = sum_list (map event_work (events q))"

definition settled :: "claim \<Rightarrow> string + pyval \<Rightarrow> time \<Rightarrow> event \<Rightarrow> event" where
  "settled c outcome t r =
     (case outcome of
        Inr v \<Rightarrow> r\<lparr>ev_status := Done, ev_result := Some v, ev_error := None, ev_updated := iso_text t\<rparr>
      | Inl e \<Rightarrow> r\<lparr>ev_status := (if MAX_ATTEMPTS \<le> cl_attempts c then Failed else Queued), ev_error := Some e,
                   ev_updated := iso_text t\<rparr>)"

lemma events_settle:
  "events (snd (settle c outcome t q)) = upd_where (\<lambda>r. ev_id r = cl_id c) (settled c outcome t) (events q)"
  by (cases outcome) (auto simp: settle_def complete_def fail_def settled_def[abs_def] refresh_alerts_def Let_def notify_def)

lemma process_event_settles:
  assumes "h_judge H \<noteq> None"
  obtains outcome where "fst (process_event H m c d)"
    "d_queue (snd (process_event H m c d)) = snd (settle c outcome (mo_settle m) (d_queue d))"
proof (cases "cl_op c = ''stale_check''")
  case True
  with assms that show thesis
    by (auto simp: process_event_def process_stale_check_def under_gate_eq split: prod.splits)
next
  case False
  let ?r = "fst (dispatch (h_env H) (h_backend H) (mo_clock m) ''add'' (cl_args c) (d_world d))"
  show thesis
    by (rule that[of "map_sum (h_error H) (h_value H) ?r"])
      (use False in \<open>auto simp: process_event_def under_gate_eq Let_def split: prod.splits\<close>)
qed

text \<open>One turn on a queue with work: a queued event is tried, and every other row is as it was.\<close>

lemma worker_turn_tries:
  assumes "h_judge H \<noteq> None" "\<exists>r \<in> set (events (d_queue d)). ev_status r = Queued"
    "distinct (map ev_id (events (d_queue d)))"
  obtains row c outcome u where "row \<in> set (events (d_queue d))" "ev_status row = Queued"
    "cl_attempts c = ev_attempts row + 1" "fst (worker_turn H tm d)"
    "events (d_queue (snd (worker_turn H tm d))) = upd_where (\<lambda>r. ev_id r = ev_id row)
       (\<lambda>r. settled c outcome (mo_settle (snd tm))
              (r\<lparr>ev_status := Processing, ev_attempts := ev_attempts r + 1, ev_updated := u\<rparr>))
       (events (d_queue d))"
proof -
  obtain c q where cl: "claim_next (fst tm) (d_queue d) = (Some c, q)"
    using assms(2) claim_next_None[of "fst tm" "d_queue d"]
    by (cases "claim_next (fst tm) (d_queue d)"; cases "fst (claim_next (fst tm) (d_queue d))") auto
  obtain row where row: "row \<in> set (events (d_queue d))" "ev_status row = Queued"
    "c = \<lparr>cl_id = ev_id row, cl_op = ev_op row, cl_args = ev_args row, cl_attempts = ev_attempts row + 1\<rparr>"
    "q = (d_queue d)\<lparr>events := upd_where (\<lambda>r. ev_id r = ev_id row)
       (\<lambda>r. r\<lparr>ev_status := Processing, ev_attempts := ev_attempts r + 1,
              ev_updated := iso_text (fst tm)\<rparr>) (events (d_queue d))\<rparr>"
    by (rule claim_next_Some[OF cl])
  obtain outcome where out: "fst (process_event H (snd tm) c (d\<lparr>d_queue := q\<rparr>))"
    "d_queue (snd (process_event H (snd tm) c (d\<lparr>d_queue := q\<rparr>))) = snd (settle c outcome (mo_settle (snd tm)) q)"
    by (rule process_event_settles[OF assms(1), of "snd tm" c "d\<lparr>d_queue := q\<rparr>"]) auto
  have turn: "worker_turn H tm d = process_event H (snd tm) c (d\<lparr>d_queue := q\<rparr>)"
    using cl by (simp add: worker_turn_def)
  have "upd_where (\<lambda>r. ev_id r = cl_id c) (settled c outcome (mo_settle (snd tm))) (events q) =
     upd_where (\<lambda>r. ev_id r = ev_id row)
       (\<lambda>r. settled c outcome (mo_settle (snd tm))
              (r\<lparr>ev_status := Processing, ev_attempts := ev_attempts r + 1, ev_updated := iso_text (fst tm)\<rparr>))
       (events (d_queue d))"
    by (simp add: row(3,4) upd_where_def)
  with row(1,2) out show thesis
    by (intro that[of row c outcome "iso_text (fst tm)"]) (simp_all add: turn events_settle row(3))
qed

lemma worker_turn_idle:
  assumes "\<forall>r \<in> set (events (d_queue d)). ev_status r \<noteq> Queued"
  shows "worker_turn H tm d = (True, d)"
proof -
  have "claim_next (fst tm) (d_queue d) = (None, d_queue d)"
    using assms by (simp add: claim_next_None)
  then show ?thesis by (simp add: worker_turn_def)
qed

lemma work_left_0: "work_left q = 0 \<longleftrightarrow> (\<forall>r \<in> set (events q). ev_status r \<noteq> Queued)"
  by (auto simp: work_left_def event_work_def)

text \<open>A row's history under the workers: an event that is not queued stays as it is, one that is queued keeps
  its identity and is queued still or ended.\<close>

definition advanced :: "event \<Rightarrow> event \<Rightarrow> bool" where
  "advanced r r' \<longleftrightarrow>
     ev_id r' = ev_id r \<and> ev_op r' = ev_op r \<and> ev_args r' = ev_args r \<and>
     (ev_status r \<noteq> Queued \<longrightarrow> r' = r) \<and> (ev_status r = Queued \<longrightarrow> ev_status r' \<noteq> Processing)"

definition rows_advanced :: "event list \<Rightarrow> event list \<Rightarrow> bool" where
  "rows_advanced = list_all2 advanced"

lemma advanced_refl [simp]: "advanced r r"
  by (auto simp: advanced_def)

lemma advanced_trans: "advanced a b \<Longrightarrow> advanced b c \<Longrightarrow> advanced a c"
  by (auto simp: advanced_def)

lemma rows_advanced_refl: "rows_advanced rs rs"
  by (simp add: rows_advanced_def list.rel_refl)

lemma rows_advanced_trans: "rows_advanced a b \<Longrightarrow> rows_advanced b c \<Longrightarrow> rows_advanced a c"
  unfolding rows_advanced_def by (rule list_all2_trans[of advanced advanced]) (rule advanced_trans)

lemma rows_advanced_upd:
  "(\<And>r. r \<in> set rows \<Longrightarrow> P r \<Longrightarrow> advanced r (f r)) \<Longrightarrow> rows_advanced rows (upd_where P f rows)"
  by (auto simp: rows_advanced_def upd_where_def list_all2_conv_all_nth)

lemma rows_advanced_ids: "rows_advanced rs rs' \<Longrightarrow> map ev_id rs' = map ev_id rs"
  by (auto simp: rows_advanced_def advanced_def list_all2_conv_all_nth intro: nth_equalityI)

definition event_loop_good :: "'q host \<times> 'q daemon \<Rightarrow> bool" where
  "event_loop_good s \<longleftrightarrow> h_judge (fst s) \<noteq> None \<and> distinct (map ev_id (events (d_queue (snd s))))"

definition event_loop_turn :: "time \<times> moment \<Rightarrow> 'q host \<times> 'q daemon \<Rightarrow> 'q host \<times> 'q daemon" where
  "event_loop_turn tm s = (fst s, snd (worker_turn (fst s) tm (snd s)))"

lemma worker_turn_facts:
  assumes "event_loop_good (H, d)"
  shows "rows_advanced (events (d_queue d)) (events (d_queue (snd (worker_turn H tm d))))"
    and "0 < work_left (d_queue d) \<Longrightarrow> work_left (d_queue (snd (worker_turn H tm d))) < work_left (d_queue d)"
    and "fst (worker_turn H tm d)"
proof -
  let ?rows = "events (d_queue d)" and ?rows' = "events (d_queue (snd (worker_turn H tm d)))"
  have "rows_advanced ?rows ?rows' \<and> fst (worker_turn H tm d) \<and>
      (0 < work_left (d_queue d) \<longrightarrow> work_left (d_queue (snd (worker_turn H tm d))) < work_left (d_queue d))"
  proof (cases "\<exists>r \<in> set ?rows. ev_status r = Queued")
    case False
    then have "work_left (d_queue d) = 0" by (simp add: work_left_0)
    with False worker_turn_idle[of d H tm] show ?thesis by (simp add: rows_advanced_refl)
  next
    case True
    have dist: "distinct (map ev_id ?rows)" and judge: "h_judge H \<noteq> None"
      using assms by (simp_all add: event_loop_good_def)
    obtain row c outcome u where row: "row \<in> set ?rows" "ev_status row = Queued"
      "cl_attempts c = ev_attempts row + 1" "fst (worker_turn H tm d)"
      "?rows' = upd_where (\<lambda>r. ev_id r = ev_id row)
       (\<lambda>r. settled c outcome (mo_settle (snd tm))
              (r\<lparr>ev_status := Processing, ev_attempts := ev_attempts r + 1, ev_updated := u\<rparr>)) ?rows"
      by (rule worker_turn_tries[OF judge True dist])
    have same: "r = row" if "r \<in> set ?rows" "ev_id r = ev_id row" for r
      using that row(1) dist by (auto simp: distinct_map inj_on_def)
    have "rows_advanced ?rows ?rows'"
      unfolding row(5) using row(2)
      by (intro rows_advanced_upd) (auto dest!: same simp: advanced_def settled_def split: sum.splits)
    moreover have "sum_list (map event_work ?rows') < sum_list (map event_work ?rows)"
      unfolding row(5)
    proof (rule sum_upd_less)
      show "\<exists>r \<in> set ?rows. ev_id r = ev_id row" using row(1) by blast
    qed (use row(2,3) in \<open>auto dest!: same simp: event_work_def settled_def split: sum.splits\<close>)
    ultimately show ?thesis using row(4) by (simp add: work_left_def)
  qed
  then show "rows_advanced ?rows ?rows'" "fst (worker_turn H tm d)"
    "0 < work_left (d_queue d) \<Longrightarrow> work_left (d_queue (snd (worker_turn H tm d))) < work_left (d_queue d)"
    by auto
qed

interpretation event_loop: draining_loop event_loop_turn "\<lambda>s. work_left (d_queue (snd s))" event_loop_good
  "\<lambda>s s'. fst s' = fst s \<and> rows_advanced (events (d_queue (snd s))) (events (d_queue (snd s')))"
proof
  fix s tm
  assume good: "event_loop_good (s :: 'q host \<times> 'q daemon)"
  obtain H d where s: "s = (H, d)" by (cases s)
  note facts = worker_turn_facts[OF good[unfolded s], of tm]
  show "event_loop_good (event_loop_turn tm s)"
    using good rows_advanced_ids[OF facts(1)] by (simp add: s event_loop_good_def event_loop_turn_def)
  show "0 < work_left (d_queue (snd s)) \<Longrightarrow>
      work_left (d_queue (snd (event_loop_turn tm s))) < work_left (d_queue (snd s))"
    using facts(2) by (simp add: s event_loop_turn_def)
  show "work_left (d_queue (snd s)) = 0 \<Longrightarrow> work_left (d_queue (snd (event_loop_turn tm s))) = 0"
    by (simp add: s event_loop_turn_def work_left_0 worker_turn_idle)
  show "fst (event_loop_turn tm s) = fst s \<and>
      rows_advanced (events (d_queue (snd s))) (events (d_queue (snd (event_loop_turn tm s))))"
    using facts(1) by (simp add: s event_loop_turn_def)
qed (auto simp: rows_advanced_refl intro: rows_advanced_trans)

fun run_worker :: "'q host \<Rightarrow> (time \<times> moment) list \<Rightarrow> 'q daemon \<Rightarrow> 'q daemon" where
  "run_worker H [] d = d"
| "run_worker H (tm # tms) d =
     (case worker_turn H tm d of (True, d') \<Rightarrow> run_worker H tms d' | (False, d') \<Rightarrow> d')"

lemma run_worker_fold:
  "event_loop_good (H, d) \<Longrightarrow> run_worker H tms d = snd (fold event_loop_turn tms (H, d))"
proof (induction tms arbitrary: d)
  case (Cons tm tms)
  have "fst (worker_turn H tm d)" by (rule worker_turn_facts(3)[OF Cons.prems])
  then obtain d' where turn: "worker_turn H tm d = (True, d')" by (cases "worker_turn H tm d") auto
  have "event_loop_good (H, d')"
    using event_loop.keeps[OF Cons.prems, of tm] by (simp add: event_loop_turn_def turn)
  with Cons.IH[of d'] show ?case by (simp add: event_loop_turn_def turn)
qed simp

text \<open>C14: A worker empties the queue. With the judge's endpoint available, after as many turns as the queued events
  have attempts left no event is queued: every event that was queued has ended, done or failed, none is
  lost or stuck half way, and no other event was touched. Whatever the operations did, failing included.\<close>

theorem queue_drains:
  assumes "h_judge H \<noteq> None" "distinct (map ev_id (events (d_queue d)))" "work_left (d_queue d) \<le> length tms"
  shows "list_all2 (\<lambda>r r'. ev_id r' = ev_id r \<and> (ev_status r \<noteq> Queued \<longrightarrow> r' = r) \<and>
      (ev_status r = Queued \<longrightarrow> ev_status r' \<in> {Done, Failed}))
    (events (d_queue d)) (events (d_queue (run_worker H tms d)))"
proof -
  have good: "event_loop_good (H, d)" using assms(1,2) by (simp add: event_loop_good_def)
  let ?rows = "events (d_queue d)" and ?rows' = "events (d_queue (run_worker H tms d))"
  have "work_left (d_queue (run_worker H tms d)) = 0"
    using event_loop.drained[OF good, of tms] assms(3) by (simp add: run_worker_fold[OF good])
  then have none: "\<forall>r \<in> set ?rows'. ev_status r \<noteq> Queued" by (simp add: work_left_0)
  have adv: "list_all2 advanced ?rows ?rows'"
    using event_loop.grown[OF good, of tms] by (simp add: run_worker_fold[OF good] rows_advanced_def)
  have "ev_status r' \<in> {Done, Failed}" if "r' \<in> set ?rows'" "ev_status r' \<noteq> Processing" for r'
    using none that by (cases "ev_status r'") auto
  with adv show ?thesis
    by (auto simp: list_all2_conv_all_nth advanced_def)
qed

definition demo_daemon :: "(string \<times> payload) list daemon" where
  "demo_daemon =
     \<lparr>d_world = demo_world [],
      d_queue = empty_queue\<lparr>events := [\<lparr>ev_id = ''e'', ev_op = ''add'', ev_args = [], ev_status = Queued,
        ev_attempts = 0, ev_acked = False, ev_created = ''1'', ev_updated = ''1'', ev_result = None,
        ev_error = None\<rparr>]\<rparr>,
      d_attached = True, d_audit = \<lparr>manifest = [], counters = []\<rparr>, d_sync = [], d_stopping = False\<rparr>"

definition demo_process :: "(string \<times> payload) list host" where
  "demo_process =
     \<lparr>h_env = demo_env, h_backend = demo_backend, h_judge = Some quiet_checker, h_judge_model = None,
      h_audit = demo_host, h_pid = 1, h_socket = ''s'', h_error = (\<lambda>e. ''boom''), h_value = (\<lambda>v. PNone),
      h_queue_value = (\<lambda>v. PNone), h_check_value = (\<lambda>v. PNone), h_traceback = []\<rparr>"

definition demo_moment :: moment where
  "demo_moment = \<lparr>mo_clock = (\<lambda>i. 0), mo_start = 0, mo_finish = 0, mo_settle = 0, mo_uid = ''u'', mo_ms = 0\<rparr>"

theorem queue_drains_witness:
  "list_all2 (\<lambda>r r'. ev_id r' = ev_id r \<and> ev_status r' \<in> {Done, Failed}) (events (d_queue demo_daemon))
     (events (d_queue (run_worker demo_process (replicate 4 (0, demo_moment)) demo_daemon)))"
proof -
  have "work_left (d_queue demo_daemon) \<le> length (replicate 4 (0 :: time, demo_moment))"
    by (simp add: work_left_def demo_daemon_def event_work_def MAX_ATTEMPTS_def)
  from queue_drains[OF _ _ this, of demo_process] show ?thesis
    by (simp add: demo_daemon_def demo_process_def list_all2_Cons1 del: run_worker.simps)
qed

subsection \<open>The mailbox is served\<close>

lemma list_all2_strengthen:
  "list_all2 P xs ys \<Longrightarrow> \<forall>y \<in> set ys. Q y \<Longrightarrow> (\<And>x y. P x y \<Longrightarrow> Q y \<Longrightarrow> R x y) \<Longrightarrow> list_all2 R xs ys"
  by (induction rule: list_all2_induct) auto

definition request_open :: "br_request \<Rightarrow> bool" where
  "request_open r \<longleftrightarrow> rq_status r = BQueued \<and> rq_version r = PROTOCOL_VERSION"

definition open_left :: "bridge \<Rightarrow> nat" where
  "open_left b = sum_list (map (\<lambda>r. if request_open r then 1 else 0) (br_requests b))"

definition served :: "br_request \<Rightarrow> br_request \<Rightarrow> bool" where
  "served r r' \<longleftrightarrow>
     rq_id r' = rq_id r \<and> rq_payload r' = rq_payload r \<and> (\<not> request_open r \<longrightarrow> r' = r) \<and>
     (request_open r \<longrightarrow> r' = r \<or> finished (rq_status r') \<and> rq_response r' \<noteq> None)"

lemma open_left_0: "open_left b = 0 \<longleftrightarrow> (\<forall>r \<in> set (br_requests b). \<not> request_open r)"
  by (auto simp: open_left_def)

lemma candidate_None: "br_candidate b = None \<longleftrightarrow> (\<forall>r \<in> set (br_requests b). \<not> request_open r)"
  by (auto simp: br_candidate_def row_simps filter_empty_conv request_open_def)

lemma candidate_Some: "br_candidate b = Some r \<Longrightarrow> r \<in> set (br_requests b) \<and> request_open r"
  unfolding br_candidate_def by (drule first_row_in) (auto simp: row_simps request_open_def)

lemma bridge_turn_serves:
  assumes "br_candidate b = Some row" "distinct (map rq_id (br_requests b))"
  obtains resp where "br_requests (snd (bridge_turn H tm (d, b))) =
    upd_where (\<lambda>r. rq_id r = rq_id row)
      (\<lambda>r. r\<lparr>rq_status := (if aget resp ''status'' = PStr ''ok'' then BDone else BError),
             rq_response := Some resp, rq_updated := iso_text (mo_settle (snd tm))\<rparr>) (br_requests b)"
proof -
  note row = candidate_Some[OF assms(1)]
  have "fst (br_take (rq_id row) (fst tm) b)"
    using row unfolding take_True_iff request_open_def by blast
  then obtain b1 where took: "br_take (rq_id row) (fst tm) b = (True, b1)"
    by (cases "br_take (rq_id row) (fst tm) b") auto
  have b1: "b1 = snd (br_take (rq_id row) (fst tm) b)" by (simp add: took)
  have same: "r = row" if "r \<in> set (br_requests b)" "rq_id r = rq_id row" for r
    using that row assms(2) by (auto simp: distinct_map inj_on_def)
  obtain r d' where h: "handle_request H (snd tm) (rq_payload row) d = (r, d')" by force
  have "br_requests (snd (bridge_turn H tm (d, b))) =
      br_requests (br_complete (rq_id row) (respond H r) (mo_settle (snd tm)) b1)"
    by (simp add: took bridge_turn_def br_claim_next_def br_finish_claim_def assms(1) process_bridge_request_def h)
  also have "\<dots> = upd_where (\<lambda>r. rq_id r = rq_id row)
      (\<lambda>q. q\<lparr>rq_status := (if aget (respond H r) ''status'' = PStr ''ok'' then BDone else BError),
             rq_response := Some (respond H r), rq_updated := iso_text (mo_settle (snd tm))\<rparr>) (br_requests b)"
    unfolding b1 requests_complete requests_take by (simp add: upd_where_def)
  finally show thesis by (rule that)
qed

definition bridge_loop_good :: "'q daemon \<times> bridge \<Rightarrow> bool" where
  "bridge_loop_good s \<longleftrightarrow> distinct (map rq_id (br_requests (snd s)))"

lemma served_refl [simp]: "served r r"
  by (simp add: served_def)

lemma served_trans: "served a b \<Longrightarrow> served b c \<Longrightarrow> served a c"
  by (auto simp: served_def finished_def request_open_def)

lemma bridge_turn_facts:
  assumes "distinct (map rq_id (br_requests b))"
  shows "list_all2 served (br_requests b) (br_requests (snd (bridge_turn H tm (d, b)))) \<and>
    (0 < open_left b \<longrightarrow> open_left (snd (bridge_turn H tm (d, b))) < open_left b) \<and>
    (open_left b = 0 \<longrightarrow> snd (bridge_turn H tm (d, b)) = b)"
proof (cases "br_candidate b")
  case None
  then have "open_left b = 0" by (simp add: candidate_None open_left_0)
  with None show ?thesis
    by (simp add: bridge_turn_def br_claim_next_def br_finish_claim_def list.rel_refl)
next
  case (Some row)
  note row = candidate_Some[OF Some]
  have same: "r = row" if "r \<in> set (br_requests b)" "rq_id r = rq_id row" for r
    using that row assms by (auto simp: distinct_map inj_on_def)
  have pos: "open_left b \<noteq> 0" using row by (auto simp: open_left_0)
  obtain resp where rows: "br_requests (snd (bridge_turn H tm (d, b))) =
    upd_where (\<lambda>r. rq_id r = rq_id row)
      (\<lambda>r. r\<lparr>rq_status := (if aget resp ''status'' = PStr ''ok'' then BDone else BError),
             rq_response := Some resp, rq_updated := iso_text (mo_settle (snd tm))\<rparr>) (br_requests b)"
    by (rule bridge_turn_serves[OF Some assms])
  have "open_left (snd (bridge_turn H tm (d, b))) < open_left b"
    unfolding open_left_def rows
  proof (rule sum_upd_less)
    show "\<exists>r \<in> set (br_requests b). rq_id r = rq_id row" using row by blast
  qed (use row in \<open>auto dest!: same simp: request_open_def\<close>)
  moreover have "list_all2 served (br_requests b) (br_requests (snd (bridge_turn H tm (d, b))))"
    unfolding rows using row
    by (auto simp: upd_where_def list_all2_conv_all_nth served_def request_open_def finished_def
        dest!: same[OF nth_mem])
  ultimately show ?thesis using pos by simp
qed

interpretation mailbox_loop: draining_loop "\<lambda>s. bridge_turn (fst s) (snd s)" "\<lambda>s. open_left (snd s)" bridge_loop_good
  "\<lambda>s s'. list_all2 served (br_requests (snd s)) (br_requests (snd s'))"
proof
  fix s :: "'q daemon \<times> bridge" and x :: "'q host \<times> time \<times> moment"
  assume good: "bridge_loop_good s"
  obtain d b where s: "s = (d, b)" by (cases s)
  have dist: "distinct (map rq_id (br_requests b))" using good by (simp add: s bridge_loop_good_def)
  note facts = bridge_turn_facts[OF dist, of "fst x" "snd x" d]
  have "map rq_id (br_requests (snd (bridge_turn (fst x) (snd x) (d, b)))) = map rq_id (br_requests b)"
    using facts by (auto simp: list_all2_conv_all_nth served_def intro: nth_equalityI)
  with dist show "bridge_loop_good (bridge_turn (fst x) (snd x) s)"
    by (simp add: s bridge_loop_good_def)
  show "0 < open_left (snd s) \<Longrightarrow> open_left (snd (bridge_turn (fst x) (snd x) s)) < open_left (snd s)"
    "open_left (snd s) = 0 \<Longrightarrow> open_left (snd (bridge_turn (fst x) (snd x) s)) = 0"
    "list_all2 served (br_requests (snd s)) (br_requests (snd (bridge_turn (fst x) (snd x) s)))"
    using facts by (auto simp: s)
next
  fix a b c :: "'q daemon \<times> bridge"
  show "list_all2 served (br_requests (snd a)) (br_requests (snd a))" by (simp add: list.rel_refl)
  show "list_all2 served (br_requests (snd a)) (br_requests (snd b)) \<Longrightarrow>
    list_all2 served (br_requests (snd b)) (br_requests (snd c)) \<Longrightarrow>
    list_all2 served (br_requests (snd a)) (br_requests (snd c))"
    by (rule list_all2_trans[of served served]) (rule served_trans)
qed

text \<open>Every sandboxed request is answered. After as many turns of the mailbox worker as there are open requests,
  each of them has ended with a stored response, which is the one its client is given, and no
  other request was touched: an error of the operation is an answer too.\<close>

theorem mailbox_drains:
  assumes "distinct (map rq_id (br_requests b))" "open_left b \<le> length turns"
  shows "list_all2 (\<lambda>r r'. rq_id r' = rq_id r \<and> (\<not> request_open r \<longrightarrow> r' = r) \<and>
      (request_open r \<longrightarrow> finished (rq_status r') \<and> rq_response r' \<noteq> None))
    (br_requests b) (br_requests (snd (fold (bridge_turn H) turns (d, b))))"
proof -
  have good: "bridge_loop_good (d, b)" using assms(1) by (simp add: bridge_loop_good_def)
  have run: "fold (bridge_turn H) turns = fold (\<lambda>s. bridge_turn (fst s) (snd s)) (map (Pair H) turns)"
    by (simp add: fold_map comp_def)
  let ?rows' = "br_requests (snd (fold (bridge_turn H) turns (d, b)))"
  have "list_all2 served (br_requests b) ?rows'"
    using mailbox_loop.grown[OF good, of "map (Pair H) turns"] by (simp add: run)
  moreover have "\<forall>r \<in> set ?rows'. \<not> request_open r"
    using mailbox_loop.drained[OF good, of "map (Pair H) turns"] assms(2) by (simp add: run open_left_0)
  ultimately show ?thesis
    by (rule list_all2_strengthen) (auto simp: served_def)
qed

definition demo_mailbox :: bridge where
  "demo_mailbox = \<lparr>br_daemon_row = None, br_requests = [\<lparr>rq_id = ''r'', rq_version = PROTOCOL_VERSION,
     rq_payload = [(''op'', PStr ''nope'')], rq_status = BQueued, rq_created = ''1'', rq_updated = ''1'',
     rq_response = None, rq_acknowledged = False\<rparr>]\<rparr>"

theorem mailbox_drains_witness:
  "\<exists>r'. br_requests (snd (fold (bridge_turn demo_process) [(0, demo_moment)] (demo_daemon, demo_mailbox))) = [r'] \<and>
     finished (rq_status r') \<and> rq_response r' \<noteq> None"
proof -
  have "open_left demo_mailbox \<le> length [(0 :: time, demo_moment)]"
    by (simp add: open_left_def demo_mailbox_def request_open_def)
  from mailbox_drains[OF _ this, of demo_process demo_daemon] show ?thesis
    by (auto simp: demo_mailbox_def list_all2_Cons1 request_open_def)
qed

subsection \<open>An asynchronous add is the same add, later\<close>


lemma add_registry: "is_llm_bound ''add'' a = flag a ''infer'' True" "\<not> is_exclusive ''add'' a"
  "map_of QUEUE_OPS ''add'' = None"
  by (simp_all add: is_llm_bound_def OPS_def quick_def OPS_exclusive QUEUE_OPS_def)

lemma handle_add:
  assumes "request_op req = ''add''" "request_args req = Inr args" "\<not> truthy (aget args ''async'')"
  shows "handle_request H m req d =
    (map_sum OpError FromOp (fst (dispatch (h_env H) (h_backend H) (mo_clock m) ''add'' args (d_world d))),
     d\<lparr>d_world := snd (dispatch (h_env H) (h_backend H) (mo_clock m) ''add'' args (d_world d)),
       d_sync := d_sync d @ sync_trace Shared (flag args ''infer'' True)\<rparr>)"
  using assms by (simp add: handle_request_def add_registry under_gate_eq Let_def)

lemma claim_only:
  assumes "\<forall>r \<in> set rows. ev_status r \<noteq> Queued" "events q = rows @ [row]" "ev_status row = Queued"
  shows "claim_next t q =
    (Some \<lparr>cl_id = ev_id row, cl_op = ev_op row, cl_args = ev_args row, cl_attempts = ev_attempts row + 1\<rparr>,
     q\<lparr>events := upd_where (\<lambda>r. ev_id r = ev_id row)
         (\<lambda>r. r\<lparr>ev_status := Processing, ev_attempts := ev_attempts r + 1, ev_updated := iso_text t\<rparr>) (events q)\<rparr>)"
proof -
  have "filter (\<lambda>r. ev_status r = Queued) (events q) = [row]"
    using assms by (simp add: filter_empty_conv)
  then show ?thesis by (simp add: claim_next_def order_asc_def first_row_def)
qed

text \<open>C15: An asynchronous add is the synchronous one, later. On an idle queue the request is answered with the
  event's id and leaves the store alone; the worker's next turn then does to the store, under the same locks,
  exactly what the synchronous request with the same arguments does, and its outcome becomes the event's: done
  with that result, or queued again with that error after one attempt.\<close>

theorem async_add_is_add:
  assumes "d_attached d" "request_op req = ''add''" "request_args req = Inr args" "truthy (aget args ''async'')"
    "mo_uid m \<notin> ev_id ` set (events (d_queue d))" "\<forall>r \<in> set (events (d_queue d)). ev_status r \<noteq> Queued"
    and "request_op sync = ''add''" "request_args sync = Inr (apop ''async'' args)"
    "handle_request H m' sync d = (res, ds)"
  shows "\<exists>d1 d2 row. handle_request H m req d = (Inr (QueuedAs (mo_uid m)), d1) \<and> d_world d1 = d_world d \<and>
    worker_turn H (t, m') d1 = (True, d2) \<and> d_world d2 = d_world ds \<and> d_sync d2 = d_sync ds \<and>
    row \<in> set (events (d_queue d2)) \<and> ev_id row = mo_uid m \<and>
    (case res of
       Inr v \<Rightarrow> ev_status row = Done \<and> ev_result row = Some (reply_value H v)
     | Inl e \<Rightarrow> ev_status row = Queued \<and> ev_error row = Some (error_text H e) \<and> ev_attempts row = 1)"
proof -
  let ?a = "apop ''async'' args" and ?now = "iso_text (mo_start m)"
  let ?row = "\<lparr>ev_id = mo_uid m, ev_op = ''add'', ev_args = ?a, ev_status = Queued, ev_attempts = 0,
     ev_acked = False, ev_created = ?now, ev_updated = ?now, ev_result = None, ev_error = None\<rparr>"
  let ?q1 = "notify ((d_queue d)\<lparr>events := events (d_queue d) @ [?row]\<rparr>)"
  let ?c = "\<lparr>cl_id = mo_uid m, cl_op = ''add'', cl_args = ?a, cl_attempts = 1\<rparr>"
  obtain r w' where run: "dispatch (h_env H) (h_backend H) (mo_clock m') ''add'' ?a (d_world d) = (r, w')" by force
  have sync_run: "res = map_sum OpError FromOp r" "d_world ds = w'"
    "d_sync ds = d_sync d @ sync_trace Shared (flag ?a ''infer'' True)"
    using assms(9) handle_add[OF assms(7,8), of H m' d] by (auto simp: aget_apop run)
  have enq: "enqueue (mo_uid m) ''add'' ?a (mo_start m) (d_queue d) = (Inr (mo_uid m), ?q1)"
    using assms(5) by (simp add: enqueue_Inr)
  have req: "handle_request H m req d = (Inr (QueuedAs (mo_uid m)), d\<lparr>d_queue := ?q1\<rparr>)"
    using assms(1-4) by (simp add: handle_request_def enq Let_def)
  let ?q2 = "?q1\<lparr>events := upd_where (\<lambda>r. ev_id r = mo_uid m)
       (\<lambda>r. r\<lparr>ev_status := Processing, ev_attempts := ev_attempts r + 1, ev_updated := iso_text t\<rparr>) (events ?q1)\<rparr>"
  let ?outcome = "map_sum (h_error H) (h_value H) r"
  have claim: "claim_next t ?q1 = (Some ?c, ?q2)"
    by (subst claim_only[OF assms(6), of ?q1 ?row]) simp_all
  let ?d1 = "d\<lparr>d_queue := ?q1\<rparr>" and ?turn = "worker_turn H (t, m') (d\<lparr>d_queue := ?q1\<rparr>)"
  have turn: "?turn = process_event H m' ?c (d\<lparr>d_queue := ?q2\<rparr>)"
    using claim by (simp add: worker_turn_def)
  have facts: "fst ?turn" "d_world (snd ?turn) = w'"
    "d_sync (snd ?turn) = d_sync d @ sync_trace Shared (flag ?a ''infer'' True)"
    "d_queue (snd ?turn) = snd (settle ?c ?outcome (mo_settle m') ?q2)"
    unfolding turn by (auto simp: process_event_def under_gate_eq run Let_def split: prod.splits)
  let ?row2 = "settled ?c ?outcome (mo_settle m')
     (?row\<lparr>ev_status := Processing, ev_attempts := 1, ev_updated := iso_text t\<rparr>)"
  have "?row2 \<in> set (events (d_queue (snd ?turn)))"
    unfolding facts(4) events_settle by (simp add: upd_where_def)
  moreover have "ev_id ?row2 = mo_uid m" by (cases r) (simp_all add: settled_def)
  moreover have "case res of
       Inr v \<Rightarrow> ev_status ?row2 = Done \<and> ev_result ?row2 = Some (reply_value H v)
     | Inl e \<Rightarrow> ev_status ?row2 = Queued \<and> ev_error ?row2 = Some (error_text H e) \<and> ev_attempts ?row2 = 1"
    by (cases r) (simp_all add: sync_run(1) settled_def reply_value_def error_text_def MAX_ATTEMPTS_def)
  moreover have "?turn = (True, snd ?turn)" using facts(1) by (metis prod.collapse)
  ultimately show ?thesis
    using req facts(2,3) sync_run(2,3) by (intro exI[of _ ?d1] exI[of _ "snd ?turn"] exI[of _ ?row2]) simp
qed

theorem async_add_is_add_witness:
  "\<exists>d1 d2 row. handle_request demo_process demo_moment
       [(''op'', PStr ''add''), (''args'', PDict [(''async'', PBool True), (''content'', PStr ''c'')])]
       (demo_daemon\<lparr>d_queue := empty_queue\<rparr>) = (Inr (QueuedAs ''u''), d1) \<and>
     worker_turn demo_process (0, demo_moment) d1 = (True, d2) \<and> row \<in> set (events (d_queue d2)) \<and> ev_id row = ''u''"
proof -
  let ?req = "[(''op'', PStr ''add''), (''args'', PDict [(''async'', PBool True), (''content'', PStr ''c'')])]"
  let ?sync = "[(''op'', PStr ''add''), (''args'', PDict [(''content'', PStr ''c'')])]"
  let ?d = "demo_daemon\<lparr>d_queue := empty_queue\<rparr>"
  obtain res ds where "handle_request demo_process demo_moment ?sync ?d = (res, ds)" by force
  from async_add_is_add[OF _ _ _ _ _ _ _ _ this, of ?req "[(''async'', PBool True), (''content'', PStr ''c'')]"
      demo_moment 0]
  show ?thesis
    by (fastforce simp: demo_daemon_def request_op_def request_args_def aget_def empty_queue_def apop_def demo_moment_def)
qed

subsection \<open>What a judge without an endpoint does\<close>

text \<open>A stale check that finds the judge's endpoint unusable ends the worker thread and strands the event:
  it stays in processing, no attempt is counted as failed, and the alerts say nothing.\<close>

theorem judge_outage_strands:
  assumes "h_judge H = None" "claim_next t (d_queue d) = (Some c, q)" "cl_op c = ''stale_check''"
  shows "worker_turn H (t, m) d = (False, d\<lparr>d_queue := q\<rparr>) \<and> alerts_file q = alerts_file (d_queue d) \<and>
    (\<exists>r \<in> set (events q). ev_id r = cl_id c \<and> ev_status r = Processing)"
proof -
  obtain row where "row \<in> set (events (d_queue d))"
    "c = \<lparr>cl_id = ev_id row, cl_op = ev_op row, cl_args = ev_args row, cl_attempts = ev_attempts row + 1\<rparr>"
    "q = (d_queue d)\<lparr>events := upd_where (\<lambda>r. ev_id r = ev_id row)
       (\<lambda>r. r\<lparr>ev_status := Processing, ev_attempts := ev_attempts r + 1,
              ev_updated := iso_text t\<rparr>) (events (d_queue d))\<rparr>"
    by (rule claim_next_Some[OF assms(2)])
  then show ?thesis
    using assms by (auto simp: worker_turn_def process_event_def process_stale_check_def row_simps)
qed

theorem judge_outage_strands_witness:
  "\<exists>c q. claim_next 0 (empty_queue\<lparr>events := [\<lparr>ev_id = ''e'', ev_op = ''stale_check'', ev_args = [], ev_status = Queued,
        ev_attempts = 0, ev_acked = False, ev_created = ''1'', ev_updated = ''1'', ev_result = None,
        ev_error = None\<rparr>]\<rparr>) = (Some c, q) \<and>
     fst (worker_turn (demo_process\<lparr>h_judge := None\<rparr>) (0, demo_moment) (demo_daemon\<lparr>d_queue :=
       empty_queue\<lparr>events := [\<lparr>ev_id = ''e'', ev_op = ''stale_check'', ev_args = [], ev_status = Queued,
        ev_attempts = 0, ev_acked = False, ev_created = ''1'', ev_updated = ''1'', ev_result = None,
        ev_error = None\<rparr>]\<rparr>\<rparr>)) = False"
proof -
  let ?row = "\<lparr>ev_id = ''e'', ev_op = ''stale_check'', ev_args = [], ev_status = Queued,
        ev_attempts = 0, ev_acked = False, ev_created = ''1'', ev_updated = ''1'', ev_result = None,
        ev_error = None\<rparr>"
  let ?q = "empty_queue\<lparr>events := [?row]\<rparr>"
  have c: "claim_next 0 ?q = (Some \<lparr>cl_id = ''e'', cl_op = ''stale_check'', cl_args = [], cl_attempts = 1\<rparr>,
     snd (claim_next 0 ?q))"
    by (subst (1 2) claim_only[of "[]" ?q ?row]) simp_all
  have "claim_next 0 (d_queue (demo_daemon\<lparr>d_queue := ?q\<rparr>)) =
    (Some \<lparr>cl_id = ''e'', cl_op = ''stale_check'', cl_args = [], cl_attempts = 1\<rparr>, snd (claim_next 0 ?q))"
    using c by simp
  from judge_outage_strands[OF _ this, of "demo_process\<lparr>h_judge := None\<rparr>" demo_moment] c show ?thesis by auto
qed

subsection \<open>A restart\<close>



end
