(* ===== verification/Client.thy ===== *)
theory Client
  imports Daemon
begin

text \<open>
  The client's side of a request: \<^verbatim>\<open>request\<close> of \<^verbatim>\<open>src/src/memline/daemon.py\<close>, and \<^verbatim>\<open>maybe_daemon_request\<close>,
  \<^verbatim>\<open>memory_client\<close> and \<^verbatim>\<open>execute\<close> of \<^verbatim>\<open>src/src/memline/cli/_support.py\<close>. The daemon's state stands for the
  files both sides share. How far one attempt over the socket gets is the record \<open>link\<close>; the mailbox, the
  way around a socket that cannot be reached, is its field \<open>lk_bridge\<close>. What the client sees of the machine is
  the record \<open>machine\<close>.
\<close>

text \<open>
  How an attempt over the socket ends: nothing to connect to; the request cannot be written; it is written and the
  connection ends before the daemon ran it, or after; the answer is read. When the answer is lost the flag tells a failed
  read (an \<^verbatim>\<open>OSError\<close>) from a connection that ends without a line of JSON (a \<^verbatim>\<open>ValueError\<close>).
\<close>

datatype passage = NoSocket | NotWritten | LostBefore bool | LostAfter bool | Answered

record 'q link =
  lk_passage :: passage
  lk_bridge :: "args \<Rightarrow> 'q daemon \<Rightarrow> (br_error + pyval) \<times> 'q daemon"

datatype client_error = DaemonUnavailable | BadAnswer | DaemonError string

definition lost_answer :: "bool \<Rightarrow> client_error" where
  "lost_answer read_failed = (if read_failed then DaemonUnavailable else BadAnswer)"

definition read_answer :: "args \<Rightarrow> client_error + pyval" where
  "read_answer response =
     (if aget response ''status'' \<noteq> PStr ''ok''
      then Inl (DaemonError (if truthy (aget response ''error'') then py_str (aget response ''error'')
                             else ''daemon request failed''))
      else Inr (aget response ''result''))"

definition daemon_request ::
  "'q host \<Rightarrow> moment \<Rightarrow> 'q link \<Rightarrow> args \<Rightarrow> 'q daemon \<Rightarrow> (client_error + pyval) \<times> 'q daemon" where
  "daemon_request H m L payload d =
     (case lk_passage L of
        NotWritten \<Rightarrow> (Inl DaemonUnavailable, d)
      | LostBefore read_failed \<Rightarrow> (Inl (lost_answer read_failed), d)
      | LostAfter read_failed \<Rightarrow> (Inl (lost_answer read_failed), snd (handle_request H m payload d))
      | Answered \<Rightarrow> (case handle_request H m payload d of (r, d') \<Rightarrow> (read_answer (respond H r), d'))
      | NoSocket \<Rightarrow>
          (case lk_bridge L payload d of
             (Inl (BridgeUnavailable why), d') \<Rightarrow> (Inl DaemonUnavailable, d')
           | (Inl (RequestFailed e), d') \<Rightarrow> (Inl (DaemonError e), d')
           | (Inr v, d') \<Rightarrow> (Inr v, d')))"

text \<open>
  \<open>mc_files\<close>: after the failure there is still a socket or pid file. \<open>mc_started\<close>: starting a daemon succeeds.
  \<open>mc_running\<close> and \<open>mc_key\<close>: the checks of the direct path.
\<close>

record machine =
  mc_enabled :: bool
  mc_files :: bool
  mc_autostart :: bool
  mc_attempted :: bool
  mc_spawn_safe :: bool
  mc_started :: bool
  mc_running :: bool
  mc_key :: bool

datatype contact = Unused | Used pyval | Refused string

definition request_payload :: "string \<Rightarrow> args \<Rightarrow> args" where
  "request_payload op a = [(''op'', PStr op), (''args'', PDict a)]"

definition maybe_daemon_request ::
  "'q host \<Rightarrow> moment \<Rightarrow> moment \<Rightarrow> machine \<Rightarrow> 'q link \<Rightarrow> 'q link \<Rightarrow> string \<Rightarrow> args \<Rightarrow> 'q daemon
     \<Rightarrow> contact \<times> 'q daemon" where
  "maybe_daemon_request H m1 m2 M L1 L2 op a d =
     (if \<not> mc_enabled M then (Unused, d)
      else case daemon_request H m1 L1 (request_payload op a) d of
        (Inr v, d') \<Rightarrow> (Used v, d')
      | (Inl (DaemonError e), d') \<Rightarrow> (Refused (''memline daemon '' @ op @ '' failed: '' @ e), d')
      | (Inl BadAnswer, d') \<Rightarrow> (Refused (''memline daemon '' @ op @ '' failed''), d')
      | (Inl DaemonUnavailable, d') \<Rightarrow>
          if mc_files M then (Refused ''memline daemon appears to be configured but is not reachable'', d')
          else if \<not> mc_autostart M \<or> mc_attempted M then (Unused, d')
          else if \<not> mc_spawn_safe M then (Unused, d')
          else if \<not> mc_started M then (Unused, d')
          else (case daemon_request H m2 L2 (request_payload op a) d' of
              (Inr v, d'') \<Rightarrow> (Used v, d'')
            | (Inl e, d'') \<Rightarrow> (Refused (''memline daemon '' @ op @ '' failed after auto-start''), d'')))"

datatype cli_error = ClickError string | BadParameter string | OpFailed stale_error

text \<open>\<^verbatim>\<open>memory_client\<close>: the direct path is closed next to a running daemon and without the model's key.\<close>

definition memory_client :: "machine \<Rightarrow> cli_error + unit" where
  "memory_client M =
     (if \<not> mc_enabled M \<and> mc_running M
      then Inl (ClickError ''memline daemon is running; stop it before using the direct path'')
      else if \<not> mc_key M then Inl (BadParameter ''no credential'') else Inr ())"

definition execute ::
  "'q host \<Rightarrow> (nat \<Rightarrow> moment) \<Rightarrow> machine \<Rightarrow> 'q link \<Rightarrow> 'q link \<Rightarrow> string \<Rightarrow> args \<Rightarrow> 'q daemon
     \<Rightarrow> (cli_error + pyval) \<times> 'q daemon" where
  "execute H ms M L1 L2 op a d =
     (case maybe_daemon_request H (ms 0) (ms 1) M L1 L2 op a d of
        (Used v, d') \<Rightarrow> (Inr v, d')
      | (Refused e, d') \<Rightarrow> (Inl (ClickError e), d')
      | (Unused, d') \<Rightarrow>
          (case memory_client M of
             Inl e \<Rightarrow> (Inl e, d')
           | Inr _ \<Rightarrow>
               (case dispatch (h_env H) (h_backend H) (mo_clock (ms 2)) op a (d_world d') of
                  (r, w) \<Rightarrow> (map_sum OpFailed (h_value H) r, d'\<lparr>d_world := w\<rparr>))))"

text \<open>The queue's operations take the same way; the direct path opens the queue's own file.\<close>

definition execute_queue ::
  "'q host \<Rightarrow> (nat \<Rightarrow> moment) \<Rightarrow> machine \<Rightarrow> 'q link \<Rightarrow> 'q link \<Rightarrow> string \<Rightarrow> args \<Rightarrow> 'q daemon
     \<Rightarrow> (cli_error + pyval) \<times> 'q daemon" where
  "execute_queue H ms M L1 L2 op a d =
     (case maybe_daemon_request H (ms 0) (ms 1) M L1 L2 op a d of
        (Used v, d') \<Rightarrow> (Inr v, d')
      | (Refused e, d') \<Rightarrow> (Inl (ClickError e), d')
      | (Unused, d') \<Rightarrow>
          (case dispatch_queue (mo_start (ms 2)) op a (d_queue d') of
             (r, q) \<Rightarrow> (map_sum OpFailed (h_queue_value H) r, d'\<lparr>d_queue := q\<rparr>)))"

subsection \<open>One request, one effect\<close>

abbreviation run_op :: "'q host \<Rightarrow> moment \<Rightarrow> string \<Rightarrow> args \<Rightarrow> 'q world \<Rightarrow> (stale_error + op_result) \<times> 'q world" where
  "run_op H m op a w \<equiv> dispatch (h_env H) (h_backend H) (mo_clock m) op a w"

definition store_op :: "string \<Rightarrow> args \<Rightarrow> bool" where
  "store_op op a \<longleftrightarrow> op \<in> fst ` set (OPS :: (string \<times> unit op_spec) list) \<and> \<not> truthy (aget a ''async'')"

lemma store_op_names:
  assumes "store_op op a"
  shows "op \<noteq> ''ping'' \<and> op \<noteq> ''daemon_stop'' \<and> map_of QUEUE_OPS op = None"
  using assms by (auto simp: store_op_def OPS_def QUEUE_OPS_def)

lemma handle_store_op:
  assumes "store_op op a"
  shows "\<exists>d'. handle_request H m (request_payload op a) d = (map_sum OpError FromOp (fst (run_op H m op a (d_world d))), d') \<and>
    d_world d' = snd (run_op H m op a (d_world d))"
proof -
  have "request_op (request_payload op a) = op" "request_args (request_payload op a) = Inr a"
    by (simp_all add: request_op_def request_args_def request_payload_def aget_def)
  with store_op_names[OF assms] assms show ?thesis
    by (auto simp: handle_request_def under_gate_eq store_op_def Let_def)
qed

text \<open>The store after the operation ran at each of some moments, one run after the other.\<close>

definition after_runs_of :: "'q host \<Rightarrow> string \<Rightarrow> args \<Rightarrow> moment list \<Rightarrow> 'q world \<Rightarrow> 'q world" where
  "after_runs_of H op a runs w = foldl (\<lambda>w m. snd (run_op H m op a w)) w runs"

lemma ran_simps [simp]: "after_runs_of H op a [] w = w" "after_runs_of H op a (m # runs) w = after_runs_of H op a runs (snd (run_op H m op a w))"
  by (simp_all add: after_runs_of_def)

text \<open>\<open>v\<close> is what the last of these runs returned.\<close>

definition last_result :: "'q host \<Rightarrow> string \<Rightarrow> args \<Rightarrow> moment list \<Rightarrow> 'q world \<Rightarrow> pyval \<Rightarrow> bool" where
  "last_result H op a runs w v \<longleftrightarrow>
     (\<exists>earlier m x. runs = earlier @ [m] \<and> fst (run_op H m op a (after_runs_of H op a earlier w)) = Inr x \<and> v = h_value H x)"

lemma last_result_one: "fst (run_op H m op a w) = Inr x \<Longrightarrow> last_result H op a [m] w (h_value H x)"
  unfolding last_result_def by (intro exI[of _ "[]"] exI[of _ m]) simp

lemma last_result_later:
  "last_result H op a runs (snd (run_op H m op a w)) v \<Longrightarrow> last_result H op a (m # runs) w v"
  unfolding last_result_def by (metis append_Cons ran_simps(2))

text \<open>
  What the mailbox guarantees a caller: its request is run at most once before it returns, and what it returns is the
  result of that run. It may be run and still be reported unavailable, when the wait for the answer times out.
\<close>

definition mailbox_once :: "'q host \<Rightarrow> string \<Rightarrow> args \<Rightarrow> 'q link \<Rightarrow> bool" where
  "mailbox_once H op a L \<longleftrightarrow>
     (\<forall>d r d'. lk_bridge L (request_payload op a) d = (r, d') \<longrightarrow>
        (\<exists>runs. length runs \<le> 1 \<and> d_world d' = after_runs_of H op a runs (d_world d) \<and>
          (\<forall>v. r = Inr v \<longrightarrow> last_result H op a runs (d_world d) v)))"

text \<open>One attempt runs the operation at most once.\<close>

lemma daemon_request_runs:
  assumes "store_op op a" "mailbox_once H op a L" "daemon_request H m L (request_payload op a) d = (r, d')"
  shows "\<exists>runs. length runs \<le> 1 \<and> d_world d' = after_runs_of H op a runs (d_world d) \<and>
    (\<forall>v. r = Inr v \<longrightarrow> last_result H op a runs (d_world d) v) \<and>
    (r = Inl DaemonUnavailable \<and> runs \<noteq> [] \<longrightarrow> lk_passage L = LostAfter True \<or>
       lk_passage L = NoSocket \<and> (\<exists>why d1. lk_bridge L (request_payload op a) d = (Inl (BridgeUnavailable why), d1)))"
proof -
  obtain d1 where h: "handle_request H m (request_payload op a) d =
      (map_sum OpError FromOp (fst (run_op H m op a (d_world d))), d1)"
    "d_world d1 = snd (run_op H m op a (d_world d))"
    using handle_store_op[OF assms(1), of H m d] by blast
  show ?thesis
  proof (cases "lk_passage L")
    case NoSocket
    obtain q d2 where b: "lk_bridge L (request_payload op a) d = (q, d2)" by force
    from assms(2)[unfolded mailbox_once_def, rule_format, OF b] obtain runs where runs: "length runs \<le> 1" "d_world d2 = after_runs_of H op a runs (d_world d)"
      "\<forall>v. q = Inr v \<longrightarrow> last_result H op a runs (d_world d) v"
      by blast
    then show ?thesis
      using assms(3) b NoSocket by (intro exI[of _ runs]) (auto simp: daemon_request_def split: sum.splits br_error.splits)
  next
    case (LostAfter lost)
    then show ?thesis using assms(3) h
      by (intro exI[of _ "[m]"]) (auto simp: daemon_request_def lost_answer_def split: if_splits)
  next
    case Answered
    then show ?thesis using assms(3) h
      by (intro exI[of _ "[m]"], cases "fst (run_op H m op a (d_world d))")
        (auto simp: daemon_request_def read_answer_def respond_def reply_value_def aget_def intro: last_result_one)
  qed (use assms(3) in \<open>auto simp: daemon_request_def lost_answer_def intro!: exI[of _ "[]"]\<close>)
qed

lemma direct_runs:
  fixes m :: moment
  assumes "(case memory_client M of Inl e \<Rightarrow> (Inl e, d)
       | Inr _ \<Rightarrow> (case dispatch (h_env H) (h_backend H) (mo_clock m) op a (d_world d) of
                  (r, w) \<Rightarrow> (map_sum OpFailed (h_value H) r, d\<lparr>d_world := w\<rparr>))) = (r, d')"
  shows "\<exists>runs. length runs \<le> 1 \<and> d_world d' = after_runs_of H op a runs (d_world d) \<and>
    (\<forall>v. r = Inr v \<longrightarrow> last_result H op a runs (d_world d) v)"
proof (cases "memory_client M")
  case (Inl e)
  then show ?thesis using assms by (intro exI[of _ "[]"]) auto
next
  case (Inr u)
  then show ?thesis using assms
    by (intro exI[of _ "[m]"], cases "fst (run_op H m op a (d_world d))")
      (auto intro: last_result_one split: prod.splits)
qed

lemma after_runs:
  assumes "length runs \<le> 1" "d_world d1 = after_runs_of H op a runs (d_world d)"
    "\<exists>runs. length runs \<le> 1 \<and> d_world d' = after_runs_of H op a runs (d_world d1) \<and> (\<forall>v. r = Inr v \<longrightarrow> last_result H op a runs (d_world d1) v)"
  shows "\<exists>runs'. d_world d' = after_runs_of H op a runs' (d_world d) \<and> length runs' \<le> 2 \<and> (length runs' = 2 \<longrightarrow> runs \<noteq> []) \<and>
    (\<forall>v. r = Inr v \<longrightarrow> last_result H op a runs' (d_world d) v)"
proof -
  obtain more where more: "length more \<le> 1" "d_world d' = after_runs_of H op a more (d_world d1)"
    "\<forall>v. r = Inr v \<longrightarrow> last_result H op a more (d_world d1) v" using assms(3) by blast
  have "runs = [] \<or> (\<exists>m. runs = [m])" using assms(1) by (cases runs) auto
  then show ?thesis
    using assms(2) more by (intro exI[of _ "runs @ more"]) (auto intro: last_result_later)
qed

text \<open>C17: How often a command runs its operation, however it gets there. Until the command returns, a store operation ran
  at most twice, in the daemon, through the mailbox or in this process, always by the same handler on the same store, and
  a success returns the result of the last run. It ran twice only when the first attempt ran it and lost the answer
  (the read of the answer failed, or the wait at the mailbox ended) and then neither the daemon's socket nor its pid file
  was there any more; a connection that closed without an answer, or with an answer that is no JSON, is an error and no
  reason to run it again. The mailbox is assumed to run a request at most once and to return that run's result.
\<close>

theorem execute_runs:
  assumes "store_op op a" "mailbox_once H op a L1" "mailbox_once H op a L2" "execute H ms M L1 L2 op a d = (r, d')"
  shows "\<exists>runs. d_world d' = after_runs_of H op a runs (d_world d) \<and> length runs \<le> 2 \<and>
    (length runs = 2 \<longrightarrow> mc_enabled M \<and> \<not> mc_files M \<and>
       (lk_passage L1 = LostAfter True \<or>
        lk_passage L1 = NoSocket \<and> (\<exists>why d1. lk_bridge L1 (request_payload op a) d = (Inl (BridgeUnavailable why), d1)))) \<and>
    (\<forall>v. r = Inr v \<longrightarrow> last_result H op a runs (d_world d) v)"
proof (cases "mc_enabled M")
  case False
  then have "(case memory_client M of Inl e \<Rightarrow> (Inl e, d)
       | Inr _ \<Rightarrow> (case dispatch (h_env H) (h_backend H) (mo_clock (ms 2)) op a (d_world d) of
                  (r, w) \<Rightarrow> (map_sum OpFailed (h_value H) r, d\<lparr>d_world := w\<rparr>))) = (r, d')"
    using assms(4) by (simp add: execute_def maybe_daemon_request_def)
  from direct_runs[OF this] show ?thesis by force
next
  case enabled: True
  obtain r1 d1 where q1: "daemon_request H (ms 0) L1 (request_payload op a) d = (r1, d1)" by force
  obtain runs where f1: "length runs \<le> 1" "d_world d1 = after_runs_of H op a runs (d_world d)"
    "\<forall>v. r1 = Inr v \<longrightarrow> last_result H op a runs (d_world d) v"
    "r1 = Inl DaemonUnavailable \<and> runs \<noteq> [] \<longrightarrow> lk_passage L1 = LostAfter True \<or>
       lk_passage L1 = NoSocket \<and> (\<exists>why d1. lk_bridge L1 (request_payload op a) d = (Inl (BridgeUnavailable why), d1))"
    using daemon_request_runs[OF assms(1,2) q1] by blast
  show ?thesis
  proof (cases "r1 = Inl DaemonUnavailable \<and> \<not> mc_files M")
    case False
    have "d' = d1 \<and> (\<forall>v. r = Inr v \<longrightarrow> r1 = Inr v)"
      using assms(4) q1 enabled False
      by (auto simp: execute_def maybe_daemon_request_def split: sum.splits client_error.splits if_splits)
    then show ?thesis using f1 by (intro exI[of _ runs]) auto
  next
    case lost: True
    obtain r2 d2 where q2: "daemon_request H (ms 1) L2 (request_payload op a) d1 = (r2, d2)" by force
    have "\<exists>runs. length runs \<le> 1 \<and> d_world d' = after_runs_of H op a runs (d_world d1) \<and>
        (\<forall>v. r = Inr v \<longrightarrow> last_result H op a runs (d_world d1) v)"
    proof (cases "\<not> mc_autostart M \<or> mc_attempted M \<or> \<not> mc_spawn_safe M \<or> \<not> mc_started M")
      case True
      then have "maybe_daemon_request H (ms 0) (ms 1) M L1 L2 op a d = (Unused, d1)"
        using q1 enabled lost by (auto simp: maybe_daemon_request_def)
      then have "(case memory_client M of Inl e \<Rightarrow> (Inl e, d1)
           | Inr _ \<Rightarrow> (case dispatch (h_env H) (h_backend H) (mo_clock (ms 2)) op a (d_world d1) of
                      (r, w) \<Rightarrow> (map_sum OpFailed (h_value H) r, d1\<lparr>d_world := w\<rparr>))) = (r, d')"
        using assms(4) by (simp add: execute_def)
      then show ?thesis by (rule direct_runs)
    next
      case False
      have "d' = d2 \<and> (\<forall>v. r = Inr v \<longrightarrow> r2 = Inr v)"
        using assms(4) q1 q2 enabled lost False
        by (auto simp: execute_def maybe_daemon_request_def split: sum.splits)
      then show ?thesis using daemon_request_runs[OF assms(1,3) q2] by blast
    qed
    from after_runs[OF f1(1,2) this] obtain runs' where "d_world d' = after_runs_of H op a runs' (d_world d)" "length runs' \<le> 2"
      "length runs' = 2 \<longrightarrow> runs \<noteq> []" "\<forall>v. r = Inr v \<longrightarrow> last_result H op a runs' (d_world d) v" by blast
    then show ?thesis using f1(4) lost enabled by blast
  qed
qed

definition demo_machine :: machine where
  "demo_machine = \<lparr>mc_enabled = True, mc_files = True, mc_autostart = True, mc_attempted = False,
     mc_spawn_safe = True, mc_started = True, mc_running = False, mc_key = True\<rparr>"

definition demo_link :: "'q link" where
  "demo_link = \<lparr>lk_passage = Answered, lk_bridge = (\<lambda>p d. (Inl (BridgeUnavailable NoDatabase), d))\<rparr>"

lemma demo_store_op: "store_op ''revive'' [(''memory_id'', PStr ''a'')]"
  by (simp add: store_op_def OPS_def aget_def)

lemma demo_mailbox: "mailbox_once H op a demo_link"
  by (auto simp: mailbox_once_def demo_link_def intro: exI[of _ "[]"])

theorem execute_runs_witness:
  "\<exists>r d' runs. execute demo_process (\<lambda>i. demo_moment) demo_machine demo_link demo_link ''revive''
       [(''memory_id'', PStr ''a'')] demo_daemon = (r, d') \<and> length runs \<le> 1 \<and>
     d_world d' = after_runs_of demo_process ''revive'' [(''memory_id'', PStr ''a'')] runs (d_world demo_daemon)"
proof -
  obtain r d' where run: "execute demo_process (\<lambda>i. demo_moment) demo_machine demo_link demo_link ''revive''
       [(''memory_id'', PStr ''a'')] demo_daemon = (r, d')" by force
  from execute_runs[OF demo_store_op demo_mailbox demo_mailbox run] obtain runs where
    "d_world d' = after_runs_of demo_process ''revive'' [(''memory_id'', PStr ''a'')] runs (d_world demo_daemon)" "length runs \<le> 2"
    "length runs \<noteq> 2" by (auto simp: demo_machine_def)
  with run show ?thesis by (intro exI[of _ r] exI[of _ d'] exI[of _ runs]) auto
qed

text \<open>The second run does happen: the daemon ran the operation, the read of its answer failed, and its files are gone by
  the time the client looks, so that the command runs the operation again itself and reports the second run.\<close>

theorem execute_can_replay:
  assumes "store_op op a" "mc_enabled M" "lk_passage L1 = LostAfter True" "\<not> mc_files M" "\<not> mc_autostart M" "mc_key M"
    and "execute H ms M L1 L2 op a d = (r, d')"
  shows "d_world d' = after_runs_of H op a [ms 0, ms 2] (d_world d) \<and>
    r = map_sum OpFailed (h_value H) (fst (run_op H (ms 2) op a (after_runs_of H op a [ms 0] (d_world d))))"
proof -
  obtain d1 where "daemon_request H (ms 0) L1 (request_payload op a) d = (Inl DaemonUnavailable, d1)"
    "d_world d1 = snd (run_op H (ms 0) op a (d_world d))"
    using handle_store_op[OF assms(1), of H "ms 0" d] assms(3) by (auto simp: daemon_request_def lost_answer_def)
  with assms show ?thesis
    by (auto simp: execute_def maybe_daemon_request_def memory_client_def split: prod.splits)
qed

end
