(* ===== verification/Playbook.thy ===== *)
theory Playbook
  imports Judge Pair_Store Event_Queue
begin

text \<open>
  The reviewer's playbook of \<^verbatim>\<open>src/src/memline/review.py\<close>: for each verdict of the judges what it means, the
  disposition that resolves it and the one condition under which dismissing is right. Characters with
  no place in a string literal are written as bytes.
\<close>

definition VERDICT_PLAYBOOK :: "(string \<times> args) list" where
  "VERDICT_PLAYBOOK =
    [(''LANGUAGE_SUSPECT'',
      [(''means'', PStr (''the entry'' @
        [CHR 0x27] @
        ''s own narration is Chinese; the store embeds with an English-only model, so this '' @
        ''text retrieves poorly'')),
       (''fix'', PStr (''update <memory_id> '' @
        [CHR 0x27] @
        ''<same facts, narration rewritten in English>'' @
        [CHR 0x27])),
       (''keep'', PStr (''preserve verbatim: paths, commands, flags, hosts, model/artifact names, numbers, '' @
        ''memory-id references, Chinese proper nouns (people, products, filenames), and quoted '' @
        ''Chinese source material'')),
       (''dismiss_only_if'', PStr (''the Chinese is CONFINED to quotes, identifiers, proper nouns or a one-word gloss and '' @
        ''the author'' @
        [CHR 0x27] @
        ''s own sentences are already English '' @
        [CHR 0xE2, CHR 0x80, CHR 0x94] @
        '' not merely because the facts are correct''))]),
     (''TIMESTAMP_SUSPECT'',
      [(''means'', PStr (''the narrated date contradicts the CLI'' @
        [CHR 0x27] @
        ''s authoritative ingestion time'')),
       (''fix'', PStr (''update <memory_id> '' @
        [CHR 0x27] @
        ''<same facts, date corrected>'' @
        [CHR 0x27])),
       (''dismiss_only_if'', PStr (''the entry narrates a historical event under its own past date, or carries an '' @
        [CHR 0x27] @
        ''As of/REVISED <date>'' @
        [CHR 0x27] @
        '' status marker''))]),
     (''ATTRIBUTION_SUSPECT'',
      [(''means'', PStr (''the entry credits an actor that contradicts the recorded writer identity'')),
       (''fix'', PStr (''update <memory_id> '' @
        [CHR 0x27] @
        ''<same facts, actor corrected>'' @
        [CHR 0x27])),
       (''dismiss_only_if'', PStr (''the entry legitimately records the user'' @
        [CHR 0x27] @
        ''s decision or another agent'' @
        [CHR 0x27] @
        ''s action''))]),
     (''SECRET_SUSPECT'',
      [(''means'', PStr (''PRIORITY '' @
        [CHR 0xE2, CHR 0x80, CHR 0x94] @
        '' the entry looks like it embeds a live credential VALUE'')),
       (''fix'', PStr (''update <memory_id> '' @
        [CHR 0x27] @
        ''<same text, secret replaced by a pointer to its file or secret location>'' @
        [CHR 0x27] @
        '' (keeps id, links and history), then verify '' @
        [CHR 0x60] @
        ''search '' @
        [CHR 0x27] @
        ''<secret literal>'' @
        [CHR 0x27] @
        '' --include-superseded'' @
        [CHR 0x60] @
        '' returns nothing'')),
       (''dismiss_only_if'', PStr (''the string is not a credential value (e.g. a public identifier, a placeholder, or a '' @
        ''path to where a secret lives)''))]),
     (''BORN_UNNECESSARY'',
      [(''means'', PStr (''the entry may never have deserved long-term memory '' @
        [CHR 0xE2, CHR 0x80, CHR 0x94] @
        '' activity narration, a commit restatement, or a repo-readable fact'')),
       (''fix'', PStr (''stale confirm <pair_id> (expires it now, reversible via '' @
        [CHR 0x60] @
        ''ttl <memory_id> --clear'' @
        [CHR 0x60] @
        ''), or '' @
        [CHR 0x60] @
        ''delete <memory_id>'' @
        [CHR 0x60] @
        '' for your own fresh entry'')),
       (''partial'', PStr (''keep only the non-derivable part -> update <memory_id> '' @
        [CHR 0x27] @
        ''<rewritten>'' @
        [CHR 0x27])),
       (''dismiss_only_if'', PStr (''the entry records a durable decision, constraint or hard-won conclusion that is not '' @
        ''recoverable from the repo''))]),
     (''EXPIRING'',
      [(''means'', PStr (''the entry is time-scoped '' @
        [CHR 0xE2, CHR 0x80, CHR 0x94] @
        '' a progress tick or event-scoped coordination'')),
       (''fix'', PStr (''settled/closed -> stale confirm <pair_id> (expires now); still alive -> stale ttl '' @
        ''<pair_id> [--days 7]'')),
       (''dismiss_only_if'', PStr (''the fact turned out to be durable rather than event-scoped''))]),
     (''SUPERSEDED'',
      [(''means'', PStr (''a newer entry appears to replace this one'' @
        [CHR 0x27] @
        ''s answer'')),
       (''fix'', PStr (''stale confirm <pair_id> (retires the old entry, pointing at the new one)'')),
       (''partial'', PStr (''the new entry ADDS detail rather than replacing -> stale merge <pair_id> '' @
        [CHR 0x27] @
        ''<consolidated text>'' @
        [CHR 0x27])),
       (''dismiss_only_if'', PStr (''both entries remain independently true (different scope, config or time window)''))]),
     (''DUPLICATE'',
      [(''means'', PStr (''a newer entry states the same fact as this one'')),
       (''fix'', PStr (''stale confirm <pair_id> (retires the redundant older entry)'')),
       (''dismiss_only_if'', PStr (''the entries differ in a way that matters for retrieval''))]),
     (''TTL_EXPIRED'',
      [(''means'', PStr (''this entry'' @
        [CHR 0x27] @
        ''s TTL deadline fired and it has already left the search pool'')),
       (''fix'', PStr (''accept the expiry -> stale confirm <pair_id>'')),
       (''partial'', PStr (''still needed -> stale ttl <pair_id> [--days 7] (renews, re-enters the pool)'')),
       (''dismiss_only_if'', PStr (''never '' @
        [CHR 0xE2, CHR 0x80, CHR 0x94] @
        '' a fired TTL is a fact, not a judgment; confirm or renew it''))])]"

definition HOW_TO_DISPOSE :: string where
  "HOW_TO_DISPOSE =
        ''every listed pair carries a '' @
        [CHR 0x60] @
        ''suggested'' @
        [CHR 0x60] @
        '' block: what the verdict means, the '' @
        [CHR 0x60] @
        ''fix'' @
        [CHR 0x60] @
        '' that resolves it, and '' @
        [CHR 0x60] @
        ''dismiss_only_if'' @
        [CHR 0x60] @
        '' '' @
        [CHR 0xE2, CHR 0x80, CHR 0x94] @
        '' the one condition under which dismissing is right. Read it per pair; the summary '' @
        ''below is only the ordering. self_flags are ordered by disposition priority: safety '' @
        ''-> correctness -> necessity. safety: update <memory_id> '' @
        [CHR 0x27] @
        ''<secret replaced by its location pointer>'' @
        [CHR 0x27] @
        '' (redact in place, then verify search '' @
        [CHR 0x27] @
        ''<secret>'' @
        [CHR 0x27] @
        '' --include-superseded is empty) | stale dismiss <pair_id>. correctness: update '' @
        ''<memory_id> '' @
        [CHR 0x27] @
        ''<corrected>'' @
        [CHR 0x27] @
        '' | stale dismiss <pair_id>. necessity: stale confirm (expire now) | stale ttl '' @
        ''<pair_id> [--days 7] | delete <memory_id> (own fresh born-unnecessary entry) | stale '' @
        ''dismiss. displacement (handle last): stale confirm <pair_id> | stale dismiss '' @
        ''<pair_id> | stale merge <pair_id> '' @
        [CHR 0x27] @
        ''<consolidated text>'' @
        [CHR 0x27] @
        '' | update <old_id> '' @
        [CHR 0x27] @
        ''<corrected text>'' @
        [CHR 0x27] @
        ''. ttl_expiry: stale confirm (accept) | stale ttl <pair_id> (renew, re-enters pool).''"

definition kind_text :: "pair_kind \<Rightarrow> string" where
  "kind_text k =
     (case k of Displacement \<Rightarrow> ''displacement'' | Necessity \<Rightarrow> ''necessity'' | Correctness \<Rightarrow> ''correctness''
      | TtlExpiry \<Rightarrow> ''ttl_expiry'' | Safety \<Rightarrow> ''safety'' | OtherKind t \<Rightarrow> t)"

text \<open>\<^verbatim>\<open>pair.get("kind") or "displacement"\<close>: an empty kind reads as a displacement.\<close>

definition kind_of :: "pair_row \<Rightarrow> pair_kind" where
  "kind_of r = (if pr_kind r = OtherKind [] then Displacement else pr_kind r)"

definition play_of :: "pair_row \<Rightarrow> args" where
  "play_of r =
     (case map_of VERDICT_PLAYBOOK (pr_verdict r) of
        Some play \<Rightarrow> play
      | None \<Rightarrow>
          [(''means'', PStr (kind_text (kind_of r) @ '' suspicion ('' @
              (if pr_verdict r = [] then ''unknown verdict'' else pr_verdict r) @ '')'')),
           (''fix'', PStr (''update <memory_id> '' @ [CHR 0x27] @ ''<corrected>'' @ [CHR 0x27] @
              '' | stale confirm <pair_id>'')),
           (''dismiss_only_if'', PStr ''the finding is a false positive'')])"

definition flag_suggestion :: "pair_row \<Rightarrow> args" where
  "flag_suggestion r =
     (''verdict'', PStr (pr_verdict r)) # play_of r @
     [(''dismiss'', PStr ''stale dismiss <pair_id>''),
      (''warning'', PStr (''dismissal is PERMANENT for this exact text version '' @ [CHR 0xE2, CHR 0x80, CHR 0x94] @
         '' a dismissed flag cannot be reopened unless the memory'' @ [CHR 0x27] @ ''s text changes''))]"

lemma playbook_keys:
  "map fst VERDICT_PLAYBOOK = [''LANGUAGE_SUSPECT'', ''TIMESTAMP_SUSPECT'', ''ATTRIBUTION_SUSPECT'', ''SECRET_SUSPECT'',
     ''BORN_UNNECESSARY'', ''EXPIRING'', ''SUPERSEDED'', ''DUPLICATE'', ''TTL_EXPIRED'']"
  by (simp add: VERDICT_PLAYBOOK_def)

lemma playbook_fields:
  "list_all (\<lambda>(v, play). list_all (\<lambda>k. k \<in> fst ` set play) [''means'', ''fix'', ''dismiss_only_if'']) VERDICT_PLAYBOOK"
  by (simp add: VERDICT_PLAYBOOK_def)

end
