(* ===== verification/Review.thy ===== *)
theory Review
  imports Playbook Ops
begin

text \<open>
  The handoff verdict, \<^verbatim>\<open>session_review\<close> of \<^verbatim>\<open>src/src/memline/review.py\<close>. Its collaborators are arguments: \<open>fetch\<close>
  is the row the \<^verbatim>\<open>get\<close> operation answers with (\<open>None\<close> for an error or anything but an object), \<open>writes\<close> the
  rows of the session, \<open>q\<close> the queue, \<open>polls\<close> the queue at each poll of \<^verbatim>\<open>--wait\<close> that came before the deadline,
  \<open>q_end\<close> the queue when the failed writes are looked up. A blocker's constructor stands for its kind and
  its fixed explanation.
\<close>

subsection \<open>Previews\<close>

definition memory_preview :: "nat \<Rightarrow> (string \<Rightarrow> args option) \<Rightarrow> string \<Rightarrow> string" where
  "memory_preview n fetch mid =
     (case fetch mid of
        None \<Rightarrow> ''<deleted>''
      | Some row \<Rightarrow> if row = [] then ''<deleted>'' else clip n (str_or_empty (aget row ''memory'')))"

record enriched =
  ep_pair :: pair_row
  ep_old_memory :: string
  ep_new_memory :: string
  ep_suggested :: args

definition enrich_pairs :: "(string \<Rightarrow> args option) \<Rightarrow> nat \<Rightarrow> pair_row list \<Rightarrow> enriched list" where
  "enrich_pairs fetch n rows =
     map (\<lambda>r. \<lparr>ep_pair = r, ep_old_memory = memory_preview n fetch (pr_old r),
               ep_new_memory = memory_preview n fetch (pr_new r), ep_suggested = flag_suggestion r\<rparr>) rows"

record flag_row =
  fl_pair :: pair_row
  fl_memory :: string
  fl_suggested :: args

definition flag_view :: "(string \<Rightarrow> args option) \<Rightarrow> pair_row \<Rightarrow> flag_row" where
  "flag_view fetch r =
     \<lparr>fl_pair = r, fl_memory = memory_preview 160 fetch (pr_old r), fl_suggested = flag_suggestion r\<rparr>"

definition SELF_FLAG_ORDER :: "pair_kind \<Rightarrow> nat" where
  "SELF_FLAG_ORDER k = (case k of Safety \<Rightarrow> 0 | Correctness \<Rightarrow> 1 | Necessity \<Rightarrow> 2 | _ \<Rightarrow> 9)"

subsection \<open>What the queue still owes the session\<close>

definition own_event :: "string \<Rightarrow> event_queue \<Rightarrow> string \<Rightarrow> bool" where
  "own_event session q eid =
     (aget (case get_args eid q of None \<Rightarrow> [] | Some a \<Rightarrow> a) ''session_id'' = PStr session)"

definition pending_stale_checks :: "string \<Rightarrow> event_queue \<Rightarrow> nat" where
  "pending_stale_checks session q =
     length (filter (\<lambda>row. vw_op row = ''stale_check'' \<and> vw_status row \<in> {''queued'', ''processing''} \<and>
                           own_event session q (vw_event_id row)) (list_events None 500 0 q))"

definition failed_own_adds :: "string \<Rightarrow> event_queue \<Rightarrow> string list" where
  "failed_own_adds session q =
     map vw_event_id (filter (\<lambda>row. vw_op row = ''add'' \<and> \<not> vw_acked row \<and>
                                    own_event session q (vw_event_id row))
       (list_events (Some ''failed'') 500 0 q))"

fun wait_pending :: "string \<Rightarrow> event_queue \<Rightarrow> event_queue list \<Rightarrow> nat" where
  "wait_pending session q [] = pending_stale_checks session q"
| "wait_pending session q (q' # polls) =
     (if pending_stale_checks session q = 0 then 0 else wait_pending session q' polls)"

subsection \<open>The verdict\<close>

datatype blocker =
    PendingChecks nat
  | SelfFlags pair_kind "string list"
  | DisplacementRaised "string list"
  | TtlExpired "string list"
  | FailedAdds "string list"

datatype outcome = Pass | Blocked

record review_report =
  rv_session :: string
  rv_verdict :: outcome
  rv_blocking :: "blocker list"
  rv_writes :: "(pyval \<times> string) list"
  rv_pending :: nat
  rv_open :: "enriched list"
  rv_self_flags :: "flag_row list"
  rv_ttl :: "flag_row list"

definition blocker_if :: "'a list \<Rightarrow> ('a list \<Rightarrow> blocker) \<Rightarrow> blocker list" where
  "blocker_if xs f = (if xs = [] then [] else [f xs])"

definition OPEN_LIMIT :: int where "OPEN_LIMIT = 500"

definition session_review ::
  "string \<Rightarrow> (string \<Rightarrow> args option) \<Rightarrow> item list \<Rightarrow> pair_row list \<Rightarrow> event_queue \<Rightarrow> event_queue list
     \<Rightarrow> event_queue \<Rightarrow> review_report" where
  "session_review session fetch writes rows q polls q_end =
     (let pending = wait_pending session q polls;
          all_pairs = open_pairs (Some session) None OPEN_LIMIT rows;
          displacement = filter (\<lambda>p. kind_of p = Displacement) all_pairs;
          self_flags = sort_key (\<lambda>f. SELF_FLAG_ORDER (pr_kind (fl_pair f)))
            (map (flag_view fetch) (filter (\<lambda>p. kind_of p \<noteq> Displacement \<and> kind_of p \<noteq> TtlExpiry) all_pairs));
          ttl_expired = map (flag_view fetch) (open_pairs None (Some TtlExpiry) OPEN_LIMIT rows);
          flagged = (\<lambda>k. map (\<lambda>f. pr_old (fl_pair f)) (filter (\<lambda>f. pr_kind (fl_pair f) = k) self_flags));
          blocking = (if 0 < pending then [PendingChecks pending] else []) @
            concat (map (\<lambda>k. blocker_if (flagged k) (SelfFlags k)) [Safety, Correctness, Necessity]) @
            blocker_if (map pr_id displacement) DisplacementRaised @
            blocker_if (map (\<lambda>f. pr_id (fl_pair f)) ttl_expired) TtlExpired @
            blocker_if (failed_own_adds session q_end) FailedAdds
      in \<lparr>rv_session = session, rv_verdict = (if blocking = [] then Pass else Blocked), rv_blocking = blocking,
          rv_writes = map (\<lambda>w. (dget (it_fields w) ''id'', clip 160 (str_or_empty (dget (it_fields w) ''memory'')))) writes,
          rv_pending = pending, rv_open = enrich_pairs fetch 160 displacement, rv_self_flags = self_flags,
          rv_ttl = ttl_expired\<rparr>)"

subsection \<open>When a session may say it is done\<close>

lemma blocker_if_Nil [simp]: "blocker_if xs f = [] \<longleftrightarrow> xs = []"
  by (simp add: blocker_if_def)

lemma sql_limit_Nil: "0 < n \<Longrightarrow> sql_limit n rows = [] \<longleftrightarrow> rows = []"
  by (cases rows) (auto simp: sql_limit_def take_Cons' split: if_splits)

lemma set_open_pairs:
  "open_pairs s k OPEN_LIMIT rows = [] \<longleftrightarrow>
     (\<forall>r \<in> set rows. \<not> (pr_disposition r = DOpen \<and> (truthy_text s \<longrightarrow> pr_session r = s) \<and>
        (case k of None \<Rightarrow> True | Some k' \<Rightarrow> pr_kind r = k')))"
  unfolding open_pairs_def by (subst sql_limit_Nil) (simp_all add: OPEN_LIMIT_def row_simps filter_empty_conv)

lemma open_pairs_in: "r \<in> set (open_pairs s k n rows) \<Longrightarrow> r \<in> set rows"
  by (auto simp: open_pairs_def sql_limit_def row_simps split: if_splits dest!: in_set_takeD)

definition judged_kind :: "pair_row \<Rightarrow> bool" where
  "judged_kind r \<longleftrightarrow> (case pr_kind r of OtherKind k \<Rightarrow> False | _ \<Rightarrow> True)"

lemma list_all_events:
  assumes "length (events q) \<le> 500"
  shows "set (list_events None 500 0 q) = row_to_dict ` set (events q)"
    "set (list_events (Some ''failed'') 500 0 q) = row_to_dict ` {r \<in> set (events q). ev_status r = Failed}"
proof -
  have len: "length (order_desc ev_created rows) = length rows" for rows :: "event list"
    by (simp add: order_desc_def)
  have "status_text (ev_status r) = ''failed'' \<longleftrightarrow> ev_status r = Failed" for r :: event
    by (cases "ev_status r") auto
  moreover have "length (filter P (events q)) \<le> 500" for P
    using assms length_filter_le[of P "events q"] by linarith
  ultimately show "set (list_events None 500 0 q) = row_to_dict ` set (events q)"
    "set (list_events (Some ''failed'') 500 0 q) = row_to_dict ` {r \<in> set (events q). ev_status r = Failed}"
    using assms by (simp_all add: list_events_def Let_def sql_offset_def sql_limit_def len row_simps)
qed

definition own_row :: "string \<Rightarrow> event \<Rightarrow> bool" where
  "own_row session r \<longleftrightarrow> aget (ev_args r) ''session_id'' = PStr session"

lemma own_event_row:
  assumes "distinct (map ev_id (events q))" "r \<in> set (events q)"
  shows "own_event session q (ev_id r) \<longleftrightarrow> own_row session r"
  using lookup_row_in[OF assms] by (simp add: own_event_def own_row_def get_args_def)

lemma pending_0:
  assumes "length (events q) \<le> 500" "distinct (map ev_id (events q))"
  shows "pending_stale_checks session q = 0 \<longleftrightarrow>
    (\<forall>r \<in> set (events q). \<not> (ev_op r = ''stale_check'' \<and> ev_status r \<in> {Queued, Processing} \<and> own_row session r))"
proof -
  have st: "status_text (ev_status r) = ''queued'' \<longleftrightarrow> ev_status r = Queued"
    "status_text (ev_status r) = ''processing'' \<longleftrightarrow> ev_status r = Processing" for r :: event
    by (cases "ev_status r"; simp)+
  show ?thesis
    using own_event_row[OF assms(2)]
    by (simp add: pending_stale_checks_def filter_empty_conv list_all_events[OF assms(1)] row_to_dict_def Let_def
        st)
qed

lemma failed_own_Nil:
  assumes "length (events q) \<le> 500" "distinct (map ev_id (events q))"
  shows "failed_own_adds session q = [] \<longleftrightarrow>
    (\<forall>r \<in> set (events q). \<not> (ev_op r = ''add'' \<and> unacked r \<and> own_row session r))"
  using own_event_row[OF assms(2)]
  by (auto simp: failed_own_adds_def filter_empty_conv list_all_events[OF assms(1)] row_to_dict_def Let_def unacked_def)

lemma self_flag_pairs:
  "set (map fl_pair (sort_key key (map (flag_view fetch) rows))) = set rows"
  by (simp add: image_image flag_view_def)

lemma flagged_Nil:
  "map (\<lambda>f. pr_old (fl_pair f)) (filter (\<lambda>f. pr_kind (fl_pair f) = k) (sort_key key (map (flag_view fetch) rows))) = [] \<longleftrightarrow>
     (\<forall>r \<in> set rows. pr_kind r \<noteq> k)"
  using self_flag_pairs[of key fetch rows] by (force simp: filter_empty_conv flag_view_def)

text \<open>
  The session that a queued request was made in, wherever its arguments tell it: as an argument of its own, in the metadata
  of the memory, or as the run.
\<close>

definition made_by :: "string \<Rightarrow> event \<Rightarrow> bool" where
  "made_by session r \<longleftrightarrow>
     own_row session r \<or> aget (ev_args r) ''run_id'' = PStr session \<or>
     (case aget (ev_args r) ''metadata'' of PDict m \<Rightarrow> aget m ''session_id'' = PStr session | _ \<Rightarrow> False)"

text \<open>A row that the session made names it as an argument of its own.\<close>

definition says_so :: "string \<Rightarrow> event \<Rightarrow> bool" where
  "says_so session r \<longleftrightarrow> (made_by session r \<longrightarrow> own_row session r)"

text \<open>C29: The verdict is the absence of every blocker, and nothing else blocks. With a table of the five kinds of
  pairs and queues the review can see whole, a session passes exactly when no judgment of its writes is queued
  or running, no open pair was raised by it, no fired expiry is open, whoever raised it, and no
  queued write of its own failed unacknowledged. Open pairs of other sessions never matter. It is assumed that the queued
  requests of the session name it in their own \<^verbatim>\<open>session_id\<close>: the review looks nowhere else, and the additions that
  the command line queues name it in their metadata and their run only, so that a failed one is overlooked.
\<close>

theorem review_pass_iff:
  assumes "session \<noteq> []" "\<forall>r \<in> set rows. judged_kind r"
    "length (events q) \<le> 500" "distinct (map ev_id (events q))" "list_all (says_so session) (events q)"
    "length (events q_end) \<le> 500" "distinct (map ev_id (events q_end))" "list_all (says_so session) (events q_end)"
  shows "rv_verdict (session_review session fetch writes rows q [] q_end) = Pass \<longleftrightarrow>
    (\<forall>r \<in> set (events q). \<not> (ev_op r = ''stale_check'' \<and> ev_status r \<in> {Queued, Processing} \<and> made_by session r)) \<and>
    (\<forall>r \<in> set rows. pr_disposition r = DOpen \<longrightarrow> pr_session r \<noteq> Some session \<and> pr_kind r \<noteq> TtlExpiry) \<and>
    (\<forall>r \<in> set (events q_end). \<not> (ev_op r = ''add'' \<and> ev_status r = Failed \<and> \<not> ev_acked r \<and> made_by session r))"
proof -
  let ?all = "open_pairs (Some session) None OPEN_LIMIT rows"
  have kinds: "kind_of p = pr_kind p \<and> (pr_kind p \<in> {Displacement, TtlExpiry, Safety, Correctness, Necessity})"
    if "p \<in> set ?all" for p
    using open_pairs_in[OF that] assms(2)
    by (cases "pr_kind p") (auto simp: judged_kind_def kind_of_def)
  have all: "?all = [] \<longleftrightarrow> (\<forall>r \<in> set rows. \<not> (pr_disposition r = DOpen \<and> pr_session r = Some session))"
    using assms(1) by (simp add: set_open_pairs truthy_text_def)
  have ttl: "open_pairs None (Some TtlExpiry) OPEN_LIMIT rows = [] \<longleftrightarrow>
      (\<forall>r \<in> set rows. \<not> (pr_disposition r = DOpen \<and> pr_kind r = TtlExpiry))"
    by (simp add: set_open_pairs truthy_text_def)
  have "rv_verdict (session_review session fetch writes rows q [] q_end) = Pass \<longleftrightarrow>
      pending_stale_checks session q = 0 \<and>
      (\<forall>k \<in> {Safety, Correctness, Necessity}.
         \<forall>p \<in> set ?all. kind_of p \<noteq> Displacement \<longrightarrow> kind_of p \<noteq> TtlExpiry \<longrightarrow> pr_kind p \<noteq> k) \<and>
      (\<forall>p \<in> set ?all. kind_of p \<noteq> Displacement) \<and>
      open_pairs None (Some TtlExpiry) OPEN_LIMIT rows = [] \<and> failed_own_adds session q_end = []"
    unfolding session_review_def Let_def
    by (simp only: review_report.simps wait_pending.simps list.map concat.simps append_Nil2 append_is_Nil_conv
        blocker_if_Nil flagged_Nil) (auto simp: filter_empty_conv)
  also have "\<dots> \<longleftrightarrow> pending_stale_checks session q = 0 \<and> (?all = [] \<or> (\<forall>p \<in> set ?all. pr_kind p = TtlExpiry)) \<and>
      open_pairs None (Some TtlExpiry) OPEN_LIMIT rows = [] \<and> failed_own_adds session q_end = []"
    using kinds by fastforce
  also have "\<dots> \<longleftrightarrow> pending_stale_checks session q = 0 \<and> ?all = [] \<and>
      open_pairs None (Some TtlExpiry) OPEN_LIMIT rows = [] \<and> failed_own_adds session q_end = []"
  proof -
    have "r \<in> set rows \<and> pr_disposition r = DOpen" if "r \<in> set ?all" for r
      using that by (auto simp: open_pairs_def sql_limit_def row_simps split: if_splits dest!: in_set_takeD)
    then show ?thesis unfolding ttl by (metis last_in_set)
  qed
  finally show ?thesis
    unfolding all ttl pending_0[OF assms(3,4)] failed_own_Nil[OF assms(6,7)]
    using assms(5,8) by (auto simp: list_all_iff says_so_def made_by_def unacked_def)
qed

text \<open>
  A review with rows in every table: an open pair of another session, a dismissed one of its own, a failed write that was
  acknowledged and a judgment that is done.
\<close>

definition review_pairs :: "pair_row list" where
  "review_pairs =
     (let p = \<lparr>pr_id = ''p'', pr_kind = Displacement, pr_new = ''b'', pr_old = ''a'', pr_hash = ''h'',
        pr_verdict = ''SUPERSEDED'', pr_confidence = Some 1, pr_reason = None, pr_judged_at = ''1'', pr_model = None,
        pr_session = Some ''other'', pr_disposition = DOpen, pr_disposed_by = None, pr_disposed_at = None\<rparr>
      in [p, p\<lparr>pr_id := ''o'', pr_session := Some ''s'', pr_disposition := DDismissed\<rparr>])"

definition review_row :: "string \<Rightarrow> string \<Rightarrow> args \<Rightarrow> ev_status \<Rightarrow> bool \<Rightarrow> event" where
  "review_row eid op a st acked =
     \<lparr>ev_id = eid, ev_op = op, ev_args = a, ev_status = st, ev_attempts = 1, ev_acked = acked, ev_created = ''1'',
      ev_updated = ''1'', ev_result = None, ev_error = None\<rparr>"

definition review_queue :: event_queue where
  "review_queue = empty_queue\<lparr>events :=
     [review_row ''e1'' ''add'' [(''session_id'', PStr ''s'')] Failed True,
      review_row ''e2'' ''stale_check'' [(''session_id'', PStr ''s'')] Done False,
      review_row ''e3'' ''add'' [(''session_id'', PStr ''other'')] Failed False]\<rparr>"

theorem review_pass_iff_witness:
  "rv_verdict (session_review ''s'' (\<lambda>m. None) [] review_pairs review_queue [] review_queue) = Pass"
proof -
  have "\<forall>r \<in> set review_pairs. judged_kind r" by (simp add: review_pairs_def judged_kind_def)
  moreover have "length (events review_queue) \<le> 500" "distinct (map ev_id (events review_queue))"
    "list_all (says_so ''s'') (events review_queue)"
    by (simp_all add: review_queue_def review_row_def says_so_def made_by_def own_row_def aget_def)
  ultimately have law: "rv_verdict (session_review ''s'' (\<lambda>m. None) [] review_pairs review_queue [] review_queue) = Pass \<longleftrightarrow>
    (\<forall>r \<in> set (events review_queue). \<not> (ev_op r = ''stale_check'' \<and> ev_status r \<in> {Queued, Processing} \<and> made_by ''s'' r)) \<and>
    (\<forall>r \<in> set review_pairs. pr_disposition r = DOpen \<longrightarrow> pr_session r \<noteq> Some ''s'' \<and> pr_kind r \<noteq> TtlExpiry) \<and>
    (\<forall>r \<in> set (events review_queue). \<not> (ev_op r = ''add'' \<and> ev_status r = Failed \<and> \<not> ev_acked r \<and> made_by ''s'' r))"
    by (intro review_pass_iff) simp_all
  show ?thesis
    unfolding law by (simp add: review_queue_def review_row_def review_pairs_def made_by_def own_row_def aget_def)
qed

text \<open>What the assumption excludes: the failed write of a session that only its metadata and its run name.\<close>

lemma failed_write_overlooked:
  "(let lost = review_row ''e'' ''add'' [(''run_id'', PStr ''s''), (''metadata'', PDict [(''session_id'', PStr ''s'')])] Failed False;
        q = empty_queue\<lparr>events := [lost]\<rparr>
    in made_by ''s'' lost \<and> rv_verdict (session_review ''s'' (\<lambda>m. None) [] [] q [] q) = Pass)"
  by code_simp

text \<open>Every finding that opens a pair travels with its own rule. For a verdict of the kind's own vocabulary the
  guidance is the playbook's entry, with its meaning, its fix and its one reason to dismiss, and never
  the generic fallback.\<close>

definition vocabulary :: "pair_kind \<Rightarrow> string set" where
  "vocabulary k =
     (case k of Displacement \<Rightarrow> VERDICTS | Necessity \<Rightarrow> NECESSITY_VERDICTS | Correctness \<Rightarrow> CORRECTNESS_VERDICTS
      | Safety \<Rightarrow> SAFETY_VERDICTS | TtlExpiry \<Rightarrow> {''TTL_EXPIRED''} | OtherKind t \<Rightarrow> {})"

lemma opening_in_playbook:
  assumes "judgment_opens (pr_kind r) (pr_verdict r) c" "pr_verdict r \<in> vocabulary (pr_kind r)"
  shows "pr_verdict r \<in> set (map fst VERDICT_PLAYBOOK)"
  using assms unfolding playbook_keys
  by (cases "pr_kind r")
    (auto simp: judgment_opens_def vocabulary_def VERDICTS_def NECESSITY_VERDICTS_def CORRECTNESS_VERDICTS_def SAFETY_VERDICTS_def)

lemma opening_playbook:
  assumes "judgment_opens (pr_kind r) (pr_verdict r) c" "pr_verdict r \<in> vocabulary (pr_kind r)"
  shows "\<exists>play. map_of VERDICT_PLAYBOOK (pr_verdict r) = Some play \<and> play_of r = play \<and>
    {''means'', ''fix'', ''dismiss_only_if''} \<subseteq> fst ` set play"
proof -
  from opening_in_playbook[OF assms] obtain play where p: "map_of VERDICT_PLAYBOOK (pr_verdict r) = Some play"
    by (metis list.set_map map_of_eq_None_iff not_None_eq)
  then have "(pr_verdict r, play) \<in> set VERDICT_PLAYBOOK" by (rule map_of_SomeD)
  with playbook_fields have "{''means'', ''fix'', ''dismiss_only_if''} \<subseteq> fst ` set play"
    by (auto simp: list_all_iff)
  with p show ?thesis by (simp add: play_of_def)
qed

end
