(* ===== verification/Writer_Context.thy ===== *)
theory Writer_Context
  imports Ops
begin

text \<open>
  Who is writing, \<^verbatim>\<open>src/src/memline/writer_context.py\<close>. The machine is the environment, a map of variables, and
  the process table: for a pid the lines of its \<^verbatim>\<open>status\<close> file and the bytes of its \<^verbatim>\<open>cmdline\<close>, each \<open>None\<close> when
  it cannot be read. Decoding the bytes is the identity here, as they are the string's UTF-8 bytes; \<^verbatim>\<open>int()\<close> is
  read on decimal digits with a sign, all that \<^verbatim>\<open>/proc\<close> writes.
\<close>

subsection \<open>Reading text\<close>

fun split_by :: "(char \<Rightarrow> bool) \<Rightarrow> string \<Rightarrow> string list" where
  "split_by P [] = [[]]"
| "split_by P (c # cs) =
     (if P c then [] # split_by P cs
      else (case split_by P cs of [] \<Rightarrow> [[c]] | w # ws \<Rightarrow> (c # w) # ws))"

definition split_words :: "string \<Rightarrow> string list" where
  "split_words s = filter (\<lambda>w. w \<noteq> []) (split_by is_space s)"

definition digit_value :: "char \<Rightarrow> nat option" where
  "digit_value c = (let n = (of_char c :: nat) in if 48 \<le> n \<and> n \<le> 57 then Some (n - 48) else None)"

fun read_digits :: "nat \<Rightarrow> string \<Rightarrow> nat option" where
  "read_digits acc [] = Some acc"
| "read_digits acc (c # cs) =
     (case digit_value c of None \<Rightarrow> None | Some d \<Rightarrow> read_digits (10 * acc + d) cs)"

definition parse_int :: "string \<Rightarrow> int option" where
  "parse_int s =
     (case s of
        [] \<Rightarrow> None
      | c # cs \<Rightarrow>
          if c = CHR ''-'' \<and> cs \<noteq> [] then map_option (\<lambda>n. - int n) (read_digits 0 cs)
          else if c = CHR ''+'' \<and> cs \<noteq> [] then map_option int (read_digits 0 cs)
          else map_option int (read_digits 0 s))"

definition starts_with :: "string \<Rightarrow> string \<Rightarrow> bool" where
  "starts_with p s \<longleftrightarrow> take (length p) s = p"

subsection \<open>The machine\<close>

type_synonym environ = "string \<Rightarrow> string option"

record procs =
  pr_status :: "int \<Rightarrow> string list option"
  pr_cmdline :: "int \<Rightarrow> string option"

fun first_env :: "environ \<Rightarrow> string list \<Rightarrow> string option" where
  "first_env env [] = None"
| "first_env env (name # names) =
     (case env name of Some v \<Rightarrow> if v \<noteq> [] then Some v else first_env env names
      | None \<Rightarrow> first_env env names)"

definition read_proc_ppid :: "procs \<Rightarrow> int \<Rightarrow> int option" where
  "read_proc_ppid P pid =
     (case pr_status P pid of
        None \<Rightarrow> None
      | Some lines \<Rightarrow>
          (case find (starts_with ''PPid:'') lines of
             None \<Rightarrow> None
           | Some line \<Rightarrow> (case split_words line of _ # w # _ \<Rightarrow> parse_int w | _ \<Rightarrow> None)))"

definition read_proc_argv0 :: "procs \<Rightarrow> int \<Rightarrow> string" where
  "read_proc_argv0 P pid =
     (case pr_cmdline P pid of None \<Rightarrow> [] | Some raw \<Rightarrow> strip (takeWhile (\<lambda>c. c \<noteq> CHR 0x00) raw))"

definition basename :: "string \<Rightarrow> string" where
  "basename s = rev (takeWhile (\<lambda>c. c \<noteq> CHR ''/'') (rev s))"

fun ancestor_exe_names :: "procs \<Rightarrow> nat \<Rightarrow> int \<Rightarrow> string list" where
  "ancestor_exe_names P 0 pid = []"
| "ancestor_exe_names P (Suc limit) pid =
     (case read_proc_ppid P pid of
        None \<Rightarrow> []
      | Some ppid \<Rightarrow>
          if ppid \<le> 1 \<or> ppid = pid then []
          else let argv0 = read_proc_argv0 P ppid; rest = ancestor_exe_names P limit ppid
               in if argv0 = [] then rest else lower (basename argv0) # rest)"

subsection \<open>Detection\<close>

definition AGENT_IDENTITY :: "(string \<times> string list \<times> string list) list" where
  "AGENT_IDENTITY =
     [(''opencode'', [''OPENCODE_SESSION_ID'', ''OPENCODE_CALL_ID''], [''opencode'']),
      (''codex'', [''CODEX_THREAD_ID'', ''CODEX_SESSION_ID'', ''CODEX_MANAGED_PACKAGE_ROOT''], [''codex'']),
      (''claude'', [''CLAUDE_CODE_SESSION_ID'', ''CLAUDECODE_SESSION_ID'', ''CLAUDE_SESSION_ID'',
                    ''CLAUDE_CODE_ENTRYPOINT'', ''CLAUDECODE''], [''claude''])]"

definition alnum :: "char \<Rightarrow> bool" where
  "alnum c = (let n = (of_char c :: nat) in 48 \<le> n \<and> n \<le> 57 \<or> 65 \<le> n \<and> n \<le> 90 \<or> 97 \<le> n \<and> n \<le> 122)"

definition tag_token :: "string \<Rightarrow> string" where
  "tag_token tag = takeWhile alnum (lower (strip tag))"

definition detect_agent_source :: "environ \<Rightarrow> procs \<Rightarrow> int \<Rightarrow> string option" where
  "detect_agent_source env P pid =
     (case find (\<lambda>(source, names, markers). first_env env names \<noteq> None) AGENT_IDENTITY of
        Some (source, _) \<Rightarrow> Some source
      | None \<Rightarrow>
          let token = (case first_env env [''AI_AGENT'', ''AGENT''] of None \<Rightarrow> [] | Some tag \<Rightarrow> tag_token tag)
          in if token \<noteq> [] then Some token
             else let names = ancestor_exe_names P 10 pid
                  in map_option fst (find (\<lambda>(source, envs, markers).
                       \<exists>name \<in> set names. \<exists>marker \<in> set markers. infix_of marker name) AGENT_IDENTITY))"

record writer =
  wr_source :: "string option"
  wr_session :: "string option"

definition detect_writer_context :: "environ \<Rightarrow> procs \<Rightarrow> int \<Rightarrow> writer" where
  "detect_writer_context env P pid =
     (let source = first_env env [''MEMLINE_SOURCE'', ''MEM0_SOURCE'', ''AGENT_SOURCE'', ''AI_AGENT_SOURCE'']
      in \<lparr>wr_source = (if source = None then detect_agent_source env P pid else source),
          wr_session = first_env env
            [''MEMLINE_SESSION_ID'', ''MEM0_SESSION_ID'', ''AGENT_SESSION_ID'', ''OPENCODE_SESSION_ID'',
             ''CODEX_THREAD_ID'', ''CODEX_SESSION_ID'', ''CLAUDE_SESSION_ID'', ''CLAUDE_CODE_SESSION_ID'',
             ''CLAUDECODE_SESSION_ID'']\<rparr>)"

subsection \<open>What the attribution can depend on\<close>

lemma first_env_Some: "first_env env names = Some v \<Longrightarrow> v \<noteq> [] \<and> (\<exists>n \<in> set names. env n = Some v)"
  by (induction names) (auto split: option.splits if_splits)

lemma first_env_None: "first_env env names = None \<longleftrightarrow> (\<forall>n \<in> set names. env n = None \<or> env n = Some [])"
  by (induction names) (auto split: option.splits)

text \<open>Two process tables with the same parents whose command lines agree up to the first NUL.\<close>

definition same_argv0 :: "procs \<Rightarrow> procs \<Rightarrow> bool" where
  "same_argv0 P Q \<longleftrightarrow> pr_status P = pr_status Q \<and>
     (\<forall>pid. map_option (takeWhile (\<lambda>c. c \<noteq> CHR 0x00)) (pr_cmdline P pid) =
            map_option (takeWhile (\<lambda>c. c \<noteq> CHR 0x00)) (pr_cmdline Q pid))"

lemma ancestors_same_argv0:
  assumes "same_argv0 P Q"
  shows "ancestor_exe_names P limit pid = ancestor_exe_names Q limit pid"
proof -
  have "read_proc_argv0 P p = read_proc_argv0 Q p" for p
    using assms by (auto simp: same_argv0_def read_proc_argv0_def split: option.splits dest!: spec[of _ p])
  moreover have "read_proc_ppid P = read_proc_ppid Q"
    using assms by (auto simp: same_argv0_def read_proc_ppid_def)
  ultimately show ?thesis
    by (induction limit arbitrary: pid) (auto split: option.splits)
qed

text \<open>The text being written cannot choose its author. The context is a function of the environment and of
  the ancestors' executable names: arguments on their command lines, where the text travels, do
  not reach it. And the innermost agent wins: a source set explicitly comes first, then an OpenCode
  session's variable, whatever the variables inherited from the shells around it.\<close>

theorem attribution_content_safe:
  assumes "same_argv0 P Q"
  shows "detect_writer_context env P pid = detect_writer_context env Q pid \<and>
    (env ''OPENCODE_SESSION_ID'' \<notin> {None, Some []} \<longrightarrow>
       wr_source (detect_writer_context env P pid) =
         (case first_env env [''MEMLINE_SOURCE'', ''MEM0_SOURCE'', ''AGENT_SOURCE'', ''AI_AGENT_SOURCE''] of
            None \<Rightarrow> Some ''opencode'' | Some s \<Rightarrow> Some s))"
proof
  have "ancestor_exe_names P 10 pid = ancestor_exe_names Q 10 pid"
    by (rule ancestors_same_argv0[OF assms])
  then show "detect_writer_context env P pid = detect_writer_context env Q pid"
    by (simp only: detect_writer_context_def detect_agent_source_def)
next
  have "detect_agent_source env P pid = Some ''opencode''" if "env ''OPENCODE_SESSION_ID'' \<notin> {None, Some []}"
  proof -
    have "first_env env [''OPENCODE_SESSION_ID'', ''OPENCODE_CALL_ID''] \<noteq> None"
      using that by (auto split: option.splits)
    then show ?thesis by (simp add: detect_agent_source_def AGENT_IDENTITY_def del: first_env.simps)
  qed
  then show "env ''OPENCODE_SESSION_ID'' \<notin> {None, Some []} \<longrightarrow>
     wr_source (detect_writer_context env P pid) =
       (case first_env env [''MEMLINE_SOURCE'', ''MEM0_SOURCE'', ''AGENT_SOURCE'', ''AI_AGENT_SOURCE''] of
          None \<Rightarrow> Some ''opencode'' | Some s \<Rightarrow> Some s)"
    by (simp add: detect_writer_context_def Let_def del: first_env.simps split: option.splits)
qed

theorem attribution_content_safe_witness:
  "wr_source (detect_writer_context [''OPENCODE_SESSION_ID'' \<mapsto> ''s'', ''CLAUDECODE'' \<mapsto> ''1'']
     \<lparr>pr_status = Map.empty, pr_cmdline = (\<lambda>p. Some (''bash'' @ [CHR 0x00] @ ''codex''))\<rparr> 7) = Some ''opencode''"
proof -
  have "same_argv0 \<lparr>pr_status = Map.empty, pr_cmdline = (\<lambda>p. Some (''bash'' @ [CHR 0x00] @ ''codex''))\<rparr>
      \<lparr>pr_status = Map.empty, pr_cmdline = (\<lambda>p. Some ''bash'')\<rparr>"
    by (simp add: same_argv0_def)
  from attribution_content_safe[OF this, of "[''OPENCODE_SESSION_ID'' \<mapsto> ''s'', ''CLAUDECODE'' \<mapsto> ''1'']" 7]
  have "[''OPENCODE_SESSION_ID'' \<mapsto> ''s'', ''CLAUDECODE'' \<mapsto> ''1''] ''OPENCODE_SESSION_ID'' \<notin> {None, Some []} \<longrightarrow>
      wr_source (detect_writer_context [''OPENCODE_SESSION_ID'' \<mapsto> ''s'', ''CLAUDECODE'' \<mapsto> ''1'']
        \<lparr>pr_status = Map.empty, pr_cmdline = (\<lambda>p. Some (''bash'' @ [CHR 0x00] @ ''codex''))\<rparr> 7) =
      (case first_env [''OPENCODE_SESSION_ID'' \<mapsto> ''s'', ''CLAUDECODE'' \<mapsto> ''1'']
          [''MEMLINE_SOURCE'', ''MEM0_SOURCE'', ''AGENT_SOURCE'', ''AI_AGENT_SOURCE''] of
        None \<Rightarrow> Some ''opencode'' | Some s \<Rightarrow> Some s)"
    by (rule conjunct2)
  then show ?thesis by simp
qed

end
