(* ===== verification/Disposition.thy ===== *)
theory Disposition
  imports Client Review Writer_Context
begin

text \<open>
  Disposing suspicions from the command line: \<^verbatim>\<open>src/src/memline/cli/stale.py\<close> and the helpers it has in
  \<^verbatim>\<open>cli/_support.py\<close>. \<open>X\<close> is \<^verbatim>\<open>execute\<close> (theory \<open>Client\<close>); the operator is the record \<open>operator\<close>: the writer
  context, whether both terminals are interactive and what a prompt would be answered. \<open>pairs_up\<close> decides whether
  the pair file opens. Printing the result is left out; the commands return what they print.
\<close>

type_synonym 'q executor = "string \<Rightarrow> args \<Rightarrow> 'q daemon \<Rightarrow> (cli_error + pyval) \<times> 'q daemon"

record operator =
  op_writer :: writer
  op_tty :: bool
  op_answers_yes :: bool
  op_manual_source :: string
  op_manual_session :: string

definition actor_of :: "operator \<Rightarrow> string" where
  "actor_of who = (case wr_source (op_writer who) of Some s \<Rightarrow> if s = [] then op_manual_source who else s
                 | None \<Rightarrow> op_manual_source who)"

definition session_of :: "operator \<Rightarrow> string" where
  "session_of who = (case wr_session (op_writer who) of Some s \<Rightarrow> if s = [] then op_manual_session who else s
                   | None \<Rightarrow> op_manual_session who)"

definition cli_text :: "'q host \<Rightarrow> cli_error \<Rightarrow> string" where
  "cli_text H e = (case e of ClickError t \<Rightarrow> t | BadParameter t \<Rightarrow> t | OpFailed s \<Rightarrow> h_error H s)"

subsection \<open>Audited calls\<close>

definition span_of :: "args \<Rightarrow> args \<Rightarrow> args \<Rightarrow> audit_span" where
  "span_of inp meta sco = \<lparr>sp_input = inp, sp_metadata = meta, sp_scope = sco, sp_result = PNone\<rparr>"

definition audited_cli ::
  "'q host \<Rightarrow> moment \<Rightarrow> string \<Rightarrow> audit_span
     \<Rightarrow> (audit_span \<Rightarrow> 'q daemon \<Rightarrow> (cli_error option \<times> audit_span) \<times> 'q daemon) \<Rightarrow> 'q daemon
     \<Rightarrow> (cli_error + audit_span) \<times> 'q daemon" where
  "audited_cli H m operation sp block d =
     (case audited (h_audit H) (cli_text H) (mo_uid m) (iso_text (mo_start m)) (iso_text (mo_finish m)) (mo_ms m)
             operation sp block (d, d_audit d) of
        (r, d', lg) \<Rightarrow>
          (case r of
             Inr s \<Rightarrow> Inr s
           | Inl (BlockError e) \<Rightarrow> Inl e
           | Inl (AuditError a) \<Rightarrow> Inl (ClickError ''manifest not written''), d'\<lparr>d_audit := lg\<rparr>))"

text \<open>A block that runs one operation and records its result.\<close>

definition run_block ::
  "'q executor \<Rightarrow> string \<Rightarrow> args \<Rightarrow> audit_span \<Rightarrow> 'q daemon \<Rightarrow> (cli_error option \<times> audit_span) \<times> 'q daemon" where
  "run_block X op a sp d =
     (case X op a d of
        (Inr v, d') \<Rightarrow> ((None, sp\<lparr>sp_result := v\<rparr>), d')
      | (Inl e, d') \<Rightarrow> ((Some e, sp), d'))"

definition audited_op ::
  "'q host \<Rightarrow> moment \<Rightarrow> 'q executor \<Rightarrow> string \<Rightarrow> string \<Rightarrow> args \<Rightarrow> 'q daemon \<Rightarrow> (cli_error + pyval) \<times> 'q daemon" where
  "audited_op H m X operation op a d =
     (case audited_cli H m operation (span_of a [] []) (run_block X op a) d of
        (r, d') \<Rightarrow> (map_sum id sp_result r, d'))"

subsection \<open>\<^verbatim>\<open>cli/_support.py\<close>\<close>

definition run_invalidate ::
  "'q host \<Rightarrow> moment \<Rightarrow> 'q executor \<Rightarrow> operator \<Rightarrow> string \<Rightarrow> string list \<Rightarrow> string option \<Rightarrow> bool \<Rightarrow> 'q daemon
     \<Rightarrow> (cli_error + pyval) \<times> 'q daemon" where
  "run_invalidate H m X who memory_id by_ids reason raise_on_error d =
     (let a = [(''memory_id'', PStr memory_id), (''by_ids'', PList (map PStr by_ids)), (''reason'', opt_str reason),
               (''actor_id'', PStr (actor_of who)), (''session_id'', PStr (session_of who))];
          block = (\<lambda>sp d. case X ''invalidate'' a d of
             (Inr v, d') \<Rightarrow> ((None, sp\<lparr>sp_result := v\<rparr>), d')
           | (Inl e, d') \<Rightarrow> ((None, sp\<lparr>sp_result := PDict [(''id'', PStr memory_id), (''invalidated'', PBool False),
                                (''error'', PStr (cli_text H e))]\<rparr>), d'))
      in case audited_cli H m ''invalidate'' (span_of a [] []) block d of
           (Inl e, d') \<Rightarrow> (Inl e, d')
         | (Inr sp, d') \<Rightarrow>
             (case fst (X ''invalidate'' a d) of
                Inl e \<Rightarrow> (if raise_on_error
                          then Inl (case e of OpFailed s \<Rightarrow> ClickError (h_error H s) | _ \<Rightarrow> e) else Inr (sp_result sp))
              | Inr v \<Rightarrow> Inr (sp_result sp), d'))"

definition opt_rat :: "rat option \<Rightarrow> pyval" where
  "opt_rat x = (case x of None \<Rightarrow> PNone | Some r \<Rightarrow> PFloat r [])"

definition apply_ttl ::
  "'q host \<Rightarrow> moment \<Rightarrow> 'q executor \<Rightarrow> operator \<Rightarrow> string \<Rightarrow> rat option \<Rightarrow> bool \<Rightarrow> bool \<Rightarrow> 'q daemon
     \<Rightarrow> (cli_error + pyval) \<times> 'q daemon" where
  "apply_ttl H m X who memory_id days clear expire_now =
     audited_op H m X ''ttl'' ''set_ttl''
       [(''memory_id'', PStr memory_id), (''days'', opt_rat days), (''clear'', PBool clear),
        (''expire_now'', PBool expire_now), (''actor_id'', PStr (actor_of who))]"

definition disposition_text :: "disposition \<Rightarrow> string" where
  "disposition_text x =
     (case x of DOpen \<Rightarrow> ''open'' | DCached \<Rightarrow> ''cached'' | DConfirmed \<Rightarrow> ''confirmed'' | DDismissed \<Rightarrow> ''dismissed''
      | DMerged \<Rightarrow> ''merged'' | DTtl \<Rightarrow> ''ttl'' | DObsoleted \<Rightarrow> ''obsoleted'' | DExpired \<Rightarrow> ''expired'' | DOther t \<Rightarrow> t)"

definition load_open_pair :: "'q host \<Rightarrow> string \<Rightarrow> 'q daemon \<Rightarrow> cli_error + pair_row" where
  "load_open_pair H pair_id d =
     (if \<not> pairs_up (h_env H) then Inl (OpFailed PairsFailed)
      else case get_pair pair_id (pairs (d_world d)) of
        None \<Rightarrow> Inl (ClickError (''pair not found: '' @ pair_id))
      | Some r \<Rightarrow>
          if pr_disposition r \<noteq> DOpen
          then Inl (ClickError (''pair is not open (disposition='' @ disposition_text (pr_disposition r) @ '')''))
          else Inr r)"

definition require_disposition_authority :: "operator \<Rightarrow> pair_row \<Rightarrow> bool \<Rightarrow> string \<Rightarrow> cli_error + unit" where
  "require_disposition_authority who r force action =
     (if force then Inr ()
      else if kind_of r = TtlExpiry then Inr ()
      else if truthy_text (wr_session (op_writer who)) \<and> pr_session r = wr_session (op_writer who) then Inr ()
      else if op_tty who then
        (if op_answers_yes who then Inr ()
         else Inl (ClickError (action @ '' cancelled: cross-session confirmation declined'')))
      else Inl (ClickError (action @ '' denied: non-interactive sessions may only dispose suspicions raised by their own writes'')))"

definition put_pairs :: "pair_row list \<Rightarrow> 'q daemon \<Rightarrow> 'q daemon" where
  "put_pairs rows d = d\<lparr>d_world := (d_world d)\<lparr>pairs := rows\<rparr>\<rparr>"

definition dispose_with_rollback ::
  "string \<Rightarrow> disposition \<Rightarrow> string \<Rightarrow> time \<Rightarrow> ('q daemon \<Rightarrow> (cli_error + pyval) \<times> 'q daemon) \<Rightarrow> 'q daemon
     \<Rightarrow> (cli_error + pyval) \<times> 'q daemon" where
  "dispose_with_rollback pair_id disp actor t mutate d =
     (case mutate (put_pairs (snd (dispose pair_id disp (Some actor) t (pairs (d_world d)))) d) of
        (Inr v, d') \<Rightarrow> (Inr v, d')
      | (Inl e, d') \<Rightarrow> (Inl e, put_pairs (snd (reopen pair_id (pairs (d_world d')))) d'))"

subsection \<open>\<^verbatim>\<open>cli/stale.py\<close>\<close>

definition stale_list ::
  "(string \<Rightarrow> args option) \<Rightarrow> string option \<Rightarrow> int \<Rightarrow> 'q daemon \<Rightarrow> enriched list" where
  "stale_list fetch session limit d = enrich_pairs fetch 160 (open_pairs session None limit (pairs (d_world d)))"

definition stale_confirm ::
  "'q host \<Rightarrow> moment \<Rightarrow> 'q executor \<Rightarrow> operator \<Rightarrow> string \<Rightarrow> bool \<Rightarrow> 'q daemon \<Rightarrow> (cli_error + pyval) \<times> 'q daemon" where
  "stale_confirm H m X who pair_id force d =
     (case load_open_pair H pair_id d of
        Inl e \<Rightarrow> (Inl e, d)
      | Inr r \<Rightarrow>
          if kind_of r = Correctness
          then (Inl (ClickError ''correctness suspicions are corrected via update or closed with stale dismiss''), d)
          else case require_disposition_authority who r force ''confirm'' of
            Inl e \<Rightarrow> (Inl e, d)
          | Inr _ \<Rightarrow>
              dispose_with_rollback pair_id DConfirmed (actor_of who) (mo_start m)
                (\<lambda>d. if kind_of r = TtlExpiry then (Inr (PDict [(''expiry_accepted'', PStr (pr_old r))]), d)
                     else if kind_of r = Necessity then apply_ttl H m X who (pr_old r) None False True d
                     else run_invalidate H m X who (pr_old r) [pr_new r]
                            (if truthy_text (pr_reason r) then pr_reason r
                             else Some (''confirmed staleness suspicion '' @ pair_id)) True d) d)"

definition stale_ttl ::
  "'q host \<Rightarrow> moment \<Rightarrow> 'q executor \<Rightarrow> operator \<Rightarrow> string \<Rightarrow> rat option \<Rightarrow> 'q daemon \<Rightarrow> (cli_error + pyval) \<times> 'q daemon" where
  "stale_ttl H m X who pair_id days d =
     (case load_open_pair H pair_id d of
        Inl e \<Rightarrow> (Inl e, d)
      | Inr r \<Rightarrow>
          if kind_of r \<noteq> Necessity \<and> kind_of r \<noteq> TtlExpiry
          then (Inl (ClickError ''ttl disposition applies to necessity and ttl-expiry suspicions''), d)
          else dispose_with_rollback pair_id DTtl (actor_of who) (mo_start m)
                 (apply_ttl H m X who (pr_old r) days False False) d)"

definition stale_dismiss ::
  "'q host \<Rightarrow> moment \<Rightarrow> operator \<Rightarrow> string \<Rightarrow> bool \<Rightarrow> 'q daemon \<Rightarrow> (cli_error + pyval) \<times> 'q daemon" where
  "stale_dismiss H m who pair_id force d =
     (case load_open_pair H pair_id d of
        Inl e \<Rightarrow> (Inl e, d)
      | Inr r \<Rightarrow>
          (case require_disposition_authority who r force ''dismiss'' of
             Inl e \<Rightarrow> (Inl e, d)
           | Inr _ \<Rightarrow>
               (Inr (PDict [(''pair_id'', PStr pair_id), (''disposition'', PStr ''dismissed'')]),
                put_pairs (snd (dispose pair_id DDismissed (Some (actor_of who)) (mo_start m) (pairs (d_world d)))) d)))"

definition stale_protect ::
  "'q host \<Rightarrow> moment \<Rightarrow> 'q executor \<Rightarrow> operator \<Rightarrow> string \<Rightarrow> string \<Rightarrow> rat \<Rightarrow> string \<Rightarrow> 'q daemon
     \<Rightarrow> (cli_error + pyval) \<times> 'q daemon" where
  "stale_protect H m X who memory_id kind days reason d =
     (if kind \<noteq> ''displacement'' then (Inl (BadParameter ''--kind only supports displacement''), d)
      else if strip reason = [] then (Inl (BadParameter ''--reason must not be empty''), d)
      else if MAX_PROTECTION_REASON_CHARS < py_length (strip reason) then (Inl (BadParameter ''--reason too long''), d)
      else if days \<le> 0 \<or> MAX_DISPLACEMENT_PROTECTION_DAYS < days then (Inl (BadParameter ''--days out of range''), d)
      else audited_op H m X ''displacement_protect'' ''set_displacement_protection''
             [(''memory_id'', PStr memory_id), (''days'', PFloat days []), (''reason'', PStr (strip reason)),
              (''actor_id'', PStr (actor_of who)), (''session_id'', PStr (session_of who))] d)"

definition stale_unprotect ::
  "'q host \<Rightarrow> moment \<Rightarrow> 'q executor \<Rightarrow> operator \<Rightarrow> string \<Rightarrow> 'q daemon \<Rightarrow> (cli_error + pyval) \<times> 'q daemon" where
  "stale_unprotect H m X who memory_id =
     audited_op H m X ''displacement_unprotect'' ''clear_displacement_protection''
       [(''memory_id'', PStr memory_id), (''actor_id'', PStr (actor_of who)), (''cause'', PStr ''manual'')]"

definition stale_protected_list ::
  "'q executor \<Rightarrow> string \<Rightarrow> bool \<Rightarrow> 'q daemon \<Rightarrow> (cli_error + pyval) \<times> 'q daemon" where
  "stale_protected_list X user include_expired =
     X ''list_displacement_protections''
       [(''user_id'', PStr user), (''scan_limit'', PInt 10000), (''include_expired'', PBool include_expired)]"

subsection \<open>Only with authority\<close>

text \<open>C20: Who may dispose an open suspicion. \<^verbatim>\<open>dismiss\<close> succeeds exactly with \<^verbatim>\<open>--force\<close>, for a fired expiry, for a
  pair that the caller's own session raised (a flag about a write of its own, a correctness flag too), or when someone at a
  terminal agrees; it then marks that pair dismissed and changes nothing else. \<^verbatim>\<open>confirm\<close> asks the same, and without
  it, or for a correctness flag whoever asks, it reports an error. A refused command changes nothing.
\<close>

theorem disposition_authority:
  assumes "load_open_pair H pair_id d = Inr r"
  shows "(is_ok (fst (stale_dismiss H m who pair_id force d)) \<longleftrightarrow>
      force \<or> kind_of r = TtlExpiry \<or>
      truthy_text (wr_session (op_writer who)) \<and> pr_session r = wr_session (op_writer who) \<or>
      op_tty who \<and> op_answers_yes who) \<and>
    (if is_ok (fst (stale_dismiss H m who pair_id force d))
     then snd (stale_dismiss H m who pair_id force d) =
        put_pairs (snd (dispose pair_id DDismissed (Some (actor_of who)) (mo_start m) (pairs (d_world d)))) d
     else snd (stale_dismiss H m who pair_id force d) = d) \<and>
    (kind_of r = Correctness \<or> \<not> (force \<or> kind_of r = TtlExpiry \<or>
      truthy_text (wr_session (op_writer who)) \<and> pr_session r = wr_session (op_writer who) \<or>
      op_tty who \<and> op_answers_yes who) \<longrightarrow>
       (\<exists>e. stale_confirm H m X who pair_id force d = (Inl e, d)))"
proof -
  let ?may = "force \<or> kind_of r = TtlExpiry \<or>
      truthy_text (wr_session (op_writer who)) \<and> pr_session r = wr_session (op_writer who) \<or> op_tty who \<and> op_answers_yes who"
  have may: "require_disposition_authority who r force action = Inr ()" if ?may for action
    using that by (auto simp: require_disposition_authority_def)
  have no: "\<exists>e. require_disposition_authority who r force action = Inl e" if "\<not> ?may" for action
    using that by (auto simp: require_disposition_authority_def)
  show ?thesis
  proof (cases ?may)
    case True
    then show ?thesis using assms may by (auto simp: stale_dismiss_def stale_confirm_def is_ok_def)
  next
    case False
    obtain e1 where e1: "require_disposition_authority who r force ''confirm'' = Inl e1" using no[OF False] by blast
    obtain e2 where e2: "require_disposition_authority who r force ''dismiss'' = Inl e2" using no[OF False] by blast
    show ?thesis using assms e1 e2 False by (auto simp: stale_dismiss_def stale_confirm_def is_ok_def)
  qed
qed

definition demo_operator :: operator where
  "demo_operator = \<lparr>op_writer = \<lparr>wr_source = Some ''codex'', wr_session = Some ''mine''\<rparr>, op_tty = False,
     op_answers_yes = False, op_manual_source = ''manual'', op_manual_session = ''manual-session''\<rparr>"

definition demo_pair :: pair_row where
  "demo_pair = \<lparr>pr_id = ''p'', pr_kind = Displacement, pr_new = ''b'', pr_old = ''a'', pr_hash = ''h'',
      pr_verdict = ''SUPERSEDED'', pr_confidence = Some 1, pr_reason = None, pr_judged_at = ''1'', pr_model = None,
      pr_session = Some ''other'', pr_disposition = DOpen, pr_disposed_by = None, pr_disposed_at = None\<rparr>"

definition disputed :: "(string \<times> payload) list daemon" where
  "disputed = demo_daemon\<lparr>d_world := (demo_world two_memories)\<lparr>pairs := [demo_pair]\<rparr>\<rparr>"

lemma disputed_pair: "get_pair ''p'' (pairs (d_world disputed)) = Some demo_pair"
  by (simp add: disputed_def get_pair_def lookup_row_def demo_pair_def)

theorem disposition_authority_witness:
  "\<not> is_ok (fst (stale_dismiss demo_process demo_moment demo_operator ''p'' False disputed)) \<and>
   is_ok (fst (stale_dismiss demo_process demo_moment demo_operator ''p'' True disputed))"
proof -
  have "load_open_pair demo_process ''p'' disputed = Inr demo_pair"
    using disputed_pair by (simp add: load_open_pair_def demo_process_def) (simp add: demo_pair_def)
  note law = disposition_authority[OF this, THEN conjunct1, of demo_moment demo_operator]
  show ?thesis unfolding law by (simp add: demo_operator_def kind_of_def demo_pair_def)
qed

subsection \<open>A disposition and its mutation stand or fall together\<close>

text \<open>The direct path as an executor.\<close>

definition direct :: "'q host \<Rightarrow> moment \<Rightarrow> 'q executor" where
  "direct H m op a d =
     (case run_op H m op a (d_world d) of (r, w) \<Rightarrow> (map_sum OpFailed (h_value H) r, d\<lparr>d_world := w\<rparr>))"

lemma map_sum_Inl_iff: "map_sum f g x = Inl y \<longleftrightarrow> (\<exists>z. x = Inl z \<and> y = f z)"
  by (cases x) auto

lemma returning_Inl: "returning c r = (Inl e, w) \<longleftrightarrow> r = (Inl e, w)"
  by (cases r; cases "fst r") (auto simp: returning_def after_def)

lemma invalidate_error_unchanged:
  "pairs_up E \<Longrightarrow> invalidate E mid bs rs ac se now t w = (Inl e, w') \<Longrightarrow> w' = w"
  by (auto simp: invalidate_def with_pairs_def try_history_def Let_def split: sum.splits option.splits prod.splits if_splits)

lemma set_ttl_error_unchanged: "set_ttl E mid rq ac now t tc w = (Inl e, w') \<Longrightarrow> w' = w"
  by (auto simp: set_ttl_def Let_def split: option.splits sum.splits)

lemma dispatch_invalidate: "dispatch E B T ''invalidate'' a w = op_invalidate E B T a w"
  by (simp add: dispatch_def OPS_def quick_def)

lemma dispatch_set_ttl: "dispatch E B T ''set_ttl'' a w = op_set_ttl E B T a w"
  by (simp add: dispatch_def OPS_def quick_def)

lemma direct_error_unchanged:
  assumes "pairs_up (h_env H)" "op \<in> {''invalidate'', ''set_ttl''}" "direct H m op a d = (Inl e, d')"
  shows "d' = d"
proof -
  have "snd (run_op H m op a (d_world d)) = d_world d"
    if "run_op H m op a (d_world d) = (Inl e', w')" for e' w'
    using assms(2) that
    by (auto simp: dispatch_invalidate dispatch_set_ttl op_invalidate_def op_set_ttl_def given_def returning_Inl
        ttl_clocks_def split: sum.splits
        dest: invalidate_error_unchanged[OF assms(1)] set_ttl_error_unchanged)
  with assms(3) show ?thesis
    by (auto simp: direct_def map_sum_Inl_iff split: prod.splits)
qed

lemma audited_cli_world:
  assumes "manifest_up (h_audit H)" "block sp d = ((failure, sp'), d1)"
  shows "\<exists>lg. audited_cli H m operation sp block d =
    (case failure of Some e \<Rightarrow> Inl e | None \<Rightarrow> Inr sp', d1\<lparr>d_audit := lg\<rparr>)"
  using assms by (cases failure) (auto simp: audited_cli_def audited_def append_live_audit_def Let_def)

lemma audited_op_world:
  assumes "manifest_up (h_audit H)" "X op a d = (r, d1)"
  shows "\<exists>lg. audited_op H m X operation op a d = (r, d1\<lparr>d_audit := lg\<rparr>)"
proof -
  let ?fail = "case r of Inl e \<Rightarrow> Some e | Inr _ \<Rightarrow> None"
  let ?sp = "case r of Inl e \<Rightarrow> span_of a [] [] | Inr v \<Rightarrow> (span_of a [] [])\<lparr>sp_result := v\<rparr>"
  have "run_block X op a (span_of a [] []) d = ((?fail, ?sp), d1)"
    using assms(2) by (simp add: run_block_def split: sum.splits)
  from audited_cli_world[where block = "run_block X op a" and sp = "span_of a [] []", OF assms(1) this, of m operation] show ?thesis
    by (auto simp: audited_op_def split: sum.splits)
qed

definition invalidate_args :: "operator \<Rightarrow> string \<Rightarrow> string list \<Rightarrow> string option \<Rightarrow> args" where
  "invalidate_args who mid bs reason =
     [(''memory_id'', PStr mid), (''by_ids'', PList (map PStr bs)), (''reason'', opt_str reason),
      (''actor_id'', PStr (actor_of who)), (''session_id'', PStr (session_of who))]"

lemma run_invalidate_world:
  assumes "manifest_up (h_audit H)" "X ''invalidate'' (invalidate_args who mid bs reason) d = (r, d1)"
  shows "\<exists>lg r'. run_invalidate H m X who mid bs reason True d = (r', d1\<lparr>d_audit := lg\<rparr>) \<and> is_ok r' = is_ok r"
proof -
  let ?a = "invalidate_args who mid bs reason"
  let ?block = "\<lambda>sp d. case X ''invalidate'' ?a d of
             (Inr v, d') \<Rightarrow> ((None :: cli_error option, sp\<lparr>sp_result := v\<rparr>), d')
           | (Inl e, d') \<Rightarrow> ((None, sp\<lparr>sp_result := PDict [(''id'', PStr mid), (''invalidated'', PBool False),
                                (''error'', PStr (cli_text H e))]\<rparr>), d')"
  obtain sp' where "?block (span_of ?a [] []) d = ((None, sp'), d1)"
    using assms(2) by (cases r) auto
  from audited_cli_world[where block = ?block and sp = "span_of ?a [] []", OF assms(1) this, of m "''invalidate''"]
  obtain lg where "audited_cli H m ''invalidate'' (span_of ?a [] []) ?block d = (Inr sp', d1\<lparr>d_audit := lg\<rparr>)"
    by auto
  then have "run_invalidate H m X who mid bs reason True d =
      (case r of Inl e \<Rightarrow> Inl (case e of OpFailed s \<Rightarrow> ClickError (h_error H s) | _ \<Rightarrow> e) | Inr v \<Rightarrow> Inr (sp_result sp'),
       d1\<lparr>d_audit := lg\<rparr>)"
    using assms(2) unfolding run_invalidate_def Let_def invalidate_args_def[symmetric]
    by (cases r) simp_all
  then show ?thesis by (cases r) auto
qed

lemma d_world_audit [simp]: "d_world (d\<lparr>d_audit := lg\<rparr>) = d_world d"
  by simp

text \<open>What confirming runs after the pair is disposed.\<close>

definition confirm_mutation ::
  "'q host \<Rightarrow> moment \<Rightarrow> 'q executor \<Rightarrow> operator \<Rightarrow> string \<Rightarrow> pair_row \<Rightarrow> 'q daemon \<Rightarrow> (cli_error + pyval) \<times> 'q daemon" where
  "confirm_mutation H m X who pair_id r d =
     (if kind_of r = TtlExpiry then (Inr (PDict [(''expiry_accepted'', PStr (pr_old r))]), d)
      else if kind_of r = Necessity then apply_ttl H m X who (pr_old r) None False True d
      else run_invalidate H m X who (pr_old r) [pr_new r]
             (if truthy_text (pr_reason r) then pr_reason r
              else Some (''confirmed staleness suspicion '' @ pair_id)) True d)"

lemma stale_confirm_eq:
  "stale_confirm H m X who pair_id force d =
     (case load_open_pair H pair_id d of
        Inl e \<Rightarrow> (Inl e, d)
      | Inr r \<Rightarrow>
          if kind_of r = Correctness
          then (Inl (ClickError ''correctness suspicions are corrected via update or closed with stale dismiss''), d)
          else case require_disposition_authority who r force ''confirm'' of
            Inl e \<Rightarrow> (Inl e, d)
          | Inr _ \<Rightarrow> dispose_with_rollback pair_id DConfirmed (actor_of who) (mo_start m)
                       (confirm_mutation H m X who pair_id r) d)"
  unfolding stale_confirm_def confirm_mutation_def[abs_def] by simp

lemma load_open_pair_Inr:
  "load_open_pair H pair_id d = Inr r \<longleftrightarrow>
     pairs_up (h_env H) \<and> get_pair pair_id (pairs (d_world d)) = Some r \<and> pr_disposition r = DOpen"
  by (auto simp: load_open_pair_def split: option.splits)

lemma stale_confirm_cases:
  assumes "stale_confirm H m X who pair_id force d = (res, d')"
  shows "(d' = d \<and> (\<exists>e. res = Inl e)) \<or>
    (\<exists>r. pairs_up (h_env H) \<and> get_pair pair_id (pairs (d_world d)) = Some r \<and> pr_disposition r = DOpen \<and>
      dispose_with_rollback pair_id DConfirmed (actor_of who) (mo_start m) (confirm_mutation H m X who pair_id r) d = (res, d'))"
  using assms
  by (cases "load_open_pair H pair_id d")
    (auto simp: stale_confirm_eq load_open_pair_Inr split: if_splits sum.splits)

lemma confirm_mutation_error:
  assumes "manifest_up (h_audit H)" "pairs_up (h_env H)"
    "confirm_mutation H m (direct H m) who pair_id r d = (Inl e, d')"
  shows "d_world d' = d_world d"
proof (cases "kind_of r = Necessity")
  case True
  let ?a = "[(''memory_id'', PStr (pr_old r)), (''days'', opt_rat None), (''clear'', PBool False),
        (''expire_now'', PBool True), (''actor_id'', PStr (actor_of who))]"
  obtain x d1 where X: "direct H m ''set_ttl'' ?a d = (x, d1)" by force
  obtain lg where "confirm_mutation H m (direct H m) who pair_id r d = (x, d1\<lparr>d_audit := lg\<rparr>)"
    using audited_op_world[where X = "direct H m" and op = "''set_ttl''" and a = ?a, OF assms(1) X, of m "''ttl''"] True
    by (auto simp: confirm_mutation_def apply_ttl_def)
  with assms(3) X show ?thesis
    using direct_error_unchanged[OF assms(2), of "''set_ttl''" m ?a d] by auto
next
  case False
  let ?rs = "if truthy_text (pr_reason r) then pr_reason r else Some (''confirmed staleness suspicion '' @ pair_id)"
  obtain x d1 where X: "direct H m ''invalidate'' (invalidate_args who (pr_old r) [pr_new r] ?rs) d = (x, d1)" by force
  obtain lg x' where run: "run_invalidate H m (direct H m) who (pr_old r) [pr_new r] ?rs True d = (x', d1\<lparr>d_audit := lg\<rparr>)"
      "is_ok x' = is_ok x"
    using run_invalidate_world[where X = "direct H m" and bs = "[pr_new r]" and reason = ?rs and who = who
      and mid = "pr_old r", OF assms(1) X, of m] by blast
  show ?thesis
  proof (cases x)
    case (Inl e')
    with X have "d1 = d" using direct_error_unchanged[OF assms(2), of "''invalidate''"] by auto
    with run False assms(3) show ?thesis by (auto simp: confirm_mutation_def split: if_splits)
  next
    case (Inr v)
    with run False assms(3) show ?thesis by (auto simp: confirm_mutation_def split: if_splits)
  qed
qed

lemma d_world_put [simp]: "d_world (put_pairs rows d) = (d_world d)\<lparr>pairs := rows\<rparr>"
  by (simp add: put_pairs_def)

definition unmarked :: "pair_row list \<Rightarrow> bool" where
  "unmarked rows \<longleftrightarrow> distinct (map pr_id rows) \<and>
     (\<forall>r \<in> set rows. pr_disposition r = DOpen \<longrightarrow> pr_disposed_by r = None \<and> pr_disposed_at r = None)"

lemma rollback_restores:
  assumes "unmarked rows" "get_pair pid rows = Some r" "pr_disposition r = DOpen" "reopenable x"
  shows "snd (reopen pid (snd (dispose pid x by_whom t rows))) = rows"
proof -
  have r: "r \<in> set rows" "pr_id r = pid"
    using assms(2) lookup_row_Some[of pr_id pid rows r] by (simp_all add: get_pair_def)
  have "valid_disposal x" using assms(4) by (auto simp: reopenable_def valid_disposal_def)
  with dispose_reopen_facts[of rows r x by_whom t] r assms show ?thesis
    by (auto simp: unmarked_def)
qed

text \<open>C25: In this process, confirming is all or nothing. When the command runs its operations itself, the manifest can be
  written and the pair file opens now as it does later, a confirmation that reports an error leaves the memories, their
  history and the evidence exactly as they were, the pair open and reviewable included. (Through the daemon an answer that
  is lost can turn a mutation that did run into an error, after which the pair is open again.)
\<close>

theorem confirm_all_or_nothing:
  assumes "manifest_up (h_audit H)" "unmarked (pairs (d_world d))"
    and "stale_confirm H m (direct H m) who pair_id force d = (Inl e, d')"
  shows "d_world d' = d_world d"
proof -
  consider "d' = d" | r where "pairs_up (h_env H)" "get_pair pair_id (pairs (d_world d)) = Some r"
      "pr_disposition r = DOpen"
      "dispose_with_rollback pair_id DConfirmed (actor_of who) (mo_start m)
         (confirm_mutation H m (direct H m) who pair_id r) d = (Inl e, d')"
    using stale_confirm_cases[OF assms(3)] by blast
  then show ?thesis
  proof cases
    case 2
    let ?rows = "snd (dispose pair_id DConfirmed (Some (actor_of who)) (mo_start m) (pairs (d_world d)))"
    obtain r1 d2 where mut: "confirm_mutation H m (direct H m) who pair_id r (put_pairs ?rows d) = (r1, d2)" by force
    with 2(4) obtain e1 where r1: "r1 = Inl e1" "d' = put_pairs (snd (reopen pair_id (pairs (d_world d2)))) d2"
      by (cases r1) (auto simp: dispose_with_rollback_def)
    have "d_world d2 = (d_world d)\<lparr>pairs := ?rows\<rparr>"
      using confirm_mutation_error[OF assms(1) 2(1) mut[unfolded r1(1)]] by simp
    moreover have "snd (reopen pair_id ?rows) = pairs (d_world d)"
      using rollback_restores[OF assms(2) 2(2,3), of DConfirmed] by (simp add: reopenable_def)
    ultimately show ?thesis using r1(2) by simp
  qed simp
qed

definition orphaned :: "(string \<times> payload) list daemon" where
  "orphaned = demo_daemon\<lparr>d_world := (demo_world [])\<lparr>pairs := [demo_pair]\<rparr>\<rparr>"

lemma invalidate_missing:
  "payload_at E w ''a'' = None \<Longrightarrow> invalidate E ''a'' [''b''] rs ac se now t w = (Inl (MemoryNotFound ''a''), w)"
  by (simp add: invalidate_def invalidate_check_def clean_ids_def)

lemma op_invalidate_args:
  "op_invalidate E B T (invalidate_args who mid [b] reason) w =
     returning RInvalidation (invalidate E mid [b] reason (Some (actor_of who)) (Some (session_of who))
       (iso_text (T 0)) (T 1) w)"
  by (simp add: op_invalidate_def given_def invalidate_args_def required_str_def required_ids_def
      optional_str_def opt_str_def split: option.splits)

lemma orphan_invalidate:
  "fst (direct demo_process demo_moment ''invalidate'' (invalidate_args who ''a'' [''b''] reason)
     (put_pairs rows orphaned)) = Inl (OpFailed (MemoryNotFound ''a''))"
proof -
  have env: "h_env demo_process = demo_env" by (simp add: demo_process_def)
  have "payload_at demo_env (d_world (put_pairs rows orphaned)) ''a'' = None" by (simp add: orphaned_def)
  then show ?thesis
    by (simp add: direct_def dispatch_invalidate op_invalidate_args env invalidate_missing returning_def after_def
        split: prod.splits)
qed

theorem confirm_all_or_nothing_witness:
  "\<exists>e d'. stale_confirm demo_process demo_moment (direct demo_process demo_moment) demo_operator ''p'' True orphaned =
     (Inl e, d') \<and> d_world d' = d_world orphaned"
proof -
  let ?X = "direct demo_process demo_moment" and ?m = demo_moment
  let ?d = "put_pairs (snd (dispose ''p'' DConfirmed (Some (actor_of demo_operator)) (mo_start ?m) [demo_pair])) orphaned"
  let ?rs = "Some (''confirmed staleness suspicion '' @ ''p'')"
  obtain x d1 where X: "?X ''invalidate'' (invalidate_args demo_operator ''a'' [''b''] ?rs) ?d = (x, d1)" by force
  have "fst (x, d1) = Inl (OpFailed (MemoryNotFound ''a''))"
    by (subst X [symmetric]) (rule orphan_invalidate)
  then have "\<not> is_ok x" by (simp add: is_ok_def)
  have up: "manifest_up (h_audit demo_process)" by (simp add: demo_process_def demo_host_def)
  obtain lg r' where run: "run_invalidate demo_process ?m ?X demo_operator ''a'' [''b''] ?rs True ?d = (r', d1\<lparr>d_audit := lg\<rparr>)"
      "is_ok r' = is_ok x"
    using run_invalidate_world[where X = ?X and bs = "[''b'']" and reason = ?rs and who = demo_operator
      and mid = "''a''", OF up X, of ?m] by blast
  with \<open>\<not> is_ok x\<close> obtain e where e: "r' = Inl e" by (cases r') auto
  have "confirm_mutation demo_process ?m ?X demo_operator ''p'' demo_pair ?d = (Inl e, d1\<lparr>d_audit := lg\<rparr>)"
    using run(1) e by (simp add: confirm_mutation_def kind_of_def demo_pair_def truthy_text_def)
  moreover have "load_open_pair demo_process ''p'' orphaned = Inr demo_pair"
    by (simp add: load_open_pair_def orphaned_def get_pair_def lookup_row_def demo_process_def) (simp add: demo_pair_def)
  moreover have "kind_of demo_pair \<noteq> Correctness" by (simp add: kind_of_def demo_pair_def)
  moreover have "pairs (d_world orphaned) = [demo_pair]" by (simp add: orphaned_def)
  ultimately obtain d' where c: "stale_confirm demo_process ?m ?X demo_operator ''p'' True orphaned = (Inl e, d')"
    by (simp add: stale_confirm_eq require_disposition_authority_def dispose_with_rollback_def)
  have "unmarked (pairs (d_world orphaned))" by (simp add: unmarked_def orphaned_def demo_pair_def)
  from confirm_all_or_nothing[OF up this c] c show ?thesis by auto
qed

end
