(* ===== verification/Endpoints.thy ===== *)
theory Endpoints
  imports Writer_Context Bridge_Queue
begin

text \<open>
  Which model answers a call: \<^verbatim>\<open>src/src/memline/config.py\<close> resolves the endpoints of a job, \<^verbatim>\<open>llm.py\<close> calls
  them in order, \<^verbatim>\<open>runtime.py\<close> builds the configuration of mem0. A TOML table is an object; the table \<^verbatim>\<open>[llm]\<close>
  is an argument. The environment and the reading of a credential file are arguments, and so are
  \<open>build\<close>, which makes the client of an endpoint, and \<open>send\<close>, which sends it a conversation; their errors are
  the texts of the exceptions.
\<close>

subsection \<open>Sections and values\<close>

definition config_section :: "args \<Rightarrow> string \<Rightarrow> args" where
  "config_section config name = (case aget config name of PDict d \<Rightarrow> d | _ \<Rightarrow> [])"

definition config_value :: "args \<Rightarrow> string \<Rightarrow> string \<Rightarrow> pyval \<Rightarrow> pyval" where
  "config_value config name key dflt = (case map_of (config_section config name) key of None \<Rightarrow> dflt | Some v \<Rightarrow> v)"

definition stated :: "args \<Rightarrow> string \<Rightarrow> bool" where
  "stated d k \<longleftrightarrow> map_of d k \<noteq> None"

definition LLM_JOBS :: "string list" where
  "LLM_JOBS = [''infer'', ''rerank'', ''judge'', ''profile'', ''draft'', ''review'']"

definition ENDPOINT_FIELDS :: "string list" where
  "ENDPOINT_FIELDS =
     [''model'', ''base_url'', ''api_key_env'', ''api_key_json'', ''api_key_json_path'', ''site_url'',
      ''app_name'', ''stream'', ''extra_body'']"

definition KNOB_FIELDS :: "string list" where
  "KNOB_FIELDS = [''max_tokens'', ''attempts_per_endpoint'', ''timeout'', ''backoff'']"

subsection \<open>The endpoints of a job\<close>

datatype config_error =
    UnknownJob string
  | MissingIdentity string "string list"
  | FallbackCredential string
  | BadFallback

definition fields_of :: "string list \<Rightarrow> args \<Rightarrow> args \<Rightarrow> args" where
  "fields_of keys raw inherit =
     List.map_filter (\<lambda>k. case map_of raw k of Some v \<Rightarrow> Some (k, v)
                       | None \<Rightarrow> map_option (Pair k) (map_of inherit k)) keys"

definition endpoint_spec :: "args \<Rightarrow> string \<Rightarrow> args \<Rightarrow> config_error + args" where
  "endpoint_spec raw name inherit =
     (if name \<noteq> ''primary'' \<and> \<not> stated raw ''api_key_env'' \<and> \<not> stated raw ''api_key_json''
      then Inl (FallbackCredential name)
      else Inr ((''name'', PStr name) # fields_of ENDPOINT_FIELDS raw inherit))"

definition require_identity :: "args \<Rightarrow> string \<Rightarrow> config_error + args" where
  "require_identity spec place =
     (let missing = filter (\<lambda>k. \<not> truthy (aget spec k)) [''model'', ''base_url''] @
            (if truthy (aget spec ''api_key_env'') \<or> truthy (aget spec ''api_key_json'') then []
             else [''api_key_env or api_key_json''])
      in if missing = [] then Inr spec else Inl (MissingIdentity place missing))"

text \<open>\<^verbatim>\<open>[llm]\<close> merged with the job's own table.\<close>

definition blocked_keys :: "args \<Rightarrow> args \<Rightarrow> string list" where
  "blocked_keys llm chosen =
     map fst (filter (\<lambda>(k, v). (case v of PDict _ \<Rightarrow> True | _ \<Rightarrow> False) \<and> k \<noteq> ''fallback'' \<and> k \<noteq> ''extra_body'') llm)
     @ [''fallback'']
     @ (if stated chosen ''api_key_env'' \<or> stated chosen ''api_key_json''
        then [''api_key_env'', ''api_key_json'', ''api_key_json_path''] else [])"

definition resolve_job_table :: "args \<Rightarrow> string option \<Rightarrow> config_error + args" where
  "resolve_job_table llm job =
     (case job of
        None \<Rightarrow> Inr llm
      | Some j \<Rightarrow>
          if j \<notin> set LLM_JOBS then Inl (UnknownJob j)
          else (case aget llm j of
              PDict chosen \<Rightarrow>
                Inr (filter (\<lambda>(k, v). \<not> stated chosen k \<and> k \<notin> set (blocked_keys llm chosen)) llm @ chosen)
            | _ \<Rightarrow> Inr llm))"

definition llm_knobs :: "args \<Rightarrow> string option \<Rightarrow> config_error + args" where
  "llm_knobs llm job = map_sum id (\<lambda>table. fields_of KNOB_FIELDS table []) (resolve_job_table llm job)"

definition place_of :: "string option \<Rightarrow> string" where
  "place_of job = (case job of None \<Rightarrow> ''llm'' | Some j \<Rightarrow> if j = [] then ''llm'' else ''llm.'' @ j)"

definition fallback_name :: "nat \<Rightarrow> nat \<Rightarrow> string" where
  "fallback_name many i = (if many = 1 then ''fallback'' else ''fallback'' @ show_nat (i + 1))"

definition raw_fallbacks :: "pyval \<Rightarrow> config_error + pyval list" where
  "raw_fallbacks v =
     (if \<not> truthy v then Inr []
      else case v of PDict d \<Rightarrow> Inr [PDict d] | PList vs \<Rightarrow> Inr vs | _ \<Rightarrow> Inl BadFallback)"

fun fallback_specs :: "string \<Rightarrow> args \<Rightarrow> nat \<Rightarrow> nat \<Rightarrow> pyval list \<Rightarrow> config_error + args list" where
  "fallback_specs place inherit many i [] = Inr []"
| "fallback_specs place inherit many i (raw # raws) =
     (case raw of
        PDict r \<Rightarrow>
          and_then (endpoint_spec r (fallback_name many i) inherit) (\<lambda>s.
          and_then (require_identity s (place @ ''.'' @ fallback_name many i)) (\<lambda>s.
          and_then (fallback_specs place inherit many (i + 1) raws) (\<lambda>ss. Inr (s # ss))))
      | _ \<Rightarrow> Inl BadFallback)"

definition llm_endpoint_specs :: "args \<Rightarrow> string option \<Rightarrow> config_error + args list" where
  "llm_endpoint_specs llm job =
     and_then (resolve_job_table llm job) (\<lambda>table.
     and_then (endpoint_spec table ''primary'' []) (\<lambda>spec.
     and_then (require_identity spec (place_of job)) (\<lambda>primary.
     and_then (raw_fallbacks (aget table ''fallback'')) (\<lambda>raws.
     and_then (fallback_specs (place_of job) (fields_of [''site_url'', ''app_name''] primary [])
                 (length raws) 0 raws) (\<lambda>specs.
     Inr (primary # specs))))))"

subsection \<open>Credentials\<close>

record endpoint =
  ep_name :: pyval
  ep_model :: pyval
  ep_base_url :: pyval
  ep_key_env :: pyval
  ep_key_json :: pyval
  ep_key_path :: pyval
  ep_site :: pyval
  ep_app :: pyval
  ep_stream :: pyval
  ep_extra :: pyval

definition spec_value :: "args \<Rightarrow> string \<Rightarrow> pyval \<Rightarrow> pyval" where
  "spec_value spec k dflt = (case map_of spec k of None \<Rightarrow> dflt | Some v \<Rightarrow> v)"

text \<open>\<^verbatim>\<open>Endpoint(**spec)\<close>.\<close>

definition endpoint_of :: "args \<Rightarrow> endpoint" where
  "endpoint_of spec =
     \<lparr>ep_name = aget spec ''name'', ep_model = aget spec ''model'', ep_base_url = aget spec ''base_url'',
      ep_key_env = aget spec ''api_key_env'', ep_key_json = aget spec ''api_key_json'',
      ep_key_path = aget spec ''api_key_json_path'', ep_site = aget spec ''site_url'',
      ep_app = aget spec ''app_name'', ep_stream = spec_value spec ''stream'' (PBool False),
      ep_extra = spec_value spec ''extra_body'' (PDict [])\<rparr>"

datatype read_failure = Unreadable string | NotJson string

datatype key_error = CannotRead string | NoKeyPath string string | NoCredential | KeyFileNotJson string

fun follow_path :: "string list \<Rightarrow> pyval \<Rightarrow> pyval option" where
  "follow_path [] v = Some v"
| "follow_path (part # parts) v =
     (if part = [] then follow_path parts v
      else case v of
        PDict d \<Rightarrow> (case map_of d part of None \<Rightarrow> None | Some v' \<Rightarrow> follow_path parts v')
      | _ \<Rightarrow> None)"

definition api_key :: "environ \<Rightarrow> (string \<Rightarrow> read_failure + pyval) \<Rightarrow> endpoint \<Rightarrow> key_error + string" where
  "api_key env load e =
     (let from_env = (if truthy (ep_key_env e) then env (py_str (ep_key_env e)) else None) in
      case from_env of
        Some (c # cs) \<Rightarrow> Inr (c # cs)
      | _ \<Rightarrow>
          if \<not> truthy (ep_key_json e) then Inl NoCredential
          else let path = py_str (ep_key_json e) in
            case load path of
              Inl (Unreadable t) \<Rightarrow> Inl (CannotRead t)
            | Inl (NotJson t) \<Rightarrow> Inl (KeyFileNotJson t)
            | Inr v \<Rightarrow>
                (case follow_path (split_by (\<lambda>c. c = CHR ''.'') (str_or_empty (ep_key_path e))) v of
                   None \<Rightarrow> Inl (NoKeyPath path (str_or_empty (ep_key_path e)))
                 | Some (PStr (c # cs)) \<Rightarrow> Inr (c # cs)
                 | Some _ \<Rightarrow> Inl NoCredential))"

definition require_llm_api_key ::
  "environ \<Rightarrow> (string \<Rightarrow> read_failure + pyval) \<Rightarrow> args \<Rightarrow> string \<Rightarrow> (config_error + key_error) + unit" where
  "require_llm_api_key env load llm job =
     (case llm_endpoint_specs llm (Some job) of
        Inl e \<Rightarrow> Inl (Inl e)
      | Inr specs \<Rightarrow> (case api_key env load (endpoint_of (hd specs)) of Inl e \<Rightarrow> Inl (Inr e) | Inr _ \<Rightarrow> Inr ()))"

subsection \<open>Calls\<close>

record 'c chain =
  ch_endpoints :: "endpoint list"
  ch_tokens :: nat
  ch_llms :: "pyval \<Rightarrow> 'c option"
  ch_active :: pyval

definition new_chain :: "endpoint list \<Rightarrow> nat \<Rightarrow> 'c chain option" where
  "new_chain es n =
     (case es of
        [] \<Rightarrow> None
      | e # _ \<Rightarrow> Some \<lparr>ch_endpoints = es, ch_tokens = n, ch_llms = (\<lambda>_. None), ch_active = ep_model e\<rparr>)"

definition build_llm :: "args \<Rightarrow> nat \<Rightarrow> string \<Rightarrow> config_error + 'c chain" where
  "build_llm llm n job =
     and_then (llm_endpoint_specs llm (Some job)) (\<lambda>specs.
       case new_chain (map endpoint_of specs) n of None \<Rightarrow> Inl BadFallback | Some ch \<Rightarrow> Inr ch)"

definition is_empty_answer :: "pyval \<Rightarrow> bool" where
  "is_empty_answer v = (case v of PNone \<Rightarrow> True | PStr s \<Rightarrow> strip s = [] | _ \<Rightarrow> False)"

definition llm_for ::
  "(endpoint \<Rightarrow> nat \<Rightarrow> string + 'c) \<Rightarrow> endpoint \<Rightarrow> 'c chain \<Rightarrow> (string + 'c) \<times> 'c chain" where
  "llm_for build e ch =
     (case ch_llms ch (ep_name e) of
        Some c \<Rightarrow> (Inr c, ch)
      | None \<Rightarrow>
          (case build e (ch_tokens ch) of
             Inl t \<Rightarrow> (Inl t, ch)
           | Inr c \<Rightarrow> (Inr c, ch\<lparr>ch_llms := (ch_llms ch)(ep_name e \<mapsto> c)\<rparr>)))"

text \<open>\<^verbatim>\<open>dict.update\<close>.\<close>

definition dict_update :: "args \<Rightarrow> args \<Rightarrow> args" where
  "dict_update d e = fold (\<lambda>(k, v) d. aset k v d) e d"

definition as_dict :: "pyval \<Rightarrow> args" where
  "as_dict v = (case v of PDict d \<Rightarrow> d | _ \<Rightarrow> [])"

definition call_kwargs :: "endpoint \<Rightarrow> args \<Rightarrow> args" where
  "call_kwargs e kw =
     (if truthy (ep_extra e)
      then aset ''extra_body'' (PDict (dict_update (as_dict (ep_extra e)) (as_dict (aget kw ''extra_body'')))) kw
      else kw)"

definition failure_line :: "endpoint \<Rightarrow> string \<Rightarrow> string" where
  "failure_line e t = py_str (ep_name e) @ ''('' @ py_str (ep_model e) @ ''): '' @ t"

fun try_endpoints ::
  "(endpoint \<Rightarrow> nat \<Rightarrow> string + 'c) \<Rightarrow> ('c \<Rightarrow> pyval \<Rightarrow> args \<Rightarrow> string + pyval) \<Rightarrow> pyval \<Rightarrow> args
     \<Rightarrow> endpoint list \<Rightarrow> string list \<Rightarrow> 'c chain \<Rightarrow> (string list + pyval) \<times> 'c chain" where
  "try_endpoints build send msgs kw [] errors ch = (Inl errors, ch)"
| "try_endpoints build send msgs kw (e # es) errors ch =
     (case llm_for build e ch of (client, ch1) \<Rightarrow>
      case and_then client (\<lambda>c. send c msgs (call_kwargs e kw)) of
        Inl t \<Rightarrow> try_endpoints build send msgs kw es (errors @ [failure_line e t])
                  (ch1\<lparr>ch_llms := (ch_llms ch1)(ep_name e := None)\<rparr>)
      | Inr v \<Rightarrow>
          if is_empty_answer v
          then try_endpoints build send msgs kw es (errors @ [failure_line e ''empty response'']) ch1
          else (Inr v, ch1\<lparr>ch_active := ep_model e\<rparr>))"

definition generate_response ::
  "(endpoint \<Rightarrow> nat \<Rightarrow> string + 'c) \<Rightarrow> ('c \<Rightarrow> pyval \<Rightarrow> args \<Rightarrow> string + pyval) \<Rightarrow> pyval \<Rightarrow> args
     \<Rightarrow> 'c chain \<Rightarrow> (string + pyval) \<times> 'c chain" where
  "generate_response build send msgs kw ch =
     (case try_endpoints build send msgs kw (ch_endpoints ch) [] ch of
        (Inl errors, ch') \<Rightarrow> (Inl (''all llm endpoints failed: '' @ join '' | '' errors), ch')
      | (Inr v, ch') \<Rightarrow> (Inr v, ch'))"

subsection \<open>Identity is stated, never guessed\<close>

lemma map_of_fields:
  "map_of (fields_of keys raw inh) k =
     (if k \<in> set keys then (case map_of raw k of Some v \<Rightarrow> Some v | None \<Rightarrow> map_of inh k) else None)"
  by (induction keys) (auto simp: fields_of_def List.map_filter_simps split: option.splits)

lemma aget_fields:
  "aget (fields_of keys raw inh) k =
     (if k \<in> set keys then (case map_of raw k of Some v \<Rightarrow> v | None \<Rightarrow> aget inh k) else PNone)"
  by (simp add: aget_def map_of_fields split: option.splits)

lemma endpoint_spec_Inr:
  "endpoint_spec raw name inh = Inr s \<longleftrightarrow>
     (name = ''primary'' \<or> stated raw ''api_key_env'' \<or> stated raw ''api_key_json'') \<and>
     s = (''name'', PStr name) # fields_of ENDPOINT_FIELDS raw inh"
  by (auto simp: endpoint_spec_def)

definition identified :: "args \<Rightarrow> bool" where
  "identified s \<longleftrightarrow> truthy (aget s ''model'') \<and> truthy (aget s ''base_url'') \<and>
     (truthy (aget s ''api_key_env'') \<or> truthy (aget s ''api_key_json''))"

lemma require_identity_Inr: "require_identity s place = Inr s' \<longleftrightarrow> s' = s \<and> identified s"
  by (auto simp: require_identity_def identified_def Let_def filter_empty_conv)

definition CREDENTIAL :: "string list" where
  "CREDENTIAL = [''api_key_env'', ''api_key_json'', ''api_key_json_path'']"

definition names_credential :: "args \<Rightarrow> bool" where
  "names_credential own \<longleftrightarrow> stated own ''api_key_env'' \<or> stated own ''api_key_json''"

definition is_table :: "pyval \<Rightarrow> bool" where
  "is_table v = (case v of PDict _ \<Rightarrow> True | _ \<Rightarrow> False)"

lemma fallback_specs_each:
  "fallback_specs place inh many i raws = Inr specs \<Longrightarrow>
   list_all2 (\<lambda>raw s. \<exists>r. raw = PDict r \<and> identified s \<and> (stated r ''api_key_env'' \<or> stated r ''api_key_json'') \<and>
     (\<exists>name. s = (''name'', PStr name) # fields_of ENDPOINT_FIELDS r inh)) raws specs"
proof (induction raws arbitrary: i specs)
  case (Cons raw raws)
  then show ?case
    by (cases raw) (auto simp: and_then_Inr_iff endpoint_spec_Inr require_identity_Inr fallback_name_def
        split: if_splits)
qed simp

lemma blocked_iff:
  assumes "distinct (map fst llm)"
  shows "k \<in> set (blocked_keys llm own) \<longleftrightarrow>
     (is_table (aget llm k) \<and> k \<noteq> ''extra_body'') \<or> k = ''fallback'' \<or> (k \<in> set CREDENTIAL \<and> names_credential own)"
proof -
  have "(\<exists>v. (k, v) \<in> set llm \<and> is_table v) \<longleftrightarrow> is_table (aget llm k)"
    by (simp add: map_of_eq_Some_iff[OF assms, symmetric] aget_def is_table_def split: option.splits)
  then show ?thesis
    by (auto simp: blocked_keys_def CREDENTIAL_def names_credential_def is_table_def image_iff)
qed

lemma aget_merged:
  "aget (filter (\<lambda>(k, v). Q k) llm @ own) k =
     (if Q k then (case map_of llm k of Some v \<Rightarrow> v | None \<Rightarrow> aget own k) else aget own k)"
proof -
  have "map_of (filter (\<lambda>(k, v). Q k) llm) k = (if Q k then map_of llm k else None)"
    by (induction llm) auto
  then show ?thesis by (simp add: aget_def map_add_def split: option.splits)
qed

lemma resolve_job_table_own:
  assumes "resolve_job_table llm (Some job) = Inr table" "aget llm job = PDict own" "distinct (map fst llm)"
  shows "aget table k =
     (if stated own k then aget own k
      else if k = ''fallback'' \<or> (k \<in> set CREDENTIAL \<and> names_credential own) \<or>
        (is_table (aget llm k) \<and> k \<noteq> ''extra_body'') then PNone
      else aget llm k)"
proof -
  have t: "table = filter (\<lambda>(k, v). \<not> stated own k \<and> k \<notin> set (blocked_keys llm own)) llm @ own"
    using assms(1,2) by (simp add: resolve_job_table_def split: if_splits)
  show ?thesis
    unfolding t aget_merged by (auto simp: blocked_iff[OF assms(3)] stated_def aget_def split: option.splits)
qed

definition stated_fallbacks :: "args \<Rightarrow> pyval list" where
  "stated_fallbacks own = (case raw_fallbacks (aget own ''fallback'') of Inl _ \<Rightarrow> [] | Inr raws \<Rightarrow> raws)"

lemma endpoint_specs_Inr:
  assumes "llm_endpoint_specs llm job = Inr specs"
  obtains table raws rest where "resolve_job_table llm job = Inr table"
    "raw_fallbacks (aget table ''fallback'') = Inr raws"
    "specs = ((''name'', PStr ''primary'') # fields_of ENDPOINT_FIELDS table []) # rest"
    "identified (hd specs)"
    "fallback_specs (place_of job) (fields_of [''site_url'', ''app_name''] (hd specs) []) (length raws) 0 raws = Inr rest"
  using assms
  by (auto simp: llm_endpoint_specs_def and_then_Inr_iff endpoint_spec_Inr require_identity_Inr)

lemma field_not_name: "k \<in> set ENDPOINT_FIELDS \<Longrightarrow> k \<noteq> ''name'' \<and> k \<noteq> ''fallback''"
  by (auto simp: ENDPOINT_FIELDS_def)

lemma fallback_field:
  assumes "k \<in> set ENDPOINT_FIELDS" "k \<notin> set [''site_url'', ''app_name'']"
  shows "aget ((''name'', n) # fields_of ENDPOINT_FIELDS r (fields_of [''site_url'', ''app_name''] p [])) k = aget r k"
  using assms field_not_name[OF assms(1)]
  by (simp add: aget_Cons aget_fields map_of_fields aget_def split: option.splits)

text \<open>C32: The endpoints of a job that has a table of its own. Every endpoint has a model, a base URL and a
  credential, all of them written in the configuration: a field of the primary is the one of the job's table, else
  the one of \<^verbatim>\<open>[llm]\<close>, except that a job which names any credential inherits no part of another one, that no
  other job's table is read as a field, and that \<^verbatim>\<open>[llm.fallback]\<close> is never inherited. The fallbacks are the job's
  own, in order, each with the identity and the credential of its own table.\<close>

theorem endpoint_identity_stated:
  assumes "llm_endpoint_specs llm (Some job) = Inr specs" "aget llm job = PDict own" "distinct (map fst llm)"
  shows "\<exists>primary rest. specs = primary # rest \<and> (\<forall>s \<in> set specs. identified s) \<and>
    (\<forall>k \<in> set ENDPOINT_FIELDS. aget primary k =
       (if stated own k then aget own k
        else if (k \<in> set CREDENTIAL \<and> names_credential own) \<or> (is_table (aget llm k) \<and> k \<noteq> ''extra_body'')
          then PNone
        else aget llm k)) \<and>
    list_all2 (\<lambda>raw s. \<exists>r. raw = PDict r \<and> names_credential r \<and>
        (\<forall>k \<in> {''model'', ''base_url'', ''stream'', ''extra_body''} \<union> set CREDENTIAL. aget s k = aget r k))
      (stated_fallbacks own) rest"
proof -
  from assms(1) obtain table raws rest where t: "resolve_job_table llm (Some job) = Inr table"
    and r: "raw_fallbacks (aget table ''fallback'') = Inr raws"
    and s: "specs = ((''name'', PStr ''primary'') # fields_of ENDPOINT_FIELDS table []) # rest"
    and i: "identified (hd specs)"
    and f: "fallback_specs (place_of (Some job)) (fields_of [''site_url'', ''app_name''] (hd specs) [])
        (length raws) 0 raws = Inr rest" by (rule endpoint_specs_Inr)
  note own = resolve_job_table_own[OF t assms(2,3)]
  have k: "aget (hd specs) k = aget table k" if "k \<in> set ENDPOINT_FIELDS" for k
    using that field_not_name[OF that] unfolding s list.sel
    by (simp add: aget_Cons aget_fields) (simp add: aget_def split: option.splits)
  have "aget own ''fallback'' = aget table ''fallback''" by (simp add: own) (simp add: stated_def aget_def)
  then have raws: "stated_fallbacks own = raws" using r by (simp add: stated_fallbacks_def)
  note each = fallback_specs_each[OF f]
  have "list_all2 (\<lambda>raw s. \<exists>r. raw = PDict r \<and> names_credential r \<and>
      (\<forall>k \<in> {''model'', ''base_url'', ''stream'', ''extra_body''} \<union> set CREDENTIAL. aget s k = aget r k)) raws rest"
  proof (rule list_all2_mono[OF each])
    fix raw s
    assume "\<exists>r. raw = PDict r \<and> identified s \<and> (stated r ''api_key_env'' \<or> stated r ''api_key_json'') \<and>
      (\<exists>name. s = (''name'', PStr name) #
        fields_of ENDPOINT_FIELDS r (fields_of [''site_url'', ''app_name''] (hd specs) []))"
    then obtain r name where r: "raw = PDict r" "names_credential r"
      and s: "s = (''name'', PStr name) # fields_of ENDPOINT_FIELDS r (fields_of [''site_url'', ''app_name''] (hd specs) [])"
      by (auto simp: names_credential_def)
    have "aget s k = aget r k" if "k \<in> {''model'', ''base_url'', ''stream'', ''extra_body''} \<union> set CREDENTIAL" for k
      unfolding s by (rule fallback_field) (use that in \<open>auto simp: ENDPOINT_FIELDS_def CREDENTIAL_def\<close>)
    with r show "\<exists>r. raw = PDict r \<and> names_credential r \<and>
      (\<forall>k \<in> {''model'', ''base_url'', ''stream'', ''extra_body''} \<union> set CREDENTIAL. aget s k = aget r k)" by blast
  qed
  moreover have "\<forall>s \<in> set specs. identified s"
    using i each by (auto simp: s list_all2_conv_all_nth in_set_conv_nth)
  moreover have "aget (hd specs) k =
       (if stated own k then aget own k
        else if (k \<in> set CREDENTIAL \<and> names_credential own) \<or> (is_table (aget llm k) \<and> k \<noteq> ''extra_body'')
          then PNone
        else aget llm k)" if "k \<in> set ENDPOINT_FIELDS" for k
    using field_not_name[OF that] by (simp add: k[OF that] own)
  moreover have "specs = hd specs # rest" by (simp add: s)
  ultimately show ?thesis unfolding raws by blast
qed

definition demo_llm :: args where
  "demo_llm = [(''model'', PStr ''m''), (''base_url'', PStr ''u''), (''api_key_env'', PStr ''K''),
     (''fallback'', PDict [(''model'', PStr ''f''), (''base_url'', PStr ''v''), (''api_key_env'', PStr ''F'')]),
     (''draft'', PDict [(''model'', PStr ''d''), (''api_key_json'', PStr ''p'')]),
     (''judge'', PDict [(''fallback'', PDict [(''model'', PStr ''g''), (''base_url'', PStr ''w''), (''api_key_env'', PStr ''G'')])])]"

theorem endpoint_identity_stated_witness:
  "\<exists>specs. llm_endpoint_specs demo_llm (Some ''draft'') = Inr specs \<and> length specs = 1 \<and>
     aget (hd specs) ''api_key_env'' = PNone \<and> aget (hd specs) ''base_url'' = PStr ''u''"
proof -
  have "is_ok (llm_endpoint_specs demo_llm (Some ''draft''))" by code_simp
  then obtain specs where specs: "llm_endpoint_specs demo_llm (Some ''draft'') = Inr specs"
    by (auto simp: is_ok_def split: sum.splits)
  have own: "aget demo_llm ''draft'' = PDict [(''model'', PStr ''d''), (''api_key_json'', PStr ''p'')]"
    by (simp add: demo_llm_def aget_Cons)
  from endpoint_identity_stated[OF specs own]
  have "length specs = 1 \<and> aget (hd specs) ''api_key_env'' = PNone \<and> aget (hd specs) ''base_url'' = PStr ''u''"
    by (auto simp: demo_llm_def aget_Cons aget_Nil ENDPOINT_FIELDS_def CREDENTIAL_def names_credential_def stated_def
        is_table_def stated_fallbacks_def raw_fallbacks_def)
  with specs show ?thesis by blast
qed

subsection \<open>The first endpoint that answers\<close>

text \<open>What one endpoint makes of a call, with the client it has or the one that is built.\<close>

definition outcome ::
  "(endpoint \<Rightarrow> nat \<Rightarrow> string + 'c) \<Rightarrow> ('c \<Rightarrow> pyval \<Rightarrow> args \<Rightarrow> string + pyval) \<Rightarrow> pyval \<Rightarrow> args \<Rightarrow> 'c chain
     \<Rightarrow> endpoint \<Rightarrow> string + pyval" where
  "outcome build send msgs kw ch e =
     and_then (case ch_llms ch (ep_name e) of Some c \<Rightarrow> Inr c | None \<Rightarrow> build e (ch_tokens ch)) (\<lambda>c.
     and_then (send c msgs (call_kwargs e kw)) (\<lambda>v. if is_empty_answer v then Inl ''empty response'' else Inr v))"

lemma outcome_cong:
  "ch_llms ch' (ep_name e) = ch_llms ch (ep_name e) \<Longrightarrow> ch_tokens ch' = ch_tokens ch \<Longrightarrow>
   outcome build send msgs kw ch' e = outcome build send msgs kw ch e"
  by (simp add: outcome_def cong: option.case_cong)

text \<open>A cached client is one that was there before or one built for its endpoint.\<close>

definition cache_from ::
  "(endpoint \<Rightarrow> nat \<Rightarrow> string + 'c) \<Rightarrow> 'c chain \<Rightarrow> endpoint list \<Rightarrow> 'c chain \<Rightarrow> bool" where
  "cache_from build ch es ch' \<longleftrightarrow>
     (\<forall>n c. ch_llms ch' n = Some c \<longrightarrow>
        ch_llms ch n = Some c \<or> (\<exists>e \<in> set es. ep_name e = n \<and> build e (ch_tokens ch) = Inr c))"

lemma try_endpoints_spec:
  assumes "distinct (map ep_name es)" "try_endpoints build send msgs kw es errors ch = (r, ch')"
  shows "(case find (\<lambda>e. is_ok (outcome build send msgs kw ch e)) es of
       Some e \<Rightarrow> (\<exists>v. r = Inr v \<and> outcome build send msgs kw ch e = Inr v) \<and> ch_active ch' = ep_model e
     | None \<Rightarrow> (\<exists>lines. r = Inl (errors @ lines) \<and> length lines = length es) \<and> ch_active ch' = ch_active ch) \<and>
     cache_from build ch es ch' \<and> ch_tokens ch' = ch_tokens ch \<and> ch_endpoints ch' = ch_endpoints ch"
  using assms
proof (induction es arbitrary: errors ch)
  case Nil
  then show ?case by (auto simp: cache_from_def)
next
  case (Cons e es)
  let ?o = "outcome build send msgs kw"
  obtain client ch1 where c: "llm_for build e ch = (client, ch1)" by force
  then have ch1: "ch_tokens ch1 = ch_tokens ch" "ch_endpoints ch1 = ch_endpoints ch" "ch_active ch1 = ch_active ch"
    "\<And>n. n \<noteq> ep_name e \<Longrightarrow> ch_llms ch1 n = ch_llms ch n"
    "\<And>k. ch_llms ch1 (ep_name e) = Some k \<Longrightarrow> ch_llms ch (ep_name e) = Some k \<or> build e (ch_tokens ch) = Inr k"
    and cl: "client = (case ch_llms ch (ep_name e) of Some c \<Rightarrow> Inr c | None \<Rightarrow> build e (ch_tokens ch))"
    by (auto simp: llm_for_def split: option.splits sum.splits)
  have other: "?o (ch1\<lparr>ch_llms := f\<rparr>) e' = ?o ch e'"
    if "e' \<in> set es" "\<And>n. n \<noteq> ep_name e \<Longrightarrow> f n = ch_llms ch1 n" for e' f
  proof (rule outcome_cong)
    have "ep_name e' \<noteq> ep_name e" using that(1) Cons.prems(1) by (auto simp: image_iff)
    then show "ch_llms (ch1\<lparr>ch_llms := f\<rparr>) (ep_name e') = ch_llms ch (ep_name e')" by (simp add: that(2) ch1(4))
  qed (simp add: ch1)
  have rest: ?case if o: "\<not> is_ok (?o ch e)" and f: "\<And>n. n \<noteq> ep_name e \<Longrightarrow> f n = ch_llms ch1 n"
      "f (ep_name e) = None \<or> f (ep_name e) = ch_llms ch1 (ep_name e)"
    and run: "try_endpoints build send msgs kw es (errors @ [t]) (ch1\<lparr>ch_llms := f\<rparr>) = (r, ch')" for f t
  proof -
    let ?ch2 = "ch1\<lparr>ch_llms := f\<rparr>"
    have find: "find (\<lambda>e. is_ok (?o ?ch2 e)) es = find (\<lambda>e. is_ok (?o ch e)) es"
      by (rule find_cong) (simp_all add: other f(1))
    have in_es: "e' \<in> set es" if "find (\<lambda>e. is_ok (?o ch e)) es = Some e'" for e'
      using find_Some_in[OF that] by simp
    have IH: "(case find (\<lambda>e. is_ok (?o ch e)) es of
       Some e \<Rightarrow> (\<exists>v. r = Inr v \<and> ?o ?ch2 e = Inr v) \<and> ch_active ch' = ep_model e
     | None \<Rightarrow> (\<exists>lines. r = Inl ((errors @ [t]) @ lines) \<and> length lines = length es) \<and> ch_active ch' = ch_active ch)"
      "cache_from build ?ch2 es ch'" "ch_tokens ch' = ch_tokens ch" "ch_endpoints ch' = ch_endpoints ch"
      using Cons.IH[OF _ run] Cons.prems(1) by (simp_all add: find ch1 cong: option.case_cong)
    have "cache_from build ch (e # es) ch'"
      unfolding cache_from_def
    proof (intro allI impI)
      fix n k assume "ch_llms ch' n = Some k"
      with IH(2) consider "f n = Some k" | "\<exists>e \<in> set es. ep_name e = n \<and> build e (ch_tokens ch) = Inr k"
        by (auto simp: cache_from_def ch1)
      then show "ch_llms ch n = Some k \<or> (\<exists>e \<in> set (e # es). ep_name e = n \<and> build e (ch_tokens ch) = Inr k)"
        by cases (use f ch1(4,5) in \<open>(cases "n = ep_name e"; force)\<close>, auto)
    qed
    moreover have "\<exists>lines. r = Inl (errors @ lines) \<and> length lines = length (e # es)"
      if "find (\<lambda>e. is_ok (?o ch e)) es = None"
    proof -
      from IH(1) that obtain lines where "r = Inl (errors @ t # lines)" "length lines = length es" by auto
      then show ?thesis by (intro exI[of _ "t # lines"]) simp
    qed
    ultimately show ?case using IH o other[OF in_es f(1)] by (auto split: option.splits)
  qed
  show ?case
  proof (cases "and_then client (\<lambda>c. send c msgs (call_kwargs e kw))")
    case (Inl t)
    then have "\<not> is_ok (?o ch e)" by (auto simp: outcome_def cl and_then_def is_ok_def split: sum.splits option.splits)
    then show ?thesis
      by (rule rest[where f = "(ch_llms ch1)(ep_name e := None)" and t = "failure_line e t"])
        (use Cons.prems(2) Inl in \<open>auto simp: c\<close>)
  next
    case (Inr v)
    then have out: "?o ch e = (if is_empty_answer v then Inl ''empty response'' else Inr v)"
      by (auto simp: outcome_def cl and_then_def split: sum.splits option.splits)
    show ?thesis
    proof (cases "is_empty_answer v")
      case True
      with out have "\<not> is_ok (?o ch e)" by simp
      then show ?thesis
        by (rule rest[where f = "ch_llms ch1" and t = "failure_line e ''empty response''"])
          (use Cons.prems(2) Inr True in \<open>auto simp: c\<close>)
    next
      case False
      have "cache_from build ch (e # es) (ch1\<lparr>ch_active := ep_model e\<rparr>)"
        unfolding cache_from_def
      proof (intro allI impI)
        fix n k assume "ch_llms (ch1\<lparr>ch_active := ep_model e\<rparr>) n = Some k"
        then show "ch_llms ch n = Some k \<or> (\<exists>e \<in> set (e # es). ep_name e = n \<and> build e (ch_tokens ch) = Inr k)"
          using ch1(4,5) by (cases "n = ep_name e") auto
      qed
      with False out Inr Cons.prems(2) show ?thesis by (auto simp: c ch1)
    qed
  qed
qed


subsection \<open>The names of a chain are distinct\<close>

lemma digit_inj: "m < 10 \<Longrightarrow> n < 10 \<Longrightarrow> digit m = digit n \<Longrightarrow> m = n"
  by (simp add: digit_eq)

lemma show_nat_small: "n < 10 \<Longrightarrow> show_nat n = [digit n]"
  by (subst show_nat.simps) simp

lemma show_nat_large: "10 \<le> n \<Longrightarrow> show_nat n = show_nat (n div 10) @ [digit (n mod 10)]"
  by (subst show_nat.simps) simp

lemma show_nat_not_Nil: "show_nat n \<noteq> []"
  by (cases "n < 10") (simp_all add: show_nat_small show_nat_large)

lemma show_nat_inject: "show_nat m = show_nat n \<Longrightarrow> m = n"
proof (induction m arbitrary: n rule: less_induct)
  case (less m)
  consider "m < 10" "n < 10" | "m < 10" "10 \<le> n" | "10 \<le> m" "n < 10" | "10 \<le> m" "10 \<le> n" by linarith
  then show ?case
  proof cases
    case 4
    then have "show_nat (m div 10) = show_nat (n div 10)" "digit (m mod 10) = digit (n mod 10)"
      using less.prems by (auto simp: show_nat_large)
    then have "m div 10 = n div 10" "m mod 10 = n mod 10"
      using less.IH[of "m div 10" "n div 10"] 4 by (auto intro: digit_inj)
    then show ?thesis by (metis div_mult_mod_eq)
  qed (use less.prems in \<open>auto simp: show_nat_small show_nat_large show_nat_not_Nil show_nat_not_Nil[symmetric] intro: digit_inj\<close>)
qed

lemma fallback_names:
  "fallback_specs place inh many i raws = Inr specs \<Longrightarrow>
   map (\<lambda>s. aget s ''name'') specs = map (\<lambda>j. PStr (fallback_name many j)) [i..<i + length raws]"
proof (induction raws arbitrary: i specs)
  case (Cons raw raws)
  then obtain s ss where "specs = s # ss" "fallback_specs place inh many (i + 1) raws = Inr ss"
    "aget s ''name'' = PStr (fallback_name many i)"
    by (cases raw) (auto simp: and_then_Inr_iff endpoint_spec_Inr require_identity_Inr aget_Cons)
  moreover have "[i..<i + length (raw # raws)] = i # [i + 1..<i + 1 + length raws]"
    by (simp add: upt_conv_Cons del: upt_Suc)
  ultimately show ?case using Cons.IH[of "i + 1" ss] by (simp del: upt_Suc)
qed simp

lemma names_distinct:
  assumes "llm_endpoint_specs llm job = Inr specs"
  shows "distinct (map ep_name (map endpoint_of specs))"
proof -
  from assms obtain table raws rest
    where s: "specs = ((''name'', PStr ''primary'') # fields_of ENDPOINT_FIELDS table []) # rest"
    and f: "fallback_specs (place_of job) (fields_of [''site_url'', ''app_name''] (hd specs) []) (length raws) 0 raws = Inr rest"
    by (rule endpoint_specs_Inr)
  have "map ep_name (map endpoint_of specs) = PStr ''primary'' # map (\<lambda>s. aget s ''name'') rest"
    by (simp add: s endpoint_of_def aget_Cons)
  also have "\<dots> = PStr ''primary'' # map (\<lambda>j. PStr (fallback_name (length raws) j)) [0..<length raws]"
    using fallback_names[OF f] by simp
  finally show ?thesis
    by (auto simp: distinct_map inj_on_def fallback_name_def dest: show_nat_inject split: if_splits)
qed

text \<open>A call is answered by the first endpoint, in the configured order, whose call neither raises nor comes
  back empty; \<^verbatim>\<open>active_model\<close> then names the model of that endpoint, so a verdict is attributed to the model that gave
  it. When every endpoint fails the call raises and the attribution of the last answer stands. Clients are only
  ever cached under the name of the endpoint they were built for.\<close>

theorem fallback_first_answer:
  assumes "llm_endpoint_specs llm job = Inr specs" "ch_endpoints ch = map endpoint_of specs"
    "generate_response build send msgs kw ch = (r, ch')"
  shows "(case find (\<lambda>e. is_ok (outcome build send msgs kw ch e)) (ch_endpoints ch) of
       Some e \<Rightarrow> r = outcome build send msgs kw ch e \<and> ch_active ch' = ep_model e
     | None \<Rightarrow> \<not> is_ok r \<and> ch_active ch' = ch_active ch) \<and>
     cache_from build ch (ch_endpoints ch) ch' \<and> ch_endpoints ch' = ch_endpoints ch"
proof -
  obtain r0 where run: "try_endpoints build send msgs kw (ch_endpoints ch) [] ch = (r0, ch')"
    and r: "r = (case r0 of Inl errors \<Rightarrow> Inl (''all llm endpoints failed: '' @ join '' | '' errors) | Inr v \<Rightarrow> Inr v)"
    using assms(3) by (auto simp: generate_response_def split: prod.splits sum.splits)
  show ?thesis using try_endpoints_spec[OF names_distinct[OF assms(1), folded assms(2)] run] by (auto simp: r split: option.splits)
qed

definition judge_specs :: "args list" where
  "judge_specs =
     [[(''name'', PStr ''primary''), (''model'', PStr ''m''), (''base_url'', PStr ''u''), (''api_key_env'', PStr ''K'')],
      [(''name'', PStr ''fallback''), (''model'', PStr ''g''), (''base_url'', PStr ''w''), (''api_key_env'', PStr ''G'')]]"

definition judge_chain :: "nat chain" where
  "judge_chain = \<lparr>ch_endpoints = map endpoint_of judge_specs, ch_tokens = 9, ch_llms = (\<lambda>_. None),
     ch_active = PStr ''m''\<rparr>"

definition demo_build :: "endpoint \<Rightarrow> nat \<Rightarrow> string + nat" where
  "demo_build e n = (if ep_name e = PStr ''primary'' then Inl ''no credential'' else Inr n)"

definition demo_send :: "nat \<Rightarrow> pyval \<Rightarrow> args \<Rightarrow> string + pyval" where
  "demo_send c msgs kw = Inr (PStr ''yes'')"

theorem fallback_first_answer_witness:
  "fst (generate_response demo_build demo_send (PList []) [] judge_chain) = Inr (PStr ''yes'') \<and>
   ch_active (snd (generate_response demo_build demo_send (PList []) [] judge_chain)) = PStr ''g''"
proof -
  obtain r ch' where run: "generate_response demo_build demo_send (PList []) [] judge_chain = (r, ch')" by force
  have specs: "llm_endpoint_specs demo_llm (Some ''judge'') = Inr judge_specs" by code_simp
  have "ch_endpoints judge_chain = map endpoint_of judge_specs" by (simp add: judge_chain_def)
  from fallback_first_answer[OF specs this run] have "r = Inr (PStr ''yes'') \<and> ch_active ch' = PStr ''g''"
    by (auto simp: judge_chain_def judge_specs_def outcome_def demo_build_def demo_send_def endpoint_of_def aget_Cons
        call_kwargs_def spec_value_def is_empty_answer_def strip_def is_space_def)
  then show ?thesis by (simp add: run)
qed

subsection \<open>The configuration of mem0\<close>

text \<open>\<^verbatim>\<open>int(s)\<close> of a text: ASCII digits with a sign, single underscores between digits, white space around.\<close>

fun underscores_ok :: "bool \<Rightarrow> string \<Rightarrow> bool" where
  "underscores_ok after_digit [] = True"
| "underscores_ok after_digit (c # cs) =
     (if c = CHR ''_'' then after_digit \<and> (case cs of [] \<Rightarrow> False | d # _ \<Rightarrow> digit_value d \<noteq> None) \<and> underscores_ok False cs
      else underscores_ok (digit_value c \<noteq> None) cs)"

definition int_text :: "string \<Rightarrow> int option" where
  "int_text s =
     (let r = strip s in if underscores_ok False r then parse_int (filter (\<lambda>c. c \<noteq> CHR ''_'') r) else None)"

text \<open>\<^verbatim>\<open>int(v)\<close> on a value read from TOML.\<close>

definition py_int :: "pyval \<Rightarrow> int option" where
  "py_int v =
     (case v of
        PInt i \<Rightarrow> Some i
      | PBool b \<Rightarrow> Some (if b then 1 else 0)
      | PFloat r _ \<Rightarrow> Some (if r < 0 then \<lceil>r\<rceil> else \<lfloor>r\<rfloor>)
      | PStr s \<Rightarrow> int_text s
      | _ \<Rightarrow> None)"

definition vector_store_host :: "args \<Rightarrow> pyval" where
  "vector_store_host config = config_value config ''vector_store'' ''host'' PNone"

definition vector_store_port :: "args \<Rightarrow> pyval" where
  "vector_store_port config = config_value config ''vector_store'' ''port'' PNone"

definition vector_store_mode :: "args \<Rightarrow> string" where
  "vector_store_mode config =
     (if truthy (vector_store_host config) \<and> truthy (vector_store_port config)
      then ''qdrant-server'' else ''qdrant-local-path'')"

text \<open>\<open>None\<close> when the port or the dimension is no integer; the path of the local store is an argument.\<close>

definition vector_store_config :: "args \<Rightarrow> string \<Rightarrow> args option" where
  "vector_store_config config qdrant_dir =
     (case py_int (config_value config ''embedder'' ''dims'' (PInt 768)) of
        None \<Rightarrow> None
      | Some dims \<Rightarrow>
          let common = [(''collection_name'', PStr (py_str (config_value config ''memory'' ''collection''
                           (PStr ''workspace_agent_memory'')))),
                        (''embedding_model_dims'', PInt dims), (''on_disk'', PBool True)];
              answer = (\<lambda>more. Some [(''provider'', PStr ''qdrant''), (''config'', PDict (common @ more))])
          in if vector_store_mode config = ''qdrant-server'' then
               (case py_int (vector_store_port config) of
                  None \<Rightarrow> None
                | Some port \<Rightarrow> answer [(''host'', PStr (py_str (vector_store_host config))), (''port'', PInt port)])
             else answer [(''path'', PStr qdrant_dir)])"

definition CLIENT_LLM_MAX_TOKENS :: nat where "CLIENT_LLM_MAX_TOKENS = 2000"

definition RERANKER_MAX_TOKENS :: nat where "RERANKER_MAX_TOKENS = 256"

definition placeholder_llm :: "args \<Rightarrow> string \<Rightarrow> nat \<Rightarrow> config_error + pyval" where
  "placeholder_llm llm job n =
     map_sum id (\<lambda>specs. let primary = hd specs in
       PDict [(''provider'', PStr ''openai''),
              (''config'', PDict
                 [(''model'', aget primary ''model''), (''openai_base_url'', aget primary ''base_url''),
                  (''site_url'', aget primary ''site_url''), (''app_name'', aget primary ''app_name''),
                  (''temperature'', PFloat 0 ''0.0''), (''max_tokens'', PInt (int n)),
                  (''top_p'', PFloat (1 / 10) ''0.1''), (''is_reasoning_model'', PBool False)])])
       (llm_endpoint_specs llm (Some job))"

definition build_config :: "args \<Rightarrow> string \<Rightarrow> string \<Rightarrow> config_error option + args" where
  "build_config config qdrant_dir history_db =
     (case (vector_store_config config qdrant_dir, py_int (config_value config ''embedder'' ''dims'' (PInt 768))) of
        (Some vs, Some dims) \<Rightarrow>
          map_sum Some id
           (and_then (placeholder_llm (config_section config ''llm'') ''infer'' CLIENT_LLM_MAX_TOKENS) (\<lambda>infer.
            and_then (placeholder_llm (config_section config ''llm'') ''rerank'' RERANKER_MAX_TOKENS) (\<lambda>rerank.
            Inr [(''vector_store'', PDict vs),
                 (''embedder'', PDict
                    [(''provider'', PStr (py_str (config_value config ''embedder'' ''provider'' (PStr ''fastembed'')))),
                     (''config'', PDict
                        [(''model'', PStr (py_str (config_value config ''embedder'' ''model''
                            (PStr ''jinaai/jina-embeddings-v2-base-zh'')))),
                         (''embedding_dims'', PInt dims)])]),
                 (''llm'', infer),
                 (''reranker'', PDict
                    [(''provider'', PStr ''llm_reranker''),
                     (''config'', PDict
                        [(''top_k'', PInt 8), (''temperature'', PFloat 0 ''0.0''),
                         (''max_tokens'', PInt (int RERANKER_MAX_TOKENS)), (''llm'', rerank)])]),
                 (''history_db_path'', PStr history_db)])))
      | _ \<Rightarrow> Inl None)"

text \<open>\<open>installed\<close> is the version of the installed package, if its metadata can be read.\<close>

definition check_vendored_mem0 :: "string option \<Rightarrow> bool" where
  "check_vendored_mem0 installed = (case installed of None \<Rightarrow> True | Some v \<Rightarrow> infix_of ''workspace'' v)"

subsection \<open>What \<^verbatim>\<open>memline status\<close> says of a job\<close>

text \<open>
  Only a \<^verbatim>\<open>ConfigError\<close> becomes a row of the report. A fallback without a credential of its own raises a
  \<^verbatim>\<open>ValueError\<close>, and a malformed table a \<^verbatim>\<open>TypeError\<close>: both end the command.
\<close>

definition llm_job_status :: "environ \<Rightarrow> (config_error \<Rightarrow> string) \<Rightarrow> args \<Rightarrow> string \<Rightarrow> config_error + args" where
  "llm_job_status env err llm job =
     (case llm_endpoint_specs llm (Some job) of
        Inl (FallbackCredential n) \<Rightarrow> Inl (FallbackCredential n)
      | Inl BadFallback \<Rightarrow> Inl BadFallback
      | Inl e \<Rightarrow> Inr [(''error'', PStr (err e))]
      | Inr specs \<Rightarrow>
          let primary = hd specs; key_env = aget primary ''api_key_env'' in
          map_sum id (\<lambda>knobs.
            [(''model'', aget primary ''model''), (''base_url'', aget primary ''base_url''),
             (''credential'', por key_env (aget primary ''api_key_json'')),
             (''credential_set'', if truthy key_env
                then PBool (case env (py_str key_env) of None \<Rightarrow> False | Some v \<Rightarrow> v \<noteq> []) else PNone),
             (''fallbacks'', PList (map (\<lambda>s. aget s ''model'') (tl specs))),
             (''knobs'', por (PDict knobs) PNone)])
            (llm_knobs llm (Some job)))"

lemma status_fallback_escapes:
  "llm_endpoint_specs llm (Some job) = Inl (FallbackCredential n) \<Longrightarrow>
   llm_job_status env err llm job = Inl (FallbackCredential n)"
  by (simp add: llm_job_status_def)

subsection \<open>Direct or proxied\<close>

text \<open>
  \<^verbatim>\<open>proxy.py\<close>: which hosts \<^verbatim>\<open>no_proxy\<close> exempts. \<open>glob\<close> is \<^verbatim>\<open>fnmatch.fnmatch\<close>; the parts of a URL come from
  \<^verbatim>\<open>urlsplit\<close>, an argument too.
\<close>

definition ends_with :: "string \<Rightarrow> string \<Rightarrow> bool" where
  "ends_with p s \<longleftrightarrow> length p \<le> length s \<and> drop (length s - length p) s = p"

definition strip_chars :: "char set \<Rightarrow> string \<Rightarrow> string" where
  "strip_chars C s = rev (dropWhile (\<lambda>c. c \<in> C) (rev (dropWhile (\<lambda>c. c \<in> C) s)))"

definition exempts :: "(string \<Rightarrow> string \<Rightarrow> bool) \<Rightarrow> string \<Rightarrow> string \<Rightarrow> bool" where
  "exempts glob host raw =
     (let entry = lower (strip raw) in
      if entry = [] then False
      else if entry = ''*'' then True
      else if CHR ''*'' \<in> set entry \<or> CHR ''?'' \<in> set entry then glob host entry
      else let e = dropWhile (\<lambda>c. c = CHR ''.'') entry in host = e \<or> ends_with (CHR ''.'' # e) host)"

definition bypasses_proxy :: "(string \<Rightarrow> string \<Rightarrow> bool) \<Rightarrow> string \<Rightarrow> string \<Rightarrow> bool" where
  "bypasses_proxy glob host0 no_proxy =
     (let host = lower (strip_chars {CHR ''['', CHR '']''} (strip host0)) in
      host \<noteq> [] \<and> list_ex (exempts glob host) (split_by (\<lambda>c. c = CHR '','') no_proxy))"

definition upper_char :: "char \<Rightarrow> char" where
  "upper_char c = (let n = (of_char c :: nat) in if 97 \<le> n \<and> n \<le> 122 then char_of (n - 32) else c)"

record url_parts =
  up_scheme :: string
  up_host :: string

definition proxy_url_for :: "(string \<Rightarrow> string \<Rightarrow> bool) \<Rightarrow> environ \<Rightarrow> url_parts \<Rightarrow> string option" where
  "proxy_url_for glob env url =
     (let scheme = lower (if up_scheme url = [] then ''http'' else up_scheme url);
          no_proxy = (case first_env env [''no_proxy'', ''NO_PROXY''] of None \<Rightarrow> [] | Some v \<Rightarrow> v)
      in if bypasses_proxy glob (up_host url) no_proxy then None
         else first_env env [scheme @ ''_proxy'', map upper_char scheme @ ''_PROXY''])"

datatype route = DefaultClient | Direct | Tunnel string

definition client_for_base_url ::
  "(string \<Rightarrow> string \<Rightarrow> bool) \<Rightarrow> (string \<Rightarrow> url_parts) \<Rightarrow> environ \<Rightarrow> string \<Rightarrow> route" where
  "client_for_base_url glob split env base_url =
     (if lower (up_scheme (split base_url)) \<noteq> ''http'' then DefaultClient
      else case proxy_url_for glob env (split base_url) of
        None \<Rightarrow> Direct
      | Some proxy \<Rightarrow>
          if starts_with ''socks'' (lower (up_scheme (split proxy))) then DefaultClient else Tunnel proxy)"

text \<open>An HTTP endpoint is never left to the client that would let a proxy rewrite the request.\<close>

lemma http_never_forwarded:
  assumes "lower (up_scheme (split base_url)) = ''http''"
  shows "client_for_base_url glob split env base_url = DefaultClient \<longleftrightarrow>
    (\<exists>proxy. proxy_url_for glob env (split base_url) = Some proxy \<and>
       starts_with ''socks'' (lower (up_scheme (split proxy))))"
  using assms by (auto simp: client_for_base_url_def split: option.splits)

end
