(* ===== verification/Cli_Support.thy ===== *)
theory Cli_Support
  imports Disposition Endpoints
begin

text \<open>
  What the commands share, \<^verbatim>\<open>src/src/memline/cli/_support.py\<close>: reading options and content, the gates on raw
  writes, the metadata of an update, consent to destructive commands, paging through the store, the banners.
  The record \<open>cli\<close> holds the configured constants and the parts of Python's library that the model does not
  compute: the JSON decoder, decimal floats, the script of a character, the ISO 8601 parser.
\<close>

subsection \<open>The command line's surroundings\<close>

text \<open>What \<^verbatim>\<open>datetime.fromisoformat\<close> finds, as the text \<^verbatim>\<open>isoformat\<close> would give back.\<close>

datatype stamp = Aware string | Naive string

record cli =
  c_user :: string
  c_cap :: nat
  c_schema :: int
  c_json :: "string \<Rightarrow> string + pyval"
  c_float :: "string \<Rightarrow> pyval option"
  c_non_latin :: "string \<Rightarrow> bool"
  c_fromiso :: "string \<Rightarrow> stamp option"
  c_localize :: "string \<Rightarrow> string"

definition setdefault :: "string \<Rightarrow> pyval \<Rightarrow> args \<Rightarrow> args" where
  "setdefault k v d = (if stated d k then d else aset k v d)"

definition setdefault_if :: "bool \<Rightarrow> string \<Rightarrow> pyval \<Rightarrow> args \<Rightarrow> args" where
  "setdefault_if c k v d = (if c then setdefault k v d else d)"

subsection \<open>Options\<close>

definition coerce_scalar :: "cli \<Rightarrow> string \<Rightarrow> pyval" where
  "coerce_scalar C raw =
     (if lower raw = ''true'' then PBool True
      else if lower raw = ''false'' then PBool False
      else if lower raw = ''null'' then PNone
      else case int_text raw of
        Some i \<Rightarrow> PInt i
      | None \<Rightarrow> (case c_float C raw of Some f \<Rightarrow> f | None \<Rightarrow> PStr raw))"

fun key_values :: "cli \<Rightarrow> string \<Rightarrow> string list \<Rightarrow> args \<Rightarrow> cli_error + args" where
  "key_values C name [] d = Inr d"
| "key_values C name (v # vs) d =
     (if CHR ''='' \<notin> set v then Inl (BadParameter (name @ '' must be JSON or key=value, got: '' @ v))
      else key_values C name vs
             (aset (takeWhile (\<lambda>c. c \<noteq> CHR ''='') v) (coerce_scalar C (tl (dropWhile (\<lambda>c. c \<noteq> CHR ''='') v))) d))"

definition parse_json_or_key_values :: "cli \<Rightarrow> string list \<Rightarrow> string \<Rightarrow> cli_error + args" where
  "parse_json_or_key_values C values name =
     (case values of
        [v] \<Rightarrow>
          if starts_with ''{'' (strip v) then
            (case c_json C (strip v) of
               Inl t \<Rightarrow> Inl (BadParameter (''Invalid JSON for '' @ name @ '': '' @ t))
             | Inr (PDict d) \<Rightarrow> Inr d
             | Inr _ \<Rightarrow> Inl (BadParameter (name @ '' JSON must be an object.'')))
          else key_values C name [v] []
      | _ \<Rightarrow> key_values C name values [])"

definition scope_dict :: "pyval \<Rightarrow> pyval \<Rightarrow> pyval \<Rightarrow> pyval \<Rightarrow> args" where
  "scope_dict user agent app run =
     filter (\<lambda>kv. truthy (snd kv)) [(''user_id'', user), (''agent_id'', agent), (''app_id'', app), (''run_id'', run)]"

definition filters_from_scope :: "pyval \<Rightarrow> pyval \<Rightarrow> pyval \<Rightarrow> pyval \<Rightarrow> args \<Rightarrow> args" where
  "filters_from_scope user agent app run extra =
     dict_update
       (filter (\<lambda>kv. truthy (snd kv)) [(''user_id'', user), (''agent_id'', agent), (''run_id'', run), (''app_id'', app)])
       extra"

definition split_list :: "string \<Rightarrow> string list" where
  "split_list s = filter (\<lambda>w. w \<noteq> []) (map strip (split_by (\<lambda>c. c = CHR '','') s))"

definition project_item :: "string list \<Rightarrow> args \<Rightarrow> args" where
  "project_item wanted item =
     fold (\<lambda>k d. if k = ''id'' then d else aset k (aget item k) d) wanted [(''id'', aget item ''id'')]"

definition project_list :: "string list \<Rightarrow> pyval list \<Rightarrow> pyval" where
  "project_list wanted vs =
     PList (List.map_filter (\<lambda>v. case v of PDict d \<Rightarrow> Some (PDict (project_item wanted d)) | _ \<Rightarrow> None) vs)"

definition project_fields :: "pyval \<Rightarrow> string option \<Rightarrow> pyval" where
  "project_fields result columns =
     (case columns of
        None \<Rightarrow> result
      | Some s \<Rightarrow>
          if s = [] then result
          else case result of
            PDict d \<Rightarrow> (case aget d ''results'' of
                PList vs \<Rightarrow> PDict (aset ''results'' (project_list (split_list s) vs) d)
              | _ \<Rightarrow> result)
          | PList vs \<Rightarrow> project_list (split_list s) vs
          | _ \<Rightarrow> result)"

definition output_option_was_passed :: "string list \<Rightarrow> bool" where
  "output_option_was_passed argv \<longleftrightarrow>
     list_ex (\<lambda>a. a = ''--output'' \<or> a = ''-o'' \<or> starts_with ''--output='' a) argv"

definition auto_agent_output :: "environ \<Rightarrow> writer \<Rightarrow> bool" where
  "auto_agent_output env w =
     (case env ''MEMLINE_AUTO_JSON'' of
        Some v \<Rightarrow> lower v \<notin> {''0'', ''false'', ''no'', ''off''}
      | None \<Rightarrow> (case wr_source w of Some s \<Rightarrow> s \<in> {''codex'', ''claude'', ''opencode''} | None \<Rightarrow> False))"

definition chosen_format :: "environ \<Rightarrow> writer \<Rightarrow> string list \<Rightarrow> string \<Rightarrow> bool \<Rightarrow> string" where
  "chosen_format env w argv output_format json_flag =
     (if json_flag then ''agent''
      else if \<not> output_option_was_passed argv \<and> auto_agent_output env w then ''agent''
      else output_format)"

subsection \<open>Time stamps\<close>

text \<open>A bare date is read as midnight in UTC+8, whatever time zone is configured.\<close>

definition normalize_timestamp :: "cli \<Rightarrow> pyval \<Rightarrow> cli_error + pyval" where
  "normalize_timestamp C v =
     (case v of
        PStr value \<Rightarrow>
          let raw = strip value in
          if raw = [] then Inr PNone
          else
            let raw = (if ends_with ''Z'' raw then butlast raw @ ''+00:00'' else raw);
                raw = (if length raw = 10 \<and> raw ! 4 = CHR ''-'' \<and> raw ! 7 = CHR ''-''
                       then raw @ ''T00:00:00+08:00'' else raw)
            in (case c_fromiso C raw of
                  None \<Rightarrow> Inl (BadParameter (''Timestamp must be ISO-8601, got: '' @ value))
                | Some (Aware t) \<Rightarrow> Inr (PStr t)
                | Some (Naive t) \<Rightarrow> Inr (PStr (c_localize C t)))
      | _ \<Rightarrow> Inr PNone)"

subsection \<open>Content and the raw-write gates\<close>

record content_source =
  cs_text :: "string option"
  cs_messages :: "string option"
  cs_file :: "(string + string) option"
  cs_piped :: "string option"

definition parse_messages_or_text :: "cli \<Rightarrow> string \<Rightarrow> pyval" where
  "parse_messages_or_text C raw =
     (case c_json C raw of
        Inl _ \<Rightarrow> PStr raw
      | Inr (PDict d) \<Rightarrow> if stated d ''messages'' then aget d ''messages'' else PDict d
      | Inr v \<Rightarrow> v)"

definition read_content :: "cli \<Rightarrow> content_source \<Rightarrow> cli_error + pyval" where
  "read_content C S =
     (case cs_file S of
        Some (Inl t) \<Rightarrow> Inl (BadParameter (''Failed to read --file: '' @ t))
      | Some (Inr raw) \<Rightarrow> Inr (parse_messages_or_text C raw)
      | None \<Rightarrow>
          if truthy_text (cs_messages S) then Inr (parse_messages_or_text C (the (cs_messages S)))
          else if truthy_text (cs_text S) then Inr (PStr (the (cs_text S)))
          else case cs_piped S of
            Some piped \<Rightarrow>
              if strip piped \<noteq> [] then Inr (PStr (strip piped))
              else Inl (BadParameter ''No content provided. Pass text, --messages, --file, or stdin.'')
          | None \<Rightarrow> Inl (BadParameter ''No content provided. Pass text, --messages, --file, or stdin.''))"

definition check_raw_length :: "cli \<Rightarrow> pyval \<Rightarrow> string option \<Rightarrow> cli_error + unit" where
  "check_raw_length C content previous =
     (case content of
        PStr s \<Rightarrow>
          if py_length s \<le> c_cap C then Inr ()
          else if (case previous of None \<Rightarrow> False | Some p \<Rightarrow> py_length s \<le> py_length p) then Inr ()
          else Inl (ClickError (''text is '' @ show_nat (py_length s) @ '' chars, over the raw-write hard cap of ''
                 @ show_nat (c_cap C)))
      | _ \<Rightarrow> Inr ())"

definition non_latin_letters :: "cli \<Rightarrow> pyval \<Rightarrow> string list" where
  "non_latin_letters C content = (case content of PStr s \<Rightarrow> filter (c_non_latin C) (utf8_chars s) | _ \<Rightarrow> [])"

definition check_raw_language :: "cli \<Rightarrow> pyval \<Rightarrow> bool \<Rightarrow> cli_error + string list" where
  "check_raw_language C content force =
     (let detected = non_latin_letters C content in
      if detected \<noteq> [] \<and> \<not> force
      then Inl (ClickError ''Non-English input detected. Rewrite the memory in English before adding it.'')
      else Inr detected)"

subsection \<open>Rewriting a memory\<close>

definition updated_memory_metadata :: "cli \<Rightarrow> operator \<Rightarrow> string \<Rightarrow> args \<Rightarrow> args \<Rightarrow> args" where
  "updated_memory_metadata C who now existing extra =
     (let existing_meta = as_dict (aget existing ''metadata'');
          m1 = dict_update existing_meta extra;
          m2 = (if truthy (aget existing ''created_at'') then aset ''created_at'' (aget existing ''created_at'') m1 else m1);
          m3 = setdefault ''ledger_timestamp''
                 (por (por (aget existing_meta ''ledger_timestamp'') (aget existing ''created_at'')) (PStr now)) m2;
          m4 = setdefault ''memory_schema_version'' (PInt (c_schema C)) m3
      in aset ''last_updated_session_id'' (PStr (session_of who))
          (aset ''last_updated_by_agent_id'' (PStr (actor_of who))
            (aset ''updated_by_cli_at'' (PStr now) m4)))"

text \<open>\<^verbatim>\<open>confirm_destructive\<close>; a declined prompt aborts.\<close>

definition confirm_destructive :: "operator \<Rightarrow> bool \<Rightarrow> cli_error + unit" where
  "confirm_destructive who force =
     (if force then Inr ()
      else if op_tty who then (if op_answers_yes who then Inr () else Inl (ClickError ''Aborted!''))
      else Inl (ClickError
        ''Refusing destructive operation in non-interactive mode without --force (use --dry-run to preview).''))"

subsection \<open>Reading the whole store\<close>

definition page_args :: "cli \<Rightarrow> nat \<Rightarrow> args" where
  "page_args C page =
     [(''filters'', por (PDict (filters_from_scope (PStr (c_user C)) PNone PNone PNone [])) PNone),
      (''top_k'', PInt (int (page * 500))), (''start'', PInt (int ((page - 1) * 500))),
      (''end'', PInt (int (page * 500)))]"

definition page_items :: "pyval \<Rightarrow> pyval list" where
  "page_items got =
     (case got of
        PList vs \<Rightarrow> vs
      | PDict d \<Rightarrow> (case por (aget d ''results'') (aget d ''memories'') of PList vs \<Rightarrow> vs | _ \<Rightarrow> [])
      | _ \<Rightarrow> [])"

text \<open>The loop over pages; \<open>None\<close> when the fuel runs out.\<close>

fun read_pages ::
  "cli \<Rightarrow> (nat \<Rightarrow> 'q executor) \<Rightarrow> nat \<Rightarrow> nat \<Rightarrow> pyval list \<Rightarrow> 'q daemon
     \<Rightarrow> ((cli_error + pyval list) \<times> 'q daemon) option" where
  "read_pages C X 0 page acc d = None"
| "read_pages C X (Suc fuel) page acc d =
     (case X page ''list'' (page_args C page) d of
        (Inl e, d') \<Rightarrow> Some (Inl e, d')
      | (Inr got, d') \<Rightarrow>
          let items = page_items got in
          if length items < 500 then Some (Inr (acc @ items), d')
          else read_pages C X fuel (page + 1) (acc @ items) d')"

definition read_all_memories ::
  "cli \<Rightarrow> (nat \<Rightarrow> 'q executor) \<Rightarrow> nat \<Rightarrow> 'q daemon \<Rightarrow> ((cli_error + pyval list) \<times> 'q daemon) option" where
  "read_all_memories C X fuel d = read_pages C X fuel 1 [] d"

subsection \<open>Banners\<close>

datatype banner = FailedEvents pyval | OpenSuspicions nat | Handoff nat

definition HYGIENE_BANNER_COMMANDS :: "string list" where
  "HYGIENE_BANNER_COMMANDS = [''review'', ''stale'', ''event'', ''status'']"

text \<open>
  What the callback prints before a command: \<open>alerts\<close> is the alert file, \<open>suspicions\<close> and \<open>adds\<close> are the counts of
  open pairs and of the session's adds, \<open>None\<close> when the file behind them cannot be read.
\<close>

definition banners ::
  "string \<Rightarrow> args option \<Rightarrow> nat option \<Rightarrow> int \<Rightarrow> string option \<Rightarrow> (string \<Rightarrow> nat option) \<Rightarrow> banner list" where
  "banners command alerts suspicions threshold session adds =
     (if command \<in> set HYGIENE_BANNER_COMMANDS then
        (case alerts of
           Some a \<Rightarrow> if truthy (aget a ''failed_unacked'') then [FailedEvents (aget a ''failed_unacked'')] else []
         | None \<Rightarrow> []) @
        (case suspicions of Some n \<Rightarrow> if n \<noteq> 0 then [OpenSuspicions n] else [] | None \<Rightarrow> [])
      else []) @
     (if 0 < threshold \<and> truthy_text session then
        (case adds (the session) of Some n \<Rightarrow> if threshold < int n then [Handoff n] else [] | None \<Rightarrow> [])
      else [])"

end
