(* ===== verification/Cli_Memory.thy ===== *)
theory Cli_Memory
  imports Cli_Support
begin

text \<open>
  The commands a session types, \<^verbatim>\<open>src/src/memline/cli/memory.py\<close>, with \<^verbatim>\<open>stale merge\<close> of \<^verbatim>\<open>cli/stale.py\<close> and the
  \<^verbatim>\<open>entity\<close> and \<^verbatim>\<open>event\<close> commands of \<^verbatim>\<open>cli/entity.py\<close> and \<^verbatim>\<open>cli/events.py\<close>. A command makes several calls, so the
  executor \<open>X\<close> and the moments \<open>ms\<close> are indexed by the call: \<open>X n\<close> is \<^verbatim>\<open>execute\<close> at the \<open>n\<close>-th call. A command
  returns the value it prints.
\<close>

subsection \<open>Calls with a result\<close>

text \<open>\<^verbatim>\<open>with audited(...) as span: span.result = execute(...)\<close> with an input of its own.\<close>

definition audited_call ::
  "'q host \<Rightarrow> moment \<Rightarrow> 'q executor \<Rightarrow> string \<Rightarrow> audit_span \<Rightarrow> string \<Rightarrow> args \<Rightarrow> 'q daemon
     \<Rightarrow> (cli_error + pyval) \<times> 'q daemon" where
  "audited_call H m X operation sp op a d =
     (case audited_cli H m operation sp (run_block X op a) d of (r, d') \<Rightarrow> (map_sum id sp_result r, d'))"

definition as_error :: "'q host \<Rightarrow> cli_error \<Rightarrow> cli_error" where
  "as_error H e = (case e of OpFailed s \<Rightarrow> ClickError (h_error H s) | _ \<Rightarrow> e)"

definition set_result :: "string \<Rightarrow> pyval \<Rightarrow> pyval \<Rightarrow> pyval" where
  "set_result k v result = (case result of PDict d \<Rightarrow> PDict (aset k v d) | _ \<Rightarrow> result)"

text \<open>The queue file opened by the command itself; a failure to enqueue is swallowed.\<close>

definition enqueue_check :: "moment \<Rightarrow> args \<Rightarrow> pyval \<Rightarrow> 'q daemon \<Rightarrow> pyval \<times> 'q daemon" where
  "enqueue_check m a result d =
     (case enqueue (mo_uid m) ''stale_check'' a (mo_start m) (d_queue d) of
        (Inl _, q) \<Rightarrow> (result, d)
      | (Inr eid, q) \<Rightarrow> (set_result ''stale_check_event'' (PStr eid) result, d\<lparr>d_queue := q\<rparr>))"

text \<open>\<^verbatim>\<open>normalize_items(result)\<close> of \<^verbatim>\<open>runtime.py\<close>, and the first id in it.\<close>

definition dicts_of :: "pyval list \<Rightarrow> args list" where
  "dicts_of vs = List.map_filter (\<lambda>v. case v of PDict d \<Rightarrow> Some d | _ \<Rightarrow> None) vs"

definition normalize_items :: "pyval \<Rightarrow> args list" where
  "normalize_items v =
     (case v of
        PList vs \<Rightarrow> dicts_of vs
      | PDict d \<Rightarrow>
          (case aget d ''results'' of
             PList vs \<Rightarrow> dicts_of vs
           | _ \<Rightarrow> (case aget d ''memories'' of PList vs \<Rightarrow> dicts_of vs | _ \<Rightarrow> []))
      | _ \<Rightarrow> [])"

definition new_id_of :: "pyval \<Rightarrow> pyval" where
  "new_id_of v = (case find (\<lambda>d. truthy (aget d ''id'')) (normalize_items v) of None \<Rightarrow> PNone | Some d \<Rightarrow> aget d ''id'')"

subsection \<open>\<^verbatim>\<open>add\<close>\<close>

record add_options =
  ao_source :: content_source
  ao_user :: string
  ao_agent :: "string option"
  ao_app :: "string option"
  ao_run :: "string option"
  ao_metadata :: "string list"
  ao_timestamp :: "string option"
  ao_ledger :: "string option"
  ao_infer :: "bool option"
  ao_supersedes :: "string option"
  ao_force :: bool
  ao_wait :: bool

definition add_infers :: "add_options \<Rightarrow> bool" where
  "add_infers A =
     (case ao_infer A of Some b \<Rightarrow> b | None \<Rightarrow> truthy_text (cs_messages (ao_source A)) \<or> cs_file (ao_source A) \<noteq> None)"

definition opt_text :: "string option \<Rightarrow> string" where
  "opt_text x = (case x of None \<Rightarrow> [] | Some s \<Rightarrow> s)"

text \<open>Who writes: the metadata without its time stamps, and the two scope ids it fixes.\<close>

definition add_identity :: "cli \<Rightarrow> operator \<Rightarrow> add_options \<Rightarrow> args \<Rightarrow> args \<times> string \<times> string" where
  "add_identity C who A m0 =
     (let w = op_writer who;
          m1 = setdefault_if (truthy_text (wr_source w)) ''source'' (opt_str (wr_source w)) m0;
          m2 = setdefault_if (truthy_text (wr_session w)) ''session_id'' (opt_str (wr_session w)) m1;
          m3 = setdefault ''source'' (PStr (op_manual_source who)) m2;
          agent = (case ao_agent A of Some a \<Rightarrow> a
                   | None \<Rightarrow> py_str (por (aget m3 ''source'') (PStr (op_manual_source who))));
          run = (case ao_run A of Some r \<Rightarrow> r
                 | None \<Rightarrow> py_str (por (aget m3 ''session_id'') (PStr (op_manual_session who))));
          m4 = setdefault ''session_id'' (PStr run) m3;
          m5 = setdefault ''writer_agent_id'' (PStr agent) m4;
          m6 = setdefault ''origin''
                 (PStr (if aget m5 ''source'' = PStr ''agent-memory-ledger'' then ''ledger_import'' else ''live_agent'')) m5;
          m7 = setdefault ''memory_schema_version'' (PInt (c_schema C)) m6
      in (setdefault_if (truthy_text (ao_app A)) ''app_id'' (opt_str (ao_app A)) m7, agent, run))"

text \<open>The metadata of a new memory; \<open>now\<close> is \<^verbatim>\<open>now_utc_iso()\<close>.\<close>

definition add_metadata ::
  "cli \<Rightarrow> operator \<Rightarrow> string \<Rightarrow> add_options \<Rightarrow> args \<Rightarrow> cli_error + args \<times> string \<times> string" where
  "add_metadata C who now A m0 =
     (case add_identity C who A m0 of (m, agent, run) \<Rightarrow>
      and_then (normalize_timestamp C (opt_str (ao_timestamp A))) (\<lambda>stated_ts.
      and_then (normalize_timestamp C (PStr (py_str (por (por stated_ts (aget m ''created_at'')) (PStr now))))) (\<lambda>created.
      and_then (normalize_timestamp C (opt_str (ao_ledger A))) (\<lambda>ledger.
      let m' = aset ''created_at'' created m in
      Inr (setdefault ''ingested_at'' (PStr now)
             (aset ''ledger_timestamp'' (por (por ledger (aget m' ''ledger_timestamp'')) (aget m' ''created_at'')) m'),
           agent, run)))))"

definition add_call_args :: "add_options \<Rightarrow> pyval \<Rightarrow> args \<Rightarrow> string \<Rightarrow> string \<Rightarrow> bool \<Rightarrow> args" where
  "add_call_args A content meta agent run infer =
     [(''content'', content), (''user_id'', PStr (ao_user A)), (''agent_id'', PStr agent), (''run_id'', PStr run),
      (''metadata'', por (PDict meta) PNone), (''infer'', PBool infer)]"

text \<open>The invalidations of \<^verbatim>\<open>--supersedes\<close>, one audited call each; an error is a row, not an exception.\<close>

fun supersede_all ::
  "'q host \<Rightarrow> (nat \<Rightarrow> moment) \<Rightarrow> (nat \<Rightarrow> 'q executor) \<Rightarrow> operator \<Rightarrow> string \<Rightarrow> nat \<Rightarrow> string list \<Rightarrow> 'q daemon
     \<Rightarrow> (cli_error + pyval list) \<times> 'q daemon" where
  "supersede_all H ms X who new_id n [] d = (Inr [], d)"
| "supersede_all H ms X who new_id n (old # olds) d =
     (case run_invalidate H (ms n) (X n) who old [new_id] (Some (''superseded at write time by '' @ new_id)) False d of
        (Inl e, d') \<Rightarrow> (Inl e, d')
      | (Inr v, d') \<Rightarrow>
          (case supersede_all H ms X who new_id (n + 1) olds d' of
             (Inl e, d'') \<Rightarrow> (Inl e, d'')
           | (Inr vs, d'') \<Rightarrow> (Inr (v # vs), d'')))"

definition add_span :: "add_options \<Rightarrow> pyval \<Rightarrow> args \<Rightarrow> string \<Rightarrow> string \<Rightarrow> string list \<Rightarrow> audit_span" where
  "add_span A content meta agent run foreign =
     span_of
       [(''text'', opt_str (cs_text (ao_source A))), (''messages'', opt_str (cs_messages (ao_source A))),
        (''file'', case cs_file (ao_source A) of None \<Rightarrow> PNone | Some _ \<Rightarrow> PStr ''file''), (''content'', content),
        (''infer'', PBool (add_infers A)), (''language_override'', PBool (ao_force A \<and> foreign \<noteq> [])),
        (''non_latin_character_count'', PInt (int (length foreign)))]
       meta
       (scope_dict (PStr (ao_user A)) (PStr agent) (opt_str (ao_app A)) (PStr run))"

text \<open>The synchronous path: one audited call, whose error is audited too, then the invalidations, then the
  background check of a raw entry.\<close>

definition add_now ::
  "'q host \<Rightarrow> (nat \<Rightarrow> moment) \<Rightarrow> (nat \<Rightarrow> 'q executor) \<Rightarrow> operator \<Rightarrow> add_options \<Rightarrow> pyval \<Rightarrow> args \<Rightarrow> string
     \<Rightarrow> string \<Rightarrow> string list \<Rightarrow> string list \<Rightarrow> 'q daemon \<Rightarrow> (cli_error + pyval) \<times> 'q daemon" where
  "add_now H ms X who A content meta agent run foreign olds d =
     (let a = add_call_args A content meta agent run (add_infers A);
          block = (\<lambda>sp d. case X 0 ''add'' a d of
             (Inr (PDict v), d') \<Rightarrow>
               ((None, sp\<lparr>sp_result := PDict (setdefault ''duration_ms'' (PInt (mo_ms (ms 0))) v)\<rparr>), d')
           | (Inr v, d') \<Rightarrow> ((None, sp\<lparr>sp_result := v\<rparr>), d')
           | (Inl e, d') \<Rightarrow> ((None, sp\<lparr>sp_result := PDict [(''error'', PStr (cli_text H e))]\<rparr>), d'))
      in case audited_cli H (ms 0) ''add'' (add_span A content meta agent run foreign) block d of
           (Inl e, d') \<Rightarrow> (Inl e, d')
         | (Inr sp, d1) \<Rightarrow>
             (case fst (X 0 ''add'' a d) of
                Inl (OpFailed s) \<Rightarrow> (Inl (ClickError (''add failed in mem0 backend: '' @ h_error H s)), d1)
              | Inl e \<Rightarrow> (Inl e, d1)
              | Inr _ \<Rightarrow>
                  let result = sp_result sp; new_id = new_id_of result in
                  (case (if olds = [] then (Inr result, d1)
                         else if \<not> truthy new_id
                         then (Inr (set_result ''supersedes''
                                 (PDict [(''error'', PStr ''no new memory id in add result; nothing invalidated'')]) result), d1)
                         else (case supersede_all H ms X who (py_str new_id) 1 olds d1 of
                                 (Inl e, d2) \<Rightarrow> (Inl e, d2)
                               | (Inr rows, d2) \<Rightarrow> (Inr (set_result ''supersedes'' (PList rows) result), d2))) of
                     (Inl e, d2) \<Rightarrow> (Inl e, d2)
                   | (Inr result2, d2) \<Rightarrow>
                       if \<not> add_infers A \<and> truthy new_id then
                         (case enqueue_check (ms (Suc (length olds)))
                                 [(''new_id'', PStr (py_str new_id)), (''session_id'', aget meta ''session_id'')] result2 d2 of
                            (v, d3) \<Rightarrow> (Inr v, d3))
                       else (Inr result2, d2))))"

text \<open>
  \<^verbatim>\<open>add\<close>: \<open>Q\<close> is \<^verbatim>\<open>maybe_daemon_request\<close>, asked first for an extraction that need not be waited for.
\<close>

definition cmd_add ::
  "cli \<Rightarrow> 'q host \<Rightarrow> (nat \<Rightarrow> moment) \<Rightarrow> (string \<Rightarrow> args \<Rightarrow> 'q daemon \<Rightarrow> contact \<times> 'q daemon) \<Rightarrow> (nat \<Rightarrow> 'q executor)
     \<Rightarrow> operator \<Rightarrow> string \<Rightarrow> add_options \<Rightarrow> 'q daemon \<Rightarrow> (cli_error + pyval) \<times> 'q daemon" where
  "cmd_add C H ms Q X who now A d =
     (let infer = add_infers A; olds = split_list (opt_text (ao_supersedes A)) in
      if olds \<noteq> [] \<and> infer
      then (Inl (BadParameter ''--supersedes requires the raw add path (extraction adds are async and have no id yet).''), d)
      else case and_then (read_content C (ao_source A)) (\<lambda>content.
             and_then (if infer then Inr [] else
                         and_then (check_raw_length C content None) (\<lambda>_. check_raw_language C content (ao_force A)))
               (\<lambda>foreign.
             and_then (parse_json_or_key_values C (ao_metadata A) ''--metadata'') (\<lambda>m0.
             and_then (add_metadata C who now A m0) (\<lambda>(meta, agent, run). Inr (content, foreign, meta, agent, run))))) of
          Inl e \<Rightarrow> (Inl e, d)
        | Inr (content, foreign, meta, agent, run) \<Rightarrow>
            (if infer \<and> \<not> ao_wait A then
               (case Q ''add'' (add_call_args A content meta agent run True @ [(''async'', PBool True)]) d of
                  (Used (PDict v), d') \<Rightarrow>
                    (Inr (PDict (setdefault ''duration_ms'' (PInt (mo_ms (ms 0))) v)), d')
                | (Used v, d') \<Rightarrow> (Inr v, d')
                | (Refused e, d') \<Rightarrow> (Inl (ClickError e), d')
                | (Unused, d') \<Rightarrow> add_now H ms X who A content meta agent run foreign olds d')
             else add_now H ms X who A content meta agent run foreign olds d))"

subsection \<open>\<^verbatim>\<open>update\<close> and \<^verbatim>\<open>stale merge\<close>\<close>

definition item_text :: "args \<Rightarrow> string" where
  "item_text d = str_or_empty (por (aget d ''memory'') (aget d ''data''))"

definition item_scope :: "args \<Rightarrow> args" where
  "item_scope d = scope_dict (aget d ''user_id'') (aget d ''agent_id'') PNone (aget d ''run_id'')"

definition cmd_update ::
  "cli \<Rightarrow> 'q host \<Rightarrow> (nat \<Rightarrow> moment) \<Rightarrow> (nat \<Rightarrow> 'q executor) \<Rightarrow> operator \<Rightarrow> string \<Rightarrow> string \<Rightarrow> string
     \<Rightarrow> string list \<Rightarrow> 'q daemon \<Rightarrow> (cli_error + pyval) \<times> 'q daemon" where
  "cmd_update C H ms X who now memory_id new_text options d =
     (case X 0 ''get'' [(''memory_id'', PStr memory_id)] d of
        (Inl e, d0) \<Rightarrow> (Inl e, d0)
      | (Inr (PDict existing), d0) \<Rightarrow>
          (case and_then (check_raw_length C (PStr new_text) (Some (item_text existing))) (\<lambda>_.
                parse_json_or_key_values C options ''--metadata'') of
             Inl e \<Rightarrow> (Inl e, d0)
           | Inr extra \<Rightarrow>
               let meta = updated_memory_metadata C who now existing extra in
               (case audited_call H (ms 1) (X 1) ''update''
                       (span_of [(''memory_id'', PStr memory_id), (''text'', PStr new_text),
                                 (''metadata_options'', PList (map PStr options)), (''existing'', PDict existing)]
                          meta (item_scope existing))
                       ''update'' [(''memory_id'', PStr memory_id), (''text'', PStr new_text), (''metadata'', PDict meta)] d0 of
                  (Inl e, d1) \<Rightarrow> (Inl e, d1)
                | (Inr v, d1) \<Rightarrow>
                    (case enqueue_check (ms 2)
                            [(''new_id'', PStr memory_id), (''session_id'', opt_str (wr_session (op_writer who))),
                             (''self_only'', PBool True)] v d1 of
                       (v', d2) \<Rightarrow> (Inr v', d2))))
      | (Inr _, d0) \<Rightarrow> (Inl (ClickError (''memory not found: '' @ memory_id)), d0))"

definition stale_merge ::
  "cli \<Rightarrow> 'q host \<Rightarrow> (nat \<Rightarrow> moment) \<Rightarrow> (nat \<Rightarrow> 'q executor) \<Rightarrow> operator \<Rightarrow> string \<Rightarrow> string \<Rightarrow> string
     \<Rightarrow> bool \<Rightarrow> 'q daemon \<Rightarrow> (cli_error + pyval) \<times> 'q daemon" where
  "stale_merge C H ms X who now pair_id merged_text force d =
     (case load_open_pair H pair_id d of
        Inl e \<Rightarrow> (Inl e, d)
      | Inr r \<Rightarrow>
          if kind_of r \<noteq> Displacement then (Inl (ClickError ''merge applies only to displacement pairs.''), d)
          else case require_disposition_authority who r force ''merge'' of
            Inl e \<Rightarrow> (Inl e, d)
          | Inr _ \<Rightarrow>
              (case X 0 ''get'' [(''memory_id'', PStr (pr_new r))] d of
                 (Inl e, d0) \<Rightarrow> (Inl e, d0)
               | (Inr (PDict existing), d0) \<Rightarrow>
                   let meta = updated_memory_metadata C who now existing [(''merged_from'', PStr (pr_old r))] in
                   (case audited_call H (ms 1) (X 1) ''update''
                           (span_of [(''memory_id'', PStr (pr_new r)), (''text'', PStr merged_text),
                                     (''merge_pair_id'', PStr pair_id), (''existing'', PDict existing)]
                              meta (item_scope existing))
                           ''update''
                           [(''memory_id'', PStr (pr_new r)), (''text'', PStr merged_text), (''metadata'', PDict meta)] d0 of
                      (Inl e, d1) \<Rightarrow> (Inl e, d1)
                    | (Inr _, d1) \<Rightarrow>
                        (case dispose_with_rollback pair_id DMerged (actor_of who) (mo_start (ms 2))
                                (run_invalidate H (ms 2) (X 2) who (pr_old r) [pr_new r]
                                  (Some (''merged into '' @ pr_new r @ '' (pair '' @ pair_id @ '')'')) True) d1 of
                           (Inl e, d2) \<Rightarrow> (Inl e, d2)
                         | (Inr v, d2) \<Rightarrow>
                             (Inr (PDict [(''pair_id'', PStr pair_id), (''disposition'', PStr ''merged''),
                                          (''updated'', PStr (pr_new r)), (''invalidate'', v)]), d2)))
               | (Inr _, d0) \<Rightarrow> (Inl (ClickError (''memory not found: '' @ pr_new r)), d0)))"

subsection \<open>\<^verbatim>\<open>delete\<close>\<close>

record delete_options =
  do_id :: "string option"
  do_all :: bool
  do_user :: string
  do_agent :: "string option"
  do_run :: "string option"
  do_force :: bool
  do_dry :: bool

definition delete_scope :: "delete_options \<Rightarrow> args" where
  "delete_scope D = scope_dict (PStr (do_user D)) (opt_str (do_agent D)) PNone (opt_str (do_run D))"

text \<open>\<^verbatim>\<open>normalize_items(v) or (v if isinstance(v, list) else [])\<close>.\<close>

definition listed :: "pyval \<Rightarrow> pyval list" where
  "listed v = (if normalize_items v \<noteq> [] then map PDict (normalize_items v)
               else case v of PList vs \<Rightarrow> vs | _ \<Rightarrow> [])"

definition delete_all_dry_run ::
  "(nat \<Rightarrow> 'q executor) \<Rightarrow> delete_options \<Rightarrow> 'q daemon \<Rightarrow> (cli_error + pyval) \<times> 'q daemon" where
  "delete_all_dry_run X D d =
     (case X 0 ''list''
             [(''filters'', por (PDict (filters_from_scope (PStr (do_user D)) (opt_str (do_agent D)) PNone
                                  (opt_str (do_run D)) [])) PNone),
              (''top_k'', PInt 10000), (''start'', PInt 0), (''end'', PInt 10000)] d of
        (Inl e, d') \<Rightarrow> (Inl e, d')
      | (Inr v, d') \<Rightarrow>
          (Inr (PDict
             [(''dry_run'', PBool True), (''would_delete_count'', PInt (int (length (listed v)))),
              (''sample'', PList (map (\<lambda>m. case m of
                   PDict x \<Rightarrow> PDict [(''id'', aget x ''id''), (''memory'', por (aget x ''memory'') (aget x ''data''))]
                 | _ \<Rightarrow> PNone) (take 10 (listed v))))]), d'))"

definition delete_all_now ::
  "'q host \<Rightarrow> (nat \<Rightarrow> moment) \<Rightarrow> (nat \<Rightarrow> 'q executor) \<Rightarrow> delete_options \<Rightarrow> 'q daemon
     \<Rightarrow> (cli_error + pyval) \<times> 'q daemon" where
  "delete_all_now H ms X D =
     audited_call H (ms 0) (X 0) ''delete_all''
       (span_of [(''all'', PBool True), (''force'', PBool (do_force D))] [] (delete_scope D))
       ''delete''
       [(''all'', PBool True), (''user_id'', PStr (do_user D)), (''agent_id'', opt_str (do_agent D)),
        (''run_id'', opt_str (do_run D))]"

definition existing_dict :: "pyval \<Rightarrow> args" where
  "existing_dict v = (case v of PDict d \<Rightarrow> d | _ \<Rightarrow> [])"

text \<open>The audited part: the delete, then the suspicions about the memory unless it was only expired.\<close>

definition delete_block ::
  "'q host \<Rightarrow> moment \<Rightarrow> 'q executor \<Rightarrow> operator \<Rightarrow> string \<Rightarrow> audit_span \<Rightarrow> 'q daemon
     \<Rightarrow> (cli_error option \<times> audit_span) \<times> 'q daemon" where
  "delete_block H m X who memory_id sp d =
     (case X ''delete'' [(''all'', PBool False), (''memory_id'', PStr memory_id), (''actor_id'', PStr (actor_of who))] d of
        (Inl e, d') \<Rightarrow> ((Some e, sp), d')
      | (Inr v, d') \<Rightarrow>
          let downgraded = truthy (aget (existing_dict v) ''downgraded_to_expiry'');
              rows = pairs (d_world d');
              d'' = (if downgraded \<or> \<not> pairs_up (h_env H) then d'
                     else put_pairs (snd (close_for_deleted_memory memory_id (mo_settle m) rows)) d')
          in ((None, sp\<lparr>sp_result := PDict [(''id'', PStr memory_id), (''result'', v)]\<rparr>), d''))"

definition delete_one ::
  "'q host \<Rightarrow> (nat \<Rightarrow> moment) \<Rightarrow> (nat \<Rightarrow> 'q executor) \<Rightarrow> operator \<Rightarrow> delete_options \<Rightarrow> string \<Rightarrow> 'q daemon
     \<Rightarrow> (cli_error + pyval) \<times> 'q daemon" where
  "delete_one H ms X who D memory_id d =
     (case X 0 ''get'' [(''memory_id'', PStr memory_id)] d of
        (Inl e, d0) \<Rightarrow> (Inl e, d0)
      | (Inr existing, d0) \<Rightarrow>
          if do_dry D then (Inr (PDict [(''dry_run'', PBool True), (''would_delete'', existing)]), d0)
          else case confirm_destructive who (do_force D) of
            Inl e \<Rightarrow> (Inl e, d0)
          | Inr _ \<Rightarrow>
              (case audited_cli H (ms 1) ''delete''
                      (span_of [(''memory_id'', PStr memory_id), (''existing'', existing)]
                         (as_dict (aget (existing_dict existing) ''metadata'')) (item_scope (existing_dict existing)))
                      (delete_block H (ms 1) (X 1) who memory_id) d0 of
                 (r, d1) \<Rightarrow> (map_sum id sp_result r, d1)))"

definition cmd_delete ::
  "'q host \<Rightarrow> (nat \<Rightarrow> moment) \<Rightarrow> (nat \<Rightarrow> 'q executor) \<Rightarrow> operator \<Rightarrow> delete_options \<Rightarrow> 'q daemon
     \<Rightarrow> (cli_error + pyval) \<times> 'q daemon" where
  "cmd_delete H ms X who D d =
     (if do_all D then
        (if do_dry D then delete_all_dry_run X D d
         else if \<not> do_force D then (Inl (BadParameter ''--all requires --force.''), d)
         else delete_all_now H ms X D d)
      else if \<not> truthy_text (do_id D) then (Inl (BadParameter ''Pass memory_id or --all --force.''), d)
      else delete_one H ms X who D (the (do_id D)) d)"

subsection \<open>The reading commands\<close>

definition cmd_search ::
  "cli \<Rightarrow> (nat \<Rightarrow> 'q executor) \<Rightarrow> string option \<Rightarrow> string option \<Rightarrow> string \<Rightarrow> int \<Rightarrow> pyval \<Rightarrow> bool \<Rightarrow> bool \<Rightarrow> bool
     \<Rightarrow> string option \<Rightarrow> bool \<Rightarrow> 'q daemon \<Rightarrow> (cli_error + pyval) \<times> 'q daemon" where
  "cmd_search C X query0 piped user top_k threshold rerank keyword include_superseded columns explain d =
     (let query = (case (query0, piped) of (None, Some s) \<Rightarrow> strip s | (q, _) \<Rightarrow> opt_text q) in
      if query = [] then (Inl (BadParameter ''Search query cannot be empty.''), d)
      else if top_k < 1 then (Inl (BadParameter ''--top-k must be >= 1.''), d)
      else case X 0 ''search''
             [(''query'', PStr query), (''top_k'', PInt top_k),
              (''filters'', PDict (filters_from_scope (PStr user) PNone PNone PNone [])), (''threshold'', threshold),
              (''rerank'', PBool rerank), (''keyword'', PBool keyword), (''explain'', PBool explain),
              (''include_superseded'', PBool include_superseded)] d of
           (r, d') \<Rightarrow> (map_sum id (\<lambda>v. project_fields v columns) r, d'))"

definition page_window :: "int \<Rightarrow> int \<Rightarrow> cli_error + int \<times> int" where
  "page_window page page_size =
     (if page < 1 then Inl (BadParameter ''--page must be >= 1.'')
      else if page_size < 1 then Inl (BadParameter ''--page-size must be >= 1.'')
      else Inr ((page - 1) * page_size, (page - 1) * page_size + page_size))"

definition cmd_list ::
  "cli \<Rightarrow> (nat \<Rightarrow> 'q executor) \<Rightarrow> string \<Rightarrow> int \<Rightarrow> int \<Rightarrow> string list \<Rightarrow> 'q daemon \<Rightarrow> (cli_error + pyval) \<times> 'q daemon" where
  "cmd_list C X user page page_size options d =
     (case and_then (page_window page page_size) (\<lambda>w.
           map_sum id (Pair w) (parse_json_or_key_values C options ''--filter'')) of
        Inl e \<Rightarrow> (Inl e, d)
      | Inr ((s, e), extra) \<Rightarrow>
          X 0 ''list''
            [(''filters'', por (PDict (filters_from_scope (PStr user) PNone PNone PNone extra)) PNone),
             (''top_k'', PInt (page * page_size)), (''start'', PInt s), (''end'', PInt e)] d)"

definition cmd_get ::
  "'q host \<Rightarrow> (nat \<Rightarrow> 'q executor) \<Rightarrow> string \<Rightarrow> bool \<Rightarrow> 'q daemon \<Rightarrow> (cli_error + pyval) \<times> 'q daemon" where
  "cmd_get H X memory_id with_head d =
     (case X 0 ''get'' [(''memory_id'', PStr memory_id)] d of
        (Inr (PDict v), d0) \<Rightarrow>
          if with_head then
            (case X 1 ''resolve_head'' [(''memory_id'', PStr memory_id)] d0 of
               (Inl e, d1) \<Rightarrow> (Inr (PDict (aset ''head'' (PDict [(''error'', PStr (cli_text H e))]) v)), d1)
             | (Inr h, d1) \<Rightarrow> (Inr (PDict (aset ''head'' h v)), d1))
          else (Inr (PDict v), d0)
      | other \<Rightarrow> other)"

definition cmd_history :: "(nat \<Rightarrow> 'q executor) \<Rightarrow> string \<Rightarrow> 'q daemon \<Rightarrow> (cli_error + pyval) \<times> 'q daemon" where
  "cmd_history X memory_id = X 0 ''history'' [(''memory_id'', PStr memory_id)]"

definition cmd_revive ::
  "'q host \<Rightarrow> (nat \<Rightarrow> moment) \<Rightarrow> (nat \<Rightarrow> 'q executor) \<Rightarrow> operator \<Rightarrow> string \<Rightarrow> 'q daemon
     \<Rightarrow> (cli_error + pyval) \<times> 'q daemon" where
  "cmd_revive H ms X who memory_id d =
     (case audited_op H (ms 0) (X 0) ''revive'' ''revive''
             [(''memory_id'', PStr memory_id), (''actor_id'', PStr (actor_of who)),
              (''session_id'', PStr (session_of who))] d of
        (r, d') \<Rightarrow> (map_sum (as_error H) id r, d'))"

definition cmd_invalidate ::
  "'q host \<Rightarrow> (nat \<Rightarrow> moment) \<Rightarrow> (nat \<Rightarrow> 'q executor) \<Rightarrow> operator \<Rightarrow> string \<Rightarrow> string \<Rightarrow> string option \<Rightarrow> 'q daemon
     \<Rightarrow> (cli_error + pyval) \<times> 'q daemon" where
  "cmd_invalidate H ms X who memory_id by_text reason d =
     (if split_list by_text = [] then (Inl (BadParameter ''--by requires at least one memory id.''), d)
      else run_invalidate H (ms 0) (X 0) who memory_id (split_list by_text) reason True d)"

definition cmd_ttl ::
  "'q host \<Rightarrow> (nat \<Rightarrow> moment) \<Rightarrow> (nat \<Rightarrow> 'q executor) \<Rightarrow> operator \<Rightarrow> string \<Rightarrow> rat option \<Rightarrow> bool \<Rightarrow> 'q daemon
     \<Rightarrow> (cli_error + pyval) \<times> 'q daemon" where
  "cmd_ttl H ms X who memory_id days clear = apply_ttl H (ms 0) (X 0) who memory_id days clear False"

text \<open>\<^verbatim>\<open>start\<close>: the recent memories, newest first; \<open>since\<close> is the clock less the window. The order is on the time
  of ingestion, or of creation when that is missing.\<close>

definition recency :: "pyval \<Rightarrow> string" where
  "recency v = (case v of
     PDict d \<Rightarrow> str_or_empty (por (aget (as_dict (aget d ''metadata'')) ''ingested_at'') (aget d ''created_at''))
   | _ \<Rightarrow> [])"

definition newest_first :: "pyval list \<Rightarrow> pyval list" where
  "newest_first vs = rev (sort_key recency (rev vs))"

definition cmd_start ::
  "cli \<Rightarrow> (nat \<Rightarrow> 'q executor) \<Rightarrow> string \<Rightarrow> int \<Rightarrow> 'q daemon \<Rightarrow> (cli_error + pyval) \<times> 'q daemon" where
  "cmd_start C X since limit d =
     (case X 0 ''list''
             [(''filters'', PDict [(''user_id'', PStr (c_user C)), (''ingested_at'', PDict [(''gte'', PStr since)])]),
              (''top_k'', PInt limit), (''start'', PInt 0), (''end'', PInt limit)] d of
        (Inl e, d') \<Rightarrow> (Inl e, d')
      | (Inr v, d') \<Rightarrow>
          (Inr (PDict [(''since'', PStr since), (''count'', PInt (int (length (listed v)))),
                       (''memories'', PList (newest_first (listed v)))]), d'))"

text \<open>\<^verbatim>\<open>review\<close>: the session, and the exit code under \<^verbatim>\<open>--check\<close>.\<close>

definition review_session :: "operator \<Rightarrow> string option \<Rightarrow> cli_error + string" where
  "review_session who session =
     (if truthy_text session then Inr (the session)
      else if truthy_text (wr_session (op_writer who)) then Inr (the (wr_session (op_writer who)))
      else Inl (BadParameter ''No session id detected; pass --session explicitly.''))"

definition review_exit_code :: "bool \<Rightarrow> blocker list \<Rightarrow> nat" where
  "review_exit_code check blocking = (if check \<and> blocking \<noteq> [] then 2 else 0)"

subsection \<open>\<^verbatim>\<open>entity\<close> and \<^verbatim>\<open>event\<close>\<close>

definition cmd_entity_list ::
  "(nat \<Rightarrow> 'q executor) \<Rightarrow> string option \<Rightarrow> string option \<Rightarrow> int \<Rightarrow> int \<Rightarrow> int \<Rightarrow> 'q daemon
     \<Rightarrow> (cli_error + pyval) \<times> 'q daemon" where
  "cmd_entity_list X entity_type contains page page_size scan_limit d =
     (case page_window page page_size of
        Inl e \<Rightarrow> (Inl e, d)
      | Inr (s, e) \<Rightarrow>
          X 0 ''entity_list''
            [(''entity_type'', opt_str entity_type), (''contains'', opt_str contains),
             (''scan_limit'', PInt scan_limit), (''start'', PInt s), (''end'', PInt e)] d)"

definition cmd_entity_delete ::
  "'q host \<Rightarrow> (nat \<Rightarrow> moment) \<Rightarrow> (nat \<Rightarrow> 'q executor) \<Rightarrow> operator \<Rightarrow> string \<Rightarrow> bool \<Rightarrow> bool \<Rightarrow> 'q daemon
     \<Rightarrow> (cli_error + pyval) \<times> 'q daemon" where
  "cmd_entity_delete H ms X who entity_id dry_run force d =
     (case X 0 ''entity_get'' [(''entity_id'', PStr entity_id)] d of
        (Inl e, d0) \<Rightarrow> (Inl e, d0)
      | (Inr row, d0) \<Rightarrow>
          if \<not> truthy row then (Inl (ClickError (''Entity not found: '' @ entity_id)), d0)
          else if dry_run then (Inr (PDict [(''dry_run'', PBool True), (''would_delete'', row)]), d0)
          else case confirm_destructive who force of
            Inl e \<Rightarrow> (Inl e, d0)
          | Inr _ \<Rightarrow>
              audited_call H (ms 1) (X 1) ''entity_delete''
                (span_of [(''entity_id'', PStr entity_id), (''existing'', row)] [] []) ''entity_delete''
                [(''entity_id'', PStr entity_id)] d0)"

text \<open>\<open>Y\<close> is \<^verbatim>\<open>execute_queue\<close>. The page number of \<^verbatim>\<open>event list\<close> is not checked.\<close>

definition cmd_event_list ::
  "'q executor \<Rightarrow> string option \<Rightarrow> int \<Rightarrow> int \<Rightarrow> 'q daemon \<Rightarrow> (cli_error + pyval) \<times> 'q daemon" where
  "cmd_event_list Y status page page_size d =
     (if truthy_text status \<and> the status \<notin> {''queued'', ''processing'', ''done'', ''failed''}
      then (Inl (BadParameter ''--status must be one of: queued, processing, done, failed.''), d)
      else Y ''event_list''
             [(''status'', opt_str status), (''limit'', PInt page_size), (''offset'', PInt ((page - 1) * page_size))] d)"

definition cmd_event_status :: "'q executor \<Rightarrow> string \<Rightarrow> 'q daemon \<Rightarrow> (cli_error + pyval) \<times> 'q daemon" where
  "cmd_event_status Y event_id d =
     (case Y ''event_get'' [(''event_id'', PStr event_id)] d of
        (Inr v, d') \<Rightarrow> (if truthy v then Inr v else Inl (ClickError (''Event not found: '' @ event_id)), d')
      | other \<Rightarrow> other)"

definition cmd_event_retry :: "'q executor \<Rightarrow> string \<Rightarrow> 'q daemon \<Rightarrow> (cli_error + pyval) \<times> 'q daemon" where
  "cmd_event_retry Y event_id = Y ''event_retry'' [(''event_id'', PStr event_id)]"

definition cmd_event_ack :: "'q executor \<Rightarrow> string option \<Rightarrow> bool \<Rightarrow> 'q daemon \<Rightarrow> (cli_error + pyval) \<times> 'q daemon" where
  "cmd_event_ack Y event_id every d =
     (if \<not> truthy_text event_id \<and> \<not> every then (Inl (BadParameter ''Pass an event ID or --all.''), d)
      else Y ''event_ack'' [(''event_id'', if every then PNone else opt_str event_id)] d)"

end
