(* ===== verification/Cli_Laws.thy ===== *)
theory Cli_Laws
  imports Cli_Memory
begin

text \<open>
  What the commands of \<open>Cli_Memory\<close> promise: the gates on raw writes, consent before anything is deleted, the
  attribution of a new memory, the paging through the whole store, the invalidations of \<^verbatim>\<open>--supersedes\<close>.
\<close>

subsection \<open>Raw writes\<close>

lemma cmd_update_over_cap:
  assumes "X 0 ''get'' [(''memory_id'', PStr mid)] d = (Inr (PDict existing), d0)"
    "c_cap C < py_length s" "py_length (item_text existing) < py_length s"
  shows "\<exists>t. cmd_update C H ms X who now mid s options d = (Inl (ClickError t), d0)"
  using assms by (simp add: cmd_update_def check_raw_length_def)

text \<open>C33: A raw text over the cap is refused by \<^verbatim>\<open>add\<close>, with \<^verbatim>\<open>--force\<close> too, and non-Latin text is refused without
  \<^verbatim>\<open>--force\<close>: nothing is called and nothing changes. An \<^verbatim>\<open>update\<close> to a text over the cap is refused when it would
  make the memory longer, after the one read that finds its present text.\<close>

theorem raw_write_gated:
  assumes "\<not> add_infers A" "read_content C (ao_source A) = Inr (PStr s)"
    "c_cap C < py_length s \<or> (\<not> ao_force A \<and> list_ex (c_non_latin C) (utf8_chars s))"
  shows "(\<exists>e. cmd_add C H ms Q X who now A d = (Inl e, d)) \<and>
    (\<forall>existing d0. c_cap C < py_length s \<longrightarrow> py_length (item_text existing) < py_length s \<longrightarrow>
       X 0 ''get'' [(''memory_id'', PStr mid)] d = (Inr (PDict existing), d0) \<longrightarrow>
       (\<exists>t. cmd_update C H ms X who now mid s options d = (Inl (ClickError t), d0)))"
proof -
  have "\<not> is_ok (and_then (check_raw_length C (PStr s) None) (\<lambda>_. check_raw_language C (PStr s) (ao_force A)))"
    using assms(3)
    by (auto simp: check_raw_length_def check_raw_language_def non_latin_letters_def filter_empty_conv list_ex_iff Let_def)
  then obtain e where "and_then (check_raw_length C (PStr s) None) (\<lambda>_. check_raw_language C (PStr s) (ao_force A)) = Inl e"
    by (auto simp: is_ok_def split: sum.splits)
  then show ?thesis using assms(1,2) by (auto simp: cmd_add_def Let_def intro: cmd_update_over_cap)
qed

definition demo_cli :: cli where
  "demo_cli = \<lparr>c_user = ''workspace'', c_cap = 3, c_schema = 2, c_json = (\<lambda>_. Inl ''not JSON''),
     c_float = (\<lambda>_. None), c_non_latin = (\<lambda>c. length c = 3), c_fromiso = (\<lambda>s. Some (Aware s)),
     c_localize = id\<rparr>"

definition demo_add :: "string \<Rightarrow> add_options" where
  "demo_add s =
     \<lparr>ao_source = \<lparr>cs_text = Some s, cs_messages = None, cs_file = None, cs_piped = None\<rparr>, ao_user = ''workspace'',
      ao_agent = None, ao_app = None, ao_run = None, ao_metadata = [], ao_timestamp = None, ao_ledger = None,
      ao_infer = None, ao_supersedes = None, ao_force = True, ao_wait = False\<rparr>"

theorem raw_write_gated_witness:
  "\<exists>e. cmd_add demo_cli demo_process (\<lambda>_. demo_moment) (\<lambda>op a d. (Unused, d)) (\<lambda>_. direct demo_process demo_moment)
     demo_operator ''now'' (demo_add ''four'') demo_daemon = (Inl e, demo_daemon)"
proof -
  have "\<not> add_infers (demo_add ''four'')" by (simp add: add_infers_def demo_add_def truthy_text_def)
  moreover have "read_content demo_cli (ao_source (demo_add ''four'')) = Inr (PStr ''four'')"
    by (simp add: read_content_def demo_add_def truthy_text_def)
  moreover have "py_length ''four'' = 4" by (simp add: py_length_def continues_def Let_def)
  then have "c_cap demo_cli < py_length ''four''" by (simp add: demo_cli_def)
  ultimately show ?thesis by (blast dest: raw_write_gated)
qed

subsection \<open>Consent\<close>

lemma dispatch_get: "dispatch E B T ''get'' a w = op_get E B T a w"
  by (simp add: dispatch_def OPS_def quick_def)

lemma dispatch_list: "dispatch E B T ''list'' a w = op_list E B T a w"
  by (simp add: dispatch_def OPS_def quick_def)

lemma dispatch_entity_get: "dispatch E B T ''entity_get'' a w = op_entity_get E B T a w"
  by (simp add: dispatch_def OPS_def quick_def)

lemma given_pure: "(\<And>x. r = Inr x \<Longrightarrow> snd (f x w) = w) \<Longrightarrow> snd (given r f w) = w"
  by (auto simp: given_def split: sum.splits)

lemma read_only_pure: "snd (read_only f c w) = w"
  by (simp add: read_only_def split: option.splits)

lemma d_world_same: "d\<lparr>d_world := d_world d\<rparr> = d"
  by simp

lemma direct_pure:
  "snd (run_op H m op a (d_world d)) = d_world d \<Longrightarrow> snd (direct H m op a d) = d"
  by (cases "run_op H m op a (d_world d)") (simp add: direct_def)

lemma direct_read_only:
  "snd (direct H m ''get'' a d) = d" "snd (direct H m ''list'' a d) = d" "snd (direct H m ''entity_get'' a d) = d"
  by (rule direct_pure, unfold dispatch_get dispatch_list dispatch_entity_get op_get_def op_list_def op_entity_get_def,
      intro given_pure read_only_pure)+

definition consents :: "operator \<Rightarrow> bool \<Rightarrow> bool" where
  "consents who force \<longleftrightarrow> force \<or> (op_tty who \<and> op_answers_yes who)"

lemma confirm_destructive_iff: "confirm_destructive who force = Inr () \<longleftrightarrow> consents who force"
  by (simp add: confirm_destructive_def consents_def)

text \<open>C34: Nothing is deleted without consent. Unless \<^verbatim>\<open>--force\<close> is given or, for a single row, someone at a
  terminal agrees, \<^verbatim>\<open>delete\<close>, \<^verbatim>\<open>delete --all\<close> and \<^verbatim>\<open>entity delete\<close> end with an error and leave the whole state
  alone; with \<^verbatim>\<open>--dry-run\<close> they leave it alone whatever else is given.\<close>

theorem no_delete_without_consent:
  assumes "do_dry D \<or> \<not> (if do_all D then do_force D else consents who (do_force D))"
  shows "snd (cmd_delete H ms (\<lambda>n. direct H (ms n)) who D d) = d \<and>
    (\<not> do_dry D \<longrightarrow> \<not> is_ok (fst (cmd_delete H ms (\<lambda>n. direct H (ms n)) who D d))) \<and>
    (\<not> consents who force \<or> dry \<longrightarrow>
       snd (cmd_entity_delete H ms (\<lambda>n. direct H (ms n)) who eid dry force d) = d)"
proof -
  have get: "\<exists>r. direct H m ''get'' a d = (r, d)" and lst: "\<exists>r. direct H m ''list'' a d = (r, d)"
    and ent: "\<exists>r. direct H m ''entity_get'' a d = (r, d)" for m a
    using direct_read_only[of H m a d] by (metis prod.collapse)+
  have "snd (cmd_delete H ms (\<lambda>n. direct H (ms n)) who D d) = d \<and>
    (\<not> do_dry D \<longrightarrow> \<not> is_ok (fst (cmd_delete H ms (\<lambda>n. direct H (ms n)) who D d)))"
  proof (cases "do_all D")
    case True
    obtain r where "direct H (ms 0) ''list''
      [(''filters'', por (PDict (filters_from_scope (PStr (do_user D)) (opt_str (do_agent D)) PNone (opt_str (do_run D)) [])) PNone),
       (''top_k'', PInt 10000), (''start'', PInt 0), (''end'', PInt 10000)] d = (r, d)" using lst by blast
    with True assms show ?thesis by (cases r) (auto simp: cmd_delete_def delete_all_dry_run_def)
  next
    case False
    obtain r where "direct H (ms 0) ''get'' [(''memory_id'', PStr (the (do_id D)))] d = (r, d)" using get by blast
    with False assms show ?thesis
      by (cases r) (auto simp: cmd_delete_def delete_one_def simp flip: confirm_destructive_iff split: sum.splits)
  qed
  moreover have "snd (cmd_entity_delete H ms (\<lambda>n. direct H (ms n)) who eid dry force d) = d"
    if "\<not> consents who force \<or> dry"
  proof -
    obtain r where "direct H (ms 0) ''entity_get'' [(''entity_id'', PStr eid)] d = (r, d)" using ent by blast
    with that show ?thesis
      by (cases r) (auto simp: cmd_entity_delete_def simp flip: confirm_destructive_iff split: sum.splits)
  qed
  ultimately show ?thesis by blast
qed

theorem no_delete_without_consent_witness:
  "snd (cmd_delete demo_process (\<lambda>_. demo_moment) (\<lambda>n. direct demo_process demo_moment) demo_operator
     \<lparr>do_id = Some ''a'', do_all = True, do_user = ''workspace'', do_agent = None, do_run = None,
      do_force = False, do_dry = False\<rparr> demo_daemon) = demo_daemon"
  by (rule no_delete_without_consent[THEN conjunct1]) simp

subsection \<open>The attribution of a new memory\<close>

lemma stated_aset: "stated (aset k v d) j \<longleftrightarrow> j = k \<or> stated d j"
  by (induction k v d rule: aset.induct) (auto simp: stated_def)

lemma stated_setdefault: "stated (setdefault k v d) j \<longleftrightarrow> j = k \<or> stated d j"
  by (auto simp: setdefault_def stated_aset)

lemma aget_setdefault: "aget (setdefault k v d) j = (if j = k \<and> \<not> stated d k then v else aget d j)"
  by (auto simp: setdefault_def aget_aset)

lemma setdefault_if_simps:
  "stated (setdefault_if c k v d) j \<longleftrightarrow> (c \<and> j = k) \<or> stated d j"
  "aget (setdefault_if c k v d) j = (if c \<and> j = k \<and> \<not> stated d k then v else aget d j)"
  by (auto simp: setdefault_if_def stated_setdefault aget_setdefault)

lemmas metadata_simps = stated_aset stated_setdefault aget_aset aget_setdefault setdefault_if_simps

definition PROVENANCE :: "string list" where
  "PROVENANCE = [''source'', ''session_id'', ''writer_agent_id'', ''origin'', ''memory_schema_version'', ''created_at'',
     ''ledger_timestamp'', ''ingested_at'']"

lemma opt_str_truthy: "truthy_text x \<Longrightarrow> opt_str x = PStr (the x)"
  by (auto simp: truthy_text_def opt_str_def split: option.splits)

lemma actor_of_truthy: "actor_of who = (if truthy_text (wr_source (op_writer who)) then the (wr_source (op_writer who))
    else op_manual_source who)"
  by (auto simp: actor_of_def truthy_text_def split: option.splits)

lemma identity_shape:
  assumes "add_identity C who A m0 = (m, agent, run)"
  shows "\<exists>origin. m = setdefault_if (truthy_text (ao_app A)) ''app_id'' (opt_str (ao_app A))
    (setdefault ''memory_schema_version'' (PInt (c_schema C)) (setdefault ''origin'' origin
      (setdefault ''writer_agent_id'' (PStr agent) (setdefault ''session_id'' (PStr run)
        (setdefault ''source'' (PStr (op_manual_source who))
          (setdefault_if (truthy_text (wr_session (op_writer who))) ''session_id'' (opt_str (wr_session (op_writer who)))
            (setdefault_if (truthy_text (wr_source (op_writer who))) ''source'' (opt_str (wr_source (op_writer who))) m0)))))))"
  using assms unfolding add_identity_def Let_def by blast

lemma identity_facts:
  assumes "add_identity C who A m0 = (m, agent, run)"
  shows "stated m k \<longleftrightarrow> stated m0 k \<or>
      k \<in> {''source'', ''session_id'', ''writer_agent_id'', ''origin'', ''memory_schema_version''} \<or>
      (k = ''app_id'' \<and> truthy_text (ao_app A))"
    "stated m0 k \<Longrightarrow> aget m k = aget m0 k"
    "\<not> stated m0 ''source'' \<Longrightarrow> aget m ''source'' = PStr (actor_of who)"
    "\<not> stated m0 ''session_id'' \<Longrightarrow> aget m ''session_id'' =
       PStr (if truthy_text (wr_session (op_writer who)) then the (wr_session (op_writer who)) else run)"
    "\<not> stated m0 ''writer_agent_id'' \<Longrightarrow> aget m ''writer_agent_id'' = PStr agent"
proof -
  obtain origin where m: "m = setdefault_if (truthy_text (ao_app A)) ''app_id'' (opt_str (ao_app A))
    (setdefault ''memory_schema_version'' (PInt (c_schema C)) (setdefault ''origin'' origin
      (setdefault ''writer_agent_id'' (PStr agent) (setdefault ''session_id'' (PStr run)
        (setdefault ''source'' (PStr (op_manual_source who))
          (setdefault_if (truthy_text (wr_session (op_writer who))) ''session_id'' (opt_str (wr_session (op_writer who)))
            (setdefault_if (truthy_text (wr_source (op_writer who))) ''source'' (opt_str (wr_source (op_writer who))) m0)))))))"
    using identity_shape[OF assms] by blast
  show "stated m k \<longleftrightarrow> stated m0 k \<or>
      k \<in> {''source'', ''session_id'', ''writer_agent_id'', ''origin'', ''memory_schema_version''} \<or>
      (k = ''app_id'' \<and> truthy_text (ao_app A))"
    unfolding m metadata_simps by auto
  show "aget m k = aget m0 k" if "stated m0 k" using that by (auto simp: m metadata_simps)
  show "aget m ''source'' = PStr (actor_of who)" if "\<not> stated m0 ''source''"
    using that by (simp add: m metadata_simps actor_of_truthy opt_str_truthy)
  show "aget m ''session_id'' =
      PStr (if truthy_text (wr_session (op_writer who)) then the (wr_session (op_writer who)) else run)"
    if "\<not> stated m0 ''session_id''" using that by (simp add: m metadata_simps opt_str_truthy)
  show "aget m ''writer_agent_id'' = PStr agent" if "\<not> stated m0 ''writer_agent_id''"
    using that by (simp add: m metadata_simps)
qed

text \<open>Every memory that \<^verbatim>\<open>add\<close> sends is attributed and dated: source, session, writer, origin, schema version
  and the three time stamps are present. What the caller writes with \<^verbatim>\<open>-m\<close> is kept, the two normalised stamps
  apart; what it leaves out is the detected writer, or the configured manual identity. The creation time and the
  ledger time that are stored have been through the normaliser.\<close>

theorem add_metadata_attributes:
  assumes "add_metadata C who now A m0 = Inr (meta, agent, run)"
  shows "(\<forall>k \<in> set PROVENANCE. stated meta k) \<and>
    (\<forall>k. stated m0 k \<longrightarrow> k \<notin> {''created_at'', ''ledger_timestamp''} \<longrightarrow> aget meta k = aget m0 k) \<and>
    (\<not> stated m0 ''source'' \<longrightarrow> aget meta ''source'' = PStr (actor_of who)) \<and>
    (\<not> stated m0 ''session_id'' \<longrightarrow> aget meta ''session_id'' =
       PStr (if truthy_text (wr_session (op_writer who)) then the (wr_session (op_writer who)) else run)) \<and>
    (\<not> stated m0 ''writer_agent_id'' \<longrightarrow> aget meta ''writer_agent_id'' = PStr agent) \<and>
    (\<exists>ts. normalize_timestamp C ts = Inr (aget meta ''created_at''))"
proof -
  obtain m where i: "add_identity C who A m0 = (m, agent, run)"
    and m: "\<exists>created ledger ts. normalize_timestamp C ts = Inr created \<and>
      meta = setdefault ''ingested_at'' (PStr now) (aset ''ledger_timestamp'' ledger (aset ''created_at'' created m))"
    using assms by (cases "add_identity C who A m0") (auto simp: add_metadata_def and_then_Inr_iff Let_def)
  then obtain created ledger ts where c: "normalize_timestamp C ts = Inr created"
    and meta: "meta = setdefault ''ingested_at'' (PStr now) (aset ''ledger_timestamp'' ledger (aset ''created_at'' created m))"
    by blast
  have "\<forall>k \<in> set PROVENANCE. stated meta k"
    by (simp add: PROVENANCE_def meta metadata_simps identity_facts(1)[OF i])
  moreover have "aget meta k = aget m0 k" if "stated m0 k" "k \<notin> {''created_at'', ''ledger_timestamp''}" for k
    using that by (auto simp: meta metadata_simps identity_facts(1,2)[OF i])
  moreover have "normalize_timestamp C ts = Inr (aget meta ''created_at'')"
    by (simp add: meta metadata_simps c)
  ultimately show ?thesis
    using identity_facts(3,4,5)[OF i] by (auto simp: meta metadata_simps)
qed

theorem add_metadata_attributes_witness:
  "\<exists>meta agent run. add_metadata demo_cli demo_operator ''now'' (demo_add ''x'') [(''topic'', PStr ''t'')] =
     Inr (meta, agent, run) \<and> aget meta ''topic'' = PStr ''t'' \<and> aget meta ''source'' = PStr (actor_of demo_operator)"
proof -
  have n: "\<exists>r. normalize_timestamp demo_cli v = Inr r" for v
    by (auto simp: normalize_timestamp_def demo_cli_def Let_def split: pyval.splits)
  obtain m agent run where i: "add_identity demo_cli demo_operator (demo_add ''x'') [(''topic'', PStr ''t'')] = (m, agent, run)"
    by (cases "add_identity demo_cli demo_operator (demo_add ''x'') [(''topic'', PStr ''t'')]")
  obtain r1 where r1: "normalize_timestamp demo_cli (opt_str (ao_timestamp (demo_add ''x''))) = Inr r1" using n by blast
  obtain r2 where r2: "normalize_timestamp demo_cli (PStr (py_str (por (por r1 (aget m ''created_at'')) (PStr ''now'')))) = Inr r2"
    using n by blast
  obtain r3 where r3: "normalize_timestamp demo_cli (opt_str (ao_ledger (demo_add ''x''))) = Inr r3" using n by blast
  have "is_ok (add_metadata demo_cli demo_operator ''now'' (demo_add ''x'') [(''topic'', PStr ''t'')])"
    by (simp add: add_metadata_def i r1 r2 r3 Let_def)
  then obtain meta agent run where
    run: "add_metadata demo_cli demo_operator ''now'' (demo_add ''x'') [(''topic'', PStr ''t'')] = Inr (meta, agent, run)"
    by (auto simp: is_ok_def split: sum.splits)
  from add_metadata_attributes[OF run] have "aget meta ''topic'' = PStr ''t'' \<and> aget meta ''source'' = PStr (actor_of demo_operator)"
    by (auto simp: stated_def aget_Cons)
  with run show ?thesis by blast
qed

subsection \<open>Reading the whole store\<close>

lemma slice_of_prefix:
  "py_slice (PInt (int a)) (PInt (int b)) (take b xs) = drop a (take b xs)"
proof -
  let ?ys = "take b xs"
  have "py_slice (PInt (int a)) (PInt (int b)) ?ys = drop (min (length ?ys) a) ?ys"
    by (simp add: py_slice_def slice_index_def Let_def)
  also have "\<dots> = drop a ?ys" by (cases "length ?ys \<le> a") (simp_all add: min_def)
  finally show ?thesis .
qed

lemma window_served:
  assumes "get_all E (map_of flt) b w = Some (take b items)"
  shows "op_list E B T [(''filters'', PDict flt), (''top_k'', PInt (int b)), (''start'', PInt (int a)), (''end'', PInt (int b))] w =
    (Inr (RItems (drop a (take b items))), w)"
  using assms
  by (simp add: op_list_def given_def required_dict_def required_nat_def required_def read_only_def slice_of_prefix)

lemma page_served:
  assumes "c_user C \<noteq> []"
    "\<And>k. get_all (h_env H) [''user_id'' \<mapsto> PStr (c_user C)] (Suc k) (d_world d) = Some (take (Suc k) items)"
  shows "direct H m ''list'' (page_args C (Suc q)) d = (Inr (h_value H (RItems (take 500 (drop (q * 500) items)))), d)"
proof -
  let ?b = "Suc q * 500"
  have page: "page_args C (Suc q) =
      [(''filters'', PDict [(''user_id'', PStr (c_user C))]), (''top_k'', PInt (int ?b)),
       (''start'', PInt (int (q * 500))), (''end'', PInt (int ?b))]"
    using assms(1) by (simp add: page_args_def filters_from_scope_def dict_update_def por_def)
  have k: "?b = Suc (q * 500 + 499)" by simp
  have "get_all (h_env H) (map_of [(''user_id'', PStr (c_user C))]) ?b (d_world d) = Some (take ?b items)"
    unfolding k map_of.simps fst_conv snd_conv by (rule assms(2))
  from window_served[OF this] have "op_list (h_env H) (h_backend H) (mo_clock m) (page_args C (Suc q)) (d_world d) =
      (Inr (RItems (drop (q * 500) (take ?b items))), d_world d)"
    unfolding page .
  moreover have "drop (q * 500) (take ?b items) = take 500 (drop (q * 500) items)" by (simp add: drop_take)
  ultimately show ?thesis by (simp add: direct_def dispatch_list)
qed

lemma read_pages_all:
  assumes "\<And>q. X (Suc q) ''list'' (page_args C (Suc q)) d = (Inr (PList (take 500 (drop (q * 500) all))), d)"
  shows "q * 500 \<le> length all \<Longrightarrow> length all < 500 * (q + fuel) \<Longrightarrow>
    read_pages C X fuel (Suc q) (take (q * 500) all) d = Some (Inr all, d)"
proof (induction fuel arbitrary: q)
  case 0
  then show ?case by simp
next
  case (Suc fuel)
  let ?page = "take 500 (drop (q * 500) all)"
  have join: "take (q * 500) all @ ?page = take (Suc q * 500) all"
  proof -
    have "Suc q * 500 = q * 500 + 500" by simp
    then show ?thesis by (simp only: take_add)
  qed
  have turn: "read_pages C X (Suc fuel) (Suc q) (take (q * 500) all) d =
      (if length ?page < 500 then Some (Inr (take (Suc q * 500) all), d)
       else read_pages C X fuel (Suc (Suc q)) (take (Suc q * 500) all) d)"
    by (simp only: read_pages.simps assms prod.case sum.case page_items_def pyval.case Let_def join One_nat_def add_Suc_right add_0_right)
  show ?case
  proof (cases "length ?page < 500")
    case True
    then have "length all \<le> Suc q * 500" by simp
    then have "take (Suc q * 500) all = all" by (rule take_all)
    then show ?thesis unfolding turn using True by (simp only: if_True simp_thms)
  next
    case False
    then have "Suc q * 500 \<le> length all" by simp
    with Suc.IH[of "Suc q"] Suc.prems False show ?thesis unfolding turn by simp
  qed
qed

text \<open>Paging through the store reads all of it. Over a store that does not change in between and holds no row
  that mem0 hides as expired, the loop of \<^verbatim>\<open>read_all_memories\<close> ends with every memory of the user, each once and in
  the order of the store, after one page more than there are full pages.\<close>

theorem read_all_complete:
  assumes "c_user C \<noteq> []" "strip (c_user C) = c_user C" "\<not> list_ex is_space (c_user C)"
    "\<And>n. q_scroll (qd (h_env H)) (store (d_world d)) [''user_id'' \<mapsto> PStr (c_user C)] n = Some (take n rows)"
    "\<And>r. r \<in> set rows \<Longrightarrow> \<not> mem_expired (h_env H) (snd r)"
    "\<And>items. h_value H (RItems items) = PList (map shown items)"
    "length rows < 500 * fuel"
  shows "read_all_memories C (\<lambda>n. direct H (ms n)) fuel d = Some (Inr (map shown (map format_item rows)), d)"
proof -
  have trim: "trim_filters scope_keys [''user_id'' \<mapsto> PStr (c_user C)] = Some [''user_id'' \<mapsto> PStr (c_user C)]"
    using assms(1-3) by (simp add: scope_keys_def trim_entity_id_def Let_def)
  have "get_all (h_env H) [''user_id'' \<mapsto> PStr (c_user C)] (Suc k) (d_world d) = Some (take (Suc k) (map format_item rows))" for k
  proof -
    have "filter (\<lambda>r. \<not> mem_expired (h_env H) (snd r)) (take n rows) = take n rows" for n
      using assms(5) by (auto simp: filter_id_conv dest: in_set_takeD)
    moreover have "list_ex (\<lambda>j. [''user_id'' \<mapsto> PStr (c_user C)] j \<noteq> None) scope_keys" by (simp add: scope_keys_def)
    moreover have "min (Suc k) (max (Suc k * 4) 60) = Suc k" by simp
    ultimately show ?thesis
      unfolding get_all_def trim option.case assms(4) by (simp add: take_map del: mult_Suc)
  qed
  note served = page_served[where d = d and items = "map format_item rows", OF assms(1) this]
  have "direct H (ms (Suc q)) ''list'' (page_args C (Suc q)) d =
      (Inr (PList (take 500 (drop (q * 500) (map shown (map format_item rows))))), d)" for q
    by (simp add: served assms(6) take_map drop_map)
  from read_pages_all[where X = "\<lambda>n. direct H (ms n)" and q = 0, OF this] assms(7) show ?thesis
    by (simp add: read_all_memories_def)
qed


definition demo_reader :: "(string \<times> payload) list host" where
  "demo_reader = demo_process\<lparr>h_value := (\<lambda>v. case v of RItems items \<Rightarrow> PList (map (\<lambda>i. dget (it_fields i) ''id'') items)
     | _ \<Rightarrow> PNone)\<rparr>"

definition listed_memories :: "(string \<times> payload) list" where
  "listed_memories = [(''a'', [''user_id'' \<mapsto> PStr ''workspace'']), (''b'', [''user_id'' \<mapsto> PStr ''workspace''])]"

theorem read_all_complete_witness:
  "\<exists>vs. read_all_memories demo_cli (\<lambda>n. direct demo_reader demo_moment) 1 (demo_daemon\<lparr>d_world := demo_world listed_memories\<rparr>)
     = Some (Inr vs, demo_daemon\<lparr>d_world := demo_world listed_memories\<rparr>) \<and> vs = [PStr ''a'', PStr ''b'']"
proof -
  let ?d = "demo_daemon\<lparr>d_world := demo_world listed_memories\<rparr>"
  have env: "h_env demo_reader = demo_env" by (simp add: demo_reader_def demo_process_def)
  have user: "c_user demo_cli = ''workspace''" by (simp add: demo_cli_def)
  have "strip (c_user demo_cli) = c_user demo_cli" "\<not> list_ex is_space (c_user demo_cli)"
    by (simp_all add: user strip_def is_space_def)
  moreover have "q_scroll (qd (h_env demo_reader)) (store (d_world ?d)) [''user_id'' \<mapsto> PStr (c_user demo_cli)] n =
      Some (take n listed_memories)" for n
    by (simp add: env user dict_qdrant_def dict_scroll_def listed_memories_def)
  moreover have "h_value demo_reader (RItems items) = PList (map (\<lambda>i. dget (it_fields i) ''id'') items)" for items
    by (simp add: demo_reader_def)
  moreover have "c_user demo_cli \<noteq> []" "length listed_memories < 500 * 1" by (simp_all add: user listed_memories_def)
  ultimately have "read_all_memories demo_cli (\<lambda>n. direct demo_reader demo_moment) 1 ?d =
      Some (Inr (map (\<lambda>i. dget (it_fields i) ''id'') (map format_item listed_memories)), ?d)"
    by (intro read_all_complete[where ms = "\<lambda>_. demo_moment"]) (simp_all add: env)
  then show ?thesis by (simp add: listed_memories_def format_item_def Let_def dget_def promoted_payload_keys_def map_add_def)
qed

subsection \<open>\<^verbatim>\<open>--supersedes\<close>\<close>

lemma run_invalidate_quiet:
  assumes "manifest_up (h_audit H)" "X ''invalidate'' (invalidate_args who mid bs reason) d = (r, d1)"
  shows "\<exists>lg. run_invalidate H m X who mid bs reason False d =
    (Inr (case r of Inr v \<Rightarrow> v | Inl e \<Rightarrow> PDict [(''id'', PStr mid), (''invalidated'', PBool False),
       (''error'', PStr (cli_text H e))]), d1\<lparr>d_audit := lg\<rparr>)"
proof -
  let ?a = "invalidate_args who mid bs reason"
  let ?block = "\<lambda>sp d. case X ''invalidate'' ?a d of
             (Inr v, d') \<Rightarrow> ((None :: cli_error option, sp\<lparr>sp_result := v\<rparr>), d')
           | (Inl e, d') \<Rightarrow> ((None, sp\<lparr>sp_result := PDict [(''id'', PStr mid), (''invalidated'', PBool False),
                                (''error'', PStr (cli_text H e))]\<rparr>), d')"
  let ?v = "case r of Inr v \<Rightarrow> v | Inl e \<Rightarrow> PDict [(''id'', PStr mid), (''invalidated'', PBool False), (''error'', PStr (cli_text H e))]"
  have "?block (span_of ?a [] []) d = ((None, (span_of ?a [] [])\<lparr>sp_result := ?v\<rparr>), d1)"
    using assms(2) by (cases r) auto
  from audited_cli_world[where block = ?block and sp = "span_of ?a [] []", OF assms(1) this, of m "''invalidate''"]
  obtain lg where "audited_cli H m ''invalidate'' (span_of ?a [] []) ?block d =
      (Inr ((span_of ?a [] [])\<lparr>sp_result := ?v\<rparr>), d1\<lparr>d_audit := lg\<rparr>)" by auto
  then show ?thesis
    using assms(2) unfolding run_invalidate_def Let_def invalidate_args_def[symmetric] by (cases r) auto
qed

definition superseded_by :: "'q host \<Rightarrow> 'q daemon \<Rightarrow> string \<Rightarrow> string list" where
  "superseded_by H d mid = (case payload_at (h_env H) (d_world d) mid of None \<Rightarrow> [] | Some p \<Rightarrow> superseded_ids p)"

lemma direct_invalidate:
  assumes "qdrant_ok (qd (h_env H))" "pairs_up (h_env H)" "nid \<noteq> []"
    "direct H m ''invalidate'' (invalidate_args who mid [nid] reason) d = (r, d1)"
  shows "(is_ok r \<longrightarrow> superseded_by H d mid = [] \<and> superseded_by H d1 mid = [nid]) \<and> (\<not> is_ok r \<longrightarrow> d1 = d) \<and>
    (\<forall>n. n \<noteq> mid \<longrightarrow> superseded_by H d1 n = superseded_by H d n)"
proof (cases r)
  case (Inl e)
  with assms(4) have "d1 = d" by (intro direct_error_unchanged[OF assms(2), of "''invalidate''"]) simp_all
  with Inl show ?thesis by simp
next
  case (Inr v)
  then obtain iv w1 where inv: "invalidate (h_env H) mid [nid] reason (Some (actor_of who)) (Some (session_of who))
      (iso_text (mo_clock m 0)) (mo_clock m 1) (d_world d) = (Inr iv, w1)" and d1: "d_world d1 = w1"
    using assms(4) by (auto simp: direct_def dispatch_invalidate op_invalidate_args returning_def after_def
        split: prod.splits sum.splits)
  have "clean_ids [nid] = [nid]" using assms(3) by (simp add: clean_ids_def)
  with invalidate_facts[OF assms(1) inv] Inr show ?thesis
    by (auto simp: superseded_by_def d1)
qed


text \<open>The memories invalidated one after the other by the operation itself, each at its own moment.\<close>

fun supersede_each ::
  "'q env \<Rightarrow> (nat \<Rightarrow> nat \<Rightarrow> time) \<Rightarrow> operator \<Rightarrow> string \<Rightarrow> nat \<Rightarrow> string list \<Rightarrow> 'q world
     \<Rightarrow> (stale_error + invalidation) list \<times> 'q world" where
  "supersede_each E T who nid k [] w = ([], w)"
| "supersede_each E T who nid k (old # olds) w =
     (case invalidate E old [nid] (Some (''superseded at write time by '' @ nid)) (Some (actor_of who)) (Some (session_of who))
             (iso_text (T k 0)) (T k 1) w of
        (r, w1) \<Rightarrow> (case supersede_each E T who nid (k + 1) olds w1 of (rs, w2) \<Rightarrow> (r # rs, w2)))"

definition supersede_row :: "'q host \<Rightarrow> string \<Rightarrow> stale_error + invalidation \<Rightarrow> pyval" where
  "supersede_row H old r =
     (case r of
        Inr iv \<Rightarrow> h_value H (RInvalidation iv)
      | Inl e \<Rightarrow> PDict [(''id'', PStr old), (''invalidated'', PBool False), (''error'', PStr (h_error H e))])"

lemma direct_invalidate_run:
  assumes "direct H m ''invalidate'' (invalidate_args who mid [nid] reason) d = (r, d1)"
  shows "\<exists>x. invalidate (h_env H) mid [nid] reason (Some (actor_of who)) (Some (session_of who))
      (iso_text (mo_clock m 0)) (mo_clock m 1) (d_world d) = (x, d_world d1) \<and>
    r = map_sum OpFailed (\<lambda>iv. h_value H (RInvalidation iv)) x"
  using assms
  by (auto simp: direct_def dispatch_invalidate op_invalidate_args returning_def after_def split: prod.splits sum.splits)

lemma supersede_in_turn:
  assumes "qdrant_ok (qd (h_env H))" "pairs_up (h_env H)" "manifest_up (h_audit H)" "nid \<noteq> []"
  shows "\<exists>rs d'. supersede_all H ms (\<lambda>n. direct H (ms n)) who nid k olds d = (Inr (map2 (supersede_row H) olds rs), d') \<and>
    supersede_each (h_env H) (\<lambda>i. mo_clock (ms i)) who nid k olds (d_world d) = (rs, d_world d') \<and>
    list_all2 (\<lambda>old r. is_ok r \<longrightarrow> superseded_by H d' old = [nid]) olds rs \<and>
    (\<forall>n. n \<notin> set olds \<longrightarrow> superseded_by H d' n = superseded_by H d n) \<and>
    (\<forall>n. superseded_by H d n = [nid] \<longrightarrow> superseded_by H d' n = [nid])"
proof (induction olds arbitrary: k d)
  case Nil
  then show ?case by simp
next
  case (Cons old olds)
  let ?rs = "Some (''superseded at write time by '' @ nid)"
  obtain r d1 where X: "direct H (ms k) ''invalidate'' (invalidate_args who old [nid] ?rs) d = (r, d1)" by force
  note eff = direct_invalidate[OF assms(1,2,4) X]
  obtain x where inv: "invalidate (h_env H) old [nid] ?rs (Some (actor_of who)) (Some (session_of who))
      (iso_text (mo_clock (ms k) 0)) (mo_clock (ms k) 1) (d_world d) = (x, d_world d1)"
    and r: "r = map_sum OpFailed (\<lambda>iv. h_value H (RInvalidation iv)) x"
    using direct_invalidate_run[OF X] by blast
  obtain lg where run: "run_invalidate H (ms k) (direct H (ms k)) who old [nid] ?rs False d =
    (Inr (supersede_row H old x), d1\<lparr>d_audit := lg\<rparr>)" (is "_ = (_, ?d1)")
    using run_invalidate_quiet[where X = "direct H (ms k)", OF assms(3) X] r
    by (cases x) (auto simp: supersede_row_def cli_text_def)
  have same: "superseded_by H ?d1 n = superseded_by H d1 n" for n by (simp add: superseded_by_def)
  obtain rs d' where rest: "supersede_all H ms (\<lambda>n. direct H (ms n)) who nid (k + 1) olds ?d1 = (Inr (map2 (supersede_row H) olds rs), d')"
    and each: "supersede_each (h_env H) (\<lambda>i. mo_clock (ms i)) who nid (k + 1) olds (d_world d1) = (rs, d_world d')"
    and IH: "list_all2 (\<lambda>old r. is_ok r \<longrightarrow> superseded_by H d' old = [nid]) olds rs"
      "\<And>n. n \<notin> set olds \<Longrightarrow> superseded_by H d' n = superseded_by H d1 n"
      "\<And>n. superseded_by H d1 n = [nid] \<Longrightarrow> superseded_by H d' n = [nid]"
    using Cons.IH[of "k + 1" ?d1] unfolding same d_world_audit by blast
  have ok: "is_ok r \<longleftrightarrow> is_ok x" using r by (cases x) (auto simp: is_ok_def)
  have "is_ok x \<longrightarrow> superseded_by H d' old = [nid]" using eff IH(3) ok by blast
  moreover have "superseded_by H d' n = superseded_by H d n" if "n \<notin> set (old # olds)" for n
    using that eff IH(2)[of n] by simp
  moreover have "superseded_by H d' n = [nid]" if "superseded_by H d n = [nid]" for n
    using that eff IH(3)[of n] by (cases "n = old"; cases r) auto
  ultimately show ?case
    using rest run each inv IH(1) by (intro exI[of _ "x # rs"] exI[of _ d']) auto
qed

definition superseding :: "(string \<times> payload) list daemon" where
  "superseding = demo_daemon\<lparr>d_world := demo_world two_memories\<rparr>"

lemma superseding_each:
  "map is_ok (fst (supersede_each (h_env demo_process) (\<lambda>i. mo_clock demo_moment) demo_operator ''b'' 1 [''a'', ''b'']
      (d_world superseding))) = [True, False]"
proof -
  let ?w = "demo_world two_memories"
  have first: "is_ok (fst (invalidate demo_env ''a'' [''b''] rs ac se now t ?w))" for rs ac se now t
  proof -
    have "assert_no_cycle demo_env ?w ''a'' [''b''] = Inr ()"
      by (simp add: assert_no_cycle_def MAX_CHAIN_DEPTH_def cycle_walk_step demo_successors)
    then have "invalidate_check demo_env ''a'' [''b''] ?w = Inr [''data'' \<mapsto> PStr ''old text'']"
      by (simp add: invalidate_check_def) (simp add: two_memories_def superseded_ids_def dget_def)
    then show ?thesis
      by (simp add: invalidate_def clean_ids_def patch_memory_def with_pairs_def close_for_old_def upd_where_def rowcount_def)
        (simp add: two_memories_def is_ok_def Let_def)
  qed
  have second: "\<not> is_ok (fst (invalidate E ''b'' [''b''] rs ac se now t w))" for E :: "'q env" and rs ac se now t w
    by (simp add: invalidate_def clean_ids_def invalidate_check_def is_ok_def)
  show ?thesis
    by (simp add: demo_process_def superseding_def first second split: prod.splits)
      (metis first second fst_conv)
qed

text \<open>C36: The invalidations of \<^verbatim>\<open>add --supersedes\<close> are done in turn and each is accounted for. When they run in this
  process, the manifest can be written and the pair file opens, the sequence never raises; the store ends as if each named
  memory had been invalidated by the new one in the store that the ones before it left; and there is one row per
  memory, the result of its invalidation, or the reason when that one was refused. Every memory whose invalidation was not
  refused is superseded by exactly the new one at the end, and no other memory's supersession changes.
\<close>

theorem supersedes_accounted:
  assumes "qdrant_ok (qd (h_env H))" "pairs_up (h_env H)" "manifest_up (h_audit H)" "nid \<noteq> []"
  shows "\<exists>rs d'. supersede_all H ms (\<lambda>n. direct H (ms n)) who nid k olds d = (Inr (map2 (supersede_row H) olds rs), d') \<and>
    supersede_each (h_env H) (\<lambda>i. mo_clock (ms i)) who nid k olds (d_world d) = (rs, d_world d') \<and>
    list_all2 (\<lambda>old r. is_ok r \<longrightarrow> superseded_by H d' old = [nid]) olds rs \<and>
    (\<forall>n. n \<notin> set olds \<longrightarrow> superseded_by H d' n = superseded_by H d n)"
  using supersede_in_turn[OF assms, of ms who k olds d] by blast

theorem supersedes_accounted_witness:
  "\<exists>rs d'. supersede_all demo_process (\<lambda>_. demo_moment) (\<lambda>n. direct demo_process demo_moment) demo_operator ''b'' 1
     [''a'', ''b''] superseding = (Inr (map2 (supersede_row demo_process) [''a'', ''b''] rs), d') \<and>
     map is_ok rs = [True, False] \<and> superseded_by demo_process d' ''a'' = [''b'']"
proof -
  have "qdrant_ok (qd (h_env demo_process))" "pairs_up (h_env demo_process)" "manifest_up (h_audit demo_process)"
    "''b'' \<noteq> []"
    by (simp_all add: demo_process_def demo_host_def dict_qdrant_ok)
  from supersedes_accounted[OF this, of "\<lambda>_. demo_moment" demo_operator 1 "[''a'', ''b'']" superseding]
  obtain rs d' where run: "supersede_all demo_process (\<lambda>_. demo_moment) (\<lambda>n. direct demo_process demo_moment) demo_operator ''b'' 1
     [''a'', ''b''] superseding = (Inr (map2 (supersede_row demo_process) [''a'', ''b''] rs), d')"
    and each: "supersede_each (h_env demo_process) (\<lambda>i. mo_clock demo_moment) demo_operator ''b'' 1 [''a'', ''b'']
      (d_world superseding) = (rs, d_world d')"
    and marked: "list_all2 (\<lambda>old r. is_ok r \<longrightarrow> superseded_by demo_process d' old = [''b'']) [''a'', ''b''] rs"
    by (elim exE conjE)
  have "map is_ok rs = [True, False]" using each superseding_each by simp
  with run marked show ?thesis by (auto simp: list_all2_Cons1)
qed

end
