(* ===== verification/Bundle.thy ===== *)
theory Bundle
  imports Cli_Support "HOL-Library.AList" "HOL-Library.Sublist"
begin

text \<open>
  What leaves the machine: \<^verbatim>\<open>src/src/memline/bundle.py\<close>. Memory texts are packed for a model outside, with stable
  placeholders for hosts, accounts and the values a human ruled out. The regular expressions are constants of the
  datatypes \<open>rule\<close> and \<open>review_kind\<close>; the engine that runs them is an argument: \<open>rx r s\<close> is what \<^verbatim>\<open>re.sub\<close> finds in
  \<open>s\<close> from left to right, each match with the text between it and the one before, and \<open>fnd k s\<close> is \<^verbatim>\<open>re.findall\<close>. A
  dictionary is the list of its items, in order of insertion. The executor of the memory operations is \<open>X\<close>, the
  wiki's files are \<open>file\<close>.
\<close>

subsection \<open>Rules\<close>

datatype rule = Ipv4 | AccountId | InternalDomain "string list" | InternalRepo "string list" | JobId

type_synonym engine = "rule \<Rightarrow> string \<Rightarrow> (string \<times> string) list"

datatype bundle_error = SanitizeUnconfigured | BadConfig

definition rule_names :: "pyval \<Rightarrow> string list option" where
  "rule_names v =
     (if \<not> truthy v then Some []
      else case v of PList vs \<Rightarrow> Some (map py_str vs) | PStr s \<Rightarrow> Some (utf8_chars s) | PDict d \<Rightarrow> Some (map fst d)
           | _ \<Rightarrow> None)"

text \<open>\<^verbatim>\<open>sanitize_rules\<close>: an absent list is an error, an empty one is a declaration.\<close>

definition sanitize_rules :: "args \<Rightarrow> bundle_error + (string \<times> rule) list" where
  "sanitize_rules config =
     (let domains = config_value config ''sanitize'' ''internal_domains'' PNone;
          repo_hosts = config_value config ''sanitize'' ''internal_repo_hosts'' PNone in
      if domains = PNone \<or> repo_hosts = PNone then Inl SanitizeUnconfigured
      else case (rule_names domains, rule_names repo_hosts) of
        (Some ds, Some hs) \<Rightarrow>
          Inr ([(''HOST'', Ipv4), (''USER'', AccountId)] @
               (if ds \<noteq> [] then [(''INTERNAL_HOST'', InternalDomain ds)] else []) @
               (if hs \<noteq> [] then [(''INTERNAL_REPO'', InternalRepo hs)] else []) @ [(''JOB'', JobId)])
      | _ \<Rightarrow> Inl BadConfig)"

subsection \<open>The sanitizer\<close>

text \<open>\<^verbatim>\<open>s.replace(value, by)\<close>; an empty \<open>value\<close> is found before every character and at the end.\<close>

function replace_all :: "string \<Rightarrow> string \<Rightarrow> string \<Rightarrow> string" where
  "replace_all v by s =
     (if v = [] then by @ concat (map (\<lambda>c. c # by) s)
      else case s of
        [] \<Rightarrow> []
      | c # cs \<Rightarrow> if starts_with v s then by @ replace_all v by (drop (length v) s) else c # replace_all v by cs)"
  by pat_completeness auto
termination
  by (relation "measure (\<lambda>(v, by, s). length s)") auto

declare replace_all.simps [simp del]

record sanitizer =
  sn_assigned :: "((string \<times> string) \<times> string) list"
  sn_counters :: "(string \<times> nat) list"

definition new_sanitizer :: sanitizer where
  "new_sanitizer = \<lparr>sn_assigned = [], sn_counters = []\<rparr>"

definition placeholder_text :: "string \<Rightarrow> nat \<Rightarrow> string" where
  "placeholder_text category n = ''<'' @ category @ ''-'' @ show_nat n @ ''>''"

definition placeholder :: "string \<Rightarrow> string \<Rightarrow> sanitizer \<Rightarrow> string \<times> sanitizer" where
  "placeholder category v S =
     (case map_of (sn_assigned S) (category, v) of
        Some ph \<Rightarrow> (ph, S)
      | None \<Rightarrow>
          let n = (case map_of (sn_counters S) category of None \<Rightarrow> 0 | Some k \<Rightarrow> k) + 1;
              ph = placeholder_text category n
          in (ph, \<lparr>sn_assigned = sn_assigned S @ [((category, v), ph)], sn_counters = AList.update category n (sn_counters S)\<rparr>))"

text \<open>The human rulings, applied before the shapes.\<close>

fun scrub_extra :: "(string \<times> string) list \<Rightarrow> string \<Rightarrow> sanitizer \<Rightarrow> string \<times> sanitizer" where
  "scrub_extra [] s S = (s, S)"
| "scrub_extra ((v, category) # extra) s S =
     (if infix_of v s
      then (case placeholder category v S of (ph, S') \<Rightarrow> scrub_extra extra (replace_all v ph s) S')
      else scrub_extra extra s S)"

text \<open>\<^verbatim>\<open>re.sub\<close> with the placeholder of each match; \<open>n\<close> counts the text consumed.\<close>

fun substitute :: "string \<Rightarrow> (string \<times> string) list \<Rightarrow> string \<Rightarrow> sanitizer \<Rightarrow> string \<times> sanitizer" where
  "substitute category [] s S = (s, S)"
| "substitute category ((before, m) # found) s S =
     (case placeholder category m S of (ph, S1) \<Rightarrow>
      case substitute category found (drop (length before + length m) s) S1 of (r, S2) \<Rightarrow>
        (before @ ph @ r, S2))"

fun scrub_rules :: "engine \<Rightarrow> (string \<times> rule) list \<Rightarrow> string \<Rightarrow> sanitizer \<Rightarrow> string \<times> sanitizer" where
  "scrub_rules rx [] s S = (s, S)"
| "scrub_rules rx ((category, r) # rules) s S =
     (case substitute category (rx r s) s S of (s', S') \<Rightarrow> scrub_rules rx rules s' S')"

definition scrub ::
  "engine \<Rightarrow> (string \<times> string) list \<Rightarrow> (string \<times> rule) list \<Rightarrow> string \<Rightarrow> sanitizer \<Rightarrow> string \<times> sanitizer" where
  "scrub rx extra rules s S = (case scrub_extra extra s S of (s', S') \<Rightarrow> scrub_rules rx rules s' S')"

text \<open>\<^verbatim>\<open>mapping\<close>: placeholder to original value.\<close>

definition sn_mapping :: "sanitizer \<Rightarrow> (string \<times> string) list" where
  "sn_mapping S = fold (\<lambda>((c, v), ph) d. AList.update ph v d) (sn_assigned S) []"

fun scrub_all ::
  "engine \<Rightarrow> (string \<times> string) list \<Rightarrow> (string \<times> rule) list \<Rightarrow> string list \<Rightarrow> sanitizer \<Rightarrow> string list \<times> sanitizer" where
  "scrub_all rx extra rules [] S = ([], S)"
| "scrub_all rx extra rules (s # ss) S =
     (case scrub rx extra rules s S of (t, S1) \<Rightarrow>
      case scrub_all rx extra rules ss S1 of (ts, S2) \<Rightarrow> (t # ts, S2))"

subsection \<open>What a human should look at\<close>

datatype review_kind = CjkName | LongHex | Email

definition REVIEW_PATTERNS :: "review_kind list" where
  "REVIEW_PATTERNS = [CjkName, LongHex, Email]"

record review_flag =
  rf_memory :: string
  rf_kind :: review_kind
  rf_value :: string

definition review_flags ::
  "(review_kind \<Rightarrow> string \<Rightarrow> string list) \<Rightarrow> (string \<times> string) list \<Rightarrow> string set \<Rightarrow> review_flag list" where
  "review_flags fnd texts reviewed =
     concat (map (\<lambda>(mid, s). concat (map (\<lambda>k.
       map (\<lambda>m. \<lparr>rf_memory = mid, rf_kind = k, rf_value = m\<rparr>)
         (filter (\<lambda>m. m \<notin> reviewed) (dedup (fnd k s)))) REVIEW_PATTERNS)) texts)"

subsection \<open>Sections of a document\<close>

text \<open>
  A heading line \<^verbatim>\<open>#+ text\<close>: its depth and its text. The expression asks for white space after the hashes; what
  follows is taken to the end, less the white space around it.
\<close>

definition heading_of :: "string \<Rightarrow> (nat \<times> string) option" where
  "heading_of line =
     (let hashes = takeWhile (\<lambda>c. c = CHR ''#'') line; rest = dropWhile (\<lambda>c. c = CHR ''#'') line in
      if hashes = [] \<or> rest = [] \<or> \<not> is_space (hd rest) then None else Some (length hashes, strip rest))"

text \<open>\<^verbatim>\<open>splitlines\<close>: \<^verbatim>\<open>U+0085\<close>, \<^verbatim>\<open>U+2028\<close> and \<^verbatim>\<open>U+2029\<close> end a line as the ASCII boundaries do.\<close>

fun unix_lines :: "string \<Rightarrow> string" where
  "unix_lines [] = []"
| "unix_lines [c] = [c]"
| "unix_lines (c # d # cs) =
     (if c = CHR 0x0D \<and> d = CHR 0x0A then CHR 0x0A # unix_lines cs else c # unix_lines (d # cs))"

definition wide_breaks :: "string \<Rightarrow> string" where
  "wide_breaks s =
     replace_all [CHR 0xE2, CHR 0x80, CHR 0xA9] [CHR 0x0A]
       (replace_all [CHR 0xE2, CHR 0x80, CHR 0xA8] [CHR 0x0A] (replace_all [CHR 0xC2, CHR 0x85] [CHR 0x0A] s))"

definition splitlines :: "string \<Rightarrow> string list" where
  "splitlines s =
     (let ls = split_by (\<lambda>c. c \<in> {CHR 0x0A, CHR 0x0B, CHR 0x0C, CHR 0x0D, CHR 0x1C, CHR 0x1D, CHR 0x1E}) (wide_breaks (unix_lines s))
      in if last ls = [] then butlast ls else ls)"

text \<open>The lines up to the next heading that is not deeper.\<close>

definition section_end :: "nat \<Rightarrow> string list \<Rightarrow> string list" where
  "section_end depth ls = takeWhile (\<lambda>l. case heading_of l of None \<Rightarrow> True | Some (k, _) \<Rightarrow> depth < k) ls"

fun find_section :: "string \<Rightarrow> string list \<Rightarrow> string list option" where
  "find_section wanted [] = None"
| "find_section wanted (l # ls) =
     (case heading_of l of
        None \<Rightarrow> find_section wanted ls
      | Some (k, t) \<Rightarrow> if lower (strip t) = wanted then Some (l # section_end k ls) else find_section wanted ls)"

definition read_section :: "(string \<Rightarrow> string option) \<Rightarrow> string \<Rightarrow> string option \<Rightarrow> string option" where
  "read_section file document heading =
     (case file document of
        None \<Rightarrow> None
      | Some content \<Rightarrow>
          (case heading of
             None \<Rightarrow> Some content
           | Some h \<Rightarrow>
               if h = [] then Some content
               else map_option (\<lambda>ls. strip (join [CHR 0x0A] ls)) (find_section (lower (strip h)) (splitlines content))))"

text \<open>\<open>rooted\<close> tells whether a path stays under the wiki's root once it is resolved.\<close>

definition resolve_source ::
  "(string \<Rightarrow> bool) \<Rightarrow> (string \<Rightarrow> string option) \<Rightarrow> (string \<Rightarrow> string) \<Rightarrow> string \<Rightarrow> args" where
  "resolve_source rooted file digest ref =
     (let path = takeWhile (\<lambda>c. c \<noteq> CHR ''#'') ref; heading = drop (length path + 1) ref in
      if \<not> rooted path then [(''ref'', PStr ref), (''error'', PStr ''path escapes the wiki root'')]
      else case read_section file path (if heading = [] then None else Some heading) of
        None \<Rightarrow> [(''ref'', PStr ref),
                 (''error'', PStr (if file path \<noteq> None then ''section not found'' else ''file missing''))]
      | Some t \<Rightarrow> [(''ref'', PStr ref), (''document'', PStr path),
                   (''heading'', if heading = [] then PNone else PStr heading), (''sha256'', PStr (digest t)), (''text'', PStr t)])"

subsection \<open>Memories\<close>

lemma size_dict_value: "map_of d k = Some v \<Longrightarrow> size v < size (PDict d)"
  by (induction d) (auto split: if_splits)

lemma size_dict_entry: "aget d k = PDict e \<Longrightarrow> size_list (size_prod (\<lambda>_. 0) size) e < size_list (size_prod (\<lambda>_. 0) size) d"
  using size_dict_value[of d k "PDict e"] by (auto simp: aget_def split: option.splits)

text \<open>\<^verbatim>\<open>_memory_text\<close> follows \<^verbatim>\<open>data\<close> as deep as it nests.\<close>

function memory_text :: "pyval \<Rightarrow> string option" where
  "memory_text (PDict d) =
     (case (aget d ''memory'', aget d ''text'') of
        (PStr s, _) \<Rightarrow> Some s
      | (_, PStr s) \<Rightarrow> Some s
      | _ \<Rightarrow> (case aget d ''data'' of PDict e \<Rightarrow> memory_text (PDict e) | _ \<Rightarrow> None))"
| "memory_text PNone = None"
| "memory_text (PBool b) = None"
| "memory_text (PInt i) = None"
| "memory_text (PFloat r t) = None"
| "memory_text (PStr s) = None"
| "memory_text (PList vs) = None"
  by pat_completeness auto
termination
  by (relation "measure size") (simp_all add: size_dict_entry)

definition key_strings :: "args \<Rightarrow> string list" where
  "key_strings d = List.map_filter (\<lambda>k. case aget d k of PStr s \<Rightarrow> Some s | _ \<Rightarrow> None) [''id'', ''memory_id'']"

fun head_ids :: "pyval \<Rightarrow> string list" where
  "head_ids (PDict d) = key_strings d @ concat (map (\<lambda>kv. head_ids (snd kv)) d)"
| "head_ids (PList vs) = concat (map (\<lambda>v. case v of PStr s \<Rightarrow> [s] | _ \<Rightarrow> head_ids v) vs)"
| "head_ids v = []"

definition resolve_one :: "(string \<Rightarrow> args \<Rightarrow> string + pyval) \<Rightarrow> (string \<Rightarrow> string) \<Rightarrow> string \<Rightarrow> args" where
  "resolve_one X digest mid =
     (case X ''get'' [(''memory_id'', PStr mid)] of
        Inl e \<Rightarrow> [(''id'', PStr mid), (''error'', PStr e)]
      | Inr record \<Rightarrow>
          (case memory_text record of
             None \<Rightarrow> [(''id'', PStr mid), (''error'', PStr ''record has no memory text'')]
           | Some t \<Rightarrow>
               let d = as_dict record;
                   superseded = (case X ''resolve_head'' [(''memory_id'', PStr mid)] of
                      Inl _ \<Rightarrow> PNone | Inr h \<Rightarrow> PBool (list_ex (\<lambda>i. i \<noteq> mid) (head_ids h)))
               in [(''id'', PStr mid), (''created_at'', aget d ''created_at''),
                   (''writer'', aget (as_dict (aget d ''metadata'')) ''writer_agent_id''),
                   (''superseded'', superseded), (''sha256'', PStr (digest t)), (''text'', PStr t)]))"

subsection \<open>The bundle\<close>

definition has_error :: "args \<Rightarrow> bool" where
  "has_error d \<longleftrightarrow> stated d ''error''"

definition text_field :: "args \<Rightarrow> string" where
  "text_field d = py_str (aget d ''text'')"

definition with_texts :: "args list \<Rightarrow> string list \<Rightarrow> args list" where
  "with_texts ds ts = map (\<lambda>(d, t). aset ''text'' (PStr t) d) (zip ds ts)"

record bundle_out =
  bu_memories :: "args list"
  bu_sources :: "args list"
  bu_unresolved :: "args list"
  bu_sanitized :: bool
  bu_counts :: "(string \<times> nat) list"
  bu_flags :: "review_flag list"

record bundle_world =
  bw_execute :: "string \<Rightarrow> args \<Rightarrow> string + pyval"
  bw_sha :: "string \<Rightarrow> string"
  bw_root :: bool
  bw_inside :: "string \<Rightarrow> bool"
  bw_file :: "string \<Rightarrow> string option"
  bw_engine :: engine
  bw_find :: "review_kind \<Rightarrow> string \<Rightarrow> string list"

text \<open>A dict comprehension: a key met again keeps its place and takes the later value.\<close>

definition dict_of :: "(string \<times> string) list \<Rightarrow> (string \<times> string) list" where
  "dict_of kvs = fold (\<lambda>(k, v) d. AList.update k v d) kvs []"

definition is_source_ref :: "string \<Rightarrow> bool" where
  "is_source_ref r \<longleftrightarrow> starts_with ''sources/'' r"

definition memory_refs :: "string list \<Rightarrow> string list" where
  "memory_refs refs =
     map (\<lambda>r. if starts_with ''mem:'' r then drop 4 r else r) (filter (\<lambda>r. \<not> is_source_ref r) (dedup refs))"

definition resolved_memories :: "bundle_world \<Rightarrow> string list \<Rightarrow> args list" where
  "resolved_memories W refs = map (resolve_one (bw_execute W) (bw_sha W)) (memory_refs refs)"

definition resolved_sources :: "bundle_world \<Rightarrow> string list \<Rightarrow> args list" where
  "resolved_sources W refs =
     (if bw_root W then map (resolve_source (bw_inside W) (bw_file W) (bw_sha W)) (filter is_source_ref (dedup refs)) else [])"

definition build_bundle ::
  "bundle_world \<Rightarrow> args \<Rightarrow> string list \<Rightarrow> bool \<Rightarrow> (string \<times> string) list \<Rightarrow> string set
     \<Rightarrow> bundle_error + bundle_out \<times> (string \<times> string) list" where
  "build_bundle W config refs sanitize redactions cleared =
     (let resolved = resolved_memories W refs;
          sources = resolved_sources W refs;
          ok = filter (\<lambda>d. \<not> has_error d) resolved;
          sources_ok = filter (\<lambda>d. \<not> has_error d) sources;
          flags = review_flags (bw_find W)
                    (dict_of (map (\<lambda>d. (py_str (aget d ''id''), text_field d)) ok @
                              map (\<lambda>d. (py_str (aget d ''ref''), text_field d)) sources_ok))
                    (cleared \<union> set (map fst redactions));
          unresolved = filter has_error resolved @ filter has_error sources
      in if sanitize then
           map_sum id (\<lambda>rules.
             case scrub_all (bw_engine W) redactions rules (map text_field ok @ map text_field sources_ok) new_sanitizer of
               (ts, S) \<Rightarrow>
                 (\<lparr>bu_memories = with_texts ok (take (length ok) ts),
                   bu_sources = with_texts sources_ok (drop (length ok) ts), bu_unresolved = unresolved,
                   bu_sanitized = True, bu_counts = sn_counters S, bu_flags = flags\<rparr>, sn_mapping S))
             (sanitize_rules config)
         else Inr (\<lparr>bu_memories = ok, bu_sources = sources_ok, bu_unresolved = unresolved, bu_sanitized = False,
                    bu_counts = [], bu_flags = flags\<rparr>, []))"

subsection \<open>Placeholders tell values apart\<close>

lemma digit_not_dash: "n < 10 \<Longrightarrow> digit n \<noteq> CHR ''-''"
proof -
  have "\<forall>n \<in> set [0..<10]. digit n \<noteq> CHR ''-''" by code_simp
  then show "n < 10 \<Longrightarrow> digit n \<noteq> CHR ''-''" by simp
qed

lemma show_nat_no_dash: "CHR ''-'' \<notin> set (show_nat n)"
proof (induction n rule: less_induct)
  case (less n)
  show ?case
  proof (cases "n < 10")
    case True
    then show ?thesis using digit_not_dash[of n] by (simp add: show_nat_small)
  next
    case False
    then show ?thesis using less.IH[of "n div 10"] digit_not_dash[of "n mod 10"] by (simp add: show_nat_large)
  qed
qed

lemma split_last_dash:
  assumes "a @ CHR ''-'' # x = b @ CHR ''-'' # y" "CHR ''-'' \<notin> set x" "CHR ''-'' \<notin> set y"
  shows "a = b \<and> x = y"
  using assms
proof (induction a arbitrary: b)
  case Nil
  then show ?case by (cases b) auto
next
  case (Cons c a)
  then show ?case by (cases b) auto
qed

lemma placeholder_text_inject: "placeholder_text c n = placeholder_text c' n' \<Longrightarrow> c = c' \<and> n = n'"
proof -
  assume "placeholder_text c n = placeholder_text c' n'"
  then have "c @ CHR ''-'' # show_nat n = c' @ CHR ''-'' # show_nat n'" by (simp add: placeholder_text_def)
  then show "c = c' \<and> n = n'"
    using split_last_dash[OF _ show_nat_no_dash show_nat_no_dash] show_nat_inject by blast
qed

text \<open>The invariant of the sanitizer: a counter bounds the numbers of its category, and no placeholder is
  given twice.\<close>

definition count_of :: "sanitizer \<Rightarrow> string \<Rightarrow> nat" where
  "count_of S c = (case map_of (sn_counters S) c of None \<Rightarrow> 0 | Some k \<Rightarrow> k)"

definition sn_ok :: "sanitizer \<Rightarrow> bool" where
  "sn_ok S \<longleftrightarrow> distinct (map fst (sn_assigned S)) \<and> distinct (map snd (sn_assigned S)) \<and>
     (\<forall>((c, v), ph) \<in> set (sn_assigned S). \<exists>n. ph = placeholder_text c n \<and> n \<le> count_of S c)"

definition extends :: "sanitizer \<Rightarrow> sanitizer \<Rightarrow> bool" where
  "extends S S' \<longleftrightarrow> (\<exists>more. sn_assigned S' = sn_assigned S @ more)"

lemma extends_refl [simp]: "extends S S"
  by (simp add: extends_def)

lemma extends_trans: "extends S S1 \<Longrightarrow> extends S1 S2 \<Longrightarrow> extends S S2"
  by (auto simp: extends_def)

lemma extends_subset: "extends S S' \<Longrightarrow> set (sn_assigned S) \<subseteq> set (sn_assigned S')"
  by (auto simp: extends_def)

lemma sn_ok_new: "sn_ok new_sanitizer"
  by (simp add: sn_ok_def new_sanitizer_def)

lemma placeholder_step:
  assumes "sn_ok S" "placeholder c v S = (ph, S')"
  shows "sn_ok S' \<and> extends S S' \<and> ((c, v), ph) \<in> set (sn_assigned S')"
proof (cases "map_of (sn_assigned S) (c, v)")
  case (Some p)
  with assms show ?thesis by (auto simp: placeholder_def dest: map_of_SomeD)
next
  case None
  let ?n = "count_of S c + 1"
  have S': "ph = placeholder_text c ?n" "sn_assigned S' = sn_assigned S @ [((c, v), ph)]"
    "sn_counters S' = AList.update c ?n (sn_counters S)"
    using assms(2) None by (auto simp: placeholder_def count_of_def Let_def)
  have cnt: "count_of S' x = (if x = c then ?n else count_of S x)" for x
    by (simp add: count_of_def S'(3) update_conv')
  have bound: "\<exists>n. p = placeholder_text x n \<and> n \<le> count_of S x" if "((x, w), p) \<in> set (sn_assigned S)" for x w p
    using assms(1) that by (auto simp: sn_ok_def)
  have "ph \<notin> snd ` set (sn_assigned S)"
  proof
    assume "ph \<in> snd ` set (sn_assigned S)"
    then obtain x w where "((x, w), ph) \<in> set (sn_assigned S)" by (auto simp: image_iff)
    from bound[OF this] obtain n where "ph = placeholder_text x n" "n \<le> count_of S x" by blast
    with S'(1) show False using placeholder_text_inject[of c ?n x n] by auto
  qed
  have "\<exists>n. p = placeholder_text x n \<and> n \<le> count_of S' x" if new: "((x, w), p) \<in> set (sn_assigned S')" for x w p
  proof (cases "((x, w), p) \<in> set (sn_assigned S)")
    case True
    from bound[OF this] obtain n where "p = placeholder_text x n" "n \<le> count_of S x" by blast
    then show ?thesis using cnt[of x] by (intro exI[of _ n]) auto
  next
    case False
    then show ?thesis using new S'(1,2) cnt[of c] by auto
  qed
  then have "\<forall>((x, w), p) \<in> set (sn_assigned S'). \<exists>n. p = placeholder_text x n \<and> n \<le> count_of S' x" by auto
  moreover have "distinct (map fst (sn_assigned S'))" "distinct (map snd (sn_assigned S'))"
    using assms(1) \<open>ph \<notin> _\<close> None by (auto simp: sn_ok_def S'(2) map_of_eq_None_iff)
  ultimately show ?thesis by (simp add: sn_ok_def extends_def) (simp add: S'(2))
qed

lemma fold_update_map:
  assumes "\<forall>x \<in> set xs. snd x = ph \<longrightarrow> snd (fst x) = v" "ph \<in> snd ` set xs \<or> map_of d ph = Some v"
  shows "map_of (fold (\<lambda>((c, v), ph) d. AList.update ph v d) xs d) ph = Some v"
  using assms
proof (induction xs arbitrary: d)
  case (Cons x xs)
  obtain c w p where x: "x = ((c, w), p)" by (cases x) auto
  have "ph \<in> snd ` set xs \<or> map_of (AList.update p w d) ph = Some v"
    using Cons.prems by (auto simp: x update_conv')
  then show ?case using Cons.IH[of "AList.update p w d"] Cons.prems(1) by (simp add: x)
qed simp

lemma mapping_of:
  assumes "sn_ok S" "((c, v), ph) \<in> set (sn_assigned S)"
  shows "map_of (sn_mapping S) ph = Some v"
proof -
  have "inj_on snd (set (sn_assigned S))" using assms(1) by (simp add: sn_ok_def distinct_map)
  then have "\<forall>x \<in> set (sn_assigned S). snd x = ph \<longrightarrow> snd (fst x) = v"
    using inj_onD[OF _ _ _ assms(2)] by fastforce
  moreover have "ph \<in> snd ` set (sn_assigned S)" using assms(2) by force
  ultimately show ?thesis unfolding sn_mapping_def by (intro fold_update_map) auto
qed

lemma mapping_keys: "fst ` set (sn_mapping S) = snd ` set (sn_assigned S)"
proof -
  have "fst ` set (fold (\<lambda>((c, v), ph) d. AList.update ph v d) xs d) = snd ` set xs \<union> fst ` set d" for xs d
  proof (induction xs arbitrary: d)
    case (Cons x xs)
    obtain c w p where x: "x = ((c, w), p)" by (cases x) auto
    show ?case by (auto simp: x Cons.IH dom_update)
  qed simp
  from this[of "sn_assigned S" "[]"] show ?thesis by (simp add: sn_mapping_def)
qed

subsection \<open>Scrubbed texts\<close>

text \<open>
  \<open>restores M t s\<close>: the local reader gets \<open>s\<close> from \<open>t\<close> by putting the value the mapping gives in the place of
  placeholders.
\<close>

inductive restores_step :: "(string \<times> string) list \<Rightarrow> string \<Rightarrow> string \<Rightarrow> bool" for M where
  restore_one: "map_of M ph = Some v \<Longrightarrow> restores_step M (x @ ph @ y) (x @ v @ y)"

definition restores :: "(string \<times> string) list \<Rightarrow> string \<Rightarrow> string \<Rightarrow> bool" where
  "restores M = (restores_step M)\<^sup>*\<^sup>*"

lemma restores_refl [simp, intro]: "restores M s s"
  by (simp add: restores_def)

lemma restores_trans: "restores M s t \<Longrightarrow> restores M t u \<Longrightarrow> restores M s u"
  by (simp add: restores_def)

lemma restores_context: "restores M s t \<Longrightarrow> restores M (x @ s @ y) (x @ t @ y)"
  unfolding restores_def
proof (induction rule: rtranclp_induct)
  case (step t u)
  from step.hyps(2) obtain ph v a b where "map_of M ph = Some v" "t = a @ ph @ b" "u = a @ v @ b"
    by (auto elim: restores_step.cases)
  then have "restores_step M (x @ t @ y) (x @ u @ y)"
    using restore_one[of M ph v "x @ a" "b @ y"] by simp
  with step.IH show ?case by simp
qed simp

lemma restores_append: "restores M a b \<Longrightarrow> restores M c d \<Longrightarrow> restores M (a @ c) (b @ d)"
  using restores_context[of M a b "[]" c] restores_context[of M c d b "[]"] by (auto intro: restores_trans)

lemma restores_Cons: "restores M s t \<Longrightarrow> restores M (c # s) (c # t)"
  using restores_append[OF restores_refl[of M "[c]"]] by fastforce

lemma restores_ph: "map_of M ph = Some v \<Longrightarrow> restores M ph v"
  using restore_one[of M ph v "[]" "[]"] by (simp add: restores_def r_into_rtranclp)

definition valid_engine :: "engine \<Rightarrow> bool" where
  "valid_engine rx \<longleftrightarrow> (\<forall>r s. \<exists>tail. s = concat (map (\<lambda>(b, m). b @ m) (rx r s)) @ tail)"

lemma restores_replace_all: "map_of M ph = Some v \<Longrightarrow> restores M (replace_all v ph s) s"
proof (induction v ph s rule: replace_all.induct)
  case (1 v ph s)
  show ?case
  proof (cases "v = []")
    case True
    have "restores M (concat (map (\<lambda>c. c # ph) s)) s" for s
      using "1.prems" True
      by (induction s) (auto intro!: restores_Cons restores_append[of M ph "[]", simplified] intro: restores_ph)
    then show ?thesis using "1.prems" True restores_append[OF restores_ph] 
      by (subst replace_all.simps) fastforce
  next
    case False
    note ne = False
    show ?thesis
    proof (cases s)
      case Nil
      then show ?thesis using ne by (subst replace_all.simps) simp
    next
      case (Cons c cs)
      show ?thesis
      proof (cases "starts_with v s")
        case True
        then have "s = v @ drop (length v) s" by (metis starts_with_def append_take_drop_id)
        then show ?thesis
          using restores_append[OF restores_ph[OF "1.prems"] "1.IH"(1)[OF ne Cons _ "1.prems"]] True ne Cons
          by (subst replace_all.simps) auto
      next
        case False
        then show ?thesis using "1.IH"(2)[OF ne Cons _ "1.prems"] ne Cons
          by (subst replace_all.simps) (auto intro: restores_Cons)
      qed
    qed
  qed
qed

definition mapped :: "(string \<times> string) list \<Rightarrow> sanitizer \<Rightarrow> bool" where
  "mapped M S \<longleftrightarrow> (\<forall>c v ph. ((c, v), ph) \<in> set (sn_assigned S) \<longrightarrow> map_of M ph = Some v)"

lemma mapped_mapping: "sn_ok S \<Longrightarrow> mapped (sn_mapping S) S"
  using mapping_of by (fastforce simp: mapped_def)

lemma mapped_extends: "mapped M S' \<Longrightarrow> extends S S' \<Longrightarrow> mapped M S"
  by (auto simp: mapped_def extends_def)

lemma mappedD: "mapped M S \<Longrightarrow> ((c, v), ph) \<in> set (sn_assigned S) \<Longrightarrow> map_of M ph = Some v"
  by (fastforce simp: mapped_def)

text \<open>A pass over a text keeps the invariant, only adds placeholders, and can be undone.\<close>

definition undoable :: "string \<Rightarrow> sanitizer \<Rightarrow> string \<Rightarrow> sanitizer \<Rightarrow> bool" where
  "undoable s S t S' \<longleftrightarrow> sn_ok S' \<and> extends S S' \<and> (\<forall>M. mapped M S' \<longrightarrow> restores M t s)"

lemma undoable_trans: "undoable s S t S1 \<Longrightarrow> undoable t S1 u S2 \<Longrightarrow> undoable s S u S2"
  unfolding undoable_def by (metis extends_trans mapped_extends restores_trans)

lemma undoable_refl: "sn_ok S \<Longrightarrow> undoable s S s S"
  by (simp add: undoable_def)

lemma scrub_extra_undoable: "sn_ok S \<Longrightarrow> scrub_extra extra s S = (t, S') \<Longrightarrow> undoable s S t S'"
proof (induction extra s S arbitrary: t S' rule: scrub_extra.induct)
  case (2 v category extra s S)
  show ?case
  proof (cases "infix_of v s")
    case True
    obtain ph S1 where p: "placeholder category v S = (ph, S1)" by fastforce
    note st = placeholder_step[OF "2.prems"(1) p]
    have "undoable s S (replace_all v ph s) S1"
      using st by (auto simp: undoable_def intro: restores_replace_all mappedD)
    moreover have "undoable (replace_all v ph s) S1 t S'"
      using "2.IH"(1)[OF True p[symmetric]] st "2.prems"(2) True p by simp
    ultimately show ?thesis by (rule undoable_trans)
  next
    case False
    then show ?thesis using "2.IH"(2)[OF False] "2.prems" by simp
  qed
qed (simp add: undoable_refl)

lemma substitute_undoable:
  "sn_ok S \<Longrightarrow> s = concat (map (\<lambda>(b, m). b @ m) found) @ tail \<Longrightarrow> substitute c found s S = (t, S') \<Longrightarrow>
   undoable s S t S'"
proof (induction c found s S arbitrary: t S' rule: substitute.induct)
  case (2 c b m found s S)
  obtain ph S1 where p: "placeholder c m S = (ph, S1)" by fastforce
  let ?rest = "concat (map (\<lambda>(b, m). b @ m) found) @ tail"
  obtain r where r: "substitute c found ?rest S1 = (r, S')" "t = b @ ph @ r"
    using "2.prems" p by (auto split: prod.splits)
  note st = placeholder_step[OF "2.prems"(1) p]
  have "undoable ?rest S1 r S'" using "2.IH"[OF p[symmetric]] st r(1) "2.prems"(2) by simp
  then have rest: "sn_ok S'" "extends S1 S'" "mapped M S' \<Longrightarrow> restores M r ?rest" for M
    by (auto simp: undoable_def)
  have "restores M t s" if M: "mapped M S'" for M
  proof -
    have "map_of M ph = Some m" using mappedD[OF mapped_extends[OF M rest(2)]] st by blast
    then have "restores M (b @ ph @ r) (b @ m @ ?rest)"
      by (rule restores_append[OF restores_refl restores_append[OF restores_ph rest(3)[OF M]]])
    then show ?thesis using r(2) "2.prems"(2) by simp
  qed
  with st rest show ?case by (auto simp: undoable_def intro: extends_trans)
qed (auto simp: undoable_refl)

lemma scrub_rules_undoable:
  "valid_engine rx \<Longrightarrow> sn_ok S \<Longrightarrow> scrub_rules rx rules s S = (t, S') \<Longrightarrow> undoable s S t S'"
proof (induction rx rules s S arbitrary: t S' rule: scrub_rules.induct)
  case (2 rx c r rules s S)
  obtain u S1 where u: "substitute c (rx r s) s S = (u, S1)" by fastforce
  obtain tail where "s = concat (map (\<lambda>(b, m). b @ m) (rx r s)) @ tail"
    using "2.prems"(1) by (auto simp: valid_engine_def)
  from substitute_undoable[OF "2.prems"(2) this u] have "undoable s S u S1" .
  moreover have "undoable u S1 t S'"
    using "2.IH"[OF u[symmetric] "2.prems"(1)] calculation "2.prems"(3) u by (simp add: undoable_def)
  ultimately show ?case by (rule undoable_trans)
qed (auto simp: undoable_refl)

lemma scrub_undoable:
  assumes "valid_engine rx" "sn_ok S" "scrub rx extra rules s S = (t, S')"
  shows "undoable s S t S'"
proof -
  obtain u S1 where u: "scrub_extra extra s S = (u, S1)" by fastforce
  have 1: "undoable s S u S1" using scrub_extra_undoable[OF assms(2) u] .
  then have "sn_ok S1" by (simp add: undoable_def)
  moreover have "scrub_rules rx rules u S1 = (t, S')" using assms(3) u by (simp add: scrub_def)
  ultimately have "undoable u S1 t S'" by (rule scrub_rules_undoable[OF assms(1)])
  with 1 show ?thesis by (rule undoable_trans)
qed

lemma scrub_all_undoable:
  "valid_engine rx \<Longrightarrow> sn_ok S \<Longrightarrow> scrub_all rx extra rules ss S = (ts, S') \<Longrightarrow>
   sn_ok S' \<and> extends S S' \<and> (\<forall>M. mapped M S' \<longrightarrow> list_all2 (restores M) ts ss)"
proof (induction rx extra rules ss S arbitrary: ts S' rule: scrub_all.induct)
  case (2 rx extra rules s ss S)
  obtain t S1 where t: "scrub rx extra rules s S = (t, S1)" by fastforce
  obtain us where us: "scrub_all rx extra rules ss S1 = (us, S')" "ts = t # us"
    using "2.prems"(3) t by (auto split: prod.splits)
  have 1: "undoable s S t S1" using scrub_undoable[OF "2.prems"(1,2) t] .
  then have "sn_ok S' \<and> extends S1 S' \<and> (\<forall>M. mapped M S' \<longrightarrow> list_all2 (restores M) us ss)"
    using "2.IH"[OF t[symmetric] "2.prems"(1) _ us(1)] by (simp add: undoable_def)
  with 1 us(2) show ?case by (auto simp: undoable_def intro: extends_trans dest: mapped_extends)
qed auto

subsection \<open>What a redaction removes\<close>

lemma infix_of_sublist: "infix_of w s \<longleftrightarrow> sublist w s"
proof (induction s)
  case (Cons c s)
  have "(take (length w) (c # s) = w) = prefix w (c # s)"
    by (metis append_eq_conv_conj prefix_def take_is_prefix)
  then show ?case using Cons by (simp add: sublist_Cons_right)
qed simp

lemma sublist_cut: "sublist w (x @ c # y) \<Longrightarrow> c \<notin> set w \<Longrightarrow> sublist w x \<or> sublist w y"
  by (auto simp: sublist_append sublist_Cons_right prefix_Cons suffix_imp_sublist)

lemma sublist_cut_ph:
  assumes "sublist w (x @ placeholder_text c n @ y)" "CHR ''<'' \<notin> set w" "CHR ''>'' \<notin> set w"
    "\<not> sublist w (placeholder_text c n)"
  shows "sublist w x \<or> sublist w y"
proof -
  let ?in = "c @ CHR ''-'' # show_nat n"
  have "\<not> sublist w ?in"
  proof
    assume "sublist w ?in"
    also have "sublist ?in ([CHR ''<''] @ ?in @ [CHR ''>''])" by (rule sublist_appendI)
    finally show False using assms(4) by (simp add: placeholder_text_def)
  qed
  moreover have "sublist w x \<or> sublist w (?in @ CHR ''>'' # y)"
    using sublist_cut[of w x "CHR ''<''" "?in @ CHR ''>'' # y"] assms(1,2) by (simp add: placeholder_text_def)
  ultimately show ?thesis using sublist_cut[of w ?in "CHR ''>''" y] assms(3) by blast
qed


text \<open>A value without angle brackets, and no placeholder contains it.\<close>

definition opaque :: "string \<Rightarrow> sanitizer \<Rightarrow> bool" where
  "opaque w S \<longleftrightarrow> w \<noteq> [] \<and> CHR ''<'' \<notin> set w \<and> CHR ''>'' \<notin> set w \<and> (\<forall>ph \<in> snd ` set (sn_assigned S). \<not> sublist w ph)"

lemma opaque_extends: "opaque w S' \<Longrightarrow> extends S S' \<Longrightarrow> opaque w S"
  using extends_subset by (fastforce simp: opaque_def)

lemma opaque_cut:
  assumes "opaque w S" "sn_ok S" "((c, v), ph) \<in> set (sn_assigned S)" "sublist w (x @ ph @ y)"
  shows "sublist w x \<or> sublist w y"
proof -
  obtain n where "ph = placeholder_text c n" using assms(2,3) by (fastforce simp: sn_ok_def)
  then show ?thesis using assms by (intro sublist_cut_ph[of w x c n y]) (force simp: opaque_def)+
qed

lemma starts_with_prefix: "starts_with p s \<longleftrightarrow> prefix p s"
  by (metis append_eq_conv_conj prefix_def starts_with_def take_is_prefix)

lemma prefix_replace_all:
  assumes "hd ph \<notin> set w" "ph \<noteq> []" "v \<noteq> []"
  shows "prefix w (replace_all v ph s) \<Longrightarrow> prefix w s"
  using assms(1)
proof (induction s arbitrary: w)
  case Nil
  then show ?case using assms(3) by (subst (asm) replace_all.simps) simp
next
  case (Cons c cs)
  show ?case
  proof (cases "starts_with v (c # cs)")
    case True
    then have "prefix w (ph @ replace_all v ph (drop (length v) (c # cs)))"
      using Cons.prems(1) assms(3) by (subst (asm) replace_all.simps) simp
    then have "w = []" using Cons.prems(2) assms(2) by (cases ph; cases w) auto
    then show ?thesis by simp
  next
    case False
    then have "prefix w (c # replace_all v ph cs)"
      using Cons.prems(1) assms(3) by (subst (asm) replace_all.simps) simp
    then show ?thesis using Cons.IH Cons.prems(2) by (cases w) auto
  qed
qed

lemma sublist_replace_empty:
  assumes "\<And>x y. sublist w (x @ ph @ y) \<Longrightarrow> sublist w x \<or> sublist w y" "w \<noteq> []"
  shows "sublist w (concat (map (\<lambda>c. c # ph) s)) \<Longrightarrow> sublist w s"
proof (induction s)
  case (Cons c s)
  then have "sublist w [c] \<or> sublist w s" using assms(1)[of "[c]" "concat (map (\<lambda>c. c # ph) s)"] by auto
  then show ?case using assms(2) by (auto simp: sublist_Cons_right prefix_Cons)
qed (use assms in simp)

lemma sublist_replace_all:
  assumes cut: "\<And>x y. sublist w (x @ ph @ y) \<Longrightarrow> sublist w x \<or> sublist w y"
    and ph: "hd ph \<notin> set w" "ph \<noteq> []" and w: "w \<noteq> []"
  shows "sublist w (replace_all v ph s) \<Longrightarrow> sublist w s \<and> w \<noteq> v"
proof (induction s rule: length_induct)
  case (1 s)
  consider "v = []" | "v \<noteq> []" "s = []" | c cs where "v \<noteq> []" "s = c # cs" by (cases s) auto
  then show ?case
  proof cases
    case 1
    then have "sublist w ([] @ ph @ concat (map (\<lambda>c. c # ph) s))"
      using "1.prems" by (subst (asm) replace_all.simps) simp
    then have "sublist w (concat (map (\<lambda>c. c # ph) s))" using cut[of "[]"] w by auto
    then show ?thesis using sublist_replace_empty[OF cut w] w \<open>v = []\<close> by blast
  next
    case 2
    then show ?thesis using "1.prems" w by (subst (asm) replace_all.simps) simp
  next
    case 3
    show ?thesis
    proof (cases "starts_with v s")
      case True
      let ?d = "drop (length v) s"
      have "sublist w ([] @ ph @ replace_all v ph ?d)"
        using "1.prems" True 3 by (subst (asm) replace_all.simps) simp
      then have "sublist w (replace_all v ph ?d)" using cut[of "[]"] w by auto
      moreover have "length ?d < length s" using 3 by simp
      ultimately have "sublist w ?d \<and> w \<noteq> v" using "1.IH" by blast
      then show ?thesis by (metis sublist_drop sublist_order.order.trans)
    next
      case False
      then have R: "sublist w (c # replace_all v ph cs)"
        using "1.prems" 3 by (subst (asm) replace_all.simps) simp
      show ?thesis
      proof (cases "prefix w (c # replace_all v ph cs)")
        case True
        then have "prefix w s" using w ph 3 prefix_replace_all[of ph "tl w" v cs] by (cases w) auto
        then show ?thesis using False by (auto simp: starts_with_prefix)
      next
        case False
        then have "sublist w (replace_all v ph cs)" using R by (simp add: sublist_Cons_right)
        then show ?thesis using "1.IH" 3 by (auto simp: sublist_Cons_right)
      qed
    qed
  qed
qed

lemma scrub_extra_leak:
  "sn_ok S \<Longrightarrow> scrub_extra extra s S = (t, S') \<Longrightarrow> opaque w S' \<Longrightarrow> sublist w t \<Longrightarrow>
   sublist w s \<and> w \<notin> fst ` set extra"
proof (induction extra s S arbitrary: t S' rule: scrub_extra.induct)
  case (2 v category extra s S)
  show ?case
  proof (cases "infix_of v s")
    case True
    obtain ph S1 where p: "placeholder category v S = (ph, S1)" by fastforce
    note st = placeholder_step[OF "2.prems"(1) p]
    have rec: "scrub_extra extra (replace_all v ph s) S1 = (t, S')" using "2.prems"(2) True p by simp
    have "opaque w S1"
      using scrub_extra_undoable[OF _ rec] st "2.prems"(3) by (auto simp: undoable_def intro: opaque_extends)
    then have "\<And>x y. sublist w (x @ ph @ y) \<Longrightarrow> sublist w x \<or> sublist w y" using st opaque_cut by blast
    moreover have "\<exists>n. ph = placeholder_text category n" using st by (fastforce simp: sn_ok_def)
    moreover have "sublist w (replace_all v ph s) \<and> w \<notin> fst ` set extra"
      using "2.IH"(1)[OF True p[symmetric]] st rec "2.prems"(3,4) by blast
    ultimately show ?thesis
      using sublist_replace_all[of w ph v s] \<open>opaque w S1\<close> by (auto simp: opaque_def placeholder_text_def)
  next
    case False
    then show ?thesis using "2.IH"(2)[OF False] "2.prems" by (auto simp: infix_of_sublist)
  qed
qed simp

lemma substitute_leak:
  "sn_ok S \<Longrightarrow> s = concat (map (\<lambda>(b, m). b @ m) found) @ tail \<Longrightarrow> substitute c found s S = (t, S') \<Longrightarrow>
   opaque w S' \<Longrightarrow> sublist w t \<Longrightarrow> sublist w s"
proof (induction c found s S arbitrary: t S' rule: substitute.induct)
  case (2 c b m found s S)
  obtain ph S1 where p: "placeholder c m S = (ph, S1)" by fastforce
  let ?rest = "concat (map (\<lambda>(b, m). b @ m) found) @ tail"
  obtain r where r: "substitute c found ?rest S1 = (r, S')" "t = b @ ph @ r"
    using "2.prems" p by (auto split: prod.splits)
  note st = placeholder_step[OF "2.prems"(1) p]
  have "extends S1 S'" using substitute_undoable[OF _ HOL.refl r(1)] st by (simp add: undoable_def)
  then have "sublist w b \<or> sublist w r"
    using opaque_cut[of w S' c m ph b r] st "2.prems"(4,5) substitute_undoable[OF _ HOL.refl r(1)] r(2)
    by (auto simp: undoable_def extends_def)
  moreover have "sublist w r \<Longrightarrow> sublist w ?rest"
    using "2.IH"[OF p[symmetric]] st r(1) "2.prems"(2,4) by simp
  ultimately show ?case using "2.prems"(2) by (auto simp: sublist_append)
qed auto

lemma scrub_rules_leak:
  "valid_engine rx \<Longrightarrow> sn_ok S \<Longrightarrow> scrub_rules rx rules s S = (t, S') \<Longrightarrow> opaque w S' \<Longrightarrow> sublist w t \<Longrightarrow> sublist w s"
proof (induction rx rules s S arbitrary: t S' rule: scrub_rules.induct)
  case (2 rx c r rules s S)
  obtain u S1 where u: "substitute c (rx r s) s S = (u, S1)" by fastforce
  obtain tail where tail: "s = concat (map (\<lambda>(b, m). b @ m) (rx r s)) @ tail"
    using "2.prems"(1) by (auto simp: valid_engine_def)
  have ok: "sn_ok S1" using substitute_undoable[OF "2.prems"(2) tail u] by (simp add: undoable_def)
  have rec: "scrub_rules rx rules u S1 = (t, S')" using "2.prems"(3) u by simp
  have "opaque w S1"
    using scrub_rules_undoable[OF "2.prems"(1) ok rec] "2.prems"(4) by (auto simp: undoable_def intro: opaque_extends)
  moreover have "sublist w u" using "2.IH"[OF u[symmetric] "2.prems"(1) ok rec "2.prems"(4,5)] .
  ultimately show ?case using substitute_leak[OF "2.prems"(2) tail u] by blast
qed auto

lemma scrub_leak:
  assumes "valid_engine rx" "sn_ok S" "scrub rx extra rules s S = (t, S')" "opaque w S'" "w \<in> fst ` set extra"
  shows "\<not> sublist w t"
proof
  assume "sublist w t"
  obtain u S1 where u: "scrub_extra extra s S = (u, S1)" by fastforce
  have ok: "sn_ok S1" using scrub_extra_undoable[OF assms(2) u] by (simp add: undoable_def)
  have rec: "scrub_rules rx rules u S1 = (t, S')" using assms(3) u by (simp add: scrub_def)
  have "opaque w S1"
    using scrub_rules_undoable[OF assms(1) ok rec] assms(4) by (auto simp: undoable_def intro: opaque_extends)
  moreover have "sublist w u" using scrub_rules_leak[OF assms(1) ok rec assms(4) \<open>sublist w t\<close>] .
  ultimately show False using scrub_extra_leak[OF assms(2) u] assms(5) by blast
qed

lemma scrub_all_leak:
  "valid_engine rx \<Longrightarrow> sn_ok S \<Longrightarrow> scrub_all rx extra rules ss S = (ts, S') \<Longrightarrow> opaque w S' \<Longrightarrow>
   w \<in> fst ` set extra \<Longrightarrow> \<forall>t \<in> set ts. \<not> sublist w t"
proof (induction rx extra rules ss S arbitrary: ts S' rule: scrub_all.induct)
  case (2 rx extra rules s ss S)
  obtain t S1 where t: "scrub rx extra rules s S = (t, S1)" by fastforce
  obtain us where us: "scrub_all rx extra rules ss S1 = (us, S')" "ts = t # us"
    using "2.prems"(3) t by (auto split: prod.splits)
  have ok: "sn_ok S1" using scrub_undoable[OF "2.prems"(1,2) t] by (simp add: undoable_def)
  have "opaque w S1"
    using scrub_all_undoable[OF "2.prems"(1) ok us(1)] "2.prems"(4) by (auto intro: opaque_extends)
  then show ?case
    using scrub_leak[OF "2.prems"(1,2) t _ "2.prems"(5)] "2.IH"[OF t[symmetric] "2.prems"(1) ok us(1) "2.prems"(4,5)] us(2)
    by simp
qed auto

subsection \<open>Bundles\<close>

lemma text_field_set: "text_field (aset ''text'' (PStr t) d) = t"
  by (simp add: text_field_def aget_aset py_str_def)

lemma with_texts_field: "length ts = length ds \<Longrightarrow> map text_field (with_texts ds ts) = ts"
  by (rule nth_equalityI) (simp_all add: with_texts_def text_field_set)

lemma scrub_all_length: "scrub_all rx extra rules ss S = (ts, S') \<Longrightarrow> length ts = length ss"
  by (induction rx extra rules ss S arbitrary: ts S' rule: scrub_all.induct) (auto split: prod.splits)

definition found_memories :: "bundle_world \<Rightarrow> string list \<Rightarrow> args list" where
  "found_memories W refs = filter (\<lambda>d. \<not> has_error d) (resolved_memories W refs)"

definition found_sources :: "bundle_world \<Rightarrow> string list \<Rightarrow> args list" where
  "found_sources W refs = filter (\<lambda>d. \<not> has_error d) (resolved_sources W refs)"

lemma build_bundle_scrubbed:
  assumes "build_bundle W config refs True redactions cleared = Inr (b, m)"
  obtains rules ts S where
    "scrub_all (bw_engine W) redactions rules
       (map text_field (found_memories W refs) @ map text_field (found_sources W refs)) new_sanitizer = (ts, S)"
    "m = sn_mapping S"
    "map text_field (bu_memories b) @ map text_field (bu_sources b) = ts"
    "map text_field (bu_memories b) = take (length (found_memories W refs)) ts"
    "map text_field (bu_sources b) = drop (length (found_memories W refs)) ts"
proof -
  obtain rules where rules: "sanitize_rules config = Inr rules"
    using assms by (cases "sanitize_rules config") (auto simp: build_bundle_def Let_def)
  obtain ts S where sc: "scrub_all (bw_engine W) redactions rules
      (map text_field (found_memories W refs) @ map text_field (found_sources W refs)) new_sanitizer = (ts, S)"
    by fastforce
  have len: "length ts = length (found_memories W refs) + length (found_sources W refs)"
    using scrub_all_length[OF sc] by simp
  have b: "m = sn_mapping S" "bu_memories b = with_texts (found_memories W refs) (take (length (found_memories W refs)) ts)"
    "bu_sources b = with_texts (found_sources W refs) (drop (length (found_memories W refs)) ts)"
    using assms sc by (auto simp: build_bundle_def Let_def rules found_memories_def found_sources_def)
  have "map text_field (bu_memories b) = take (length (found_memories W refs)) ts"
    "map text_field (bu_sources b) = drop (length (found_memories W refs)) ts"
    unfolding b using len by (intro with_texts_field; simp)+
  with that[OF sc b(1)] show ?thesis by simp
qed

text \<open>A reader who holds the mapping gets back what the store holds: the text of every memory and of every source section
  in a scrubbed bundle becomes the original text by putting the mapped values in the place of placeholders, in the
  order of the bundle. (The engine of regular expressions cuts a text into matches and what stands between them.)
\<close>

theorem bundle_restorable:
  assumes "valid_engine (bw_engine W)" "build_bundle W config refs True redactions cleared = Inr (b, m)"
  shows "list_all2 (restores m) (map text_field (bu_memories b)) (map text_field (found_memories W refs)) \<and>
    list_all2 (restores m) (map text_field (bu_sources b)) (map text_field (found_sources W refs))"
proof -
  let ?ms = "map text_field (found_memories W refs)" and ?ss = "map text_field (found_sources W refs)"
  from build_bundle_scrubbed[OF assms(2)] obtain rules ts S where
    sc: "scrub_all (bw_engine W) redactions rules (?ms @ ?ss) new_sanitizer = (ts, S)" and m: "m = sn_mapping S" and
    ts: "map text_field (bu_memories b) = take (length ?ms) ts" "map text_field (bu_sources b) = drop (length ?ms) ts"
    by (metis length_map)
  have "list_all2 (restores m) ts (?ms @ ?ss)"
    using scrub_all_undoable[OF assms(1) sn_ok_new sc] mapped_mapping m by blast
  then have "list_all2 (restores m) (take (length ?ms) ts) ?ms" "list_all2 (restores m) (drop (length ?ms) ts) ?ss"
    using list_all2_takeI[of _ ts "?ms @ ?ss" "length ?ms"] list_all2_dropI[of _ ts "?ms @ ?ss" "length ?ms"] by simp_all
  with ts show ?thesis by simp
qed

text \<open>C18: What a human ruled out does not leave in a text. A redacted value appears in no text of a scrubbed bundle, provided
  it is not empty, has no angle bracket, and is not itself part of a placeholder that was given.
\<close>

theorem redacted_never_leaves:
  assumes "valid_engine (bw_engine W)" "build_bundle W config refs True redactions cleared = Inr (b, m)"
    "w \<in> fst ` set redactions" "w \<noteq> []" "CHR ''<'' \<notin> set w" "CHR ''>'' \<notin> set w"
    "\<forall>ph \<in> fst ` set m. \<not> infix_of w ph"
  shows "\<forall>d \<in> set (bu_memories b) \<union> set (bu_sources b). \<not> infix_of w (text_field d)"
proof -
  from build_bundle_scrubbed[OF assms(2)] obtain rules ts S where
    sc: "scrub_all (bw_engine W) redactions rules
      (map text_field (found_memories W refs) @ map text_field (found_sources W refs)) new_sanitizer = (ts, S)" and
    m: "m = sn_mapping S" and ts: "map text_field (bu_memories b) @ map text_field (bu_sources b) = ts"
    by metis
  have "opaque w S" using assms(4-7) by (auto simp: opaque_def m mapping_keys infix_of_sublist)
  then have "\<forall>t \<in> set ts. \<not> sublist w t" using scrub_all_leak[OF assms(1) sn_ok_new sc _ assms(3)] by blast
  then show ?thesis by (force simp: ts[symmetric] infix_of_sublist)
qed

subsection \<open>A bundle in full\<close>

text \<open>An engine that finds one address, and a store with one memory.\<close>

function cuts :: "string \<Rightarrow> string \<Rightarrow> string \<Rightarrow> (string \<times> string) list" where
  "cuts needle before s =
     (case s of
        [] \<Rightarrow> []
      | c # cs \<Rightarrow> if needle \<noteq> [] \<and> starts_with needle s then (before, needle) # cuts needle [] (drop (length needle) s)
                else cuts needle (before @ [c]) cs)"
  by pat_completeness auto
termination
  by (relation "measure (\<lambda>(n, b, s). length s)") auto

declare cuts.simps [simp del]

lemma cuts_valid: "\<exists>tail. before @ s = concat (map (\<lambda>(b, m). b @ m) (cuts needle before s)) @ tail"
proof (induction needle before s rule: cuts.induct)
  case (1 needle before s)
  show ?case
  proof (cases s)
    case Nil
    then show ?thesis by (subst cuts.simps) simp
  next
    case (Cons c cs)
    show ?thesis
    proof (cases "needle \<noteq> [] \<and> starts_with needle s")
      case True
      then have "s = needle @ drop (length needle) s" by (metis starts_with_def append_take_drop_id)
      with "1.IH"(1)[OF Cons True] True Cons show ?thesis by (subst cuts.simps) (auto; metis append_assoc)
    next
      case False
      with "1.IH"(2)[OF Cons False] Cons show ?thesis by (subst cuts.simps) auto
    qed
  qed
qed

definition bundle_demo_engine :: engine where
  "bundle_demo_engine r s = (if r = Ipv4 then cuts ''10.0.0.1'' [] s else [])"

lemma bundle_demo_engine_valid: "valid_engine bundle_demo_engine"
  using cuts_valid[of "[]"] by (auto simp: valid_engine_def bundle_demo_engine_def)

definition bundle_demo_world :: bundle_world where
  "bundle_demo_world = \<lparr>
     bw_execute = (\<lambda>op args. if op = ''get'' then Inr (PDict [(''memory'', PStr ''Ada: 10.0.0.1'')]) else Inr PNone),
     bw_sha = (\<lambda>s. ''h''), bw_root = True, bw_inside = (\<lambda>p. True),
     bw_file = (\<lambda>p. Some (''# Ada'' @ [CHR 0x0A] @ ''by Ada'')), bw_engine = bundle_demo_engine, bw_find = (\<lambda>k s. [])\<rparr>"

definition bundle_demo_config :: args where
  "bundle_demo_config = [(''sanitize'', PDict [(''internal_domains'', PList []), (''internal_repo_hosts'', PList [])])]"

definition demo_bundle :: "bundle_out \<times> (string \<times> string) list" where
  "demo_bundle = projr (build_bundle bundle_demo_world bundle_demo_config [''mem:m1'', ''sources/a.md#Ada''] True [(''Ada'', ''NAME'')] {})"

lemma demo_built:
  "build_bundle bundle_demo_world bundle_demo_config [''mem:m1'', ''sources/a.md#Ada''] True [(''Ada'', ''NAME'')] {} = Inr demo_bundle"
proof -
  have "\<not> isl (build_bundle bundle_demo_world bundle_demo_config [''mem:m1'', ''sources/a.md#Ada''] True [(''Ada'', ''NAME'')] {})"
    by code_simp
  then show ?thesis by (simp add: demo_bundle_def)
qed

lemma demo_mapping: "snd demo_bundle = [(''<NAME-1>'', ''Ada''), (''<HOST-1>'', ''10.0.0.1'')]"
  by code_simp

lemma demo_texts: "map text_field (bu_memories (fst demo_bundle)) = [''<NAME-1>: <HOST-1>'']"
  by code_simp

text \<open>The texts are scrubbed, the heading a citation names is not: the ruled-out name leaves with it.\<close>

lemma heading_leaves: "map (\<lambda>d. aget d ''heading'') (bu_sources (fst demo_bundle)) = [PStr ''Ada'']"
  by code_simp

lemma bundle_restorable_witness: "restores (snd demo_bundle) ''<NAME-1>: <HOST-1>'' ''Ada: 10.0.0.1''"
proof -
  have "valid_engine (bw_engine bundle_demo_world)" by (simp add: bundle_demo_world_def bundle_demo_engine_valid)
  moreover have "map text_field (found_memories bundle_demo_world [''mem:m1'', ''sources/a.md#Ada'']) = [''Ada: 10.0.0.1'']"
    by code_simp
  ultimately show ?thesis
    using bundle_restorable[of bundle_demo_world bundle_demo_config _ _ _ "fst demo_bundle" "snd demo_bundle"] demo_built demo_texts
    by fastforce
qed

lemma redacted_never_leaves_witness:
  "list_all (\<lambda>d. \<not> infix_of ''Ada'' (text_field d)) (bu_memories (fst demo_bundle) @ bu_sources (fst demo_bundle))"
proof -
  have v: "valid_engine (bw_engine bundle_demo_world)" by (simp add: bundle_demo_world_def bundle_demo_engine_valid)
  have b: "build_bundle bundle_demo_world bundle_demo_config [''mem:m1'', ''sources/a.md#Ada''] True [(''Ada'', ''NAME'')] {}
      = Inr (fst demo_bundle, snd demo_bundle)" using demo_built by simp
  have "\<forall>ph \<in> fst ` set (snd demo_bundle). \<not> infix_of ''Ada'' ph" by (simp add: demo_mapping)
  from redacted_never_leaves[OF v b _ _ _ _ this] show ?thesis by (simp add: list_all_iff)
qed

end
