(* ===== verification/Relay.thy ===== *)
theory Relay
  imports Bundle
begin

text \<open>
  Long structured calls: \<^verbatim>\<open>src/src/memline/relay.py\<close>. One call asks the endpoints of a job in order, each several times,
  for an answer that is JSON. The stream of the \<open>n\<close>-th request, what it delivers, when the endpoint is quiet and how it
  ends, is an argument, as are the JSON decoder, the clock and \<^verbatim>\<open>float()\<close> of a text. The state of a call is what it has
  done so far: the requests, the reasons why they did not serve, the waits and the lines it reported.
\<close>

subsection \<open>What a stream delivers\<close>

record delta =
  de_content :: pyval
  de_reasoning_content :: pyval
  de_reasoning :: pyval

record choice =
  ci_finish :: pyval
  ci_delta :: "delta option"

record chunk =
  ck_choices :: "choice list"
  ck_usage :: "args option"

text \<open>The heartbeat thread reports while the endpoint is quiet: \<open>Quiet t\<close>.\<close>

datatype stream_event = Delivered chunk rat | Quiet rat

type_synonym exc = "string \<times> string"

definition count_value :: "pyval \<Rightarrow> int option" where
  "count_value v = (case v of PInt i \<Rightarrow> Some i | PBool b \<Rightarrow> Some (of_bool b) | _ \<Rightarrow> None)"

definition text_chars :: "pyval \<Rightarrow> nat option" where
  "text_chars v = (case v of PStr s \<Rightarrow> Some (length (utf8_chars s)) | _ \<Rightarrow> None)"

subsection \<open>\<^verbatim>\<open>_StreamProgress\<close>\<close>

record progress =
  pg_started :: rat
  pg_last :: "rat option"
  pg_chunks :: nat
  pg_content_chars :: nat
  pg_reasoning_chars :: nat
  pg_content_deltas :: nat
  pg_reasoning_deltas :: nat
  pg_prompt :: "int option"
  pg_completion :: "int option"
  pg_marked_tokens :: nat
  pg_marked_at :: rat

definition new_progress :: "rat \<Rightarrow> progress" where
  "new_progress now =
     \<lparr>pg_started = now, pg_last = None, pg_chunks = 0, pg_content_chars = 0, pg_reasoning_chars = 0,
      pg_content_deltas = 0, pg_reasoning_deltas = 0, pg_prompt = None, pg_completion = None,
      pg_marked_tokens = 0, pg_marked_at = now\<rparr>"

text \<open>What the deltas of a chunk hold: content, and reasoning under either name, as character counts.\<close>

definition deltas_of :: "chunk \<Rightarrow> delta list" where
  "deltas_of c = List.map_filter ci_delta (ck_choices c)"

definition content_counts :: "chunk \<Rightarrow> nat list" where
  "content_counts c = List.map_filter (\<lambda>d. text_chars (de_content d)) (deltas_of c)"

definition reasoning_counts :: "chunk \<Rightarrow> nat list" where
  "reasoning_counts c =
     concat (map (\<lambda>d. List.map_filter text_chars [de_reasoning_content d, de_reasoning d]) (deltas_of c))"

definition tokens_stated :: "args \<Rightarrow> string \<Rightarrow> int option \<Rightarrow> int option" where
  "tokens_stated usage k before = (case count_value (aget usage k) of Some i \<Rightarrow> Some i | None \<Rightarrow> before)"

definition usage_counts :: "args \<Rightarrow> progress \<Rightarrow> progress" where
  "usage_counts usage p =
     p\<lparr>pg_prompt := tokens_stated usage ''prompt_tokens'' (pg_prompt p),
       pg_completion := tokens_stated usage ''completion_tokens'' (pg_completion p)\<rparr>"

definition observe :: "chunk \<Rightarrow> rat \<Rightarrow> progress \<Rightarrow> progress" where
  "observe c now p =
     (let p1 = p\<lparr>pg_chunks := pg_chunks p + 1,
                 pg_content_chars := pg_content_chars p + sum_list (content_counts c),
                 pg_reasoning_chars := pg_reasoning_chars p + sum_list (reasoning_counts c),
                 pg_content_deltas := pg_content_deltas p + length (content_counts c),
                 pg_reasoning_deltas := pg_reasoning_deltas p + length (reasoning_counts c)\<rparr>;
          p2 = (case ck_usage c of None \<Rightarrow> p1 | Some usage \<Rightarrow> usage_counts usage p1)
      in p2\<lparr>pg_last := Some now\<rparr>)"

text \<open>One reported line; the numbers are printed with one decimal and the tokens with a tilde.\<close>

record progress_line =
  pl_status :: string
  pl_endpoint :: string
  pl_model :: string
  pl_attempt :: nat
  pl_elapsed :: rat
  pl_chunks :: nat
  pl_tokens :: nat
  pl_content_deltas :: nat
  pl_reasoning_deltas :: nat
  pl_since_tokens :: int
  pl_since_seconds :: rat
  pl_prompt :: "int option"
  pl_completion :: "int option"
  pl_content_chars :: nat
  pl_reasoning_chars :: nat
  pl_age :: "rat option"
  pl_finish :: "string option"

definition est_tokens :: "progress \<Rightarrow> nat" where
  "est_tokens p = pg_content_deltas p + pg_reasoning_deltas p"

definition report_line ::
  "endpoint \<Rightarrow> nat \<Rightarrow> string \<Rightarrow> rat \<Rightarrow> string option \<Rightarrow> progress \<Rightarrow> progress_line \<times> progress" where
  "report_line e k status now finish p =
     (\<lparr>pl_status = status, pl_endpoint = py_str (ep_name e), pl_model = py_str (ep_model e), pl_attempt = k,
       pl_elapsed = max 0 (now - pg_started p), pl_chunks = pg_chunks p, pl_tokens = est_tokens p,
       pl_content_deltas = pg_content_deltas p, pl_reasoning_deltas = pg_reasoning_deltas p,
       pl_since_tokens = int (est_tokens p) - int (pg_marked_tokens p),
       pl_since_seconds = max 0 (now - pg_marked_at p), pl_prompt = pg_prompt p, pl_completion = pg_completion p,
       pl_content_chars = pg_content_chars p, pl_reasoning_chars = pg_reasoning_chars p,
       pl_age = map_option (\<lambda>t. max 0 (now - t)) (pg_last p), pl_finish = finish\<rparr>,
      p\<lparr>pg_marked_tokens := est_tokens p, pg_marked_at := now\<rparr>)"

fun watch :: "endpoint \<Rightarrow> nat \<Rightarrow> stream_event list \<Rightarrow> progress \<Rightarrow> progress_line list \<times> progress" where
  "watch e k [] p = ([], p)"
| "watch e k (Delivered c now # evs) p = watch e k evs (observe c now p)"
| "watch e k (Quiet now # evs) p =
     (case report_line e k ''active'' now None p of (l, p') \<Rightarrow>
      case watch e k evs p' of (ls, p'') \<Rightarrow> (l # ls, p''))"

subsection \<open>One request\<close>

definition chunks_of :: "stream_event list \<Rightarrow> chunk list" where
  "chunks_of evs = List.map_filter (\<lambda>ev. case ev of Delivered c _ \<Rightarrow> Some c | Quiet _ \<Rightarrow> None) evs"

record reading =
  rg_text :: string
  rg_usage :: args
  rg_finish :: pyval

definition read_choice :: "choice \<Rightarrow> reading \<Rightarrow> reading" where
  "read_choice ch r =
     (let r1 = r\<lparr>rg_finish := por (ci_finish ch) (rg_finish r)\<rparr> in
      case ci_delta ch of
        None \<Rightarrow> r1
      | Some d \<Rightarrow> (if truthy (de_content d) then r1\<lparr>rg_text := rg_text r1 @ py_str (de_content d)\<rparr> else r1))"

definition read_chunk :: "chunk \<Rightarrow> reading \<Rightarrow> reading" where
  "read_chunk c r =
     fold read_choice (ck_choices c) (case ck_usage c of None \<Rightarrow> r | Some usage \<Rightarrow> r\<lparr>rg_usage := usage\<rparr>)"

definition read_chunks :: "chunk list \<Rightarrow> reading" where
  "read_chunks cs = fold read_chunk cs \<lparr>rg_text = [], rg_usage = [], rg_finish = PNone\<rparr>"

record streamed =
  sd_events :: "stream_event list"
  sd_failure :: "exc option"
  sd_start :: rat
  sd_end :: rat

record relay_world =
  rw_env :: environ
  rw_load :: "string \<Rightarrow> read_failure + pyval"
  rw_key_exc :: "key_error \<Rightarrow> exc"
  rw_stream :: "nat \<Rightarrow> endpoint \<Rightarrow> string \<Rightarrow> string \<Rightarrow> int \<Rightarrow> rat \<Rightarrow> streamed"
  rw_clock :: "nat \<Rightarrow> rat"
  rw_seconds :: "nat \<Rightarrow> rat"
  rw_loads :: "string \<Rightarrow> string + pyval"
  rw_float :: "string \<Rightarrow> rat option"

record call_params =
  cp_prompt :: string
  cp_tokens :: int
  cp_timeout :: rat
  cp_backoff :: rat
  cp_reports :: bool

definition finish_text :: "pyval \<Rightarrow> string" where
  "finish_text v = (if truthy v then py_str v else ''none'')"

text \<open>The lines of a request: the first, those of the heartbeat, and the last with the reason of the end.\<close>

definition request_lines :: "endpoint \<Rightarrow> nat \<Rightarrow> streamed \<Rightarrow> reading \<Rightarrow> progress_line list" where
  "request_lines e k sd r =
     (case report_line e k ''started'' (sd_start sd) None (new_progress (sd_start sd)) of (l0, p0) \<Rightarrow>
      case watch e k (sd_events sd) p0 of (ls, p1) \<Rightarrow>
        let status = (if sd_failure sd = None then ''complete'' else ''error'');
            p2 = (if rg_usage r = [] then p1 else usage_counts (rg_usage r) p1)
        in l0 # ls @ [fst (report_line e k status (sd_end sd) (Some (finish_text (rg_finish r))) p2)])"

definition no_stream :: "exc \<Rightarrow> rat \<Rightarrow> streamed" where
  "no_stream x t = \<lparr>sd_events = [], sd_failure = Some x, sd_start = t, sd_end = t\<rparr>"

definition stream_of :: "relay_world \<Rightarrow> call_params \<Rightarrow> nat \<Rightarrow> endpoint \<Rightarrow> streamed" where
  "stream_of W P n e =
     (case api_key (rw_env W) (rw_load W) e of
        Inl err \<Rightarrow> no_stream (rw_key_exc W err) (rw_clock W n)
      | Inr key \<Rightarrow> rw_stream W n e key (cp_prompt P) (cp_tokens P) (cp_timeout P))"

definition stream_once ::
  "relay_world \<Rightarrow> call_params \<Rightarrow> nat \<Rightarrow> endpoint \<Rightarrow> nat \<Rightarrow> (exc + reading) \<times> progress_line list" where
  "stream_once W P n e k =
     (let sd = stream_of W P n e; r = read_chunks (chunks_of (sd_events sd))
      in ((case sd_failure sd of None \<Rightarrow> Inr r | Some x \<Rightarrow> Inl x),
          if cp_reports P then request_lines e k sd r else []))"

subsection \<open>Parsing\<close>

definition after_newline :: "string \<Rightarrow> string" where
  "after_newline s =
     (if CHR 0x0A \<in> set s then drop 1 (dropWhile (\<lambda>c. c \<noteq> CHR 0x0A) s) else s)"

text \<open>\<^verbatim>\<open>s.rsplit("```", 1)[0]\<close>: all before the last fence.\<close>

fun before_last :: "string \<Rightarrow> string \<Rightarrow> string option" where
  "before_last v [] = (if v = [] then Some [] else None)"
| "before_last v (c # cs) =
     (case before_last v cs of
        Some t \<Rightarrow> Some (c # t)
      | None \<Rightarrow> if starts_with v (c # cs) then Some [] else None)"

definition FENCE :: string where "FENCE = ''```''"

definition unfenced :: "string \<Rightarrow> string" where
  "unfenced s =
     (let t = strip s in
      if starts_with FENCE t then
        let body = after_newline t;
            inner = strip (case before_last FENCE body of None \<Rightarrow> body | Some b \<Rightarrow> b)
        in strip (if starts_with ''json'' inner then drop 4 inner else inner)
      else t)"

definition parse_json :: "(string \<Rightarrow> string + pyval) \<Rightarrow> string \<Rightarrow> string + pyval" where
  "parse_json loads s =
     (let t = unfenced s in
      if t = [] then Inl ''empty answer''
      else case loads t of Inl why \<Rightarrow> Inl (''not JSON: '' @ why) | Inr v \<Rightarrow> Inr v)"

definition looks_refused :: "string \<Rightarrow> bool" where
  "looks_refused t =
     (let l = lower t in infix_of ''high risk'' l \<or> infix_of ''content'' l \<and> infix_of ''reject'' l)"

subsection \<open>The call\<close>

record call_result =
  cr_text :: string
  cr_endpoint :: pyval
  cr_model :: pyval
  cr_attempt :: nat
  cr_seconds :: rat
  cr_usage :: args
  cr_finish :: pyval
  cr_earlier :: "string list"

datatype call_error =
    NotConfigured config_error
  | BadKnob
  | BadSleep
  | Refused string
  | NoAnswer "string list"

record relay_state =
  rs_calls :: nat
  rs_errors :: "string list"
  rs_sleeps :: "rat list"
  rs_lines :: "progress_line list"

definition fresh_call :: relay_state where
  "fresh_call = \<lparr>rs_calls = 0, rs_errors = [], rs_sleeps = [], rs_lines = []\<rparr>"

definition attempt_line :: "endpoint \<Rightarrow> nat \<Rightarrow> string \<Rightarrow> string" where
  "attempt_line e k t = py_str (ep_name e) @ '' attempt '' @ show_nat k @ '': '' @ t"

text \<open>A failed attempt: its reason is kept, and the wait, if any, must not be negative.\<close>

definition give_up ::
  "string \<Rightarrow> rat option \<Rightarrow> relay_state \<Rightarrow> relay_state \<times> (call_error + pyval \<times> call_result) option" where
  "give_up line wait s =
     (let s1 = s\<lparr>rs_errors := rs_errors s @ [line]\<rparr> in
      case wait of
        None \<Rightarrow> (s1, None)
      | Some w \<Rightarrow> if w < 0 then (s1, Some (Inl BadSleep)) else (s1\<lparr>rs_sleeps := rs_sleeps s1 @ [w]\<rparr>, None))"

definition try_once ::
  "relay_world \<Rightarrow> call_params \<Rightarrow> endpoint \<Rightarrow> nat \<Rightarrow> relay_state
     \<Rightarrow> relay_state \<times> (call_error + pyval \<times> call_result) option" where
  "try_once W P e k s =
     (case stream_once W P (rs_calls s) e k of (got, ls) \<Rightarrow>
      let s1 = s\<lparr>rs_calls := rs_calls s + 1, rs_lines := rs_lines s @ ls\<rparr> in
      case got of
        Inl (ty, t) \<Rightarrow>
          if looks_refused t then (s1, Some (Inl (Refused (py_str (ep_name e) @ '': '' @ t))))
          else give_up (attempt_line e k (ty @ '': '' @ t)) (Some (cp_backoff P * of_nat k)) s1
      | Inr r \<Rightarrow>
          let result = \<lparr>cr_text = rg_text r, cr_endpoint = ep_name e, cr_model = ep_model e, cr_attempt = k,
                        cr_seconds = rw_seconds W (rs_calls s), cr_usage = rg_usage r, cr_finish = rg_finish r,
                        cr_earlier = rs_errors s1\<rparr>
          in if rg_finish r = PStr ''length''
             then give_up (attempt_line e k (''truncated at '' @ show_int (cp_tokens P) @ '' tokens'')) None s1
             else case parse_json (rw_loads W) (rg_text r) of
                 Inr v \<Rightarrow> (s1, Some (Inr (v, result)))
               | Inl why \<Rightarrow> give_up (attempt_line e k why) (Some (cp_backoff P)) s1)"

fun try_attempts ::
  "relay_world \<Rightarrow> call_params \<Rightarrow> endpoint \<Rightarrow> nat list \<Rightarrow> relay_state
     \<Rightarrow> relay_state \<times> (call_error + pyval \<times> call_result) option" where
  "try_attempts W P e [] s = (s, None)"
| "try_attempts W P e (k # ks) s =
     (case try_once W P e k s of
        (s', Some r) \<Rightarrow> (s', Some r)
      | (s', None) \<Rightarrow> try_attempts W P e ks s')"

fun try_all ::
  "relay_world \<Rightarrow> call_params \<Rightarrow> endpoint list \<Rightarrow> nat \<Rightarrow> relay_state \<Rightarrow> relay_state \<times> (call_error + pyval \<times> call_result)" where
  "try_all W P [] m s = (s, Inl (NoAnswer (rs_errors s)))"
| "try_all W P (e # es) m s =
     (case try_attempts W P e [1..<m + 1] s of
        (s', Some r) \<Rightarrow> (s', r)
      | (s', None) \<Rightarrow> try_all W P es m s')"

definition knob_float :: "relay_world \<Rightarrow> pyval \<Rightarrow> rat option" where
  "knob_float W v =
     (case v of
        PInt i \<Rightarrow> Some (of_int i)
      | PBool b \<Rightarrow> Some (of_bool b)
      | PFloat r _ \<Rightarrow> Some r
      | PStr s \<Rightarrow> rw_float W s
      | _ \<Rightarrow> None)"

definition knob :: "(pyval \<Rightarrow> 'a option) \<Rightarrow> args \<Rightarrow> string \<Rightarrow> 'a \<Rightarrow> 'a option" where
  "knob conv knobs k dflt = (case map_of knobs k of None \<Rightarrow> Some dflt | Some v \<Rightarrow> conv v)"

text \<open>The knobs that the configuration states win over the numbers of the caller.\<close>

definition call_setup ::
  "relay_world \<Rightarrow> args \<Rightarrow> string \<Rightarrow> endpoint list \<Rightarrow> int \<Rightarrow> call_params
     \<Rightarrow> call_error + call_params \<times> endpoint list \<times> nat" where
  "call_setup W llm job chosen tries P =
     (case llm_knobs llm (Some job) of
        Inl e \<Rightarrow> Inl (NotConfigured e)
      | Inr knobs \<Rightarrow>
          (case (knob py_int knobs ''max_tokens'' (cp_tokens P), knob py_int knobs ''attempts_per_endpoint'' tries,
                 knob (knob_float W) knobs ''timeout'' (cp_timeout P), knob (knob_float W) knobs ''backoff'' (cp_backoff P)) of
             (Some tokens, Some m, Some timeout, Some backoff) \<Rightarrow>
               let P' = P\<lparr>cp_tokens := tokens, cp_timeout := timeout, cp_backoff := backoff\<rparr> in
               if chosen \<noteq> [] then Inr (P', chosen, nat m)
               else (case llm_endpoint_specs llm (Some job) of
                       Inl e \<Rightarrow> Inl (NotConfigured e)
                     | Inr specs \<Rightarrow> Inr (P', map endpoint_of specs, nat m))
           | _ \<Rightarrow> Inl BadKnob))"

definition call_json ::
  "relay_world \<Rightarrow> args \<Rightarrow> string \<Rightarrow> endpoint list \<Rightarrow> int \<Rightarrow> call_params
     \<Rightarrow> relay_state \<times> (call_error + pyval \<times> call_result)" where
  "call_json W llm job chosen tries P =
     (case call_setup W llm job chosen tries P of
        Inl e \<Rightarrow> (fresh_call, Inl e)
      | Inr (P', es, m) \<Rightarrow> try_all W P' es m fresh_call)"

text \<open>\<^verbatim>\<open>round\<close> of a number of seconds: half goes to the even neighbour.\<close>

definition py_round :: "rat \<Rightarrow> int" where
  "py_round x =
     (let f = \<lfloor>x\<rfloor>; d = x - of_int f in
      if d < 1 / 2 then f else if 1 / 2 < d then f + 1 else if even f then f else f + 1)"

definition provenance :: "call_result \<Rightarrow> args" where
  "provenance r =
     [(''endpoint'', cr_endpoint r), (''model'', cr_model r), (''attempt'', PInt (int (cr_attempt r))),
      (''seconds'', PInt (py_round (cr_seconds r))), (''usage'', PDict (cr_usage r)),
      (''earlier_failures'', PList (map PStr (cr_earlier r)))]"

definition HEARTBEAT_SECONDS :: rat where "HEARTBEAT_SECONDS = 30"

definition heartbeat_interval :: "(string \<Rightarrow> rat option) \<Rightarrow> environ \<Rightarrow> rat" where
  "heartbeat_interval flt env =
     (case flt (case env ''MEMLINE_STREAM_HEARTBEAT'' of None \<Rightarrow> ''30'' | Some s \<Rightarrow> s) of
        None \<Rightarrow> HEARTBEAT_SECONDS
      | Some x \<Rightarrow> if 0 < x then x else HEARTBEAT_SECONDS)"

subsection \<open>The order of the attempts\<close>

definition plan_of :: "endpoint list \<Rightarrow> nat \<Rightarrow> (endpoint \<times> nat) list" where
  "plan_of es m = concat (map (\<lambda>e. map (Pair e) [1..<m + 1]) es)"

lemma plan_length: "length (plan_of es m) = length es * m"
  by (induction es) (auto simp: plan_of_def)

definition served :: "relay_world \<Rightarrow> call_params \<Rightarrow> nat \<Rightarrow> endpoint \<times> nat \<Rightarrow> (pyval \<times> reading) option" where
  "served W P n ek =
     (case fst (stream_once W P n (fst ek) (snd ek)) of
        Inl _ \<Rightarrow> None
      | Inr r \<Rightarrow> if rg_finish r = PStr ''length'' then None
                 else (case parse_json (rw_loads W) (rg_text r) of Inl _ \<Rightarrow> None | Inr v \<Rightarrow> Some (v, r)))"

definition declined :: "relay_world \<Rightarrow> call_params \<Rightarrow> nat \<Rightarrow> endpoint \<times> nat \<Rightarrow> bool" where
  "declined W P n ek =
     (case fst (stream_once W P n (fst ek) (snd ek)) of Inl x \<Rightarrow> looks_refused (snd x) | Inr _ \<Rightarrow> False)"

text \<open>Neither served nor declined: the next attempt is made.\<close>

definition failed_upto :: "relay_world \<Rightarrow> call_params \<Rightarrow> (endpoint \<times> nat) list \<Rightarrow> nat \<Rightarrow> bool" where
  "failed_upto W P plan j \<longleftrightarrow> list_all (\<lambda>i. served W P i (plan ! i) = None \<and> \<not> declined W P i (plan ! i)) [0..<j]"

fun try_plan ::
  "relay_world \<Rightarrow> call_params \<Rightarrow> (endpoint \<times> nat) list \<Rightarrow> relay_state \<Rightarrow> relay_state \<times> (call_error + pyval \<times> call_result)" where
  "try_plan W P [] s = (s, Inl (NoAnswer (rs_errors s)))"
| "try_plan W P (ek # plan) s =
     (case try_once W P (fst ek) (snd ek) s of
        (s', Some r) \<Rightarrow> (s', r)
      | (s', None) \<Rightarrow> try_plan W P plan s')"

lemma try_plan_attempts:
  "try_plan W P (map (Pair e) ks @ plan) s =
     (case try_attempts W P e ks s of (s', Some r) \<Rightarrow> (s', r) | (s', None) \<Rightarrow> try_plan W P plan s')"
  by (induction ks arbitrary: s) (auto split: prod.split option.split)

lemma try_all_plan: "try_all W P es m s = try_plan W P (plan_of es m) s"
  by (induction es arbitrary: s)
     (auto simp: plan_of_def try_plan_attempts simp del: upt_Suc split: prod.split option.split)

lemma try_once_served:
  assumes "served W P (rs_calls s) ek = Some (v, r)"
  shows "\<exists>s' res. try_once W P (fst ek) (snd ek) s = (s', Some (Inr (v, res))) \<and> rs_calls s' = rs_calls s + 1 \<and>
    cr_text res = rg_text r \<and> cr_endpoint res = ep_name (fst ek) \<and> cr_attempt res = snd ek \<and> cr_earlier res = rs_errors s"
  using assms by (auto simp: served_def try_once_def Let_def split: sum.splits if_splits prod.splits)

lemma try_once_declined:
  assumes "declined W P (rs_calls s) ek"
  shows "\<exists>s' t. try_once W P (fst ek) (snd ek) s = (s', Some (Inl (Refused t))) \<and> rs_calls s' = rs_calls s + 1"
  using assms by (auto simp: declined_def try_once_def Let_def split: sum.splits prod.splits)

lemma give_up_continues:
  "case wait of None \<Rightarrow> True | Some w \<Rightarrow> 0 \<le> w \<Longrightarrow>
   \<exists>s'. give_up line wait s = (s', None) \<and> rs_calls s' = rs_calls s \<and> length (rs_errors s') = length (rs_errors s) + 1"
  by (auto simp: give_up_def Let_def split: option.splits)

lemma try_once_failed:
  assumes "served W P (rs_calls s) ek = None" "\<not> declined W P (rs_calls s) ek" "0 \<le> cp_backoff P"
  shows "\<exists>s'. try_once W P (fst ek) (snd ek) s = (s', None) \<and> rs_calls s' = rs_calls s + 1 \<and>
    length (rs_errors s') = length (rs_errors s) + 1"
proof -
  obtain got ls where g: "stream_once W P (rs_calls s) (fst ek) (snd ek) = (got, ls)" by fastforce
  let ?s1 = "s\<lparr>rs_calls := Suc (rs_calls s), rs_lines := rs_lines s @ ls\<rparr>"
  have go: "case wait of None \<Rightarrow> True | Some w \<Rightarrow> 0 \<le> w \<Longrightarrow> \<exists>s'. give_up line wait ?s1 = (s', None) \<and>
      rs_calls s' = Suc (rs_calls s) \<and> length (rs_errors s') = Suc (length (rs_errors s))" for line wait
    using give_up_continues[of wait line ?s1] by simp
  have "\<exists>line wait. (case wait of None \<Rightarrow> True | Some w \<Rightarrow> 0 \<le> w) \<and>
      try_once W P (fst ek) (snd ek) s = give_up line wait ?s1"
    using assms
    by (cases got) (force simp: try_once_def g served_def declined_def Let_def split: sum.splits if_splits)+
  then show ?thesis using go by auto
qed

definition outcome_ok ::
  "relay_world \<Rightarrow> call_params \<Rightarrow> (endpoint \<times> nat) list \<Rightarrow> relay_state \<Rightarrow> call_error + pyval \<times> call_result \<Rightarrow> bool" where
  "outcome_ok W P plan s r =
     (case r of
        Inr (v, res) \<Rightarrow>
          (\<exists>j < length plan. failed_upto W P plan j \<and> rs_calls s = j + 1 \<and> length (cr_earlier res) = j \<and>
             (\<exists>rd. served W P j (plan ! j) = Some (v, rd) \<and> cr_text res = rg_text rd) \<and>
             cr_endpoint res = ep_name (fst (plan ! j)) \<and> cr_attempt res = snd (plan ! j))
      | Inl (Refused t) \<Rightarrow>
          (\<exists>j < length plan. failed_upto W P plan j \<and> rs_calls s = j + 1 \<and> declined W P j (plan ! j))
      | Inl (NoAnswer errors) \<Rightarrow>
          failed_upto W P plan (length plan) \<and> rs_calls s = length plan \<and> length errors = length plan
      | Inl _ \<Rightarrow> False)"

lemma failed_upto_Suc:
  "failed_upto W P plan (Suc j) \<longleftrightarrow> failed_upto W P plan j \<and> served W P j (plan ! j) = None \<and> \<not> declined W P j (plan ! j)"
  by (auto simp: failed_upto_def)

lemma failed_upto_append: "failed_upto W P (done @ rest) (length done) \<Longrightarrow> j < length done \<Longrightarrow> served W P j (done ! j) = None"
  by (auto simp: failed_upto_def list_all_iff nth_append)

lemma try_plan_outcome:
  assumes "try_plan W P rest s = (s', r)" "0 \<le> cp_backoff P" "plan = before @ rest" "rs_calls s = length before"
    "length (rs_errors s) = length before" "failed_upto W P plan (length before)"
  shows "outcome_ok W P plan s' r"
  using assms
proof (induction rest arbitrary: s before)
  case Nil
  then show ?case by (auto simp: outcome_ok_def)
next
  case (Cons ek rest)
  let ?n = "rs_calls s"
  have at: "plan ! length before = ek" "?n < length plan" using Cons.prems(3,4) by auto
  show ?case
  proof (cases "served W P ?n ek")
    case (Some vr)
    then obtain v rd where vr: "served W P ?n ek = Some (v, rd)" by (cases vr) auto
    from try_once_served[OF this] obtain t res where
      "try_once W P (fst ek) (snd ek) s = (t, Some (Inr (v, res)))" "rs_calls t = ?n + 1" "cr_text res = rg_text rd"
      "cr_endpoint res = ep_name (fst ek)" "cr_attempt res = snd ek" "cr_earlier res = rs_errors s" by blast
    then show ?thesis using Cons.prems at vr
      by (auto simp: outcome_ok_def intro!: exI[of _ "length before"])
  next
    case None
    show ?thesis
    proof (cases "declined W P ?n ek")
      case True
      from try_once_declined[OF this] obtain t x where
        "try_once W P (fst ek) (snd ek) s = (t, Some (Inl (Refused x)))" "rs_calls t = ?n + 1" by blast
      then show ?thesis using Cons.prems at True by (auto simp: outcome_ok_def intro!: exI[of _ "length before"])
    next
      case False
      from try_once_failed[OF None False Cons.prems(2)] obtain t where
        t: "try_once W P (fst ek) (snd ek) s = (t, None)" "rs_calls t = ?n + 1" "length (rs_errors t) = length (rs_errors s) + 1"
        by blast
      have "failed_upto W P plan (length (before @ [ek]))"
        using Cons.prems(4,6) at None False by (simp add: failed_upto_Suc)
      then show ?thesis using Cons.IH[of t "before @ [ek]"] Cons.prems t by simp
    qed
  qed
qed

text \<open>C27: What one call does. When the configuration resolves, the endpoints are asked in their order, each as often as it
  may be: the answer is the first that arrives whole and is JSON, and carries one reason for each request before it; a
  refusal ends the call at once; and only after every endpoint failed every time is there no answer.
\<close>

theorem call_json_outcome:
  assumes "call_setup W llm job chosen tries P = Inr (P', es, m)" "0 \<le> cp_backoff P'"
  shows "case call_json W llm job chosen tries P of (s, r) \<Rightarrow>
    outcome_ok W P' (plan_of es m) s r \<and> rs_calls s \<le> length es * m"
proof -
  obtain s r where sr: "try_plan W P' (plan_of es m) fresh_call = (s, r)" by fastforce
  have ok: "outcome_ok W P' (plan_of es m) s r"
    by (rule try_plan_outcome[OF sr assms(2), of _ "[]"]) (simp_all add: fresh_call_def failed_upto_def)
  then have "rs_calls s \<le> length es * m"
    by (auto simp: outcome_ok_def plan_length split: sum.splits prod.splits call_error.splits)
  then show ?thesis using sr ok by (simp add: call_json_def assms(1) try_all_plan)
qed

subsection \<open>What the reported lines reveal\<close>

definition same_counts :: "chunk \<Rightarrow> chunk \<Rightarrow> bool" where
  "same_counts c d \<longleftrightarrow> content_counts c = content_counts d \<and> reasoning_counts c = reasoning_counts d \<and>
     ck_usage c = ck_usage d \<and> map ci_finish (ck_choices c) = map ci_finish (ck_choices d)"

definition same_event :: "stream_event \<Rightarrow> stream_event \<Rightarrow> bool" where
  "same_event v w =
     (case (v, w) of
        (Delivered c t, Delivered d u) \<Rightarrow> t = u \<and> same_counts c d
      | (Quiet t, Quiet u) \<Rightarrow> t = u
      | _ \<Rightarrow> False)"

lemma same_event_simps [simp]:
  "same_event (Quiet t) w \<longleftrightarrow> w = Quiet t"
  "same_event (Delivered c t) w \<longleftrightarrow> (\<exists>d. w = Delivered d t \<and> same_counts c d)"
  by (auto simp: same_event_def split: stream_event.splits)

lemma watch_same: "list_all2 same_event evs evs' \<Longrightarrow> watch e k evs p = watch e k evs' p"
proof (induction arbitrary: p rule: list_all2_induct)
  case (Cons ev evs ev' evs')
  then show ?case by (cases ev) (auto simp: observe_def same_counts_def)
qed simp

lemma read_choice_fields:
  "rg_usage (read_choice ch r) = rg_usage r" "rg_finish (read_choice ch r) = por (ci_finish ch) (rg_finish r)"
  by (auto simp: read_choice_def Let_def split: option.split)

lemma fold_choices_fields:
  "rg_usage (fold read_choice chs r) = rg_usage r"
  "rg_finish (fold read_choice chs r) = fold (\<lambda>f acc. por f acc) (map ci_finish chs) (rg_finish r)"
  by (induction chs arbitrary: r) (auto simp: read_choice_fields)

lemma read_chunk_fields:
  "rg_usage (read_chunk c r) = (case ck_usage c of None \<Rightarrow> rg_usage r | Some usage \<Rightarrow> usage)"
  "rg_finish (read_chunk c r) = fold (\<lambda>f acc. por f acc) (map ci_finish (ck_choices c)) (rg_finish r)"
  by (auto simp: read_chunk_def fold_choices_fields split: option.split)

lemma read_same:
  "list_all2 same_event evs evs' \<Longrightarrow> rg_usage r = rg_usage r' \<Longrightarrow> rg_finish r = rg_finish r' \<Longrightarrow>
   rg_usage (fold read_chunk (chunks_of evs) r) = rg_usage (fold read_chunk (chunks_of evs') r') \<and>
   rg_finish (fold read_chunk (chunks_of evs) r) = rg_finish (fold read_chunk (chunks_of evs') r')"
proof (induction arbitrary: r r' rule: list_all2_induct)
  case (Cons ev evs ev' evs')
  show ?case
  proof (cases ev)
    case (Quiet t)
    then show ?thesis using Cons by (simp add: chunks_of_def map_filter_simps)
  next
    case (Delivered c t)
    then obtain d where d: "ev' = Delivered d t" "same_counts c d" using Cons.hyps(1) by auto
    then have "rg_usage (read_chunk c r) = rg_usage (read_chunk d r')" "rg_finish (read_chunk c r) = rg_finish (read_chunk d r')"
      using Cons.prems by (simp_all add: read_chunk_fields same_counts_def split: option.split)
    from Cons.IH[OF this] show ?thesis using Delivered d(1) by (simp add: chunks_of_def map_filter_simps)
  qed
qed (simp add: chunks_of_def map_filter_simps)

text \<open>Progress lines reveal no generated text. Two streams that deliver texts of the same lengths at the same moments,
  with the same token counts and reasons of the end, are reported with the same lines, whatever the texts are and
  whatever the error is that ends them.
\<close>

theorem progress_reveals_no_text:
  assumes "list_all2 same_event (sd_events a) (sd_events b)" "sd_start a = sd_start b" "sd_end a = sd_end b"
    "(sd_failure a = None) = (sd_failure b = None)"
  shows "request_lines e k a (read_chunks (chunks_of (sd_events a))) =
    request_lines e k b (read_chunks (chunks_of (sd_events b)))"
proof -
  let ?r0 = "\<lparr>rg_text = [], rg_usage = [], rg_finish = PNone\<rparr>"
  have "rg_usage (read_chunks (chunks_of (sd_events a))) = rg_usage (read_chunks (chunks_of (sd_events b)))"
    "rg_finish (read_chunks (chunks_of (sd_events a))) = rg_finish (read_chunks (chunks_of (sd_events b)))"
    using read_same[OF assms(1), of ?r0 ?r0] by (simp_all add: read_chunks_def)
  then show ?thesis
    using assms(2-4) watch_same[OF assms(1)] by (simp add: request_lines_def Let_def split: prod.split)
qed

lemma watch_adds_up:
  "watch e k evs p = (ls, p') \<Longrightarrow>
   sum_list (map pl_since_tokens ls) = int (pg_marked_tokens p') - int (pg_marked_tokens p) \<and>
   est_tokens p' = est_tokens p + sum_list (map (\<lambda>c. length (content_counts c) + length (reasoning_counts c)) (chunks_of evs)) \<and>
   pg_chunks p' = pg_chunks p + length (chunks_of evs)"
proof (induction e k evs p arbitrary: ls rule: watch.induct)
  case (2 e k c now evs p)
  have "est_tokens (observe c now p) = est_tokens p + length (content_counts c) + length (reasoning_counts c)"
    "pg_marked_tokens (observe c now p) = pg_marked_tokens p" "pg_chunks (observe c now p) = pg_chunks p + 1"
    by (auto simp: observe_def est_tokens_def usage_counts_def Let_def split: option.split)
  then show ?case using 2 by (auto simp: chunks_of_def map_filter_simps)
next
  case (3 e k now evs p)
  then show ?case
    by (auto simp: report_line_def chunks_of_def map_filter_simps est_tokens_def split: prod.splits)
qed (auto simp: chunks_of_def map_filter_simps)

text \<open>The lines of a request add up. Whenever the heartbeat fired, the tokens that the lines report as new since the line
  before sum up to the total of the last line, which counts every delta that was delivered, and the last line counts
  every chunk.
\<close>

theorem progress_adds_up:
  "sum_list (map pl_since_tokens (request_lines e k sd r)) = int (pl_tokens (last (request_lines e k sd r))) \<and>
   pl_tokens (last (request_lines e k sd r)) =
     sum_list (map (\<lambda>c. length (content_counts c) + length (reasoning_counts c)) (chunks_of (sd_events sd))) \<and>
   pl_chunks (last (request_lines e k sd r)) = length (chunks_of (sd_events sd))"
proof -
  let ?p0 = "snd (report_line e k ''started'' (sd_start sd) None (new_progress (sd_start sd)))"
  obtain ls p1 where w: "watch e k (sd_events sd) ?p0 = (ls, p1)" by fastforce
  have p0: "est_tokens ?p0 = 0" "pg_marked_tokens ?p0 = 0" "pg_chunks ?p0 = 0"
    by (simp_all add: report_line_def est_tokens_def new_progress_def)
  let ?p2 = "if rg_usage r = [] then p1 else usage_counts (rg_usage r) p1"
  have p2: "est_tokens ?p2 = est_tokens p1" "pg_marked_tokens ?p2 = pg_marked_tokens p1" "pg_chunks ?p2 = pg_chunks p1"
    by (simp_all add: usage_counts_def est_tokens_def)
  obtain l0 lN where lines: "request_lines e k sd r = l0 # ls @ [lN]" and
    ends: "l0 = fst (report_line e k ''started'' (sd_start sd) None (new_progress (sd_start sd)))"
      "lN = fst (report_line e k (if sd_failure sd = None then ''complete'' else ''error'') (sd_end sd)
         (Some (finish_text (rg_finish r))) ?p2)"
    using w by (simp add: request_lines_def Let_def case_prod_unfold)
  have "pl_since_tokens l0 = 0" by (simp add: ends report_line_def est_tokens_def new_progress_def)
  moreover have "pl_since_tokens lN = int (est_tokens p1) - int (pg_marked_tokens p1)"
    "pl_tokens lN = est_tokens p1" "pl_chunks lN = pg_chunks p1"
    unfolding ends(2) report_line_def using p2 by simp_all
  ultimately show ?thesis using watch_adds_up[OF w] p0 by (simp add: lines)
qed

subsection \<open>A fence around the answer\<close>

lemma before_last_short: "length s < length v \<Longrightarrow> before_last v s = None"
  by (induction s) (auto simp: starts_with_def)

lemma before_last_here: "v \<noteq> [] \<Longrightarrow> before_last v (a @ v) = Some a"
proof (induction a)
  case Nil
  then show ?case by (cases v) (auto simp: before_last_short starts_with_def)
qed simp

lemma dropWhile_kept: "s \<noteq> [] \<Longrightarrow> \<not> Q (hd s) \<Longrightarrow> dropWhile Q s = s"
  by (cases s) auto

lemma strip_fixed: "s \<noteq> [] \<Longrightarrow> \<not> is_space (hd s) \<Longrightarrow> \<not> is_space (last s) \<Longrightarrow> strip s = s"
  by (simp add: strip_def dropWhile_kept hd_rev)

lemma stripped_hd: "strip t = t \<Longrightarrow> t \<noteq> [] \<Longrightarrow> \<not> is_space (hd t)"
proof
  assume t: "strip t = t" "t \<noteq> []" "is_space (hd t)"
  have "length (strip t) \<le> length (dropWhile is_space t)"
    by (metis length_dropWhile_le length_rev strip_def)
  moreover have "length (dropWhile is_space t) < length t"
    using t(2,3) by (cases t) (auto simp: less_Suc_eq_le length_dropWhile_le)
  ultimately show False using t(1) by simp
qed

lemma strip_newline: "strip t = t \<Longrightarrow> t \<noteq> [] \<Longrightarrow> strip (t @ [CHR 0x0A]) = t"
  using stripped_hd[of t] by (cases t) (auto simp: strip_def is_space_def)

text \<open>C37: An answer that the model wraps in a Markdown fence, with or without the language tag, is read as the document
  itself.
\<close>

theorem fenced_answer_read:
  assumes "strip t = t" "t \<noteq> []" "\<not> starts_with FENCE t" "\<not> starts_with ''json'' t" "tag \<in> {[], ''json''}"
  shows "parse_json loads (FENCE @ tag @ [CHR 0x0A] @ t @ [CHR 0x0A] @ FENCE) = parse_json loads t"
proof -
  let ?s = "FENCE @ tag @ [CHR 0x0A] @ t @ [CHR 0x0A] @ FENCE"
  have "strip ?s = ?s" by (rule strip_fixed) (auto simp: FENCE_def is_space_def)
  moreover have "after_newline ?s = (t @ [CHR 0x0A]) @ FENCE"
    using assms(5) by (auto simp: after_newline_def FENCE_def)
  moreover have "before_last FENCE ((t @ [CHR 0x0A]) @ FENCE) = Some (t @ [CHR 0x0A])"
    by (rule before_last_here) (simp add: FENCE_def)
  moreover have "starts_with FENCE ?s" by (simp add: starts_with_def)
  ultimately have "unfenced ?s = t"
    unfolding unfenced_def Let_def using assms(1,2,4) strip_newline[OF assms(1,2)] by (simp only: if_True if_False option.case)
  moreover have "unfenced t = t" using assms by (simp add: unfenced_def)
  ultimately show ?thesis by (simp add: parse_json_def)
qed

subsection \<open>Concrete calls\<close>

definition demo_endpoint :: "string \<Rightarrow> endpoint" where
  "demo_endpoint name = endpoint_of [(''name'', PStr name), (''model'', PStr ''m''), (''api_key_env'', PStr ''K'')]"

definition demo_chunk :: "string \<Rightarrow> chunk" where
  "demo_chunk s =
     \<lparr>ck_choices = [\<lparr>ci_finish = PStr ''stop'',
        ci_delta = Some \<lparr>de_content = PStr s, de_reasoning_content = PNone, de_reasoning = PNone\<rparr>\<rparr>], ck_usage = None\<rparr>"

definition demo_streamed :: "string \<Rightarrow> exc option \<Rightarrow> streamed" where
  "demo_streamed s x = \<lparr>sd_events = [Delivered (demo_chunk s) 1, Quiet 2], sd_failure = x, sd_start = 0, sd_end = 3\<rparr>"

text \<open>The first request breaks off, the second is not JSON, the third serves.\<close>

definition demo_relay :: relay_world where
  "demo_relay =
     \<lparr>rw_env = (\<lambda>_. Some ''k''), rw_load = (\<lambda>_. Inl (Unreadable [])), rw_key_exc = (\<lambda>_. ([], [])),
      rw_stream = (\<lambda>n e key p mt t. if n = 0 then demo_streamed ''x'' (Some (''APIError'', ''cut'')) else demo_streamed (if n = 1 then ''x'' else ''1'') None),
      rw_clock = (\<lambda>_. 0), rw_seconds = (\<lambda>_. 3), rw_loads = (\<lambda>s. if s = ''1'' then Inr (PInt 1) else Inl ''bad''),
      rw_float = (\<lambda>_. None)\<rparr>"

definition demo_params :: call_params where
  "demo_params = \<lparr>cp_prompt = ''p'', cp_tokens = 100, cp_timeout = 10, cp_backoff = 30, cp_reports = True\<rparr>"

definition demo_endpoints :: "endpoint list" where
  "demo_endpoints = [demo_endpoint ''a'', demo_endpoint ''b'']"

lemma demo_call:
  "call_setup demo_relay [] ''review'' demo_endpoints 2 demo_params = Inr (demo_params, demo_endpoints, 2)"
  "map_sum id (\<lambda>(v, res). (v, cr_endpoint res, cr_attempt res, length (cr_earlier res)))
     (snd (call_json demo_relay [] ''review'' demo_endpoints 2 demo_params)) = Inr (PInt 1, PStr ''b'', 1, 2)"
  by code_simp+

theorem call_json_outcome_witness:
  "(case call_json demo_relay [] ''review'' demo_endpoints 2 demo_params of (s, r) \<Rightarrow>
      outcome_ok demo_relay demo_params (plan_of demo_endpoints 2) s r \<and> rs_calls s \<le> length demo_endpoints * 2)"
  by (rule call_json_outcome[OF demo_call(1)]) (simp add: demo_params_def)

theorem progress_reveals_no_text_witness:
  "request_lines (demo_endpoint ''a'') 1 (demo_streamed ''secret'' None) (read_chunks (chunks_of (sd_events (demo_streamed ''secret'' None)))) =
   request_lines (demo_endpoint ''a'') 1 (demo_streamed ''public'' None) (read_chunks (chunks_of (sd_events (demo_streamed ''public'' None))))"
proof (rule progress_reveals_no_text)
  have "content_counts (demo_chunk ''secret'') = content_counts (demo_chunk ''public'')"
    "reasoning_counts (demo_chunk ''secret'') = reasoning_counts (demo_chunk ''public'')" by code_simp+
  then show "list_all2 same_event (sd_events (demo_streamed ''secret'' None)) (sd_events (demo_streamed ''public'' None))"
    by (simp add: demo_streamed_def same_counts_def) (simp add: demo_chunk_def)
qed (simp_all add: demo_streamed_def)

theorem fenced_answer_read_witness:
  "parse_json (\<lambda>s. if s = ''{}'' then Inr (PDict []) else Inl []) (FENCE @ ''json'' @ [CHR 0x0A] @ ''{}'' @ [CHR 0x0A] @ FENCE) = Inr (PDict [])"
proof -
  have "strip ''{}'' = ''{}''" "\<not> starts_with FENCE ''{}''" "\<not> starts_with ''json'' ''{}''" by code_simp+
  then show ?thesis
    using fenced_answer_read[of "''{}''" "''json''" "\<lambda>s. if s = ''{}'' then Inr (PDict []) else Inl []"]
    by (simp add: parse_json_def unfenced_def)
qed

text \<open>A refused request ends the call although another endpoint is left.\<close>

lemma demo_refused:
  "snd (call_json (demo_relay\<lparr>rw_stream := (\<lambda>n e key p mt t. demo_streamed [] (Some (''E'', ''High Risk'')))\<rparr>) [] ''review''
     demo_endpoints 2 demo_params) = Inl (Refused ''a: High Risk'')"
  by code_simp

end
