(* ===== verification/Adjudication.thy ===== *)
theory Adjudication
  imports Bundle "HOL-Library.Multiset"
begin

text \<open>
  The materiality gate over a review: \<^verbatim>\<open>src/src/memline/wiki/adjudication.py\<close> and the canonical encoding of
  \<^verbatim>\<open>wiki/artifacts.py\<close>. A report is the JSON object a model answered with, so that nothing about its shape is given: an
  operation that raises on an odd shape ends in \<open>Inl\<close>. The hash function of texts is the argument \<open>h\<close>.
\<close>

subsection \<open>JSON values as Python compares and iterates them\<close>

datatype wiki_error = TypeErr | AttributeErr | ValueErr

fun number_of :: "pyval \<Rightarrow> rat option" where
  "number_of (PBool b) = Some (if b then 1 else 0)"
| "number_of (PInt i) = Some (of_int i)"
| "number_of (PFloat r s) = Some r"
| "number_of v = None"

lemma size_dict_member: "kv \<in> set d \<Longrightarrow> size (snd kv) < size (PDict d)"
  by (induction d) auto

text \<open>\<^verbatim>\<open>==\<close>: numbers by value, objects whatever the order of their keys.\<close>

function py_eq :: "pyval \<Rightarrow> pyval \<Rightarrow> bool" where
  "py_eq PNone w = (w = PNone)"
| "py_eq (PStr s) w = (w = PStr s)"
| "py_eq (PList vs) w = (case w of PList ws \<Rightarrow> length vs = length ws \<and> list_all (\<lambda>(v, w). py_eq v w) (zip vs ws) | _ \<Rightarrow> False)"
| "py_eq (PDict d) w =
     (case w of
        PDict e \<Rightarrow> length d = length e \<and>
          list_all (\<lambda>kv. case map_of e (fst kv) of None \<Rightarrow> False | Some v \<Rightarrow> py_eq (snd kv) v) d
      | _ \<Rightarrow> False)"
| "py_eq (PBool b) w = (number_of (PBool b) = number_of w)"
| "py_eq (PInt i) w = (number_of (PInt i) = number_of w)"
| "py_eq (PFloat r s) w = (number_of (PFloat r s) = number_of w)"
  by pat_completeness auto
termination
  by (relation "measure (\<lambda>(v, w). size v)")
     (auto simp: less_Suc_eq_le intro: size_list_estimation' dest: set_zip_leftD size_dict_member)

text \<open>\<^verbatim>\<open>v in s\<close> for a set of texts; a list or an object cannot be hashed.\<close>

definition hash_in :: "pyval \<Rightarrow> string set \<Rightarrow> wiki_error + bool" where
  "hash_in v S = (case v of PList _ \<Rightarrow> Inl TypeErr | PDict _ \<Rightarrow> Inl TypeErr | PStr s \<Rightarrow> Inr (s \<in> S) | _ \<Rightarrow> Inr False)"

text \<open>\<^verbatim>\<open>for x in v or []\<close>.\<close>

definition items_or_none :: "pyval \<Rightarrow> wiki_error + pyval list" where
  "items_or_none v =
     (if \<not> truthy v then Inr []
      else case v of
        PList vs \<Rightarrow> Inr vs
      | PStr s \<Rightarrow> Inr (map PStr (utf8_chars s))
      | PDict d \<Rightarrow> Inr (map (\<lambda>kv. PStr (fst kv)) d)
      | _ \<Rightarrow> Inl TypeErr)"

text \<open>\<^verbatim>\<open>(v or {}).get(...)\<close>.\<close>

definition dict_or_none :: "pyval \<Rightarrow> wiki_error + args" where
  "dict_or_none v = (if \<not> truthy v then Inr [] else case v of PDict d \<Rightarrow> Inr d | _ \<Rightarrow> Inl AttributeErr)"

definition dicts_of :: "pyval list \<Rightarrow> args list" where
  "dicts_of vs = List.map_filter (\<lambda>v. case v of PDict d \<Rightarrow> Some d | _ \<Rightarrow> None) vs"

fun collect_results :: "('e + 'a) list \<Rightarrow> 'e + 'a list" where
  "collect_results [] = Inr []"
| "collect_results (r # rs) = and_then r (\<lambda>x. and_then (collect_results rs) (\<lambda>xs. Inr (x # xs)))"

definition blank_text :: "pyval \<Rightarrow> bool" where
  "blank_text v = (case v of PStr s \<Rightarrow> strip s = [] | _ \<Rightarrow> True)"

subsection \<open>Canonical encoding\<close>

definition json_char :: "char \<Rightarrow> string" where
  "json_char c =
     (if c = CHR 0x22 then [CHR 0x5C, CHR 0x22]
      else if c = CHR 0x5C then [CHR 0x5C, CHR 0x5C]
      else if c = CHR 0x0A then [CHR 0x5C, CHR ''n'']
      else if c = CHR 0x0D then [CHR 0x5C, CHR ''r'']
      else if c = CHR 0x09 then [CHR 0x5C, CHR ''t'']
      else if c = CHR 0x08 then [CHR 0x5C, CHR ''b'']
      else if c = CHR 0x0C then [CHR 0x5C, CHR ''f'']
      else if of_char c < (32 :: nat) then [CHR 0x5C] @ ''u00'' @ [hex_digit (of_char c div 16), hex_digit (of_char c mod 16)]
      else [c])"

definition json_string :: "string \<Rightarrow> string" where
  "json_string s = CHR 0x22 # concat (map json_char s) @ [CHR 0x22]"

text \<open>The items of an object are encoded and then sorted by key.\<close>

fun canonical_json :: "pyval \<Rightarrow> string" where
  "canonical_json PNone = ''null''"
| "canonical_json (PBool b) = (if b then ''true'' else ''false'')"
| "canonical_json (PInt i) = show_int i"
| "canonical_json (PFloat r s) = s"
| "canonical_json (PStr s) = json_string s"
| "canonical_json (PList vs) = ''['' @ join '','' (map canonical_json vs) @ '']''"
| "canonical_json (PDict d) =
     ''{'' @ join '','' (map (\<lambda>(k, t). json_string k @ '':'' @ t) (sort_key fst (map (\<lambda>(k, v). (k, canonical_json v)) d))) @ ''}''"

definition artifact_sha256 :: "(string \<Rightarrow> string) \<Rightarrow> pyval \<Rightarrow> string" where
  "artifact_sha256 h v = h (canonical_json v)"

definition content_hash :: "(string \<Rightarrow> string) \<Rightarrow> args \<Rightarrow> string \<Rightarrow> string" where
  "content_hash h d excluded_field = artifact_sha256 h (PDict (apop excluded_field d))"

subsection \<open>Findings\<close>

definition SCHEMA_VERSION :: int where
  "SCHEMA_VERSION = 1"

definition DECISIONS :: "string set" where
  "DECISIONS = {''blocking'', ''non_blocking''}"

definition BLOCKING_CATEGORIES :: "string set" where
  "BLOCKING_CATEGORIES = {''factual_contradiction'', ''superseded_current_claim'', ''core_claim_unverifiable'',
     ''decision_changing_omission'', ''severe_causal_overclaim'', ''safety_privacy_or_scope''}"

definition NON_BLOCKING_CATEGORIES :: "string set" where
  "NON_BLOCKING_CATEGORIES = {''non_material''}"

definition MATERIALITY_TEST :: string where
  "MATERIALITY_TEST = ''If the reader did not know this finding, could they believe an invalid '' @
     ''result, misunderstand the current state, or make a different engineering decision?''"

definition review_report_sha256 :: "(string \<Rightarrow> string) \<Rightarrow> args \<Rightarrow> string" where
  "review_report_sha256 h report = artifact_sha256 h (PDict report)"

definition merged_claim_finding :: "pyval \<Rightarrow> args \<Rightarrow> args" where
  "merged_claim_finding claim_id item =
     [(''finding_id'', PStr (''claim:'' @ py_str claim_id @ '':pass:'' @ py_str (aget item ''pass''))),
      (''source'', PStr ''claim''), (''pass'', aget item ''pass''), (''claim_id'', claim_id),
      (''reviewer_verdict'', aget item ''verdict''), (''confidence'', aget item ''confidence''),
      (''finding'', aget item ''reason''), (''evidence_refs'', por (aget item ''evidence_refs'') (PList [])),
      (''suggested_rewrite'', por (aget item ''suggested_rewrite'') (PStr []))]"

definition claim_finding :: "args \<Rightarrow> args" where
  "claim_finding claim =
     [(''finding_id'', PStr (''claim:'' @ py_str (aget claim ''claim_id''))), (''source'', PStr ''claim''),
      (''claim_id'', aget claim ''claim_id''), (''reviewer_verdict'', aget claim ''verdict''),
      (''confidence'', aget claim ''confidence''), (''finding'', aget claim ''reason''),
      (''evidence_refs'', por (aget claim ''evidence_refs'') (PList [])),
      (''suggested_rewrite'', por (aget claim ''suggested_rewrite'') (PStr []))]"

definition claim_findings :: "bool \<Rightarrow> args \<Rightarrow> wiki_error + args list" where
  "claim_findings merged claim =
     (if merged then
        and_then (items_or_none (aget claim ''findings''))
          (\<lambda>items. Inr (map (merged_claim_finding (aget claim ''claim_id'')) (dicts_of items)))
      else if aget claim ''verdict'' \<noteq> PStr ''supported'' then Inr [claim_finding claim]
      else Inr [])"

definition omission_finding :: "bool \<Rightarrow> nat \<Rightarrow> args \<Rightarrow> args" where
  "omission_finding merged index item =
     [(''finding_id'', PStr (if merged then ''omission:pass:'' @ py_str (aget item ''pass'') @ '':item:'' @ show_nat index
                             else ''omission:item:'' @ show_nat index)),
      (''source'', PStr ''omission'')] @
     (if merged then [(''pass'', aget item ''pass'')] else []) @
     [(''reviewer_severity'', aget item ''severity''), (''reviewer_kind'', aget item ''kind''),
      (''finding'', aget item ''finding''), (''evidence_refs'', por (aget item ''evidence_refs'') (PList [])),
      (''article_quotes'', por (aget item ''article_quotes'') (PList [])),
      (''article_location'', por (aget item ''article_location'') (PStr []))]"

text \<open>The index of an omission counts the entries that are no objects too.\<close>

definition omission_findings :: "bool \<Rightarrow> pyval list \<Rightarrow> args list" where
  "omission_findings merged items =
     List.map_filter (\<lambda>(index, v). case v of PDict item \<Rightarrow> Some (omission_finding merged index item) | _ \<Rightarrow> None)
       (zip [1..<length items + 1] items)"

definition scope_finding :: "string \<Rightarrow> (string \<times> pyval) list \<Rightarrow> pyval \<Rightarrow> pyval \<Rightarrow> args" where
  "scope_finding fid extra verdict reason =
     [(''finding_id'', PStr fid), (''source'', PStr ''scope'')] @ extra @
     [(''reviewer_verdict'', verdict), (''finding'', reason), (''evidence_refs'', PList [])]"

definition merged_scope_findings :: "args \<Rightarrow> wiki_error + args list" where
  "merged_scope_findings report =
     (case aget report ''scope_reviews'' of
        PList vs \<Rightarrow>
          Inr (map (\<lambda>item. scope_finding (''scope:pass:'' @ py_str (aget item ''pass'')) [(''pass'', aget item ''pass'')]
                 (aget item ''verdict'') (aget item ''reason''))
                 (filter (\<lambda>item. aget item ''verdict'' \<noteq> PStr ''in_scope'') (dicts_of vs)))
      | _ \<Rightarrow>
          and_then (dict_or_none (aget report ''validation'')) (\<lambda>v.
            if aget v ''scope_clean'' \<noteq> PBool True
            then Inr [scope_finding ''scope:legacy-aggregate'' [] (PStr ''legacy_non_clean'')
                        (PStr ''A legacy merged review recorded a non-clean scope result.'')]
            else Inr []))"

definition single_scope_findings :: "args \<Rightarrow> args list" where
  "single_scope_findings report =
     (case aget report ''scope_review'' of
        PDict s \<Rightarrow> if aget s ''verdict'' \<noteq> PStr ''in_scope''
                  then [scope_finding ''scope'' [] (aget s ''verdict'') (aget s ''reason'')] else []
      | _ \<Rightarrow> [])"

definition collect_review_findings :: "args \<Rightarrow> wiki_error + args list" where
  "collect_review_findings report =
     (let merged = stated report ''passes'' in
      and_then (items_or_none (aget report ''claim_reviews'')) (\<lambda>claims.
      and_then (collect_results (map (claim_findings merged) (dicts_of claims))) (\<lambda>found.
      and_then (items_or_none (aget report ''omission_reviews'')) (\<lambda>omissions.
      and_then (if merged then merged_scope_findings report else Inr (single_scope_findings report)) (\<lambda>scope.
        Inr (concat found @ omission_findings merged omissions @ scope))))))"

definition finding_id :: "args \<Rightarrow> string" where
  "finding_id f = py_str (aget f ''finding_id'')"

text \<open>The pending template.\<close>

definition build_adjudication :: "(string \<Rightarrow> string) \<Rightarrow> args \<Rightarrow> wiki_error + args" where
  "build_adjudication h report =
     and_then (collect_review_findings report) (\<lambda>findings. Inr
       [(''schema_version'', PInt SCHEMA_VERSION), (''article_sha256'', aget report ''article_sha256''),
        (''review_bundle_sha256'', aget report ''review_bundle_sha256''),
        (''review_report_sha256'', PStr (review_report_sha256 h report)), (''materiality_test'', PStr MATERIALITY_TEST),
        (''allowed_categories'', PDict
           [(''blocking'', PList (map PStr (sort [''factual_contradiction'', ''superseded_current_claim'',
               ''core_claim_unverifiable'', ''decision_changing_omission'', ''severe_causal_overclaim'',
               ''safety_privacy_or_scope'']))),
            (''non_blocking'', PList [PStr ''non_material''])]),
        (''findings'', PList (map (\<lambda>f. PDict (f @ [(''decision'', PNone), (''category'', PNone), (''reason'', PStr [])]))
           findings))])"

subsection \<open>The gate\<close>

datatype adjudication_error =
    AdjudicationMissing | SchemaInvalid | HashMismatch string | FindingsMissing
  | FindingNotObject nat | FindingIdInvalid nat | FindingDuplicate string | FindingUnknown string
  | DecisionInvalid string | ReasonMissing string | CategoryInvalid string string | FindingsIncomplete "string list"

record adjudication_check =
  ac_findings :: "adjudication_error list"
  ac_valid :: bool
  ac_required :: bool
  ac_total :: nat
  ac_adjudicated :: nat
  ac_blocking :: nat
  ac_non_blocking :: nat
  ac_clean :: bool

record tally =
  ta_errors :: "adjudication_error list"
  ta_seen :: "string set"
  ta_blocking :: nat
  ta_non_blocking :: nat
  ta_adjudicated :: nat

definition complain :: "adjudication_error \<Rightarrow> tally \<Rightarrow> tally" where
  "complain e t = t\<lparr>ta_errors := ta_errors t @ [e]\<rparr>"

text \<open>One ruling whose id is known: decision, reason and category in this order.\<close>

definition judge_ruling :: "string \<Rightarrow> args \<Rightarrow> tally \<Rightarrow> wiki_error + tally" where
  "judge_ruling fid item t =
     and_then (hash_in (aget item ''decision'') DECISIONS) (\<lambda>known.
       if \<not> known then Inr (complain (DecisionInvalid fid) t)
       else if blank_text (aget item ''reason'') then Inr (complain (ReasonMissing fid) t)
       else let blocking = (aget item ''decision'' = PStr ''blocking'') in
         and_then (hash_in (aget item ''category'') (if blocking then BLOCKING_CATEGORIES else NON_BLOCKING_CATEGORIES))
           (\<lambda>fits.
             if \<not> fits then Inr (complain (CategoryInvalid fid (py_str (aget item ''decision''))) t)
             else Inr (t\<lparr>ta_adjudicated := ta_adjudicated t + 1,
                         ta_blocking := ta_blocking t + (if blocking then 1 else 0),
                         ta_non_blocking := ta_non_blocking t + (if blocking then 0 else 1)\<rparr>)))"

definition tally_item :: "string set \<Rightarrow> nat \<Rightarrow> pyval \<Rightarrow> tally \<Rightarrow> wiki_error + tally" where
  "tally_item expected index v t =
     (case v of
        PDict item \<Rightarrow>
          (case aget item ''finding_id'' of
             PStr fid \<Rightarrow>
               let t1 = (if fid \<in> ta_seen t then complain (FindingDuplicate fid) t else t);
                   t2 = t1\<lparr>ta_seen := insert fid (ta_seen t1)\<rparr>
               in if fid \<notin> expected then Inr (complain (FindingUnknown fid) t2) else judge_ruling fid item t2
           | _ \<Rightarrow> Inr (complain (FindingIdInvalid index) t))
      | _ \<Rightarrow> Inr (complain (FindingNotObject index) t))"

fun tally_items :: "string set \<Rightarrow> nat \<Rightarrow> pyval list \<Rightarrow> tally \<Rightarrow> wiki_error + tally" where
  "tally_items expected index [] t = Inr t"
| "tally_items expected index (v # vs) t = and_then (tally_item expected index v t) (tally_items expected (index + 1) vs)"

definition header_errors :: "(string \<Rightarrow> string) \<Rightarrow> args \<Rightarrow> args \<Rightarrow> adjudication_error list" where
  "header_errors h adj report =
     (if py_eq (aget adj ''schema_version'') (PInt SCHEMA_VERSION) then [] else [SchemaInvalid]) @
     map HashMismatch (filter (\<lambda>field. \<not> py_eq (aget adj field) (aget report field)) [''article_sha256'', ''review_bundle_sha256'']) @
     (if aget adj ''review_report_sha256'' = PStr (review_report_sha256 h report) then []
      else [HashMismatch ''review_report_sha256''])"

definition ruled_items :: "args \<Rightarrow> pyval list" where
  "ruled_items adj = (case aget adj ''findings'' of PList vs \<Rightarrow> vs | _ \<Rightarrow> [])"

definition validate_adjudication ::
  "(string \<Rightarrow> string) \<Rightarrow> args option \<Rightarrow> args \<Rightarrow> wiki_error + adjudication_check" where
  "validate_adjudication h adjudication report =
     and_then (collect_review_findings report) (\<lambda>findings.
       let expected = dedup (map finding_id findings) in
       case adjudication of
         None \<Rightarrow>
           let errors = (if expected = [] then [] else [AdjudicationMissing])
           in Inr \<lparr>ac_findings = errors, ac_valid = (errors = []), ac_required = (expected \<noteq> []),
                   ac_total = length expected, ac_adjudicated = 0, ac_blocking = 0, ac_non_blocking = 0,
                   ac_clean = (errors = [])\<rparr>
       | Some adj \<Rightarrow>
           let errors0 = header_errors h adj report @
                 (case aget adj ''findings'' of PList _ \<Rightarrow> [] | _ \<Rightarrow> [FindingsMissing])
           in and_then (tally_items (set expected) 0 (ruled_items adj)
                 \<lparr>ta_errors = errors0, ta_seen = {}, ta_blocking = 0, ta_non_blocking = 0, ta_adjudicated = 0\<rparr>) (\<lambda>t.
             let missing = sort (filter (\<lambda>fid. fid \<notin> ta_seen t) expected);
                 errors = ta_errors t @ (if missing = [] then [] else [FindingsIncomplete missing])
             in Inr \<lparr>ac_findings = errors, ac_valid = (errors = []), ac_required = (expected \<noteq> []),
                     ac_total = length expected, ac_adjudicated = ta_adjudicated t, ac_blocking = ta_blocking t,
                     ac_non_blocking = ta_non_blocking t, ac_clean = (errors = [] \<and> ta_blocking t = 0)\<rparr>))"

subsection \<open>When the gate opens\<close>

definition blocks :: "args \<Rightarrow> bool" where
  "blocks item \<longleftrightarrow> aget item ''decision'' = PStr ''blocking''"

text \<open>A complete ruling.\<close>

definition ruling_ok :: "args \<Rightarrow> bool" where
  "ruling_ok item \<longleftrightarrow>
     (\<exists>d \<in> DECISIONS. aget item ''decision'' = PStr d) \<and> \<not> blank_text (aget item ''reason'') \<and>
     (\<exists>c \<in> (if blocks item then BLOCKING_CATEGORIES else NON_BLOCKING_CATEGORIES). aget item ''category'' = PStr c)"

lemma hash_in_Inr_True: "hash_in v S = Inr True \<longleftrightarrow> (\<exists>s \<in> S. v = PStr s)"
  by (auto simp: hash_in_def split: pyval.splits)

definition counted :: "args \<Rightarrow> string \<Rightarrow> tally \<Rightarrow> tally" where
  "counted item fid t = t\<lparr>ta_seen := insert fid (ta_seen t), ta_adjudicated := ta_adjudicated t + 1,
     ta_blocking := ta_blocking t + (if blocks item then 1 else 0),
     ta_non_blocking := ta_non_blocking t + (if blocks item then 0 else 1)\<rparr>"

lemma complained [simp]: "ta_errors (complain e t) \<noteq> []"
  by (simp add: complain_def)

lemma judge_ruling_quiet:
  "judge_ruling fid item t = Inr t' \<and> ta_errors t' = [] \<longleftrightarrow>
   ta_errors t = [] \<and> ruling_ok item \<and>
   t' = t\<lparr>ta_adjudicated := ta_adjudicated t + 1, ta_blocking := ta_blocking t + (if blocks item then 1 else 0),
          ta_non_blocking := ta_non_blocking t + (if blocks item then 0 else 1)\<rparr>"
proof -
  let ?C = "if blocks item then BLOCKING_CATEGORIES else NON_BLOCKING_CATEGORIES"
  consider e where "hash_in (aget item ''decision'') DECISIONS = Inl e" | "hash_in (aget item ''decision'') DECISIONS = Inr False"
    | "hash_in (aget item ''decision'') DECISIONS = Inr True" by (cases "hash_in (aget item ''decision'') DECISIONS") auto
  note d = this
  consider e where "hash_in (aget item ''category'') ?C = Inl e" | "hash_in (aget item ''category'') ?C = Inr False"
    | "hash_in (aget item ''category'') ?C = Inr True" by (cases "hash_in (aget item ''category'') ?C") auto
  note c = this
  have "ruling_ok item \<longleftrightarrow> hash_in (aget item ''decision'') DECISIONS = Inr True \<and> \<not> blank_text (aget item ''reason'') \<and>
      hash_in (aget item ''category'') ?C = Inr True"
    by (simp add: ruling_ok_def hash_in_Inr_True)
  then show ?thesis
    by (cases rule: d; cases rule: c; cases "blank_text (aget item ''reason'')")
       (auto simp: judge_ruling_def Let_def blocks_def)
qed

lemma tally_item_quiet:
  "tally_item E i v t = Inr t' \<and> ta_errors t' = [] \<longleftrightarrow>
   (\<exists>item fid. v = PDict item \<and> aget item ''finding_id'' = PStr fid \<and> ta_errors t = [] \<and> fid \<notin> ta_seen t \<and> fid \<in> E \<and>
      ruling_ok item \<and> t' = counted item fid t)"
proof (cases "\<exists>item fid. v = PDict item \<and> aget item ''finding_id'' = PStr fid")
  case True
  then obtain item fid where v: "v = PDict item" "aget item ''finding_id'' = PStr fid" by blast
  let ?t = "(if fid \<in> ta_seen t then complain (FindingDuplicate fid) t else t)"
  have t: "ta_errors ?t = [] \<longleftrightarrow> ta_errors t = [] \<and> fid \<notin> ta_seen t" by (auto simp: complain_def)
  show ?thesis
  proof (cases "fid \<in> E")
    case True
    then show ?thesis
      using v t judge_ruling_quiet[of fid item "?t\<lparr>ta_seen := insert fid (ta_seen ?t)\<rparr>" t']
      by (auto simp: tally_item_def Let_def counted_def)
  next
    case False
    then have "tally_item E i v t = Inr (complain (FindingUnknown fid) (?t\<lparr>ta_seen := insert fid (ta_seen ?t)\<rparr>))"
      by (simp add: tally_item_def v Let_def)
    then show ?thesis using False v complained by (metis pyval.inject(4) pyval.inject(6) sum.inject(2))
  qed
next
  case False
  then show ?thesis by (auto simp: tally_item_def split: pyval.splits)
qed

definition ruling_id :: "args \<Rightarrow> string \<Rightarrow> bool" where
  "ruling_id item fid \<longleftrightarrow> aget item ''finding_id'' = PStr fid"

definition tallied :: "args list \<Rightarrow> string list \<Rightarrow> tally \<Rightarrow> tally" where
  "tallied items ids t = t\<lparr>ta_seen := set ids \<union> ta_seen t, ta_adjudicated := ta_adjudicated t + length items,
     ta_blocking := ta_blocking t + length (filter blocks items),
     ta_non_blocking := ta_non_blocking t + length (filter (\<lambda>i. \<not> blocks i) items)\<rparr>"

lemma tallied_simps:
  "tallied [] [] t = t" "tallied (item # items) (fid # ids) t = tallied items ids (counted item fid t)"
  by (simp_all add: tallied_def counted_def)

lemma counted_fields: "ta_errors (counted item fid t) = ta_errors t" "ta_seen (counted item fid t) = insert fid (ta_seen t)"
  by (simp_all add: counted_def)

text \<open>The rulings that leave no error: ids from \<open>E\<close>, each once, each with a complete ruling.\<close>

definition accepted :: "string set \<Rightarrow> string set \<Rightarrow> args list \<Rightarrow> string list \<Rightarrow> bool" where
  "accepted E seen items ids \<longleftrightarrow> list_all2 ruling_id items ids \<and> distinct ids \<and> set ids \<inter> seen = {} \<and> set ids \<subseteq> E \<and>
     list_all ruling_ok items"

lemma accepted_Cons:
  "accepted E seen (item # items) (fid # ids) \<longleftrightarrow>
   ruling_id item fid \<and> fid \<notin> seen \<and> fid \<in> E \<and> ruling_ok item \<and> accepted E (insert fid seen) items ids"
  by (auto simp: accepted_def)

lemma accepted_Nil: "accepted E seen [] ids \<longleftrightarrow> ids = []"
  by (auto simp: accepted_def)

lemma accepted_ids: "accepted E seen (item # items) ids \<Longrightarrow> \<exists>fid rest. ids = fid # rest"
  by (cases ids) (auto simp: accepted_def)

lemma tally_items_quiet:
  "tally_items E i vs t = Inr t' \<and> ta_errors t' = [] \<longleftrightarrow>
   (\<exists>items ids. vs = map PDict items \<and> accepted E (ta_seen t) items ids \<and> ta_errors t = [] \<and> t' = tallied items ids t)"
proof (induction vs arbitrary: i t)
  case Nil
  show ?case by (auto simp: accepted_Nil tallied_simps)
next
  case (Cons v vs)
  have mono: "ta_errors t1 = []" if "tally_items E (i + 1) vs t1 = Inr t'" "ta_errors t' = []" for t1
    using Cons.IH[of "i + 1" t1] that by blast
  have "tally_items E i (v # vs) t = Inr t' \<and> ta_errors t' = [] \<longleftrightarrow>
      (\<exists>t1. tally_item E i v t = Inr t1 \<and> ta_errors t1 = [] \<and> tally_items E (i + 1) vs t1 = Inr t' \<and> ta_errors t' = [])"
    unfolding tally_items.simps and_then_Inr_iff using mono by blast
  also have "\<dots> \<longleftrightarrow> (\<exists>item fid. v = PDict item \<and> ruling_id item fid \<and> ta_errors t = [] \<and> fid \<notin> ta_seen t \<and> fid \<in> E \<and>
      ruling_ok item \<and> tally_items E (i + 1) vs (counted item fid t) = Inr t' \<and> ta_errors t' = [])"
    (is "(\<exists>t1. ?step t1 \<and> ?ok t1 \<and> ?rest t1) \<longleftrightarrow> _")
  proof -
    have "(\<exists>t1. ?step t1 \<and> ?ok t1 \<and> ?rest t1) \<longleftrightarrow> (\<exists>t1. (?step t1 \<and> ?ok t1) \<and> ?rest t1)" by (simp only: conj_assoc)
    also have "\<dots> \<longleftrightarrow> (\<exists>t1 item fid. (v = PDict item \<and> ruling_id item fid \<and> ta_errors t = [] \<and> fid \<notin> ta_seen t \<and> fid \<in> E \<and>
        ruling_ok item \<and> t1 = counted item fid t) \<and> ?rest t1)"
      unfolding tally_item_quiet ruling_id_def by (simp only: ex_simps)
    finally show ?thesis by (simp only: conj_assoc) blast
  qed
  also have "\<dots> \<longleftrightarrow> (\<exists>item fid items ids. v = PDict item \<and> ta_errors t = [] \<and> vs = map PDict items \<and>
      accepted E (ta_seen t) (item # items) (fid # ids) \<and> t' = tallied (item # items) (fid # ids) t)"
    unfolding Cons.IH accepted_Cons tallied_simps counted_fields by blast
  also have "\<dots> \<longleftrightarrow> (\<exists>items ids. v # vs = map PDict items \<and> accepted E (ta_seen t) items ids \<and> ta_errors t = [] \<and> t' = tallied items ids t)"
    (is "?L \<longleftrightarrow> ?R")
  proof
    assume ?L
    then obtain item fid items ids where "v = PDict item" "ta_errors t = []" "vs = map PDict items"
      "accepted E (ta_seen t) (item # items) (fid # ids)" "t' = tallied (item # items) (fid # ids) t" by blast
    then show ?R by (intro exI[of _ "item # items"] exI[of _ "fid # ids"]) simp
  next
    assume ?R
    then obtain items ids where *: "v # vs = map PDict items" "accepted E (ta_seen t) items ids" "ta_errors t = []"
      "t' = tallied items ids t" by (elim exE conjE)
    obtain item items1 where i: "items = item # items1" using *(1) by (cases items) auto
    obtain fid ids1 where d: "ids = fid # ids1" using accepted_ids *(2) i by blast
    show ?L using * unfolding i d by auto
  qed
  finally show ?case .
qed

lemma accepted_length: "accepted E seen items ids \<Longrightarrow> length items = length ids"
  by (auto simp: accepted_def dest: list_all2_lengthD)

lemma sort_Nil_iff: "sort xs = [] \<longleftrightarrow> xs = []"
  by (metis set_empty set_sort)

lemma validate_valid_iff:
  "validate_adjudication h (Some adj) report = Inr r \<and> ac_valid r \<longleftrightarrow>
   (\<exists>fs items ids. collect_review_findings report = Inr fs \<and> header_errors h adj report = [] \<and>
      aget adj ''findings'' = PList (map PDict items) \<and> accepted (set (map finding_id fs)) {} items ids \<and>
      set ids = set (map finding_id fs) \<and>
      r = \<lparr>ac_findings = [], ac_valid = True, ac_required = (fs \<noteq> []), ac_total = length (dedup (map finding_id fs)),
           ac_adjudicated = length items, ac_blocking = length (filter blocks items),
           ac_non_blocking = length (filter (\<lambda>i. \<not> blocks i) items), ac_clean = (filter blocks items = [])\<rparr>)"
    (is "?L \<longleftrightarrow> ?R")
proof
  assume L: ?L
  then obtain fs where fs: "collect_review_findings report = Inr fs"
    by (auto simp: validate_adjudication_def and_then_Inr_iff)
  let ?E = "dedup (map finding_id fs)"
  let ?e0 = "header_errors h adj report @ (case aget adj ''findings'' of PList _ \<Rightarrow> [] | _ \<Rightarrow> [FindingsMissing])"
  let ?t0 = "\<lparr>ta_errors = ?e0, ta_seen = {}, ta_blocking = 0, ta_non_blocking = 0, ta_adjudicated = 0\<rparr>"
  obtain t where t: "tally_items (set ?E) 0 (ruled_items adj) ?t0 = Inr t"
    and r: "r = (let missing = sort (filter (\<lambda>fid. fid \<notin> ta_seen t) ?E);
                 errors = ta_errors t @ (if missing = [] then [] else [FindingsIncomplete missing])
             in \<lparr>ac_findings = errors, ac_valid = (errors = []), ac_required = (?E \<noteq> []),
                     ac_total = length ?E, ac_adjudicated = ta_adjudicated t, ac_blocking = ta_blocking t,
                     ac_non_blocking = ta_non_blocking t, ac_clean = (errors = [] \<and> ta_blocking t = 0)\<rparr>)"
    using L fs by (auto simp: validate_adjudication_def and_then_Inr_iff Let_def)
  have quiet: "ta_errors t = []" and miss: "filter (\<lambda>fid. fid \<notin> ta_seen t) ?E = []"
    using L r by (auto simp: Let_def sort_Nil_iff split: if_splits)
  obtain items ids where items: "ruled_items adj = map PDict items" "accepted (set ?E) {} items ids" "?e0 = []"
    "t = tallied items ids ?t0"
    using tally_items_quiet[of "set ?E" 0 "ruled_items adj" ?t0 t] t quiet by auto
  have "aget adj ''findings'' = PList (map PDict items)"
    using items(1,3) by (auto simp: ruled_items_def split: pyval.splits)
  moreover have "set ids = set (map finding_id fs)"
    using miss items(2,4) by (auto simp: tallied_def accepted_def filter_empty_conv)
  moreover have "dedup (map finding_id fs) = [] \<longleftrightarrow> fs = []" by (cases fs) auto
  ultimately show ?R
    using fs items quiet miss r
    by (intro exI[of _ fs] exI[of _ items] exI[of _ ids])
       (auto simp: Let_def sort_Nil_iff tallied_def)
next
  assume ?R
  then obtain fs items ids where R: "collect_review_findings report = Inr fs" "header_errors h adj report = []"
    "aget adj ''findings'' = PList (map PDict items)" "accepted (set (map finding_id fs)) {} items ids"
    "set ids = set (map finding_id fs)"
    "r = \<lparr>ac_findings = [], ac_valid = True, ac_required = (fs \<noteq> []), ac_total = length (dedup (map finding_id fs)),
           ac_adjudicated = length items, ac_blocking = length (filter blocks items),
           ac_non_blocking = length (filter (\<lambda>i. \<not> blocks i) items), ac_clean = (filter blocks items = [])\<rparr>" by blast
  let ?t0 = "\<lparr>ta_errors = [], ta_seen = {}, ta_blocking = 0, ta_non_blocking = 0, ta_adjudicated = 0\<rparr>"
  have t: "tally_items (set (map finding_id fs)) 0 (map PDict items) ?t0 = Inr (tallied items ids ?t0)"
    using tally_items_quiet[of "set (map finding_id fs)" 0 "map PDict items" ?t0 "tallied items ids ?t0"] R(4) by auto
  have miss: "filter (\<lambda>fid. fid \<notin> ta_seen (tallied items ids ?t0)) (dedup (map finding_id fs)) = []"
    using R(5) by (auto simp: tallied_def filter_empty_conv)
  have "dedup (map finding_id fs) = [] \<longleftrightarrow> fs = []" by (cases fs) auto
  then show ?L
    using R(1,2,3) t miss
    by (simp add: validate_adjudication_def ruled_items_def Let_def R(6)) (simp add: tallied_def)
qed

lemma clean_iff:
  "(\<exists>r. validate_adjudication h (Some adj) report = Inr r \<and> ac_clean r) \<longleftrightarrow>
   (\<exists>fs items ids. collect_review_findings report = Inr fs \<and> header_errors h adj report = [] \<and>
      aget adj ''findings'' = PList (map PDict items) \<and> list_all2 ruling_id items ids \<and> distinct ids \<and>
      set ids = set (map finding_id fs) \<and>
      list_all (\<lambda>i. aget i ''decision'' = PStr ''non_blocking'' \<and> aget i ''category'' = PStr ''non_material'' \<and>
                    \<not> blank_text (aget i ''reason'')) items)"
    (is "?L \<longleftrightarrow> ?R")
proof -
  have ruled: "list_all ruling_ok items \<and> filter blocks items = [] \<longleftrightarrow>
      list_all (\<lambda>i. aget i ''decision'' = PStr ''non_blocking'' \<and> aget i ''category'' = PStr ''non_material'' \<and>
                    \<not> blank_text (aget i ''reason'')) items" for items
    by (induction items) (auto simp: ruling_ok_def blocks_def DECISIONS_def NON_BLOCKING_CATEGORIES_def)
  have "ac_valid r" if "validate_adjudication h (Some adj) report = Inr r" "ac_clean r" for r
    using that by (auto simp: validate_adjudication_def and_then_Inr_iff Let_def)
  then have "?L \<longleftrightarrow> (\<exists>r. (validate_adjudication h (Some adj) report = Inr r \<and> ac_valid r) \<and> ac_clean r)" by blast
  also have "\<dots> \<longleftrightarrow> (\<exists>fs items ids. collect_review_findings report = Inr fs \<and> header_errors h adj report = [] \<and>
      aget adj ''findings'' = PList (map PDict items) \<and> accepted (set (map finding_id fs)) {} items ids \<and>
      set ids = set (map finding_id fs) \<and> filter blocks items = [])"
    unfolding validate_valid_iff by fastforce
  also have "\<dots> \<longleftrightarrow> ?R"
    unfolding accepted_def using ruled by blast
  finally show ?thesis .
qed

subsection \<open>What a review leaves to be ruled on\<close>

text \<open>
  The ids of the findings of a report, told from its parts: in a merged report each finding of each claim, each
  omission under its position, and each scope review that is not in scope; in the report of a single pass each claim
  that was not supported, each omission, and a scope that is not in scope.
\<close>

definition parts_of :: "args \<Rightarrow> string \<Rightarrow> pyval list" where
  "parts_of d k = (case items_or_none (aget d k) of Inr vs \<Rightarrow> vs | Inl e \<Rightarrow> [])"

definition claim_needs :: "args \<Rightarrow> string \<Rightarrow> bool" where
  "claim_needs report fid \<longleftrightarrow>
     (\<exists>c. PDict c \<in> set (parts_of report ''claim_reviews'') \<and>
        (if stated report ''passes''
         then \<exists>g. PDict g \<in> set (parts_of c ''findings'') \<and>
                fid = ''claim:'' @ py_str (aget c ''claim_id'') @ '':pass:'' @ py_str (aget g ''pass'')
         else aget c ''verdict'' \<noteq> PStr ''supported'' \<and> fid = ''claim:'' @ py_str (aget c ''claim_id'')))"

definition omission_needs :: "args \<Rightarrow> string \<Rightarrow> bool" where
  "omission_needs report fid \<longleftrightarrow>
     (\<exists>i item. i < length (parts_of report ''omission_reviews'') \<and> parts_of report ''omission_reviews'' ! i = PDict item \<and>
        fid = (if stated report ''passes'' then ''omission:pass:'' @ py_str (aget item ''pass'') @ '':item:'' @ show_nat (i + 1)
               else ''omission:item:'' @ show_nat (i + 1)))"

definition scope_needs :: "args \<Rightarrow> string \<Rightarrow> bool" where
  "scope_needs report fid \<longleftrightarrow>
     (if stated report ''passes'' then
        (if \<exists>vs. aget report ''scope_reviews'' = PList vs
         then \<exists>s. PDict s \<in> set (parts_of report ''scope_reviews'') \<and> aget s ''verdict'' \<noteq> PStr ''in_scope'' \<and>
                fid = ''scope:pass:'' @ py_str (aget s ''pass'')
         else aget (as_dict (aget report ''validation'')) ''scope_clean'' \<noteq> PBool True \<and> fid = ''scope:legacy-aggregate'')
      else \<exists>s. aget report ''scope_review'' = PDict s \<and> aget s ''verdict'' \<noteq> PStr ''in_scope'' \<and> fid = ''scope'')"

definition needs_ruling :: "args \<Rightarrow> string \<Rightarrow> bool" where
  "needs_ruling report fid \<longleftrightarrow> claim_needs report fid \<or> omission_needs report fid \<or> scope_needs report fid"

lemma in_dicts_of: "d \<in> set (dicts_of vs) \<longleftrightarrow> PDict d \<in> set vs"
  by (induction vs) (auto simp: dicts_of_def split: pyval.splits)

lemma collect_results_all2: "collect_results rs = Inr xs \<longleftrightarrow> rs = map Inr xs"
  by (induction rs arbitrary: xs) (auto simp: and_then_Inr_iff)

lemma parts_of_Inr: "items_or_none (aget d k) = Inr vs \<Longrightarrow> parts_of d k = vs"
  by (simp add: parts_of_def)

lemma set_dicts_of: "set (dicts_of vs) = {d. PDict d \<in> set vs}"
  by (auto simp: in_dicts_of)

definition ids_of_claim :: "bool \<Rightarrow> args \<Rightarrow> string set" where
  "ids_of_claim merged c =
    (if merged then {''claim:'' @ py_str (aget c ''claim_id'') @ '':pass:'' @ py_str (aget g ''pass'') |g. PDict g \<in> set (parts_of c ''findings'')}
     else if aget c ''verdict'' \<noteq> PStr ''supported'' then {''claim:'' @ py_str (aget c ''claim_id'')} else {})"

lemma claim_ids:
  assumes "claim_findings merged c = Inr fs"
  shows "finding_id ` set fs =
    ids_of_claim merged c"
proof (cases merged)
  case True
  then obtain vs where vs: "items_or_none (aget c ''findings'') = Inr vs"
    "fs = map (merged_claim_finding (aget c ''claim_id'')) (dicts_of vs)"
    using assms by (auto simp: claim_findings_def and_then_Inr_iff)
  have "finding_id (merged_claim_finding (aget c ''claim_id'') g) =
      ''claim:'' @ py_str (aget c ''claim_id'') @ '':pass:'' @ py_str (aget g ''pass'')" for g
    by (simp add: finding_id_def merged_claim_finding_def aget_Cons)
  then show ?thesis using True by (simp add: ids_of_claim_def vs(2) parts_of_Inr[OF vs(1)] image_image set_dicts_of) blast
next
  case False
  then show ?thesis using assms
    by (auto simp: ids_of_claim_def claim_findings_def finding_id_def claim_finding_def aget_Cons split: if_splits)
qed

lemma in_map_filter: "y \<in> set (List.map_filter f xs) \<longleftrightarrow> (\<exists>x \<in> set xs. f x = Some y)"
  by (induction xs) (auto split: option.splits)

lemma omission_ids:
  "finding_id ` set (omission_findings merged vs) =
    {(if merged then ''omission:pass:'' @ py_str (aget item ''pass'') @ '':item:'' @ show_nat (i + 1) else ''omission:item:'' @ show_nat (i + 1))
       |i item. i < length vs \<and> vs ! i = PDict item}"
proof -
  have id: "finding_id (omission_finding merged k item) =
      (if merged then ''omission:pass:'' @ py_str (aget item ''pass'') @ '':item:'' @ show_nat k else ''omission:item:'' @ show_nat k)" for k item
    by (simp add: finding_id_def omission_finding_def aget_Cons)
  have z: "(k, v) \<in> set (zip [1..<length vs + 1] vs) \<longleftrightarrow> (\<exists>i < length vs. k = i + 1 \<and> v = vs ! i)" for k v
  proof -
    have nth: "[Suc 0..<Suc (length vs)] ! i = Suc i" if "i < length vs" for i using that by (simp del: upt_Suc)
    show ?thesis unfolding set_zip by (simp del: upt_Suc) (metis nth)
  qed
  have f: "(case v of PDict item \<Rightarrow> Some (omission_finding merged k item) | _ \<Rightarrow> None) = Some f \<longleftrightarrow>
      (\<exists>item. v = PDict item \<and> f = omission_finding merged k item)" for k v f
    by (auto split: pyval.splits)
  let ?S = "{(i, item). i < length vs \<and> vs ! i = PDict item}"
  have mem: "g \<in> set (omission_findings merged vs) \<longleftrightarrow> (\<exists>i item. (i, item) \<in> ?S \<and> g = omission_finding merged (i + 1) item)" for g
  proof -
    have "g \<in> set (omission_findings merged vs) \<longleftrightarrow> (\<exists>k v. (k, v) \<in> set (zip [1..<length vs + 1] vs) \<and>
        (case v of PDict item \<Rightarrow> Some (omission_finding merged k item) | _ \<Rightarrow> None) = Some g)"
      by (simp only: omission_findings_def in_map_filter Bex_def split_paired_Ex prod.case)
    also have "\<dots> \<longleftrightarrow> (\<exists>i item. (i, item) \<in> ?S \<and> g = omission_finding merged (i + 1) item)"
      unfolding z f mem_Collect_eq prod.case by metis
    finally show ?thesis .
  qed
  have "fid \<in> finding_id ` set (omission_findings merged vs) \<longleftrightarrow>
      (\<exists>i item. (i, item) \<in> ?S \<and> fid = finding_id (omission_finding merged (i + 1) item))" for fid
    unfolding image_iff Bex_def mem by blast
  then have "finding_id ` set (omission_findings merged vs) =
      {fid. \<exists>i item. (i < length vs \<and> vs ! i = PDict item) \<and> fid = finding_id (omission_finding merged (i + 1) item)}"
    by (simp add: set_eq_iff)
  also have "\<dots> = {finding_id (omission_finding merged (i + 1) item) |i item. i < length vs \<and> vs ! i = PDict item}"
    by (rule Collect_cong) metis
  finally show ?thesis by (simp only: id)
qed

lemma needed_ids:
  assumes "collect_review_findings report = Inr fs"
  shows "finding_id ` set fs = {fid. needs_ruling report fid}"
proof -
  let ?m = "stated report ''passes''"
  obtain claims xss oms scope where c: "items_or_none (aget report ''claim_reviews'') = Inr claims"
    "map (claim_findings ?m) (dicts_of claims) = map Inr xss" "items_or_none (aget report ''omission_reviews'') = Inr oms"
    "(if ?m then merged_scope_findings report else Inr (single_scope_findings report)) = Inr scope"
    and fs: "fs = concat xss @ omission_findings ?m oms @ scope"
    using assms by (auto simp: collect_review_findings_def Let_def and_then_Inr_iff collect_results_all2)
  have "fid \<in> finding_id ` set (concat xss) \<longleftrightarrow> claim_needs report fid" for fid
  proof -
    have run: "claim_findings ?m (dicts_of claims ! i) = Inr (xss ! i)" if "i < length xss" for i
      using c(2) that by (metis length_map nth_map)
    have len: "length xss = length (dicts_of claims)" using c(2) by (metis length_map)
    have "fid \<in> finding_id ` set (concat xss) \<longleftrightarrow> (\<exists>i < length xss. fid \<in> finding_id ` set (xss ! i))"
    proof -
      have "fid \<in> finding_id ` set (concat xss) \<longleftrightarrow> (\<exists>xs \<in> set xss. fid \<in> finding_id ` set xs)" by auto
      then show ?thesis by (metis in_set_conv_nth)
    qed
    also have "\<dots> \<longleftrightarrow> (\<exists>i < length xss. fid \<in> ids_of_claim ?m (dicts_of claims ! i))"
      using claim_ids[OF run] by auto
    also have "\<dots> \<longleftrightarrow> (\<exists>d \<in> set (dicts_of claims). fid \<in> ids_of_claim ?m d)"
      unfolding len by (metis in_set_conv_nth)
    finally show ?thesis by (auto simp: ids_of_claim_def claim_needs_def parts_of_Inr[OF c(1)] in_dicts_of split: if_splits)
  qed
  moreover have "fid \<in> finding_id ` set (omission_findings ?m oms) \<longleftrightarrow> omission_needs report fid" for fid
    unfolding omission_ids omission_needs_def parts_of_Inr[OF c(3)] by blast
  moreover have "fid \<in> finding_id ` set scope \<longleftrightarrow> scope_needs report fid" for fid
  proof (cases ?m)
    case True
    show ?thesis
    proof (cases "\<exists>vs. aget report ''scope_reviews'' = PList vs")
      case True
      then obtain vs where vs: "aget report ''scope_reviews'' = PList vs" by blast
      then have p: "parts_of report ''scope_reviews'' = vs" by (simp add: parts_of_def items_or_none_def)
      have id: "finding_id (scope_finding s extra v r) = s" for s extra v r
        by (simp add: finding_id_def scope_finding_def aget_Cons)
      have "finding_id ` set scope = (\<lambda>d. ''scope:pass:'' @ py_str (aget d ''pass'')) `
          {d. PDict d \<in> set vs \<and> aget d ''verdict'' \<noteq> PStr ''in_scope''}"
        using c(4) \<open>?m\<close> vs by (auto simp: merged_scope_findings_def image_image id set_dicts_of)
      then show ?thesis using \<open>?m\<close> vs by (auto simp: scope_needs_def p image_iff)
    next
      case False
      then show ?thesis using c(4) \<open>?m\<close>
        by (auto simp: scope_needs_def merged_scope_findings_def finding_id_def scope_finding_def aget_Cons and_then_Inr_iff
            dict_or_none_def as_dict_def aget_Nil split: pyval.splits if_splits)
    qed
  next
    case False
    then show ?thesis using c(4)
      by (auto simp: scope_needs_def single_scope_findings_def finding_id_def scope_finding_def aget_Cons split: pyval.splits if_splits)
  qed
  ultimately show ?thesis
    unfolding fs set_eq_iff set_append image_Un Un_iff mem_Collect_eq needs_ruling_def by blast
qed


text \<open>Whether the parts of a report can be iterated at all. Otherwise the collection raises.\<close>

definition can_iterate :: "pyval \<Rightarrow> bool" where
  "can_iterate v \<longleftrightarrow> \<not> truthy v \<or> (case v of PList vs \<Rightarrow> True | PStr s \<Rightarrow> True | PDict d \<Rightarrow> True | _ \<Rightarrow> False)"

definition report_readable :: "args \<Rightarrow> bool" where
  "report_readable report \<longleftrightarrow>
     can_iterate (aget report ''claim_reviews'') \<and> can_iterate (aget report ''omission_reviews'') \<and>
     (stated report ''passes'' \<longrightarrow>
        list_all (\<lambda>c. can_iterate (aget c ''findings'')) (dicts_of (parts_of report ''claim_reviews'')) \<and>
        ((\<exists>vs. aget report ''scope_reviews'' = PList vs) \<or> \<not> truthy (aget report ''validation'') \<or>
         (\<exists>d. aget report ''validation'' = PDict d)))"

lemma can_iterate_iff: "can_iterate v \<longleftrightarrow> (\<exists>vs. items_or_none v = Inr vs)"
  by (cases v) (auto simp: can_iterate_def items_or_none_def)

lemma collect_results_total: "(\<exists>xs. collect_results rs = Inr xs) \<longleftrightarrow> list_all (\<lambda>r. \<exists>x. r = Inr x) rs"
  by (induction rs) (auto simp: and_then_Inr_iff)

lemma claim_findings_total: "(\<exists>fs. claim_findings m c = Inr fs) \<longleftrightarrow> (m \<longrightarrow> can_iterate (aget c ''findings''))"
  by (auto simp: claim_findings_def can_iterate_iff and_then_Inr_iff)

lemma scope_total:
  "(\<exists>fs. merged_scope_findings report = Inr fs) \<longleftrightarrow>
   (\<exists>vs. aget report ''scope_reviews'' = PList vs) \<or> \<not> truthy (aget report ''validation'') \<or>
   (\<exists>d. aget report ''validation'' = PDict d)"
  by (auto simp: merged_scope_findings_def dict_or_none_def and_then_Inr_iff split: pyval.splits)

lemma readable_iff: "report_readable report \<longleftrightarrow> (\<exists>fs. collect_review_findings report = Inr fs)"
proof -
  have "(\<exists>fs. collect_review_findings report = Inr fs) \<longleftrightarrow>
      (\<exists>claims. items_or_none (aget report ''claim_reviews'') = Inr claims \<and>
         (\<exists>xss. collect_results (map (claim_findings (stated report ''passes'')) (dicts_of claims)) = Inr xss)) \<and>
      (\<exists>oms. items_or_none (aget report ''omission_reviews'') = Inr oms) \<and>
      (stated report ''passes'' \<longrightarrow> (\<exists>fs. merged_scope_findings report = Inr fs))"
    by (auto simp: collect_review_findings_def Let_def and_then_Inr_iff)
  also have "\<dots> \<longleftrightarrow> report_readable report"
    unfolding collect_results_total scope_total report_readable_def can_iterate_iff[symmetric]
    by (auto simp: list.pred_map comp_def claim_findings_total can_iterate_iff parts_of_Inr list_all_iff)
  finally show ?thesis by simp
qed

lemma clean_exactly:
  "(\<exists>r. validate_adjudication h (Some adj) report = Inr r \<and> ac_clean r) \<longleftrightarrow>
   report_readable report \<and> py_eq (aget adj ''schema_version'') (PInt 1) \<and>
   py_eq (aget adj ''article_sha256'') (aget report ''article_sha256'') \<and>
   py_eq (aget adj ''review_bundle_sha256'') (aget report ''review_bundle_sha256'') \<and>
   aget adj ''review_report_sha256'' = PStr (h (canonical_json (PDict report))) \<and>
   (\<exists>items ids. aget adj ''findings'' = PList (map PDict items) \<and> map (\<lambda>i. aget i ''finding_id'') items = map PStr ids \<and>
      distinct ids \<and> set ids = {fid. needs_ruling report fid} \<and>
      list_all (\<lambda>i. aget i ''decision'' = PStr ''non_blocking'' \<and> aget i ''category'' = PStr ''non_material'' \<and>
                    \<not> blank_text (aget i ''reason'')) items)"
proof -
  have hdr: "header_errors h adj report = [] \<longleftrightarrow> py_eq (aget adj ''schema_version'') (PInt 1) \<and>
      py_eq (aget adj ''article_sha256'') (aget report ''article_sha256'') \<and>
      py_eq (aget adj ''review_bundle_sha256'') (aget report ''review_bundle_sha256'') \<and>
      aget adj ''review_report_sha256'' = PStr (h (canonical_json (PDict report)))"
    by (simp add: header_errors_def SCHEMA_VERSION_def review_report_sha256_def artifact_sha256_def)
  have ids: "list_all2 ruling_id items ids \<longleftrightarrow> map (\<lambda>i. aget i ''finding_id'') items = map PStr ids" for items ids
    by (auto simp: list_all2_conv_all_nth ruling_id_def list_eq_iff_nth_eq)
  show ?thesis
    unfolding clean_iff readable_iff hdr ids by (fastforce simp: needed_ids)
qed

text \<open>C24: What opens the gate. An adjudication of a report that can be read at all is clean exactly when it names the
  schema, carries the article hash and the bundle hash of the report and the hash of the canonical encoding of this very
  report, and its findings list holds, for every finding of the report and for nothing else, one ruling, each with a stated
  reason, the decision \<^verbatim>\<open>non_blocking\<close> and the category \<^verbatim>\<open>non_material\<close>. What needs a ruling is told from the parts of
  the report: in a merged one every finding of a claim, every omission and every scope review that is not in scope; in
  that of a single pass every claim not supported, every omission and a scope that is not in scope. The article and
  bundle hashes are compared as the code compares them, so that a hash that neither document carries counts as equal.
\<close>

theorem adjudication_gate:
  "(\<exists>r. validate_adjudication h (Some adj) report = Inr r \<and> ac_clean r) \<longleftrightarrow>
   report_readable report \<and> py_eq (aget adj ''schema_version'') (PInt 1) \<and>
   py_eq (aget adj ''article_sha256'') (aget report ''article_sha256'') \<and>
   py_eq (aget adj ''review_bundle_sha256'') (aget report ''review_bundle_sha256'') \<and>
   aget adj ''review_report_sha256'' = PStr (h (canonical_json (PDict report))) \<and>
   (\<exists>items ids. aget adj ''findings'' = PList (map PDict items) \<and> map (\<lambda>i. aget i ''finding_id'') items = map PStr ids \<and>
      distinct ids \<and> set ids = {fid. needs_ruling report fid} \<and>
      list_all (\<lambda>i. aget i ''decision'' = PStr ''non_blocking'' \<and> aget i ''category'' = PStr ''non_material'' \<and>
                    \<not> blank_text (aget i ''reason'')) items)"
  by (rule clean_exactly)

subsection \<open>The template\<close>

lemma collect_results_in: "collect_results rs = Inr xs \<Longrightarrow> x \<in> set xs \<Longrightarrow> Inr x \<in> set rs"
  by (induction rs arbitrary: xs) (auto simp: and_then_Inr_iff)

lemma finding_ids:
  assumes "collect_review_findings report = Inr fs" "f \<in> set fs"
  shows "\<exists>s rest. f = (''finding_id'', PStr s) # rest"
proof -
  have c: "\<exists>s rest. f = (''finding_id'', PStr s) # rest" if "claim_findings m c = Inr xs" "f \<in> set xs" for m c xs
    using that by (auto simp: claim_findings_def and_then_Inr_iff merged_claim_finding_def claim_finding_def split: if_splits)
  have cs: "\<exists>s rest. f = (''finding_id'', PStr s) # rest"
    if "collect_results (map (claim_findings m) cs) = Inr xss" "f \<in> set (concat xss)" for m cs xss
  proof -
    note run = that(1)
    obtain xs where "xs \<in> set xss" "f \<in> set xs" using \<open>f \<in> set (concat xss)\<close> by auto
    moreover have "Inr xs \<in> set (map (claim_findings m) cs)"
      by (rule collect_results_in[OF run \<open>xs \<in> set xss\<close>])
    ultimately obtain k where "claim_findings m k = Inr xs" by force
    then show ?thesis using c \<open>f \<in> set xs\<close> by blast
  qed
  have o: "\<exists>s rest. f = (''finding_id'', PStr s) # rest" if "f \<in> set (omission_findings m vs)" for m vs
    using that by (auto simp: omission_findings_def map_filter_def omission_finding_def split: pyval.splits)
  have s: "\<exists>s rest. f = (''finding_id'', PStr s) # rest"
    if "(if m then merged_scope_findings report else Inr (single_scope_findings report)) = Inr xs" "f \<in> set xs" for m xs
    using that
    by (auto simp: merged_scope_findings_def single_scope_findings_def scope_finding_def and_then_Inr_iff
        split: pyval.splits if_splits)
  obtain claims xss oms scope where r1:
    "collect_results (map (claim_findings (stated report ''passes'')) (dicts_of claims)) = Inr xss" and r2:
    "(if stated report ''passes'' then merged_scope_findings report else Inr (single_scope_findings report)) = Inr scope" and r3:
    "fs = concat xss @ omission_findings (stated report ''passes'') oms @ scope"
    using assms(1) unfolding collect_review_findings_def Let_def and_then_Inr_iff by (elim exE conjE) (blast dest: sum.inject(2)[THEN iffD1])
  have "f \<in> set (concat xss) \<or> f \<in> set (omission_findings (stated report ''passes'') oms) \<or> f \<in> set scope"
    using assms(2) r3 by auto
  then show ?thesis using cs[OF r1] o s[OF r2] by blast
qed

definition rule_item :: "string \<times> string \<times> string \<Rightarrow> args \<Rightarrow> args" where
  "rule_item ruling item =
     (case ruling of (decision, category, reason) \<Rightarrow>
        aset ''reason'' (PStr reason) (aset ''category'' (PStr category) (aset ''decision'' (PStr decision) item)))"

definition rule_all :: "(string \<Rightarrow> string \<times> string \<times> string) \<Rightarrow> args \<Rightarrow> args" where
  "rule_all rulings adj =
     aset ''findings'' (PList (map (\<lambda>v. PDict (rule_item (rulings (finding_id (as_dict v))) (as_dict v))) (ruled_items adj))) adj"

definition legitimate :: "string \<times> string \<times> string \<Rightarrow> bool" where
  "legitimate ruling \<longleftrightarrow>
     (case ruling of (decision, category, reason) \<Rightarrow>
        strip reason \<noteq> [] \<and> (decision = ''blocking'' \<and> category \<in> BLOCKING_CATEGORIES \<or>
                            decision = ''non_blocking'' \<and> category \<in> NON_BLOCKING_CATEGORIES))"

lemma rule_item_fields:
  "aget (rule_item r item) ''decision'' = PStr (fst r)" "aget (rule_item r item) ''category'' = PStr (fst (snd r))"
  "aget (rule_item r item) ''reason'' = PStr (snd (snd r))" "aget (rule_item r item) ''finding_id'' = aget item ''finding_id''"
  by (simp_all add: rule_item_def aget_aset split: prod.split)

lemma legitimate_ok: "legitimate r \<Longrightarrow> ruling_ok (rule_item r item)"
  by (cases r) (auto simp: legitimate_def ruling_ok_def rule_item_fields blocks_def blank_text_def DECISIONS_def)

lemma aget_append_fields: "aget (((k, v) # d) @ e) k = v"
  by (simp add: aget_Cons)

text \<open>The template that \<^verbatim>\<open>prepare-adjudication\<close> writes can always be completed. When a legitimate ruling is filled in
  for each of its findings, the adjudication is valid, accounts for every finding, counts the blockers it was given,
  and is clean exactly when there is none.
\<close>

theorem template_completes:
  assumes "build_adjudication h report = Inr adj" "collect_review_findings report = Inr fs" "distinct (map finding_id fs)"
    "aget report ''article_sha256'' = PStr a" "aget report ''review_bundle_sha256'' = PStr b"
    "\<And>fid. legitimate (rulings fid)"
  shows "\<exists>r. validate_adjudication h (Some (rule_all rulings adj)) report = Inr r \<and> ac_valid r \<and>
    ac_total r = length fs \<and> ac_adjudicated r = length fs \<and>
    ac_blocking r = length (filter (\<lambda>f. fst (rulings (finding_id f)) = ''blocking'') fs) \<and>
    (ac_clean r \<longleftrightarrow> list_all (\<lambda>f. fst (rulings (finding_id f)) \<noteq> ''blocking'') fs)"
proof -
  let ?pend = "\<lambda>f. f @ [(''decision'', PNone), (''category'', PNone), (''reason'', PStr [])]"
  let ?item = "\<lambda>f. rule_item (rulings (finding_id f)) (?pend f)"
  have fid: "aget (?pend f) ''finding_id'' = PStr (finding_id f)" if "f \<in> set fs" for f
    using finding_ids[OF assms(2) that] by (auto simp: finding_id_def aget_Cons)
  then have fid': "finding_id (?pend f) = finding_id f" if "f \<in> set fs" for f using that by (simp add: finding_id_def)
  have "ruled_items adj = map (\<lambda>f. PDict (?pend f)) fs"
    using assms(1,2) by (auto simp: build_adjudication_def ruled_items_def aget_Cons)
  then have "aget (rule_all rulings adj) ''findings'' = PList (map (\<lambda>f. PDict (rule_item (rulings (finding_id (?pend f))) (?pend f))) fs)"
    by (simp add: rule_all_def aget_aset as_dict_def comp_def)
  also have "\<dots> = PList (map PDict (map ?item fs))" using fid' by simp
  finally have items: "aget (rule_all rulings adj) ''findings'' = PList (map PDict (map ?item fs))" .
  have hdr: "header_errors h (rule_all rulings adj) report = []"
    using assms(1,2,4,5) by (auto simp: header_errors_def rule_all_def aget_aset build_adjudication_def aget_Cons)
  have acc: "accepted (set (map finding_id fs)) {} (map ?item fs) (map finding_id fs)"
    using assms(3,6) fid
    by (auto simp: accepted_def ruling_id_def rule_item_fields list_all2_conv_all_nth list_all_iff legitimate_ok)
  have bl: "filter blocks (map ?item fs) = map ?item (filter (\<lambda>f. fst (rulings (finding_id f)) = ''blocking'') fs)"
    by (simp add: filter_map comp_def blocks_def rule_item_fields)
  let ?r = "\<lparr>ac_findings = [], ac_valid = True, ac_required = (fs \<noteq> []), ac_total = length (dedup (map finding_id fs)),
      ac_adjudicated = length (map ?item fs), ac_blocking = length (filter blocks (map ?item fs)),
      ac_non_blocking = length (filter (\<lambda>i. \<not> blocks i) (map ?item fs)), ac_clean = (filter blocks (map ?item fs) = [])\<rparr>"
  have "validate_adjudication h (Some (rule_all rulings adj)) report = Inr ?r \<and> ac_valid ?r"
    by (rule validate_valid_iff[THEN iffD2], intro exI[of _ fs] exI[of _ "map ?item fs"] exI[of _ "map finding_id fs"] conjI)
       (rule assms(2) hdr items acc HOL.refl)+
  then show ?thesis
    by (intro exI[of _ ?r]) (auto simp: bl dedup_distinct[OF assms(3)] filter_empty_conv list_all_iff)
qed

subsection \<open>The encoding does not depend on the order of the keys\<close>

lemma canonical_order_free:
  assumes "mset d = mset e" "distinct (map fst d)"
  shows "canonical_json (PDict d) = canonical_json (PDict e)"
proof -
  let ?f = "map (\<lambda>(k, v). (k, canonical_json v))"
  have inj: "inj_on fst (set (?f d))" using assms(2) by (auto simp: inj_on_def dest: eq_key_imp_eq_value)
  have "mset (?f d) = mset (?f e)" using assms(1) by simp
  then have "sort_key fst (?f d) = sort_key fst (?f e)"
    using sort_key_inj_key_eq[of "?f d" "sort_key fst (?f e)" fst] inj by simp
  then show ?thesis by simp
qed


subsection \<open>A report with two findings\<close>

definition demo_report :: args where
  "demo_report =
     [(''article_sha256'', PStr ''a''), (''review_bundle_sha256'', PStr ''b''),
      (''claim_reviews'', PList [PDict [(''claim_id'', PStr ''claim-0001''), (''verdict'', PStr ''contradicted'')],
                                 PDict [(''claim_id'', PStr ''claim-0002''), (''verdict'', PStr ''supported'')]]),
      (''omission_reviews'', PList [PDict [(''severity'', PStr ''info'')]]),
      (''scope_review'', PDict [(''verdict'', PStr ''in_scope'')])]"

lemma demo_findings:
  "map_sum id (map finding_id) (collect_review_findings demo_report) = Inr [''claim:claim-0001'', ''omission:item:1'']"
  by code_simp

lemma template_completes_witness:
  "\<exists>adj r. build_adjudication id demo_report = Inr adj \<and>
     validate_adjudication id (Some (rule_all (\<lambda>fid. (''blocking'', ''safety_privacy_or_scope'', ''leak'')) adj)) demo_report = Inr r \<and>
     ac_valid r \<and> ac_blocking r = 2 \<and> \<not> ac_clean r"
proof -
  let ?rule = "\<lambda>fid :: string. (''blocking'', ''safety_privacy_or_scope'', ''leak'')"
  obtain fs where fs: "collect_review_findings demo_report = Inr fs" and ids: "map finding_id fs = [''claim:claim-0001'', ''omission:item:1'']"
    using demo_findings by (cases "collect_review_findings demo_report") auto
  then obtain adj where adj: "build_adjudication id demo_report = Inr adj" by (simp add: build_adjudication_def)
  have "length fs = 2" using arg_cong[OF ids, of length] by simp
  then have "filter (\<lambda>f. fst (?rule (finding_id f)) = ''blocking'') fs = fs" "fs \<noteq> []" by auto
  moreover have "legitimate (?rule fid)" for fid by (simp add: legitimate_def BLOCKING_CATEGORIES_def strip_def is_space_def)
  moreover have "distinct (map finding_id fs)" by (simp add: ids)
  moreover have "aget demo_report ''article_sha256'' = PStr ''a''" "aget demo_report ''review_bundle_sha256'' = PStr ''b''"
    by (simp_all add: demo_report_def aget_Cons)
  ultimately show ?thesis
    using template_completes[OF adj fs, of "''a''" "''b''" ?rule] adj \<open>length fs = 2\<close> by (cases fs) auto
qed

end
