(* ===== verification/Drafting.thy ===== *)
theory Drafting
  imports Relay Adjudication
begin

text \<open>
  Writing one accepted topic: \<^verbatim>\<open>src/src/memline/wiki/draft.py\<close>, and what \<^verbatim>\<open>cli/_support.py\<close> does with a draft's files
  before they are sent for review. The files of the output directory are a map from names to contents.
\<close>

subsection \<open>Files and JSON text\<close>

datatype content = FText string | FJson pyval

type_synonym folder = "string \<rightharpoonup> content"

text \<open>\<^verbatim>\<open>json.dumps(value, ensure_ascii=False, indent=1)\<close>.\<close>

definition indent_at :: "nat \<Rightarrow> string" where
  "indent_at n = CHR 0x0A # replicate n (CHR '' '')"

fun json_indent :: "nat \<Rightarrow> pyval \<Rightarrow> string" where
  "json_indent n PNone = ''null''"
| "json_indent n (PBool b) = (if b then ''true'' else ''false'')"
| "json_indent n (PInt i) = show_int i"
| "json_indent n (PFloat r s) = s"
| "json_indent n (PStr s) = json_string s"
| "json_indent n (PList vs) =
     (if vs = [] then ''[]''
      else ''['' @ join '','' (map (\<lambda>v. indent_at (n + 1) @ json_indent (n + 1) v) vs) @ indent_at n @ '']'')"
| "json_indent n (PDict d) =
     (if d = [] then ''{}''
      else ''{'' @ join '','' (map (\<lambda>(k, v). indent_at (n + 1) @ json_string k @ '': '' @ json_indent (n + 1) v) d) @ indent_at n @ ''}'')"

subsection \<open>Rulings\<close>

definition BLOCKING_FLAG_KINDS :: "review_kind set" where
  "BLOCKING_FLAG_KINDS = {CjkName, Email}"

definition REQUIRED_FIELDS :: "string list" where
  "REQUIRED_FIELDS = [''title'', ''summary'', ''article_markdown'', ''claims'', ''open_questions'', ''unused_evidence_refs'']"

definition text_pairs :: "pyval \<Rightarrow> (string \<times> string) list option" where
  "text_pairs v =
     (if \<not> truthy v then Some []
      else case v of PDict d \<Rightarrow> Some (map (\<lambda>(k, c). (k, py_str c)) d) | _ \<Rightarrow> None)"

definition text_set :: "pyval \<Rightarrow> string set option" where
  "text_set v =
     (if \<not> truthy v then Some {}
      else case v of
        PList vs \<Rightarrow> Some (set (List.map_filter (\<lambda>w. case w of PStr s \<Rightarrow> Some s | _ \<Rightarrow> None) vs))
      | _ \<Rightarrow> None)"

text \<open>
  \<^verbatim>\<open>load_review\<close>; \<open>None\<close> is a file that is not there, and a file of another shape raises. Only texts among the cleared
  values can be met later.
\<close>

definition load_review :: "args option \<Rightarrow> ((string \<times> string) list \<times> string set) option" where
  "load_review f =
     (case f of
        None \<Rightarrow> Some ([], {})
      | Some data \<Rightarrow>
          (case (text_pairs (aget data ''redact''), text_set (aget data ''cleared'')) of
             (Some r, Some c) \<Rightarrow> Some (r, c)
           | _ \<Rightarrow> None))"

subsection \<open>The prompt\<close>

definition fill :: "(string \<times> string) list \<Rightarrow> string \<Rightarrow> string" where
  "fill kvs template = fold (\<lambda>(k, v) out. replace_all (''{'' @ k @ ''}'') v out) kvs template"

definition draft_fields :: "args \<Rightarrow> string \<Rightarrow> (string \<times> string) list" where
  "draft_fields topic material =
     [(''title'', py_str (por (aget topic ''title'') (PStr []))),
      (''scope'', py_str (por (aget topic ''scope'') (PStr ''(no scope recorded)''))),
      (''evidence_gaps'', py_str (por (aget topic ''evidence_gaps'') (PStr ''none seen''))),
      (''conflicts'', py_str (por (aget topic ''conflicts'') (PStr ''none seen''))),
      (''sensitive'', py_str (por (aget topic ''sensitive'') (PStr ''none seen''))),
      (''material'', material)]"

definition draft_prompt :: "string \<Rightarrow> args \<Rightarrow> string \<Rightarrow> string" where
  "draft_prompt template topic material = fill (draft_fields topic material) template"

definition day_of :: "pyval \<Rightarrow> pyval" where
  "day_of v = (case v of PStr s \<Rightarrow> PStr (take 10 s) | _ \<Rightarrow> PStr [])"

definition memory_material :: "args \<Rightarrow> pyval" where
  "memory_material m =
     PDict [(''id'', aget m ''id''), (''date'', day_of (aget m ''created_at'')), (''writer'', aget m ''writer''),
            (''superseded'', aget m ''superseded''), (''text'', aget m ''text'')]"

definition source_material :: "args \<Rightarrow> pyval" where
  "source_material s =
     PDict [(''ref'', aget s ''ref''), (''document'', aget s ''document''), (''heading'', aget s ''heading''), (''text'', aget s ''text'')]"

definition material_value :: "bundle_out \<Rightarrow> pyval" where
  "material_value b =
     PDict [(''memories'', PList (map memory_material (bu_memories b))),
            (''source_sections'', PList (map source_material (bu_sources b)))]"

definition material_of :: "bundle_out \<Rightarrow> string" where
  "material_of b = json_indent 0 (material_value b)"

subsection \<open>The bundle beside the draft\<close>

definition kind_name :: "review_kind \<Rightarrow> string" where
  "kind_name k = (case k of CjkName \<Rightarrow> ''cjk_personal_name'' | LongHex \<Rightarrow> ''long_hex_id'' | Email \<Rightarrow> ''email'')"

definition flag_json :: "review_flag \<Rightarrow> pyval" where
  "flag_json f = PDict [(''memory_id'', PStr (rf_memory f)), (''kind'', PStr (kind_name (rf_kind f))), (''value'', PStr (rf_value f))]"

definition bundle_json :: "bundle_out \<Rightarrow> args" where
  "bundle_json b =
     [(''memory_count'', PInt (int (length (bu_memories b)))), (''source_section_count'', PInt (int (length (bu_sources b)))),
      (''unresolved'', PList (map PDict (bu_unresolved b))), (''sanitized'', PBool (bu_sanitized b)),
      (''sanitization'', PDict [(''placeholder_counts'', PDict (map (\<lambda>(k, n). (k, PInt (int n))) (bu_counts b))),
                              (''review_flags'', PList (map flag_json (bu_flags b)))]),
      (''memories'', PList (map PDict (bu_memories b))), (''source_sections'', PList (map PDict (bu_sources b)))]"

definition blocking_values :: "review_flag list \<Rightarrow> string list" where
  "blocking_values flags =
     sort (dedup (map rf_value (filter (\<lambda>f. rf_kind f \<in> BLOCKING_FLAG_KINDS) flags)))"

subsection \<open>\<^verbatim>\<open>draft_topic\<close>\<close>

datatype draft_error =
    BadTopic
  | BadReview
  | NoSanitizer bundle_error
  | UnreviewedMaterial "string list"
  | CallFailed call_error
  | NotAnObject
  | MissingFields "string list"
  | EmptySummary
  | NotSized string

fun text_refs :: "pyval list \<Rightarrow> string list option" where
  "text_refs [] = Some []"
| "text_refs (e # es) =
     (case (e, text_refs es) of
        (PDict d, Some rs) \<Rightarrow> (case aget d ''ref'' of PStr r \<Rightarrow> Some (r # rs) | _ \<Rightarrow> None)
      | _ \<Rightarrow> None)"

definition topic_refs :: "args \<Rightarrow> string list option" where
  "topic_refs topic =
     (case map_of topic ''evidence'' of None \<Rightarrow> Some [] | Some (PList es) \<Rightarrow> text_refs es | Some _ \<Rightarrow> None)"

definition topic_slug :: "args \<Rightarrow> string option" where
  "topic_slug topic =
     (if truthy (aget topic ''topic_key'') then Some (py_str (aget topic ''topic_key''))
      else map_option py_str (map_of topic ''id''))"

definition size_of :: "pyval \<Rightarrow> nat option" where
  "size_of v =
     (case v of PStr s \<Rightarrow> Some (length (utf8_chars s)) | PList vs \<Rightarrow> Some (length vs) | PDict d \<Rightarrow> Some (length d) | _ \<Rightarrow> None)"

definition claims_sidecar :: "args \<Rightarrow> string \<Rightarrow> args \<Rightarrow> bundle_out \<Rightarrow> call_result \<Rightarrow> args" where
  "claims_sidecar topic slug data b res =
     [(''topic'', aget topic ''id''), (''topic_key'', PStr slug), (''summary'', aget data ''summary''),
      (''claims'', aget data ''claims''), (''sections'', aget data ''sections''),
      (''open_questions'', aget data ''open_questions''), (''retraction_arcs'', aget data ''retraction_arcs''),
      (''unused_evidence_refs'', aget data ''unused_evidence_refs''),
      (''superseded_evidence'', PList (map (\<lambda>m. aget m ''id'') (filter (\<lambda>m. truthy (aget m ''superseded'')) (bu_memories b)))),
      (''unresolved_evidence'', PList (map PDict (bu_unresolved b))), (''generation'', PDict (provenance res))]"

definition article_text :: "args \<Rightarrow> string" where
  "article_text data =
     ''# '' @ py_str (aget data ''title'') @ [CHR 0x0A, CHR 0x0A] @ py_str (aget data ''article_markdown'') @ [CHR 0x0A]"

definition draft_summary :: "string \<Rightarrow> args \<Rightarrow> bundle_out \<Rightarrow> call_result \<Rightarrow> draft_error + args" where
  "draft_summary slug data b res =
     (let count = (\<lambda>k. case size_of (por (aget data k) (PList [])) of None \<Rightarrow> Inl (NotSized k) | Some n \<Rightarrow> Inr (k, PInt (int n))) in
      case size_of (aget data ''article_markdown'') of
        None \<Rightarrow> Inl (NotSized ''article_markdown'')
      | Some n \<Rightarrow>
          map_sum id (\<lambda>counts.
            [(''topic_key'', PStr slug), (''chars'', PInt (int n)), (''summary'', aget data ''summary'')] @ counts @
            [(''superseded_evidence'', PInt (int (length (filter (\<lambda>m. truthy (aget m ''superseded'')) (bu_memories b))))),
             (''unresolved_evidence'', PInt (int (length (bu_unresolved b)))), (''provenance'', PDict (provenance res))])
          (collect_results (map count [''claims'', ''open_questions'', ''retraction_arcs'', ''unused_evidence_refs''])))"

record draft_run =
  dr_files :: folder
  dr_call :: relay_state
  dr_result :: "draft_error + args"

definition stopped :: "folder \<Rightarrow> draft_error \<Rightarrow> draft_run" where
  "stopped fs e = \<lparr>dr_files = fs, dr_call = fresh_call, dr_result = Inl e\<rparr>"

record draft_env =
  de_bundle :: bundle_world
  de_config :: args
  de_relay :: relay_world
  de_llm :: args
  de_params :: call_params
  de_template :: string

text \<open>What becomes of the model's answer.\<close>

definition save_draft ::
  "args \<Rightarrow> string \<Rightarrow> bundle_out \<Rightarrow> folder \<Rightarrow> pyval \<Rightarrow> call_result \<Rightarrow> folder \<times> (draft_error + args)" where
  "save_draft topic slug b fs answer res =
     (case answer of
        PDict data \<Rightarrow>
          let missing = filter (\<lambda>f. \<not> stated data f) REQUIRED_FIELDS in
          if missing \<noteq> [] then (fs, Inl (MissingFields missing))
          else if blank_text (aget data ''summary'') then (fs, Inl EmptySummary)
          else (fs(slug @ ''.md'' \<mapsto> FText (article_text data),
                   slug @ ''.claims.json'' \<mapsto> FJson (PDict (claims_sidecar topic slug data b res))),
                draft_summary slug data b res)
      | _ \<Rightarrow> (fs, Inl NotAnObject))"

definition draft_topic :: "draft_env \<Rightarrow> args option \<Rightarrow> args \<Rightarrow> folder \<Rightarrow> draft_run" where
  "draft_topic E review topic fs =
     (case (topic_slug topic, topic_refs topic) of
        (Some slug, Some refs) \<Rightarrow>
          (case load_review review of
             None \<Rightarrow> stopped fs BadReview
           | Some (redactions, cleared) \<Rightarrow>
               (case build_bundle (de_bundle E) (de_config E) refs True redactions cleared of
                  Inl e \<Rightarrow> stopped fs (NoSanitizer e)
                | Inr (b, mapping) \<Rightarrow>
                    if blocking_values (bu_flags b) \<noteq> [] then stopped fs (UnreviewedMaterial (blocking_values (bu_flags b)))
                    else
                      let fs1 = fs(slug @ ''.bundle.json'' \<mapsto> FJson (PDict (bundle_json b)),
                                   slug @ ''.placeholders.json'' \<mapsto> FJson (PDict (map (\<lambda>(k, v). (k, PStr v)) mapping)));
                          P = (de_params E)\<lparr>cp_prompt := draft_prompt (de_template E) topic (material_of b)\<rparr>
                      in case call_json (de_relay E) (de_llm E) ''draft'' [] 4 P of
                           (s, Inl e) \<Rightarrow> \<lparr>dr_files = fs1, dr_call = s, dr_result = Inl (CallFailed e)\<rparr>
                         | (s, Inr (answer, res)) \<Rightarrow>
                             (case save_draft topic slug b fs1 answer res of
                                (fs2, r) \<Rightarrow> \<lparr>dr_files = fs2, dr_call = s, dr_result = r\<rparr>)))
      | _ \<Rightarrow> stopped fs BadTopic)"

subsection \<open>The queue of accepted topics\<close>

text \<open>\<^verbatim>\<open>wiki draft\<close>: an existing draft is kept unless \<open>force\<close>; \<open>env i\<close> is what the \<open>i\<close>-th topic meets.\<close>

record queue_run =
  qr_files :: folder
  qr_done :: "args list"
  qr_failed :: "(pyval \<times> draft_error) list"
  qr_skipped :: nat

definition chosen_topics :: "string option \<Rightarrow> args list \<Rightarrow> args list" where
  "chosen_topics only topics =
     (case only of
        None \<Rightarrow> topics
      | Some o' \<Rightarrow>
          if o' = [] then topics
          else filter (\<lambda>t. aget t ''topic_key'' = PStr o' \<or> aget t ''id'' = PStr o') topics)"

definition draft_one :: "draft_env \<Rightarrow> args option \<Rightarrow> args \<Rightarrow> queue_run \<Rightarrow> queue_run" where
  "draft_one E review topic q =
     (let R = draft_topic E review topic (qr_files q); q' = q\<lparr>qr_files := dr_files R\<rparr> in
      case dr_result R of
        Inr v \<Rightarrow> q'\<lparr>qr_done := qr_done q @ [v]\<rparr>
      | Inl e \<Rightarrow> q'\<lparr>qr_failed := qr_failed q @ [(aget topic ''topic_key'', e)]\<rparr>)"

definition already_drafted :: "args \<Rightarrow> folder \<Rightarrow> bool option" where
  "already_drafted topic fs = map_option (\<lambda>slug. fs (slug @ ''.md'') \<noteq> None) (topic_slug topic)"

fun draft_all ::
  "(nat \<Rightarrow> draft_env) \<Rightarrow> args option \<Rightarrow> bool \<Rightarrow> nat \<Rightarrow> args list \<Rightarrow> queue_run \<Rightarrow> queue_run option" where
  "draft_all env review force i [] q = Some q"
| "draft_all env review force i (topic # topics) q =
     (if force then draft_all env review force (i + 1) topics (draft_one (env i) review topic q)
      else case already_drafted topic (qr_files q) of
          None \<Rightarrow> None
        | Some True \<Rightarrow> draft_all env review force (i + 1) topics (q\<lparr>qr_skipped := qr_skipped q + 1\<rparr>)
        | Some False \<Rightarrow> draft_all env review force (i + 1) topics (draft_one (env i) review topic q))"

definition wiki_draft ::
  "(nat \<Rightarrow> draft_env) \<Rightarrow> args option \<Rightarrow> bool \<Rightarrow> string option \<Rightarrow> args list \<Rightarrow> folder \<Rightarrow> queue_run option" where
  "wiki_draft env review force only topics fs =
     (let queue = chosen_topics only topics in
      if queue = [] then None
      else draft_all env review force 0 queue \<lparr>qr_files = fs, qr_done = [], qr_failed = [], qr_skipped = 0\<rparr>)"

subsection \<open>The artifacts of a review\<close>

fun accepted_topic :: "string \<Rightarrow> args list \<Rightarrow> args option" where
  "accepted_topic key [] = None"
| "accepted_topic key (item # items) =
     (if aget item ''topic_key'' = PStr key \<or> aget item ''id'' = PStr key then Some item else accepted_topic key items)"

definition load_approved_topic :: "args list option \<Rightarrow> string \<Rightarrow> args option" where
  "load_approved_topic ledger key =
     (case ledger of None \<Rightarrow> None | Some items \<Rightarrow> if key = [] then None else accepted_topic key items)"

datatype artifact_error = NoDraft | NoBundle | StillUnreviewed | RuledValueInArticle | BadRulings | BadShape | NoRules bundle_error

text \<open>
  \<^verbatim>\<open>_review_artifacts\<close>: the draft \<open>stem.md\<close>, its sidecars and its topic. A file is JSON, or a text.
\<close>

definition review_artifacts ::
  "folder \<Rightarrow> string \<Rightarrow> args list option \<Rightarrow> artifact_error + string \<times> args \<times> pyval \<times> args option" where
  "review_artifacts fs stem ledger =
     (case (fs (stem @ ''.md''), fs (stem @ ''.bundle.json'')) of
        (None, _) \<Rightarrow> Inl NoDraft
      | (_, None) \<Rightarrow> Inl NoBundle
      | (Some (FText article), Some (FJson (PDict b))) \<Rightarrow>
          let claims = (case fs (stem @ ''.claims.json'') of Some (FJson v) \<Rightarrow> v | _ \<Rightarrow> PNone);
              key = str_or_empty (aget (as_dict claims) ''topic_key'')
          in Inr (article, b, claims, load_approved_topic ledger (if key = [] then stem else key))
      | _ \<Rightarrow> Inl BadShape)"

fun scrub_tree ::
  "engine \<Rightarrow> (string \<times> string) list \<Rightarrow> (string \<times> rule) list \<Rightarrow> pyval \<Rightarrow> sanitizer \<Rightarrow> pyval \<times> sanitizer" and
  scrub_list ::
  "engine \<Rightarrow> (string \<times> string) list \<Rightarrow> (string \<times> rule) list \<Rightarrow> pyval list \<Rightarrow> sanitizer \<Rightarrow> pyval list \<times> sanitizer" and
  scrub_items ::
  "engine \<Rightarrow> (string \<times> string) list \<Rightarrow> (string \<times> rule) list \<Rightarrow> (string \<times> pyval) list \<Rightarrow> sanitizer
     \<Rightarrow> (string \<times> pyval) list \<times> sanitizer" where
  "scrub_tree rx extra rules (PStr s) S = (case scrub rx extra rules s S of (t, S') \<Rightarrow> (PStr t, S'))"
| "scrub_tree rx extra rules (PList vs) S = (case scrub_list rx extra rules vs S of (ws, S') \<Rightarrow> (PList ws, S'))"
| "scrub_tree rx extra rules (PDict d) S = (case scrub_items rx extra rules d S of (e, S') \<Rightarrow> (PDict e, S'))"
| "scrub_tree rx extra rules v S = (v, S)"
| "scrub_list rx extra rules [] S = ([], S)"
| "scrub_list rx extra rules (v # vs) S =
     (case scrub_tree rx extra rules v S of (w, S1) \<Rightarrow>
      case scrub_list rx extra rules vs S1 of (ws, S2) \<Rightarrow> (w # ws, S2))"
| "scrub_items rx extra rules [] S = ([], S)"
| "scrub_items rx extra rules ((k, v) # d) S =
     (case scrub_tree rx extra rules v S of (w, S1) \<Rightarrow>
      case scrub_items rx extra rules d S1 of (e, S2) \<Rightarrow> ((k, w) # e, S2))"

fun scrub_entries ::
  "engine \<Rightarrow> (string \<times> string) list \<Rightarrow> (string \<times> rule) list \<Rightarrow> pyval list \<Rightarrow> sanitizer \<Rightarrow> (pyval list \<times> sanitizer) option" where
  "scrub_entries rx extra rules [] S = Some ([], S)"
| "scrub_entries rx extra rules (v # vs) S =
     (case v of
        PDict d \<Rightarrow>
          (case scrub rx extra rules (str_or_empty (aget d ''text'')) S of (t, S1) \<Rightarrow>
             map_option (\<lambda>(ws, S2). (PDict (aset ''text'' (PStr t) d) # ws, S2)) (scrub_entries rx extra rules vs S1))
      | _ \<Rightarrow> None)"

definition entries_of :: "args \<Rightarrow> string \<Rightarrow> pyval list" where
  "entries_of b k = (case aget b k of PList vs \<Rightarrow> vs | _ \<Rightarrow> [])"

definition put_entries :: "string \<Rightarrow> pyval list \<Rightarrow> args \<Rightarrow> args" where
  "put_entries k vs b = (case aget b k of PList _ \<Rightarrow> aset k (PList vs) b | _ \<Rightarrow> b)"

definition open_values :: "args \<Rightarrow> string set \<Rightarrow> pyval list" where
  "open_values b reviewed =
     map (\<lambda>f. aget f ''value'')
       (filter (\<lambda>f. (\<exists>k \<in> BLOCKING_FLAG_KINDS. aget f ''kind'' = PStr (kind_name k)) \<and>
                   \<not> (\<exists>v \<in> reviewed. aget f ''value'' = PStr v))
          (dicts_of (entries_of (as_dict (aget b ''sanitization'')) ''review_flags'')))"

definition scrub_artifacts ::
  "engine \<Rightarrow> (string \<times> string) list \<Rightarrow> (string \<times> rule) list \<Rightarrow> args \<Rightarrow> pyval \<Rightarrow> pyval
     \<Rightarrow> ((args \<times> pyval \<times> pyval) \<times> sanitizer) option" where
  "scrub_artifacts rx extra rules b claims topic =
     (case scrub_entries rx extra rules (entries_of b ''memories'') new_sanitizer of
        None \<Rightarrow> None
      | Some (ms, S1) \<Rightarrow>
          (case scrub_entries rx extra rules (entries_of b ''source_sections'') S1 of
             None \<Rightarrow> None
           | Some (ss, S2) \<Rightarrow>
               (case scrub_tree rx extra rules claims S2 of (claims', S3) \<Rightarrow>
                case scrub_tree rx extra rules topic S3 of (topic', S4) \<Rightarrow>
                  Some ((put_entries ''source_sections'' ss (put_entries ''memories'' ms b), claims', topic'), S4))))"

definition sanitize_review_artifacts ::
  "engine \<Rightarrow> args \<Rightarrow> args option \<Rightarrow> string \<Rightarrow> args \<Rightarrow> pyval \<Rightarrow> pyval \<Rightarrow> artifact_error + args \<times> pyval \<times> pyval" where
  "sanitize_review_artifacts rx config review article b claims topic =
     (case load_review review of
        None \<Rightarrow> Inl BadRulings
      | Some (redactions, cleared) \<Rightarrow>
          if open_values b (fst ` set redactions \<union> cleared) \<noteq> [] then Inl StillUnreviewed
          else if list_ex (\<lambda>(v, _). infix_of v article) redactions then Inl RuledValueInArticle
          else
            (case sanitize_rules config of
               Inl e \<Rightarrow> Inl (NoRules e)
             | Inr rules \<Rightarrow>
                 (case scrub_artifacts rx redactions rules b claims topic of
                    None \<Rightarrow> Inl BadShape
                  | Some (clean, S) \<Rightarrow> Inr clean)))"

subsection \<open>Only reviewed material is sent\<close>

lemma map_of_dict_of:
  "map_of (fold (\<lambda>(k, v) d. AList.update k v d) kvs d0) k =
     (case map_of (rev kvs) k of None \<Rightarrow> map_of d0 k | Some v \<Rightarrow> Some v)"
proof (induction kvs arbitrary: d0)
  case (Cons kv kvs)
  then show ?case
    by (cases kv) (auto simp: update_conv' map_add_def split: option.split)
qed simp

lemma dict_of_holds:
  assumes "(k, v) \<in> set kvs" "\<forall>w. (k, w) \<in> set kvs \<longrightarrow> w = v"
  shows "(k, v) \<in> set (dict_of kvs)"
proof -
  have "map_of (rev kvs) k = Some v"
  proof (cases "map_of (rev kvs) k")
    case None
    then have "k \<notin> fst ` set kvs" by (simp add: map_of_eq_None_iff)
    then show ?thesis using assms(1) by (force)
  next
    case (Some w)
    then have "(k, w) \<in> set kvs" by (auto dest: map_of_SomeD)
    then show ?thesis using assms(2) Some by simp
  qed
  then have "map_of (dict_of kvs) k = Some v" by (simp add: dict_of_def map_of_dict_of)
  then show ?thesis by (rule map_of_SomeD)
qed

lemma flagged_unless_ruled:
  assumes "(key, s) \<in> set texts" "v \<in> set (fnd k s)" "v \<notin> reviewed"
  shows "\<exists>f \<in> set (review_flags fnd texts reviewed). rf_kind f = k \<and> rf_value f = v"
proof -
  let ?f = "\<lparr>rf_memory = key, rf_kind = k, rf_value = v\<rparr>"
  have "k \<in> set REVIEW_PATTERNS" by (cases k) (auto simp: REVIEW_PATTERNS_def)
  then have "?f \<in> set (concat (map (\<lambda>k. map (\<lambda>m. \<lparr>rf_memory = key, rf_kind = k, rf_value = m\<rparr>)
      (filter (\<lambda>m. m \<notin> reviewed) (dedup (fnd k s)))) REVIEW_PATTERNS))"
    using assms(2,3) by (simp add: image_iff)
  then have "?f \<in> set (review_flags fnd texts reviewed)"
    unfolding review_flags_def set_concat set_map image_image by (intro UN_I[OF assms(1)]) simp
  then show ?thesis by (rule bexI[rotated]) simp
qed

lemma blocking_values_Nil: "blocking_values flags = [] \<longleftrightarrow> (\<forall>f \<in> set flags. rf_kind f \<notin> BLOCKING_FLAG_KINDS)"
proof -
  have "blocking_values flags = [] \<longleftrightarrow> set (blocking_values flags) = {}" by (simp only: set_empty)
  then show ?thesis by (auto simp: blocking_values_def)
qed

lemma resolved_id: "aget (resolve_one X h mid) ''id'' = PStr mid"
  by (simp add: resolve_one_def aget_Cons Let_def split: sum.split option.split)

lemma resolved_ref: "aget (resolve_source rooted content h ref) ''ref'' = PStr ref"
  by (simp add: resolve_source_def aget_Cons Let_def split: option.split)

lemma found_memory:
  assumes "d \<in> set (found_memories W refs)" "list_all (\<lambda>r. \<not> starts_with ''mem:sources/'' r) refs"
  shows "\<exists>mid. d = resolve_one (bw_execute W) (bw_sha W) mid \<and> \<not> is_source_ref mid"
proof -
  obtain r where r: "r \<in> set refs" "\<not> is_source_ref r"
    "d = resolve_one (bw_execute W) (bw_sha W) (if starts_with ''mem:'' r then drop 4 r else r)"
    using assms(1) by (auto simp: found_memories_def resolved_memories_def memory_refs_def)
  have "\<not> is_source_ref (drop 4 r)" if "starts_with ''mem:'' r"
  proof
    assume "is_source_ref (drop 4 r)"
    with that have "starts_with (''mem:'' @ ''sources/'') r"
      by (auto simp: is_source_ref_def starts_with_prefix prefix_def)
    then show False using r(1) assms(2) by (auto simp: list_all_iff)
  qed
  with r show ?thesis by auto
qed

lemma found_source:
  "d \<in> set (found_sources W refs) \<Longrightarrow>
   \<exists>r. d = resolve_source (bw_inside W) (bw_file W) (bw_sha W) r \<and> is_source_ref r"
  by (auto simp: found_sources_def resolved_sources_def split: if_splits)

lemma build_bundle_facts:
  assumes "build_bundle W config refs True redactions cleared = Inr (b, m)"
  shows "bu_sanitized b \<and> bu_flags b = review_flags (bw_find W)
    (dict_of (map (\<lambda>d. (py_str (aget d ''id''), text_field d)) (found_memories W refs) @
              map (\<lambda>d. (py_str (aget d ''ref''), text_field d)) (found_sources W refs))) (cleared \<union> fst ` set redactions)"
  using assms
  by (cases "sanitize_rules config")
     (auto simp: build_bundle_def Let_def found_memories_def found_sources_def split: prod.splits)

lemma all_found_flagged:
  assumes "build_bundle W config refs True redactions cleared = Inr (b, m)"
    "list_all (\<lambda>r. \<not> starts_with ''mem:sources/'' r) refs"
    "d \<in> set (found_memories W refs) \<union> set (found_sources W refs)" "v \<in> set (bw_find W k (text_field d))"
    "v \<notin> cleared" "v \<notin> fst ` set redactions"
  shows "\<exists>f \<in> set (bu_flags b). rf_kind f = k \<and> rf_value f = v"
proof -
  let ?kvs = "map (\<lambda>d. (py_str (aget d ''id''), text_field d)) (found_memories W refs) @
      map (\<lambda>d. (py_str (aget d ''ref''), text_field d)) (found_sources W refs)"
  have flags: "bu_flags b = review_flags (bw_find W) (dict_of ?kvs) (cleared \<union> fst ` set redactions)"
    using build_bundle_facts[OF assms(1)] by simp
  note mem = found_memory[OF _ assms(2)] and src = found_source
  have "\<exists>key. (key, text_field d) \<in> set ?kvs \<and> (\<forall>w. (key, w) \<in> set ?kvs \<longrightarrow> w = text_field d)"
  proof (cases "d \<in> set (found_memories W refs)")
    case True
    with mem obtain mid where d: "d = resolve_one (bw_execute W) (bw_sha W) mid" "\<not> is_source_ref mid" by blast
    have "w = text_field d" if "(mid, w) \<in> set ?kvs" for w
      using that d by (auto dest!: mem src simp: resolved_id resolved_ref py_str_def)
    moreover have "(py_str (aget d ''id''), text_field d) \<in> set ?kvs" using True by (simp add: image_iff) blast
    then have "(mid, text_field d) \<in> set ?kvs" unfolding d(1) by (simp only: resolved_id py_str_def pyval.case)
    ultimately show ?thesis by blast
  next
    case False
    then have s: "d \<in> set (found_sources W refs)" using assms(3) by simp
    with src obtain r where d: "d = resolve_source (bw_inside W) (bw_file W) (bw_sha W) r" "is_source_ref r" by blast
    have "w = text_field d" if "(r, w) \<in> set ?kvs" for w
      using that d by (auto dest!: mem src simp: resolved_id resolved_ref py_str_def)
    moreover have "(py_str (aget d ''ref''), text_field d) \<in> set ?kvs" using s by (simp add: image_iff) blast
    then have "(r, text_field d) \<in> set ?kvs" unfolding d(1) by (simp only: resolved_ref py_str_def pyval.case)
    ultimately show ?thesis by blast
  qed
  then obtain key where "(key, text_field d) \<in> set ?kvs" "\<forall>w. (key, w) \<in> set ?kvs \<longrightarrow> w = text_field d" by blast
  from dict_of_holds[OF this] show ?thesis unfolding flags using assms(4-6) by (intro flagged_unless_ruled) auto
qed

text \<open>C19: A draft makes a request only once the texts of its evidence were ruled on. When it makes one at all, the bundle it
  is written from was scrubbed, and every value in the text of a memory or of a document section of the topic that looks
  like a person's name or address was cleared or ruled for redaction by a human. Only those texts are looked at: the
  references, documents and headings of the evidence and the title, scope and notes of the topic enter the prompt
  unchecked. (A reference may not name a memory with an id that looks like a document.)
\<close>

theorem draft_needs_rulings:
  assumes "0 < rs_calls (dr_call (draft_topic E review topic fs))" "topic_refs topic = Some refs"
    "list_all (\<lambda>r. \<not> starts_with ''mem:sources/'' r) refs"
  shows "\<exists>redactions cleared b m. load_review review = Some (redactions, cleared) \<and>
    build_bundle (de_bundle E) (de_config E) refs True redactions cleared = Inr (b, m) \<and> bu_sanitized b \<and>
    (\<forall>d \<in> set (found_memories (de_bundle E) refs) \<union> set (found_sources (de_bundle E) refs).
       \<forall>k \<in> {CjkName, Email}. set (bw_find (de_bundle E) k (text_field d)) \<subseteq> cleared \<union> fst ` set redactions)"
proof -
  obtain redactions cleared b m where
    r: "load_review review = Some (redactions, cleared)"
      "build_bundle (de_bundle E) (de_config E) refs True redactions cleared = Inr (b, m)" "blocking_values (bu_flags b) = []"
    using assms(1,2)
    by (auto simp: draft_topic_def stopped_def fresh_call_def split: option.splits prod.splits sum.splits if_splits)
  have "bu_sanitized b" using build_bundle_facts[OF r(2)] by simp
  moreover have "v \<in> cleared \<union> fst ` set redactions"
    if "d \<in> set (found_memories (de_bundle E) refs) \<union> set (found_sources (de_bundle E) refs)" "k \<in> {CjkName, Email}"
      "v \<in> set (bw_find (de_bundle E) k (text_field d))" for d k v
    using all_found_flagged[OF r(2) assms(3) that(1,3)] r(3) that(2) by (auto simp: blocking_values_Nil BLOCKING_FLAG_KINDS_def)
  ultimately show ?thesis using r(1,2) by blast
qed

subsection \<open>What a reviewer is sent\<close>

fun leaf_texts :: "pyval \<Rightarrow> string list" where
  "leaf_texts (PStr s) = [s]"
| "leaf_texts (PList vs) = concat (map leaf_texts vs)"
| "leaf_texts (PDict d) = concat (map (\<lambda>kv. leaf_texts (snd kv)) d)"
| "leaf_texts v = []"

definition free_of :: "string \<Rightarrow> pyval \<Rightarrow> bool" where
  "free_of w v \<longleftrightarrow> (\<forall>s \<in> set (leaf_texts v). \<not> sublist w s)"

lemma scrub_extends: "valid_engine rx \<Longrightarrow> sn_ok S \<Longrightarrow> scrub rx extra rules s S = (t, S') \<Longrightarrow> sn_ok S' \<and> extends S S'"
  using scrub_undoable[of rx S extra rules s t S'] by (simp add: undoable_def)

lemma scrub_tree_extends:
  "valid_engine rx \<Longrightarrow> sn_ok S \<Longrightarrow> scrub_tree rx extra rules v S = (v', S') \<Longrightarrow> sn_ok S' \<and> extends S S'"
  "valid_engine rx \<Longrightarrow> sn_ok S \<Longrightarrow> scrub_list rx extra rules vs S = (vs', S') \<Longrightarrow> sn_ok S' \<and> extends S S'"
  "valid_engine rx \<Longrightarrow> sn_ok S \<Longrightarrow> scrub_items rx extra rules d S = (d', S') \<Longrightarrow> sn_ok S' \<and> extends S S'"
proof (induction rx extra rules v S and rx extra rules vs S and rx extra rules d S arbitrary: v' S' and vs' S' and d' S'
    rule: scrub_tree_scrub_list_scrub_items.induct)
  case (1 rx extra rules s S)
  then show ?case using scrub_extends[of rx S extra rules s] by (auto split: prod.splits)
next
  case (6 rx extra rules v vs S)
  obtain v1 S1 vs1 where s: "scrub_tree rx extra rules v S = (v1, S1)" "scrub_list rx extra rules vs S1 = (vs1, S')"
    using "6.prems"(3) by (auto split: prod.splits)
  from "6.IH"(1)[OF "6.prems"(1,2) s(1)] "6.IH"(2)[OF s(1)[symmetric] "6.prems"(1) _ s(2)]
  show ?case using extends_trans by blast
next
  case (8 rx extra rules k v d S)
  obtain v1 S1 d1 where s: "scrub_tree rx extra rules v S = (v1, S1)" "scrub_items rx extra rules d S1 = (d1, S')"
    using "8.prems"(3) by (auto split: prod.splits)
  from "8.IH"(1)[OF "8.prems"(1,2) s(1)] "8.IH"(2)[OF s(1)[symmetric] "8.prems"(1) _ s(2)]
  show ?case using extends_trans by blast
qed (auto split: prod.splits)

lemma scrub_tree_free:
  "valid_engine rx \<Longrightarrow> sn_ok S \<Longrightarrow> scrub_tree rx extra rules v S = (v', S') \<Longrightarrow> opaque w S' \<Longrightarrow> w \<in> fst ` set extra \<Longrightarrow> free_of w v'"
  "valid_engine rx \<Longrightarrow> sn_ok S \<Longrightarrow> scrub_list rx extra rules vs S = (vs', S') \<Longrightarrow> opaque w S' \<Longrightarrow> w \<in> fst ` set extra \<Longrightarrow> free_of w (PList vs')"
  "valid_engine rx \<Longrightarrow> sn_ok S \<Longrightarrow> scrub_items rx extra rules d S = (d', S') \<Longrightarrow> opaque w S' \<Longrightarrow> w \<in> fst ` set extra \<Longrightarrow> free_of w (PDict d')"
proof (induction rx extra rules v S and rx extra rules vs S and rx extra rules d S arbitrary: v' S' and vs' S' and d' S'
    rule: scrub_tree_scrub_list_scrub_items.induct)
  case (1 rx extra rules s S)
  then obtain t where t: "scrub rx extra rules s S = (t, S')" "v' = PStr t" by (auto split: prod.splits)
  from scrub_leak[OF 1(1,2) t(1) 1(4,5)] show ?case by (simp add: free_of_def t(2))
next
  case (6 rx extra rules v vs S)
  obtain v1 S1 vs1 where s: "scrub_tree rx extra rules v S = (v1, S1)" "scrub_list rx extra rules vs S1 = (vs1, S')" "vs' = v1 # vs1"
    using "6.prems"(3) by (auto split: prod.splits)
  have ok: "sn_ok S1" using scrub_tree_extends(1)[OF "6.prems"(1,2) s(1)] by simp
  have "opaque w S1" using scrub_tree_extends(2)[OF "6.prems"(1) ok s(2)] "6.prems"(4) opaque_extends by blast
  from "6.IH"(1)[OF "6.prems"(1,2) s(1) this "6.prems"(5)] "6.IH"(2)[OF s(1)[symmetric] "6.prems"(1) ok s(2) "6.prems"(4,5)]
  show ?case by (auto simp: free_of_def s(3))
next
  case (8 rx extra rules k v d S)
  obtain v1 S1 d1 where s: "scrub_tree rx extra rules v S = (v1, S1)" "scrub_items rx extra rules d S1 = (d1, S')" "d' = (k, v1) # d1"
    using "8.prems"(3) by (auto split: prod.splits)
  have ok: "sn_ok S1" using scrub_tree_extends(1)[OF "8.prems"(1,2) s(1)] by simp
  have "opaque w S1" using scrub_tree_extends(3)[OF "8.prems"(1) ok s(2)] "8.prems"(4) opaque_extends by blast
  from "8.IH"(1)[OF "8.prems"(1,2) s(1) this "8.prems"(5)] "8.IH"(2)[OF s(1)[symmetric] "8.prems"(1) ok s(2) "8.prems"(4,5)]
  show ?case by (auto simp: free_of_def s(3))
qed (auto simp: free_of_def split: prod.splits)

lemma scrub_entries_free:
  "valid_engine rx \<Longrightarrow> sn_ok S \<Longrightarrow> scrub_entries rx extra rules vs S = Some (ws, S') \<Longrightarrow>
   sn_ok S' \<and> extends S S' \<and>
   (opaque w S' \<longrightarrow> w \<in> fst ` set extra \<longrightarrow> (\<forall>d \<in> set (dicts_of ws). \<not> sublist w (text_field d)))"
proof (induction rx extra rules vs S arbitrary: ws S' rule: scrub_entries.induct)
  case (2 rx extra rules v vs S)
  obtain d where v: "v = PDict d" using "2.prems"(3) by (cases v) auto
  obtain t S1 where t: "scrub rx extra rules (str_or_empty (aget d ''text'')) S = (t, S1)" by fastforce
  obtain us where us: "scrub_entries rx extra rules vs S1 = Some (us, S')" "ws = PDict (aset ''text'' (PStr t) d) # us"
    using "2.prems"(3) v t by (auto split: option.splits)
  have e: "sn_ok S1" "extends S S1" using scrub_extends[OF "2.prems"(1,2) t] by auto
  from "2.IH"[OF v t[symmetric] "2.prems"(1) e(1) us(1)]
  have ih: "sn_ok S'" "extends S1 S'"
    "opaque w S' \<longrightarrow> w \<in> fst ` set extra \<longrightarrow> (\<forall>d \<in> set (dicts_of us). \<not> sublist w (text_field d))" by auto
  have "\<not> sublist w t" if "opaque w S'" "w \<in> fst ` set extra"
    using scrub_leak[OF "2.prems"(1,2) t opaque_extends[OF that(1) ih(2)] that(2)] .
  then show ?case using ih extends_trans[OF e(2) ih(2)] us(2) by (auto simp: dicts_of_def map_filter_simps text_field_set)
qed (auto simp: dicts_of_def map_filter_simps)

lemma entries_put:
  "entries_of (put_entries k ws b) k = ws \<or> entries_of (put_entries k ws b) k = []"
  "j \<noteq> k \<Longrightarrow> entries_of (put_entries k ws b) j = entries_of b j"
  by (auto simp: entries_of_def put_entries_def aget_aset split: pyval.split)

text \<open>C30: The texts that are scrubbed before a review hold no value that a human ruled out. When the artifacts of a draft
  pass, such a value is neither in the article, nor in the text field of a memory or of a source section, nor in any text
  value, at any depth, of the claims or of the topic, provided that it is not empty, has no angle bracket and is not part
  of a placeholder that was given. Nothing is said of the other fields of the evidence (its references, documents,
  headings and flags) nor of the keys of the objects, which are sent as they are.
\<close>

theorem review_texts_scrubbed:
  assumes "valid_engine rx" "load_review review = Some (redactions, cleared)" "sanitize_rules config = Inr rules"
    "scrub_artifacts rx redactions rules b claims topic = Some ((b', claims', topic'), S)"
    "w \<in> fst ` set redactions" "opaque w S"
    "sanitize_review_artifacts rx config review article b claims topic = Inr r"
  shows "r = (b', claims', topic') \<and> \<not> infix_of w article \<and>
    (\<forall>d \<in> set (dicts_of (entries_of b' ''memories'') @ dicts_of (entries_of b' ''source_sections'')). \<not> infix_of w (text_field d)) \<and>
    (\<forall>s \<in> set (leaf_texts claims' @ leaf_texts topic'). \<not> infix_of w s)"
proof -
  have r: "r = (b', claims', topic')" and article: "\<not> list_ex (\<lambda>(v, _). infix_of v article) redactions"
    using assms(2-4,7) by (auto simp: sanitize_review_artifacts_def split: if_splits)
  obtain ms S1 ss S2 S3 where
    m: "scrub_entries rx redactions rules (entries_of b ''memories'') new_sanitizer = Some (ms, S1)" and
    s: "scrub_entries rx redactions rules (entries_of b ''source_sections'') S1 = Some (ss, S2)" and
    c: "scrub_tree rx redactions rules claims S2 = (claims', S3)" and
    t: "scrub_tree rx redactions rules topic S3 = (topic', S)" and
    b': "b' = put_entries ''source_sections'' ss (put_entries ''memories'' ms b)"
    using assms(4) by (auto simp: scrub_artifacts_def split: option.splits prod.splits)
  have e1: "sn_ok S1" using scrub_entries_free[OF assms(1) sn_ok_new m] by simp
  have e2: "sn_ok S2" "extends S1 S2" using scrub_entries_free[OF assms(1) e1 s] by auto
  have e3: "sn_ok S3" "extends S2 S3" using scrub_tree_extends(1)[OF assms(1) e2(1) c] by auto
  have e4: "extends S3 S" using scrub_tree_extends(1)[OF assms(1) e3(1) t] by simp
  have o3: "opaque w S3" using opaque_extends[OF assms(6) e4] .
  have o2: "opaque w S2" using opaque_extends[OF o3 e3(2)] .
  have o1: "opaque w S1" using opaque_extends[OF o2 e2(2)] .
  have ms: "\<forall>d \<in> set (dicts_of ms). \<not> sublist w (text_field d)" using scrub_entries_free[OF assms(1) sn_ok_new m] o1 assms(5) by blast
  have ss: "\<forall>d \<in> set (dicts_of ss). \<not> sublist w (text_field d)" using scrub_entries_free[OF assms(1) e1 s] o2 assms(5) by blast
  have trees: "free_of w claims'" "free_of w topic'"
    using scrub_tree_free(1)[OF assms(1) e2(1) c o3 assms(5)] scrub_tree_free(1)[OF assms(1) e3(1) t assms(6,5)] by auto
  have "\<not> infix_of w article" using article assms(5) by (auto simp: list_ex_iff)
  moreover have "\<forall>d \<in> set (dicts_of (entries_of b' ''memories'') @ dicts_of (entries_of b' ''source_sections'')). \<not> infix_of w (text_field d)"
    using ms ss entries_put(1)[of "''source_sections''" ss "put_entries ''memories'' ms b"] entries_put(1)[of "''memories''" ms b]
      entries_put(2)[of "''memories''" "''source_sections''" ss "put_entries ''memories'' ms b"]
    unfolding b' infix_of_sublist by (auto simp: dicts_of_def map_filter_simps)
  ultimately show ?thesis using r trees by (auto simp: free_of_def infix_of_sublist)
qed

subsection \<open>What is kept of a draft\<close>

lemma save_draft_cases:
  "save_draft topic slug b fs answer res = (fs', r) \<Longrightarrow>
   fs' = fs \<and> isl r \<or>
   (\<exists>data. answer = PDict data \<and> fs' = fs(slug @ ''.md'' \<mapsto> FText (article_text data),
      slug @ ''.claims.json'' \<mapsto> FJson (PDict (claims_sidecar topic slug data b res))))"
  by (auto simp: save_draft_def Let_def split: pyval.splits if_splits)

lemma draft_topic_files:
  assumes "topic_slug topic = Some slug"
  shows "let fs' = dr_files (draft_topic E review topic fs) in
    (\<forall>name. name \<notin> {slug @ ''.md'', slug @ ''.claims.json'', slug @ ''.bundle.json'', slug @ ''.placeholders.json''} \<longrightarrow> fs' name = fs name) \<and>
    (fs' (slug @ ''.md'') = fs (slug @ ''.md'') \<and> fs' (slug @ ''.claims.json'') = fs (slug @ ''.claims.json'') \<or>
     (\<exists>v rest. fs' (slug @ ''.md'') = Some (FText v) \<and> fs' (slug @ ''.claims.json'') = Some (FJson rest) \<and>
        fs' (slug @ ''.bundle.json'') \<noteq> None))"
  using assms
  by (auto simp: draft_topic_def stopped_def Let_def dest!: save_draft_cases split: option.splits sum.splits prod.splits)

lemma other_slug: "slug @ ''.md'' = slug' @ ''.md'' \<longleftrightarrow> slug = slug'" "slug @ ''.md'' \<noteq> slug' @ ''.claims.json''"
  "slug @ ''.md'' \<noteq> slug' @ ''.bundle.json''" "slug @ ''.md'' \<noteq> slug' @ ''.placeholders.json''"
  by (auto dest: arg_cong[of _ _ rev])

lemma draft_topic_keeps:
  assumes "fs (slug @ ''.md'') = Some c" "already_drafted topic fs = Some False"
  shows "dr_files (draft_topic E review topic fs) (slug @ ''.md'') = Some c"
proof -
  obtain slug' where s: "topic_slug topic = Some slug'" "fs (slug' @ ''.md'') = None"
    using assms(2) by (auto simp: already_drafted_def)
  then have "slug \<noteq> slug'" using assms(1) by auto
  then show ?thesis using draft_topic_files[OF s(1), of E review fs] assms(1) other_slug by (simp add: Let_def)
qed

lemma draft_all_keeps:
  "draft_all env review False i topics q = Some q' \<Longrightarrow> qr_files q (slug @ ''.md'') = Some c \<Longrightarrow> qr_files q' (slug @ ''.md'') = Some c"
proof (induction topics arbitrary: i q)
  case (Cons topic topics)
  have "qr_files (draft_one (env i) review topic q) (slug @ ''.md'') = Some c" if "already_drafted topic (qr_files q) = Some False"
    using draft_topic_keeps[OF Cons.prems(2) that] by (simp add: draft_one_def Let_def split: sum.split)
  then show ?case
    using Cons.prems Cons.IH[of "i + 1" "q\<lparr>qr_skipped := qr_skipped q + 1\<rparr>"] Cons.IH[of "i + 1" "draft_one (env i) review topic q"]
    by (auto split: option.splits bool.splits)
qed simp

lemma draft_all_counts:
  "draft_all env review False i topics q = Some q' \<Longrightarrow>
   length (qr_done q') + length (qr_failed q') + qr_skipped q' =
     length (qr_done q) + length (qr_failed q) + qr_skipped q + length topics"
proof (induction topics arbitrary: i q)
  case (Cons topic topics)
  have "length (qr_done (draft_one (env i) review topic q)) + length (qr_failed (draft_one (env i) review topic q)) +
      qr_skipped (draft_one (env i) review topic q) = length (qr_done q) + length (qr_failed q) + qr_skipped q + 1"
    by (simp add: draft_one_def Let_def split: sum.split)
  then show ?case
    using Cons.prems Cons.IH[of "i + 1" "q\<lparr>qr_skipped := qr_skipped q + 1\<rparr>"] Cons.IH[of "i + 1" "draft_one (env i) review topic q"]
    by (auto split: option.splits bool.splits)
qed simp

lemma draft_topic_done:
  assumes "topic_slug topic = Some slug" "dr_result (draft_topic E review topic fs) = Inr v"
  shows "dr_files (draft_topic E review topic fs) (slug @ ''.md'') \<noteq> None"
proof -
  have "fs2 (slug @ ''.md'') \<noteq> None" if "save_draft topic slug b fs1 answer res = (fs2, Inr v)" for b fs1 answer res fs2
    using that by (auto simp: save_draft_def Let_def split: pyval.splits if_splits)
  then show ?thesis
    using assms by (auto simp: draft_topic_def stopped_def Let_def split: option.splits sum.splits prod.splits)
qed

definition settled :: "args \<Rightarrow> queue_run \<Rightarrow> bool" where
  "settled topic q \<longleftrightarrow>
     (\<exists>slug. topic_slug topic = Some slug \<and> qr_files q (slug @ ''.md'') \<noteq> None) \<or>
     aget topic ''topic_key'' \<in> fst ` set (qr_failed q)"

lemma draft_one_settles: "topic_slug topic \<noteq> None \<Longrightarrow> settled topic (draft_one E review topic q)"
  by (auto simp: settled_def draft_one_def Let_def dest: draft_topic_done split: sum.split)

lemma draft_one_failed: "set (qr_failed q) \<subseteq> set (qr_failed (draft_one E review topic q))"
  by (auto simp: draft_one_def Let_def split: sum.split)

lemma draft_all_failed: "draft_all env review force i topics q = Some q' \<Longrightarrow> set (qr_failed q) \<subseteq> set (qr_failed q')"
proof (induction topics arbitrary: i q)
  case (Cons topic topics)
  then show ?case
    using draft_one_failed[of q "env i" review topic] Cons.IH[of "i + 1" "q\<lparr>qr_skipped := qr_skipped q + 1\<rparr>"]
      Cons.IH[of "i + 1" "draft_one (env i) review topic q"]
    by (cases force) (auto split: option.splits bool.splits)
qed simp

lemma settled_stays: "settled topic q \<Longrightarrow> draft_all env review False i topics q = Some q' \<Longrightarrow> settled topic q'"
  using draft_all_keeps[of env review i topics q q'] draft_all_failed[of env review False i topics q q']
  by (fastforce simp: settled_def)

lemma draft_all_runs:
  "list_all (\<lambda>t. topic_slug t \<noteq> None) topics \<Longrightarrow>
   \<exists>q'. draft_all env review False i topics q = Some q' \<and> list_all (\<lambda>t. settled t q') topics"
proof (induction topics arbitrary: i q)
  case (Cons topic topics)
  obtain slug where slug: "topic_slug topic = Some slug" using Cons.prems by auto
  define q1 where "q1 = (if qr_files q (slug @ ''.md'') \<noteq> None then q\<lparr>qr_skipped := qr_skipped q + 1\<rparr> else draft_one (env i) review topic q)"
  have step: "draft_all env review False i (topic # topics) q = draft_all env review False (i + 1) topics q1"
    by (simp add: q1_def already_drafted_def slug)
  have "settled topic q1" using draft_one_settles[of topic "env i" review q] slug by (auto simp: q1_def settled_def)
  moreover obtain q' where "draft_all env review False (i + 1) topics q1 = Some q'" "list_all (\<lambda>t. settled t q') topics"
    using Cons.IH[of "i + 1" q1] Cons.prems by auto
  ultimately show ?case using settled_stays step by auto
qed simp

text \<open>C31: An article that is there is never written over by a run that was not told to, and one bad topic does not stop the
  queue. When some topic is selected and each has a key or an id, the run ends whatever fails in it: every draft file
  that was there keeps its content, every selected topic is counted once as drafted, failed or skipped, and at the end
  each of them has its article or is named among the failures.
\<close>

theorem existing_drafts_kept:
  assumes "chosen_topics only topics \<noteq> []" "list_all (\<lambda>t. topic_slug t \<noteq> None) (chosen_topics only topics)"
  shows "\<exists>q. wiki_draft env review False only topics fs = Some q \<and>
    (\<forall>slug c. fs (slug @ ''.md'') = Some c \<longrightarrow> qr_files q (slug @ ''.md'') = Some c) \<and>
    length (qr_done q) + length (qr_failed q) + qr_skipped q = length (chosen_topics only topics) \<and>
    (\<forall>t \<in> set (chosen_topics only topics).
       (\<exists>slug. topic_slug t = Some slug \<and> qr_files q (slug @ ''.md'') \<noteq> None) \<or>
       aget t ''topic_key'' \<in> fst ` set (qr_failed q))"
proof -
  let ?q0 = "\<lparr>qr_files = fs, qr_done = [], qr_failed = [], qr_skipped = 0\<rparr>"
  obtain q where q: "draft_all env review False 0 (chosen_topics only topics) ?q0 = Some q"
    "list_all (\<lambda>t. settled t q) (chosen_topics only topics)"
    using draft_all_runs[OF assms(2)] by blast
  have "wiki_draft env review False only topics fs = Some q" using q(1) assms(1) by (simp add: wiki_draft_def Let_def)
  moreover have "qr_files q (slug @ ''.md'') = Some c" if "fs (slug @ ''.md'') = Some c" for slug c
    using draft_all_keeps[OF q(1)] that by simp
  moreover have "length (qr_done q) + length (qr_failed q) + qr_skipped q = length (chosen_topics only topics)"
    using draft_all_counts[OF q(1)] by simp
  ultimately show ?thesis using q(2) by (auto simp: settled_def list_all_iff)
qed

subsection \<open>Concrete drafts\<close>

definition draft_demo_world :: bundle_world where
  "draft_demo_world = bundle_demo_world\<lparr>bw_find := (\<lambda>k s. if k = CjkName \<and> infix_of ''Ada'' s then [''Ada''] else [])\<rparr>"

definition demo_answer :: args where
  "demo_answer =
     [(''title'', PStr ''T''), (''summary'', PStr ''s''), (''article_markdown'', PStr ''a''), (''claims'', PList []),
      (''open_questions'', PList []), (''unused_evidence_refs'', PList [])]"

definition draft_demo_env :: draft_env where
  "draft_demo_env =
     \<lparr>de_bundle = draft_demo_world, de_config = bundle_demo_config,
      de_relay = demo_relay\<lparr>rw_loads := (\<lambda>s. Inr (PDict demo_answer))\<rparr>,
      de_llm = [(''model'', PStr ''m''), (''base_url'', PStr ''u''), (''api_key_env'', PStr ''K'')],
      de_params = demo_params, de_template = ''about {title}: {material}''\<rparr>"

definition draft_demo_topic :: args where
  "draft_demo_topic =
     [(''topic_key'', PStr ''t''), (''title'', PStr ''by Ada''), (''evidence'', PList [PDict [(''ref'', PStr ''mem:m1'')]])]"

definition demo_rulings_file :: "args option" where
  "demo_rulings_file = Some [(''redact'', PDict [(''Ada'', PStr ''NAME'')])]"

lemma demo_draft:
  "rs_calls (dr_call (draft_topic draft_demo_env demo_rulings_file draft_demo_topic Map.empty)) = 2"
  "\<not> isl (dr_result (draft_topic draft_demo_env demo_rulings_file draft_demo_topic Map.empty))"
  "dr_result (draft_topic draft_demo_env None draft_demo_topic Map.empty) = Inl (UnreviewedMaterial [''Ada''])"
  by code_simp+

text \<open>The fields of the topic itself are neither scrubbed nor looked at: the ruled-out name leaves in the title.\<close>

lemma topic_text_leaves:
  "draft_prompt (de_template draft_demo_env) draft_demo_topic ''m'' = ''about by Ada: m''"
  by code_simp

text \<open>
  A redraft that was asked for and whose call fails leaves the old article beside the new evidence, against which it
  will be checked.
\<close>

lemma failed_redraft_mixes:
  "(let E = draft_demo_env\<lparr>de_relay := demo_relay\<rparr>;
        fs = [''t.md'' \<mapsto> FText ''old'', ''t.bundle.json'' \<mapsto> FText ''old''];
        q = wiki_draft (\<lambda>_. E) demo_rulings_file True None [draft_demo_topic] fs
    in map_option (\<lambda>q. (qr_files q ''t.md'', qr_files q ''t.bundle.json'' = Some (FText ''old''), length (qr_failed q))) q) =
   Some (Some (FText ''old''), False, 1)"
  by code_simp

theorem draft_needs_rulings_witness:
  "\<exists>redactions cleared b m. load_review demo_rulings_file = Some (redactions, cleared) \<and>
     build_bundle draft_demo_world bundle_demo_config [''mem:m1''] True redactions cleared = Inr (b, m) \<and>
     ''Ada'' \<in> cleared \<union> fst ` set redactions"
proof -
  have refs: "topic_refs draft_demo_topic = Some [''mem:m1'']" by code_simp
  have l: "list_all (\<lambda>r. \<not> starts_with ''mem:sources/'' r) [''mem:m1'']" by code_simp
  have n: "0 < rs_calls (dr_call (draft_topic draft_demo_env demo_rulings_file draft_demo_topic Map.empty))"
    by (simp add: demo_draft(1))
  have E: "de_bundle draft_demo_env = draft_demo_world" "de_config draft_demo_env = bundle_demo_config"
    by (simp_all add: draft_demo_env_def)
  have "map (\<lambda>d. bw_find draft_demo_world CjkName (text_field d)) (found_memories draft_demo_world [''mem:m1'']) = [[''Ada'']]"
    by code_simp
  then obtain d where d: "d \<in> set (found_memories draft_demo_world [''mem:m1''])"
    "bw_find draft_demo_world CjkName (text_field d) = [''Ada'']" by auto
  from draft_needs_rulings[OF n refs l, unfolded E] obtain redactions cleared b m where
    r: "load_review demo_rulings_file = Some (redactions, cleared)"
      "build_bundle draft_demo_world bundle_demo_config [''mem:m1''] True redactions cleared = Inr (b, m)"
      "\<forall>d \<in> set (found_memories draft_demo_world [''mem:m1'']) \<union> set (found_sources draft_demo_world [''mem:m1'']).
         \<forall>k \<in> {CjkName, Email}. set (bw_find draft_demo_world k (text_field d)) \<subseteq> cleared \<union> fst ` set redactions" by blast
  have "set (bw_find draft_demo_world CjkName (text_field d)) \<subseteq> cleared \<union> fst ` set redactions" using r(3) d(1) by blast
  then show ?thesis using r(1,2) d(2) by auto
qed

text \<open>A topic whose call fails, one that has its article already, and one that is drafted after both.\<close>

definition demo_queue :: "args list" where
  "demo_queue = [draft_demo_topic, [(''id'', PStr ''u'')], aset ''topic_key'' (PStr ''w'') draft_demo_topic]"

definition demo_queue_env :: "nat \<Rightarrow> draft_env" where
  "demo_queue_env i = (if i = 0 then draft_demo_env\<lparr>de_relay := demo_relay\<rparr> else draft_demo_env)"

theorem existing_drafts_kept_witness:
  "\<exists>q. wiki_draft demo_queue_env demo_rulings_file False None demo_queue [''u.md'' \<mapsto> FText ''old''] = Some q \<and>
     qr_files q ''u.md'' = Some (FText ''old'') \<and> map fst (qr_failed q) = [PStr ''t''] \<and> qr_files q ''w.md'' \<noteq> None"
proof -
  let ?w = "wiki_draft demo_queue_env demo_rulings_file False None demo_queue [''u.md'' \<mapsto> FText ''old'']"
  have run: "map_option (\<lambda>q. map fst (qr_failed q)) ?w = Some [PStr ''t'']" by code_simp
  have queue: "chosen_topics None demo_queue = demo_queue" by (simp add: chosen_topics_def)
  have n: "chosen_topics None demo_queue \<noteq> []" "list_all (\<lambda>t. topic_slug t \<noteq> None) (chosen_topics None demo_queue)"
    unfolding queue by code_simp+
  from existing_drafts_kept[OF n, of demo_queue_env demo_rulings_file "[''u.md'' \<mapsto> FText ''old'']"]
  obtain q where q: "?w = Some q"
    "\<forall>slug c. ([''u.md'' \<mapsto> FText ''old''] :: folder) (slug @ ''.md'') = Some c \<longrightarrow> qr_files q (slug @ ''.md'') = Some c"
    "\<forall>t \<in> set demo_queue. (\<exists>slug. topic_slug t = Some slug \<and> qr_files q (slug @ ''.md'') \<noteq> None) \<or>
       aget t ''topic_key'' \<in> fst ` set (qr_failed q)"
    unfolding queue by (elim exE conjE)
  have old: "qr_files q ''u.md'' = Some (FText ''old'')" using q(2)[rule_format, of "''u''" "FText ''old''"] by simp
  let ?t = "aset ''topic_key'' (PStr ''w'') draft_demo_topic"
  have "topic_slug ?t = Some ''w''" "aget ?t ''topic_key'' = PStr ''w''" by code_simp+
  moreover have "?t \<in> set demo_queue" by (simp add: demo_queue_def)
  moreover have f: "map fst (qr_failed q) = [PStr ''t'']" using run q(1) by simp
  then have "PStr ''w'' \<notin> set (map fst (qr_failed q))" unfolding f by simp
  ultimately have "qr_files q (''w'' @ ''.md'') \<noteq> None"
    using bspec[OF q(3), of ?t] by (metis list.set_map option.inject)
  then show ?thesis using q(1) old f by simp
qed

theorem review_texts_scrubbed_witness:
  "\<exists>b' claims' topic'. sanitize_review_artifacts bundle_demo_engine bundle_demo_config demo_rulings_file ''text''
      [(''memories'', PList [PDict [(''text'', PStr ''Ada wrote'')]])] (PDict [(''summary'', PStr ''Ada'')]) PNone = Inr (b', claims', topic') \<and>
     list_all (\<lambda>s. \<not> infix_of ''Ada'' s) (leaf_texts claims' @ leaf_texts topic')"
proof -
  let ?b = "[(''memories'', PList [PDict [(''text'', PStr ''Ada wrote'')]])]"
  let ?c = "PDict [(''summary'', PStr ''Ada'')]"
  let ?rules = "[(''HOST'', Ipv4), (''USER'', AccountId), (''JOB'', JobId)]"
  let ?X = "scrub_artifacts bundle_demo_engine [(''Ada'', ''NAME'')] ?rules ?b ?c PNone"
  have rules: "sanitize_rules bundle_demo_config = Inr ?rules" by code_simp
  have rev: "load_review demo_rulings_file = Some ([(''Ada'', ''NAME'')], {})" by code_simp
  have "map_option (\<lambda>r. map snd (sn_assigned (snd r))) ?X = Some [''<NAME-1>'']" by code_simp
  then obtain b' claims' topic' S where X: "?X = Some ((b', claims', topic'), S)" and S: "map snd (sn_assigned S) = [''<NAME-1>'']"
    by (cases ?X) auto
  have "snd ` set (sn_assigned S) = {''<NAME-1>''}" using S by (metis list.set(1,2) list.set_map)
  then have o: "opaque ''Ada'' S" by (simp add: opaque_def infix_of_sublist[symmetric])
  have san: "sanitize_review_artifacts bundle_demo_engine bundle_demo_config demo_rulings_file ''text'' ?b ?c PNone = Inr (b', claims', topic')"
    using X rules by (simp add: sanitize_review_artifacts_def rev open_values_def aget_Cons aget_Nil entries_of_def as_dict_def dicts_of_def map_filter_simps)
  from review_texts_scrubbed[OF bundle_demo_engine_valid rev rules X _ o san] san show ?thesis
    by (auto simp: list_all_iff)
qed

end
