(* ===== verification/Batch.thy ===== *)
theory Batch
  imports Bundle "HOL-Library.Multiset"
begin

text \<open>
  How the store is cut into batches for topic profiling: \<^verbatim>\<open>src/src/memline/wiki/batch.py\<close>, the cursor of
  \<^verbatim>\<open>wiki/state.py\<close> and the command \<^verbatim>\<open>wiki plan\<close>. A memory is a JSON object; its \<^verbatim>\<open>created_at\<close> is a text and its
  \<^verbatim>\<open>metadata\<close> an object, as the store returns them. A Python dict is the list of its items in order of insertion.
  \<^verbatim>\<open>select_since\<close> walks a Python set of session ids in an order Python does not promise; the model takes the
  order of the sessions, and \<open>plan_order_free\<close> shows that no order makes a difference.
\<close>

subsection \<open>Memories\<close>

definition DEFAULT_MAX_MEMORIES :: int where
  "DEFAULT_MAX_MEMORIES = 275"

definition DEFAULT_PACK_THRESHOLD :: int where
  "DEFAULT_PACK_THRESHOLD = 60"

definition LEDGER_SOURCE :: string where
  "LEDGER_SOURCE = ''agent-memory-ledger''"

definition meta_of :: "args \<Rightarrow> args" where
  "meta_of m = as_dict (aget m ''metadata'')"

definition created_of :: "args \<Rightarrow> string" where
  "created_of m = take 19 (str_or_empty (aget m ''created_at''))"

definition id_text :: "args \<Rightarrow> string" where
  "id_text m = str_or_empty (aget m ''id'')"

definition date_span :: "args list \<Rightarrow> string list" where
  "date_span ms = (let dates = sort (map (\<lambda>m. take 10 (created_of m)) ms) in [hd dates, last dates])"

definition touched_at :: "args \<Rightarrow> string" where
  "touched_at m =
     (let stamps = [aget m ''created_at'', aget m ''updated_at'',
                    aget (meta_of m) ''ingested_at'', aget (meta_of m) ''updated_by_cli_at'']
      in foldl max [] (map (\<lambda>s. take 19 (py_str s)) (filter truthy stamps)))"

subsection \<open>Sessions\<close>

type_synonym session = "pyval \<times> args list"

fun add_to_session :: "pyval \<Rightarrow> args \<Rightarrow> session list \<Rightarrow> session list" where
  "add_to_session sid m [] = [(sid, [m])]"
| "add_to_session sid m ((s, g) # ss) = (if s = sid then (s, g @ [m]) # ss else (s, g) # add_to_session sid m ss)"

definition memory_key :: "args \<Rightarrow> string \<times> string" where
  "memory_key m = (created_of m, id_text m)"

definition in_ledger :: "string \<Rightarrow> args \<Rightarrow> bool" where
  "in_ledger ledger_source m \<longleftrightarrow>
     aget (meta_of m) ''source'' = PStr ledger_source \<or> \<not> truthy (aget (meta_of m) ''session_id'')"

fun group_sorted :: "string \<Rightarrow> args list \<Rightarrow> session list \<times> args list \<Rightarrow> session list \<times> args list" where
  "group_sorted src [] acc = acc"
| "group_sorted src (m # ms) (sessions, ledger) =
     (if in_ledger src m then group_sorted src ms (sessions, ledger @ [m])
      else group_sorted src ms (add_to_session (aget (meta_of m) ''session_id'') m sessions, ledger))"

definition group_by_session :: "string \<Rightarrow> args list \<Rightarrow> session list \<times> args list" where
  "group_by_session src ms = group_sorted src (sort_key memory_key ms) ([], [])"

definition select_since :: "string \<Rightarrow> string \<Rightarrow> args list \<Rightarrow> args list" where
  "select_since src since ms =
     (case group_by_session src ms of
        (sessions, ledger) \<Rightarrow>
          concat (map snd (filter (\<lambda>(sid, g). list_ex (\<lambda>m. since \<le> touched_at m) g) sessions)) @
          filter (\<lambda>m. since \<le> touched_at m) ledger)"

subsection \<open>Batches\<close>

datatype batch_kind = Session | SessionPart nat nat | Pack | Ledger

record batch =
  bt_kind :: batch_kind
  bt_session_ids :: "pyval list"
  bt_memory_ids :: "pyval list"
  bt_memory_count :: nat
  bt_span :: "string list"
  bt_sessions :: "(pyval \<times> pyval list \<times> string list) list"
  bt_batch_id :: string

definition key_of :: "args \<Rightarrow> pyval" where
  "key_of m = aget m ''id''"

text \<open>A batch of memories before its number is given.\<close>

definition batch_of :: "batch_kind \<Rightarrow> pyval list \<Rightarrow> args list \<Rightarrow> (pyval \<times> pyval list \<times> string list) list \<Rightarrow> batch" where
  "batch_of kind sids ms sessions =
     \<lparr>bt_kind = kind, bt_session_ids = sids, bt_memory_ids = map key_of ms, bt_memory_count = length ms,
      bt_span = date_span ms, bt_sessions = sessions, bt_batch_id = []\<rparr>"

definition flush_pack :: "batch list \<times> session list \<Rightarrow> batch list \<times> session list" where
  "flush_pack bp =
     (case bp of (batches, packing) \<Rightarrow>
        if packing = [] then (batches, packing)
        else (batches @ [batch_of (if 1 < length packing then Pack else Session) (map fst packing)
                           (concat (map snd packing))
                           (map (\<lambda>(sid, g). (sid, map key_of g, date_span g)) packing)], []))"

text \<open>\<^verbatim>\<open>[xs[i:i + n] for i in range(0, len(xs), n)]\<close>; a negative step yields nothing.\<close>

function chunks :: "nat \<Rightarrow> 'a list \<Rightarrow> 'a list list" where
  "chunks n xs = (if xs = [] \<or> n = 0 then [] else take n xs # chunks n (drop n xs))"
  by pat_completeness auto
termination
  by (relation "measure (\<lambda>(n, xs). length xs)") auto

declare chunks.simps [simp del]

definition py_chunks :: "int \<Rightarrow> 'a list \<Rightarrow> 'a list list" where
  "py_chunks n xs = (if n < 0 then [] else chunks (nat n) xs)"

definition session_parts :: "int \<Rightarrow> pyval \<Rightarrow> args list \<Rightarrow> batch list" where
  "session_parts max_memories sid g =
     (let parts = py_chunks max_memories g
      in map (\<lambda>(number, part). batch_of (SessionPart number (length parts)) [sid] part [])
           (zip [1..<length parts + 1] parts))"

definition pending_size :: "session list \<Rightarrow> int" where
  "pending_size packing = (\<Sum>(sid, g) \<leftarrow> packing. int (length g))"

definition place_session ::
  "int \<Rightarrow> int \<Rightarrow> session \<Rightarrow> batch list \<times> session list \<Rightarrow> batch list \<times> session list" where
  "place_session max_memories pack_threshold session bp =
     (case session of (sid, g) \<Rightarrow>
        if max_memories < int (length g) then
          (case flush_pack bp of (batches, packing) \<Rightarrow> (batches @ session_parts max_memories sid g, packing))
        else if pack_threshold \<le> int (length g) then
          (case flush_pack bp of (batches, packing) \<Rightarrow> flush_pack (batches, [(sid, g)]))
        else
          (case (if max_memories < pending_size (snd bp) + int (length g) then flush_pack bp else bp) of
             (batches, packing) \<Rightarrow> (batches, packing @ [(sid, g)])))"

definition batch_label :: "nat \<Rightarrow> string" where
  "batch_label n = CHR ''b'' # replicate (3 - length (show_nat n)) CHR ''0'' @ show_nat n"

definition number_batches :: "batch list \<Rightarrow> batch list" where
  "number_batches bs = map (\<lambda>(n, b). b\<lparr>bt_batch_id := batch_label n\<rparr>) (zip [0..<length bs] bs)"

text \<open>\<^verbatim>\<open>range\<close> with the step zero raises \<^verbatim>\<open>ValueError\<close>; the last loop always reaches it.\<close>

datatype plan_error = ZeroStep

definition plan_batches ::
  "string option \<Rightarrow> int \<Rightarrow> int \<Rightarrow> string \<Rightarrow> args list \<Rightarrow> plan_error + batch list" where
  "plan_batches since max_memories pack_threshold src ms0 =
     (let ms = (case since of None \<Rightarrow> ms0 | Some s \<Rightarrow> if s = [] then ms0 else select_since src s ms0)
      in case group_by_session src ms of (sessions, ledger) \<Rightarrow>
        let ordered = sort_key (\<lambda>(sid, g). created_of (hd g)) sessions
        in if max_memories = 0 then Inl ZeroStep
           else let batches = fst (flush_pack (fold (place_session max_memories pack_threshold) ordered ([], [])));
                    chunked = map (\<lambda>c. batch_of Ledger [] c []) (py_chunks max_memories ledger)
                in Inr (number_batches (batches @ chunked)))"

fun count_up :: "string \<Rightarrow> (string \<times> nat) list \<Rightarrow> (string \<times> nat) list" where
  "count_up k [] = [(k, 1)]"
| "count_up k ((k', n) # d) = (if k' = k then (k, n + 1) # d else (k', n) # count_up k d)"

fun kind_text :: "batch_kind \<Rightarrow> string" where
  "kind_text Session = ''session''"
| "kind_text (SessionPart n k) = ''session-part''"
| "kind_text Pack = ''pack''"
| "kind_text Ledger = ''ledger''"

record plan_totals =
  pt_batches :: nat
  pt_by_kind :: "(string \<times> nat) list"
  pt_sessions :: nat
  pt_in_sessions :: nat
  pt_in_ledger :: nat
  pt_largest :: nat

definition plan_summary :: "batch list \<Rightarrow> plan_totals" where
  "plan_summary bs =
     \<lparr>pt_batches = length bs, pt_by_kind = fold (\<lambda>b. count_up (kind_text (bt_kind b))) bs [],
      pt_sessions = length (dedup (concat (map bt_session_ids bs))),
      pt_in_sessions = sum_list (map bt_memory_count (filter (\<lambda>b. bt_kind b \<noteq> Ledger) bs)),
      pt_in_ledger = sum_list (map bt_memory_count (filter (\<lambda>b. bt_kind b = Ledger) bs)),
      pt_largest = foldl max 0 (map bt_memory_count bs)\<rparr>"

subsection \<open>The cursor\<close>

text \<open>
  \<^verbatim>\<open>wiki/state.py\<close>. \<open>file\<close> is what the JSON decoder finds in the state file, \<open>None\<close> when the file is missing,
  unreadable or not an object; \<open>hashes\<close> are the hashes of the documents when a source directory is given.
\<close>

definition EMPTY_STATE :: args where
  "EMPTY_STATE = [(''next_run'', PInt 1), (''last_compile_at'', PNone), (''boundary_memory_ids'', PList []),
     (''source_hashes'', PDict [])]"

definition read_state :: "args option \<Rightarrow> args" where
  "read_state file = (case file of None \<Rightarrow> EMPTY_STATE | Some d \<Rightarrow> dict_update EMPTY_STATE d)"

definition boundary_ids :: "args list \<Rightarrow> string \<Rightarrow> string list" where
  "boundary_ids ms started_at =
     sort (map (\<lambda>m. py_str (aget m ''id'')) (filter (\<lambda>m. take 19 (touched_at m) = take 19 started_at) ms))"

definition close_run :: "args option \<Rightarrow> string \<Rightarrow> args list \<Rightarrow> args option \<Rightarrow> args" where
  "close_run file started_at ms hashes =
     (let state = read_state file;
          run = (case aget state ''next_run'' of PInt i \<Rightarrow> if i = 0 then 1 else i | _ \<Rightarrow> 1)
      in [(''next_run'', PInt (run + 1)), (''last_compile_at'', PStr started_at),
          (''boundary_memory_ids'', PList (map PStr (boundary_ids ms started_at))),
          (''source_hashes'', (case hashes of Some h \<Rightarrow> PDict h | None \<Rightarrow> aget state ''source_hashes''))])"

subsection \<open>What a plan covers\<close>

lemma concat_chunks: "0 < n \<Longrightarrow> concat (chunks n xs) = xs"
  by (induction n xs rule: chunks.induct) (subst chunks.simps, auto)

lemma chunks_within: "c \<in> set (chunks n xs) \<Longrightarrow> c \<noteq> [] \<and> length c \<le> n"
  by (induction n xs rule: chunks.induct) (subst (asm) (2) chunks.simps, auto split: if_splits)

definition within_ceiling :: "int \<Rightarrow> batch \<Rightarrow> bool" where
  "within_ceiling n b \<longleftrightarrow> 0 < bt_memory_count b \<and> int (bt_memory_count b) \<le> n \<and> length (bt_memory_ids b) = bt_memory_count b"

text \<open>The memories of the sessions, placed or waiting.\<close>

definition placed_ids :: "batch list \<times> session list \<Rightarrow> pyval list" where
  "placed_ids bp = concat (map bt_memory_ids (fst bp)) @ map key_of (concat (map snd (snd bp)))"

lemma flush_ids [simp]: "placed_ids (flush_pack bp) = placed_ids bp"
  by (cases bp) (auto simp: flush_pack_def placed_ids_def batch_of_def)

lemma flush_empties: "snd (flush_pack bp) = []"
  by (cases bp) (auto simp: flush_pack_def)

definition packing_ok :: "int \<Rightarrow> batch list \<times> session list \<Rightarrow> bool" where
  "packing_ok n bp \<longleftrightarrow> (\<forall>b \<in> set (fst bp). within_ceiling n b) \<and> (\<forall>s \<in> set (snd bp). snd s \<noteq> []) \<and>
     pending_size (snd bp) \<le> n"

lemma pending_size_length: "pending_size ss = int (length (concat (map snd ss)))"
  by (induction ss) (auto simp: pending_size_def)

lemma flush_ok: "packing_ok n bp \<Longrightarrow> 0 < n \<Longrightarrow> packing_ok n (flush_pack bp)"
proof (cases bp)
  case (Pair bs pk)
  assume ok: "packing_ok n bp" and n: "0 < n"
  show ?thesis
  proof (cases "pk = []")
    case False
    then have "concat (map snd pk) \<noteq> []" using ok Pair by (cases pk) (auto simp: packing_ok_def)
    then have "0 < length (concat (map snd pk))" by blast
    then show ?thesis using ok n Pair False
      by (auto simp: packing_ok_def flush_pack_def within_ceiling_def batch_of_def pending_size_length pending_size_def)
  qed (use ok Pair in \<open>simp add: flush_pack_def\<close>)
qed

lemma session_parts_ids: "0 < n \<Longrightarrow> concat (map bt_memory_ids (session_parts n sid g)) = map key_of g"
proof -
  assume "0 < n"
  then have "concat (py_chunks n g) = g" by (simp add: py_chunks_def concat_chunks)
  moreover have "map bt_memory_ids (session_parts n sid g) = map (map key_of) (py_chunks n g)"
  proof -
    have "map bt_memory_ids (session_parts n sid g) =
        map (map key_of) (map snd (zip [1..<length (py_chunks n g) + 1] (py_chunks n g)))"
      by (rule nth_equalityI) (simp_all add: session_parts_def Let_def batch_of_def case_prod_unfold del: upt_Suc)
    also have "map snd (zip [1..<length (py_chunks n g) + 1] (py_chunks n g)) = py_chunks n g"
      by (rule map_snd_zip) (simp del: upt_Suc)
    finally show ?thesis .
  qed
  ultimately show ?thesis by (metis map_concat)
qed

lemma session_parts_ok: "0 < n \<Longrightarrow> b \<in> set (session_parts n sid g) \<Longrightarrow> within_ceiling n b"
  using chunks_within[of _ "nat n" g]
  by (fastforce simp: session_parts_def Let_def batch_of_def within_ceiling_def py_chunks_def dest: set_zip_rightD)

lemma place_ids: "0 < n \<Longrightarrow> placed_ids (place_session n k s bp) = placed_ids bp @ map key_of (snd s)"
proof (cases s)
  case (Pair sid g)
  assume n: "0 < n"
  have parts: "concat (map bt_memory_ids (session_parts n sid g)) = map key_of g" using session_parts_ids[OF n] .
  have fl: "concat (map bt_memory_ids (fst (flush_pack bp))) = placed_ids bp"
    using flush_ids[of bp] flush_empties[of bp] by (simp add: placed_ids_def del: flush_ids)
  have pl: "placed_ids (a, b @ [(sid, g)]) = placed_ids (a, b) @ map key_of g" for a b
    by (simp add: placed_ids_def)
  obtain a b where ab: "flush_pack bp = (a, b)" by fastforce
  have b: "b = []" using flush_empties[of bp] ab by simp
  have a: "concat (map bt_memory_ids a) = placed_ids bp" using fl ab by simp
  show ?thesis
    unfolding Pair place_session_def
    using parts a b ab pl flush_ids[of bp] flush_ids[of "(a, [(sid, g)])"]
    by (cases bp) (auto simp: placed_ids_def split: prod.splits simp del: flush_ids)
qed

lemma place_ok:
  assumes "0 < n" "packing_ok n bp" "snd s \<noteq> []"
  shows "packing_ok n (place_session n k s bp)"
proof -
  obtain sid g where s: "s = (sid, g)" by fastforce
  obtain a b where ab: "flush_pack bp = (a, b)" by fastforce
  have b: "b = []" using flush_empties[of bp] ab by simp
  have a: "packing_ok n (a, [])" using flush_ok[OF assms(2,1)] ab b by simp
  have one: "packing_ok n (a, [(sid, g)])" if "int (length g) \<le> n"
    using a assms(3) that s by (simp add: packing_ok_def pending_size_def)
  have "packing_ok n (place_session n k s bp)" if "n < int (length g)"
    using a b ab session_parts_ok[OF assms(1)] that s by (auto simp: place_session_def packing_ok_def)
  moreover have "packing_ok n (place_session n k s bp)" if "\<not> n < int (length g)" "k \<le> int (length g)"
    using flush_ok[OF one assms(1)] b ab that s by (simp add: place_session_def)
  moreover have "packing_ok n (place_session n k s bp)" if "\<not> n < int (length g)" "\<not> k \<le> int (length g)"
    using one b ab that s assms(2,3)
    by (cases bp) (auto simp: place_session_def packing_ok_def pending_size_def)
  ultimately show ?thesis by blast
qed

lemma place_all:
  assumes "0 < n" "packing_ok n bp" "\<forall>s \<in> set ss. snd s \<noteq> []"
  shows "placed_ids (fold (place_session n k) ss bp) = placed_ids bp @ map key_of (concat (map snd ss)) \<and>
    packing_ok n (fold (place_session n k) ss bp)"
  using assms(2,3)
proof (induction ss arbitrary: bp)
  case (Cons s ss)
  then show ?case using place_ok[OF assms(1), of bp s k] place_ids[OF assms(1), of k s bp] by simp
qed simp

text \<open>Grouping loses nothing and no group is empty.\<close>

lemma mset_add_to_session: "mset (concat (map snd (add_to_session sid m ss))) = mset (concat (map snd ss)) + {#m#}"
  by (induction sid m ss rule: add_to_session.induct) auto

lemma add_to_session_nonempty: "\<forall>s \<in> set ss. snd s \<noteq> [] \<Longrightarrow> \<forall>s \<in> set (add_to_session sid m ss). snd s \<noteq> []"
  by (induction sid m ss rule: add_to_session.induct) auto

lemma group_sorted_facts:
  "group_sorted src ms (ss, l) = (ss', l') \<Longrightarrow>
   mset (concat (map snd ss')) + mset l' = mset (concat (map snd ss)) + mset l + mset ms \<and>
   ((\<forall>s \<in> set ss. snd s \<noteq> []) \<longrightarrow> (\<forall>s \<in> set ss'. snd s \<noteq> []))"
proof (induction src ms "(ss, l)" arbitrary: ss l rule: group_sorted.induct)
  case (2 src m ms ss l)
  show ?case
  proof (cases "in_ledger src m")
    case True
    then show ?thesis using "2.hyps"(1)[OF True] "2.prems" by simp
  next
    case False
    let ?sid = "aget (meta_of m) ''session_id''"
    have "group_sorted src ms (add_to_session ?sid m ss, l) = (ss', l')" using "2.prems" False by simp
    note IH = "2.hyps"(2)[OF False this]
    note 1 = IH[THEN conjunct1] and 2 = IH[THEN conjunct2]
    have "mset (concat (map snd ss')) + mset l' = mset (concat (map snd ss)) + mset l + mset (m # ms)"
      unfolding 1 mset_add_to_session mset.simps by simp
    then show ?thesis using 2 add_to_session_nonempty[of ss] by blast
  qed
qed auto

lemma group_by_session_facts:
  assumes "group_by_session src ms = (ss, l)"
  shows "mset (concat (map snd ss)) + mset l = mset ms" "\<forall>s \<in> set ss. snd s \<noteq> []"
  using group_sorted_facts[OF assms[unfolded group_by_session_def]] by auto

lemma concat_sort_key: "mset (concat (map f (sort_key k xs))) = mset (concat (map f xs))"
  by (simp add: mset_concat flip: mset_map) (metis mset_map mset_sort sum_mset_sum_list)

definition planned :: "string option \<Rightarrow> string \<Rightarrow> args list \<Rightarrow> args list" where
  "planned since src ms = (case since of None \<Rightarrow> ms | Some s \<Rightarrow> if s = [] then ms else select_since src s ms)"

lemma number_batches_ids: "map bt_memory_ids (number_batches bs) = map bt_memory_ids bs"
  by (rule nth_equalityI) (simp_all add: number_batches_def)

lemma number_batches_ceiling: "(\<forall>b \<in> set (number_batches bs). within_ceiling n b) \<longleftrightarrow> (\<forall>b \<in> set bs. within_ceiling n b)"
  by (auto simp: number_batches_def within_ceiling_def all_set_conv_all_nth)

text \<open>C21: A plan is a partition within the ceiling. With a positive ceiling the plan never fails, every memory that was
  selected is in exactly one batch, exactly once, no batch is empty and none holds more memories than the ceiling; its
  count is the number of its memories.
\<close>

theorem plan_partitions:
  assumes "0 < max_memories"
  shows "\<exists>bs. plan_batches since max_memories pack_threshold src ms = Inr bs \<and>
    mset (concat (map bt_memory_ids bs)) = mset (map key_of (planned since src ms)) \<and>
    (\<forall>b \<in> set bs. 0 < bt_memory_count b \<and> int (bt_memory_count b) \<le> max_memories \<and>
       length (bt_memory_ids b) = bt_memory_count b)"
proof -
  obtain ss l where g: "group_by_session src (planned since src ms) = (ss, l)" by fastforce
  let ?ord = "sort_key (\<lambda>(sid, g). created_of (hd g)) ss"
  let ?f = "fold (place_session max_memories pack_threshold) ?ord ([], [])"
  let ?bs = "fst (flush_pack ?f) @ map (\<lambda>c. batch_of Ledger [] c []) (py_chunks max_memories l)"
  note facts = group_by_session_facts[OF g]
  have all: "placed_ids ?f = map key_of (concat (map snd ?ord))" "packing_ok max_memories ?f"
    using place_all[OF assms, of "([], [])" ?ord pack_threshold] facts(2) assms
    by (auto simp: placed_ids_def packing_ok_def pending_size_def)
  have "concat (map bt_memory_ids (fst (flush_pack ?f))) = placed_ids ?f"
    using flush_ids[of ?f] flush_empties[of ?f] by (simp add: placed_ids_def del: flush_ids)
  moreover have "concat (map (bt_memory_ids \<circ> (\<lambda>c. batch_of Ledger [] c [])) (py_chunks max_memories l)) = map key_of l"
    using concat_chunks[of "nat max_memories" l] assms
    by (simp add: py_chunks_def batch_of_def comp_def) (metis map_concat)
  ultimately have "mset (concat (map bt_memory_ids ?bs)) = image_mset key_of (mset (concat (map snd ss)) + mset l)"
    using all(1) concat_sort_key[of snd "\<lambda>(sid, g). created_of (hd g)" ss] by (simp del: mset_concat)
  moreover have "\<forall>b \<in> set ?bs. within_ceiling max_memories b"
    using flush_ok[OF all(2) assms] chunks_within[of _ "nat max_memories" l] assms
    by (fastforce simp: packing_ok_def within_ceiling_def batch_of_def py_chunks_def)
  ultimately show ?thesis
    using facts(1) assms g number_batches_ceiling[of ?bs max_memories]
    by (intro exI[of _ "number_batches ?bs"])
       (simp add: plan_batches_def planned_def Let_def number_batches_ids within_ceiling_def del: mset_concat)
qed

subsection \<open>The order of the store does not matter\<close>

lemma group_cong: "mset ms = mset ms' \<Longrightarrow> inj_on memory_key (set ms) \<Longrightarrow> group_by_session src ms = group_by_session src ms'"
  using sort_key_inj_key_eq[of ms "sort_key memory_key ms'" memory_key] by (simp add: group_by_session_def)

lemma set_group: "group_by_session src ms = (ss, l) \<Longrightarrow> set (concat (map snd ss)) \<union> set l = set ms"
  using group_by_session_facts(1)[of src ms ss l] by (metis mset_append set_append set_mset_mset)

lemma select_since_subset: "set (select_since src since ms) \<subseteq> set ms"
proof -
  obtain ss l where g: "group_by_session src ms = (ss, l)" by fastforce
  then have "set (select_since src since ms) \<subseteq> set (concat (map snd ss)) \<union> set l" by (auto simp: select_since_def)
  then show ?thesis using set_group[OF g] by simp
qed

lemma planned_subset: "set (planned since src ms) \<subseteq> set ms"
  using select_since_subset by (auto simp: planned_def split: option.splits if_splits)

lemma plan_batches_planned: "plan_batches since n k src ms = plan_batches None n k src (planned since src ms)"
  by (simp add: plan_batches_def planned_def Let_def split: option.split)

text \<open>Same input, same plan: the plan depends on which memories there are, not on the order in which the store returns
  them, and not on the order in which the incremental selection collects the sessions that moved. (No two memories
  share both creation second and id.)
\<close>

theorem plan_order_free:
  assumes "mset ms = mset ms'" "inj_on memory_key (set ms)"
  shows "plan_batches since n k src ms = plan_batches since n k src ms' \<and>
    (\<forall>out. mset out = mset (planned since src ms) \<longrightarrow> plan_batches None n k src out = plan_batches since n k src ms)"
proof -
  have sel: "select_since src s ms = select_since src s ms'" for s
    using group_cong[OF assms] by (simp add: select_since_def)
  have same: "plan_batches None n k src xs = plan_batches None n k src ys"
    if "mset xs = mset ys" "inj_on memory_key (set xs)" for xs ys
    using group_cong[OF that] by (simp add: plan_batches_def Let_def)
  have inj: "inj_on memory_key (set (planned since src ms))"
    using inj_on_subset[OF assms(2) planned_subset] .
  have "mset (planned since src ms) = mset (planned since src ms')"
    using assms(1) sel by (auto simp: planned_def split: option.split)
  from same[OF this inj] have "plan_batches since n k src ms = plan_batches since n k src ms'"
    by (simp add: plan_batches_planned[of since])
  moreover have "plan_batches None n k src out = plan_batches since n k src ms"
    if "mset out = mset (planned since src ms)" for out
    using same[OF that[symmetric] inj] by (simp add: plan_batches_planned[of since])
  ultimately show ?thesis by blast
qed

subsection \<open>What an incremental run reads\<close>

definition session_id_of :: "args \<Rightarrow> pyval" where
  "session_id_of m = aget (meta_of m) ''session_id''"

definition sessions_ok :: "session list \<Rightarrow> bool" where
  "sessions_ok ss \<longleftrightarrow> distinct (map fst ss) \<and> (\<forall>(sid, g) \<in> set ss. \<forall>m \<in> set g. session_id_of m = sid)"

lemma fst_add_to_session: "fst ` set (add_to_session sid m ss) = insert sid (fst ` set ss)"
  by (induction sid m ss rule: add_to_session.induct) auto

lemma add_to_session_ok: "sessions_ok ss \<Longrightarrow> session_id_of m = sid \<Longrightarrow> sessions_ok (add_to_session sid m ss)"
  using fst_add_to_session[of sid m]
  by (induction sid m ss rule: add_to_session.induct) (auto simp: sessions_ok_def)

lemma group_sorted_split:
  "group_sorted src ms (ss, l) = (ss', l') \<Longrightarrow> l' = l @ filter (in_ledger src) ms \<and> (sessions_ok ss \<longrightarrow> sessions_ok ss')"
proof (induction src ms "(ss, l)" arbitrary: ss l rule: group_sorted.induct)
  case (2 src m ms ss l)
  show ?case
  proof (cases "in_ledger src m")
    case True
    then show ?thesis using "2.hyps"(1)[OF True] "2.prems" by simp
  next
    case False
    then show ?thesis
      using "2.hyps"(2)[OF False] "2.prems" add_to_session_ok[of ss m "session_id_of m"] by (simp add: session_id_of_def)
  qed
qed auto

lemma group_split:
  assumes "group_by_session src ms = (ss, l)"
  shows "set l = {m \<in> set ms. in_ledger src m}" "sessions_ok ss"
    "set (concat (map snd ss)) = {m \<in> set ms. \<not> in_ledger src m}"
proof -
  note f = group_sorted_split[OF assms[unfolded group_by_session_def]]
  show l: "set l = {m \<in> set ms. in_ledger src m}" and "sessions_ok ss"
    using f by (auto simp: sessions_ok_def)
  have "mset l = filter_mset (in_ledger src) (mset ms)" using f by (simp add: mset_filter)
  then have "mset (concat (map snd ss)) = filter_mset (\<lambda>m. \<not> in_ledger src m) (mset ms)"
    using group_by_session_facts(1)[OF assms] multiset_partition[of "mset ms" "in_ledger src"]
    by (metis add.commute add_right_imp_eq)
  then have "set_mset (mset (concat (map snd ss))) = set_mset (filter_mset (\<lambda>m. \<not> in_ledger src m) (mset ms))" by metis
  then show "set (concat (map snd ss)) = {m \<in> set ms. \<not> in_ledger src m}" by simp
qed

lemma select_since_iff:
  assumes "m \<in> set ms"
  shows "m \<in> set (select_since src since ms) \<longleftrightarrow>
    (if in_ledger src m then since \<le> touched_at m
     else \<exists>m' \<in> set ms. \<not> in_ledger src m' \<and> session_id_of m' = session_id_of m \<and> since \<le> touched_at m')"
proof -
  obtain ss l where g: "group_by_session src ms = (ss, l)" by fastforce
  note sp = group_split[OF g]
  let ?late = "\<lambda>m'. since \<le> touched_at m'"
  have sel: "m \<in> set (select_since src since ms) \<longleftrightarrow>
      (\<exists>s \<in> set ss. m \<in> set (snd s) \<and> (\<exists>m' \<in> set (snd s). ?late m')) \<or> (m \<in> set l \<and> ?late m)"
    unfolding select_since_def g by (force simp: list_ex_iff)
  have grp: "m1 \<in> set ms \<and> \<not> in_ledger src m1 \<longleftrightarrow> (\<exists>s \<in> set ss. m1 \<in> set (snd s))" for m1
    using sp(3) by (simp add: set_eq_iff)
  have sid: "session_id_of m1 = fst s" if "s \<in> set ss" "m1 \<in> set (snd s)" for s m1
    using sp(2) that by (cases s) (auto simp: sessions_ok_def)
  have one: "s1 = s2" if "s1 \<in> set ss" "s2 \<in> set ss" "fst s1 = fst s2" for s1 s2
    using sp(2) that by (auto simp: sessions_ok_def distinct_map dest: inj_onD)
  show ?thesis
  proof (cases "in_ledger src m")
    case True
    then have "\<not> (\<exists>s \<in> set ss. m \<in> set (snd s))" using grp[of m] by blast
    moreover have "m \<in> set l" using True sp(1) assms by simp
    ultimately show ?thesis using sel True by auto
  next
    case False
    then obtain s where s: "s \<in> set ss" "m \<in> set (snd s)" using grp[of m] assms by blast
    have mates: "m' \<in> set (snd s) \<longleftrightarrow> m' \<in> set ms \<and> \<not> in_ledger src m' \<and> session_id_of m' = session_id_of m" for m'
      using grp[of m'] sid one s by metis
    have "m \<notin> set l" using False sp(1) by simp
    then have "m \<in> set (select_since src since ms) \<longleftrightarrow> (\<exists>m' \<in> set (snd s). ?late m')"
      using sel s sid one by metis
    then show ?thesis using False mates by auto
  qed
qed

lemma longer_text_le: "length t \<le> length c \<Longrightarrow> x \<noteq> [] \<Longrightarrow> (c @ x \<le> t) = (c < (t :: string))"
proof (induction c arbitrary: t)
  case Nil
  then show ?case by (cases x) auto
next
  case (Cons a c)
  then show ?case by (cases t) (auto simp: less_le)
qed

lemma touched_length: "length (touched_at m) \<le> 19"
proof -
  have "length (foldl max a xs) \<le> 19" if "length a \<le> 19" "\<forall>x \<in> set xs. length x \<le> 19" for a and xs :: "string list"
    using that by (induction xs arbitrary: a) (auto simp: max_def)
  then show ?thesis by (simp add: touched_at_def)
qed

text \<open>Resuming from a cursor. The cursor that \<^verbatim>\<open>read_all_memories\<close> hands on is a UTC second with its zone written out.
  A run that resumes from it reads a ledger memory exactly when it changed in a \<^emph>\<open>later\<close> second, and a session, whole,
  exactly when some memory of it did. A memory written in the second of the cursor after it was read is in neither
  run, and the ids that \<^verbatim>\<open>close_run\<close> records for that second are read by nothing.
\<close>

theorem resume_after_cursor:
  assumes "m \<in> set ms" "length second = 19" "zone \<noteq> []"
  shows "m \<in> set (planned (Some (second @ zone)) src ms) \<longleftrightarrow>
    (if in_ledger src m then second < touched_at m
     else \<exists>m' \<in> set ms. \<not> in_ledger src m' \<and> session_id_of m' = session_id_of m \<and> second < touched_at m')"
  using select_since_iff[OF assms(1), of src "second @ zone"] longer_text_le[of _ second zone] touched_length assms(2,3)
  by (simp add: planned_def)


subsection \<open>A small store\<close>

definition demo_memory :: "string \<Rightarrow> string \<Rightarrow> string \<Rightarrow> args" where
  "demo_memory mid stamp_text sid =
     [(''id'', PStr mid), (''created_at'', PStr stamp_text), (''metadata'', PDict [(''session_id'', PStr sid)])]"

definition demo_store :: "args list" where
  "demo_store =
     [demo_memory ''c'' ''2026-01-03T00:00:00+00:00'' ''s2'', demo_memory ''a'' ''2026-01-01T00:00:00+00:00'' ''s1'',
      demo_memory ''b'' ''2026-01-02T00:00:00+00:00'' ''s1'', demo_memory ''d'' ''2026-01-04T00:00:00+00:00'' []]"

lemma plan_partitions_witness:
  "\<exists>bs. plan_batches None 2 2 LEDGER_SOURCE demo_store = Inr bs \<and>
     mset (concat (map bt_memory_ids bs)) = mset [PStr ''c'', PStr ''a'', PStr ''b'', PStr ''d'']"
  using plan_partitions[of 2 None 2 LEDGER_SOURCE demo_store]
  by (auto simp: planned_def demo_store_def demo_memory_def key_of_def aget_Cons)

text \<open>The plan itself: the larger session alone, the smaller one, the ledger.\<close>

lemma demo_plan:
  "map_sum id (map (\<lambda>b. (bt_batch_id b, bt_kind b, bt_memory_ids b))) (plan_batches None 2 2 LEDGER_SOURCE demo_store) =
   Inr [(''b000'', Session, [PStr ''a'', PStr ''b'']), (''b001'', Session, [PStr ''c'']), (''b002'', Ledger, [PStr ''d''])]"
  by code_simp

lemma plan_order_free_witness:
  "plan_batches None 2 2 LEDGER_SOURCE (rev demo_store) = plan_batches None 2 2 LEDGER_SOURCE demo_store"
proof -
  have "inj_on memory_key (set (rev demo_store))"
    by (simp add: demo_store_def demo_memory_def memory_key_def id_text_def aget_Cons)
  then show ?thesis using plan_order_free[of "rev demo_store" demo_store None 2 2 LEDGER_SOURCE] by simp
qed

text \<open>The memory of the boundary second is left out.\<close>

lemma resume_after_cursor_witness:
  "demo_memory ''c'' ''2026-01-03T00:00:00+00:00'' ''s2'' \<notin>
     set (planned (Some (''2026-01-03T00:00:00'' @ ''+00:00'')) LEDGER_SOURCE demo_store)"
proof -
  let ?m = "demo_memory ''c'' ''2026-01-03T00:00:00+00:00'' ''s2''"
  have "\<not> list_ex (\<lambda>m'. \<not> in_ledger LEDGER_SOURCE m' \<and> session_id_of m' = session_id_of ?m \<and>
      ''2026-01-03T00:00:00'' < touched_at m') demo_store" by code_simp
  moreover have "\<not> in_ledger LEDGER_SOURCE ?m" by code_simp
  moreover have "?m \<in> set demo_store" by (simp add: demo_store_def)
  ultimately show ?thesis
    using resume_after_cursor[of ?m demo_store "''2026-01-03T00:00:00''" "''+00:00''" LEDGER_SOURCE]
    by (auto simp: list_ex_iff)
qed

lemma boundary_recorded: "boundary_ids demo_store ''2026-01-03T00:00:00+00:00'' = [''c'']"
  by code_simp

end
