(* ===== verification/Profiling.thy ===== *)
theory Profiling
  imports Drafting Batch
begin

text \<open>
  Profiling: \<^verbatim>\<open>src/src/memline/wiki/profile.py\<close>. Every batch of a plan is read by a model once; its answer is kept in a
  folder, one JSON artifact per batch. The pool runs the batches one after the other here: a batch only touches its own
  artifact, the placeholders of the shared sanitizer are numbered in the order of the runs. The hash of a text, the
  engine of the sanitizer and the relay that the \<open>i\<close>-th run meets are arguments.
\<close>

subsection \<open>Prompts\<close>

definition DOMAIN_MARKER :: string where "DOMAIN_MARKER = ''[[DOMAIN]]''"

definition default_prompt :: "(string \<Rightarrow> string) \<Rightarrow> string option \<Rightarrow> string \<Rightarrow> string" where
  "default_prompt shipped domain name =
     (let t = shipped name; nl = CHR 0x0A in
      if \<not> infix_of DOMAIN_MARKER t then t
      else case domain of
          Some (c # cs) \<Rightarrow> replace_all DOMAIN_MARKER (c # cs) t
        | _ \<Rightarrow> replace_all (''## Domain'' @ [nl, nl] @ DOMAIN_MARKER @ [nl, nl]) [] t)"

definition part_of :: "batch_kind \<Rightarrow> string" where
  "part_of k = (case k of SessionPart i n \<Rightarrow> show_nat i @ ''/'' @ show_nat n | _ \<Rightarrow> ''1/1'')"

definition id_list :: "pyval list \<Rightarrow> string list" where
  "id_list vs = map py_str vs"

definition profile_fields :: "batch \<Rightarrow> string \<Rightarrow> (string \<times> string) list" where
  "profile_fields b material =
     [(''batch_id'', bt_batch_id b), (''kind'', kind_text (bt_kind b)), (''span'', join ''..'' (bt_span b)),
      (''memory_count'', show_nat (bt_memory_count b)),
      (''session_count'', show_nat (if bt_sessions b \<noteq> [] then length (bt_sessions b) else length (bt_session_ids b))),
      (''session_ids'', (let t = join '', '' (id_list (bt_session_ids b)) in if t = [] then ''(none)'' else t)),
      (''part'', part_of (bt_kind b)), (''material'', material)]"

definition profile_prompt :: "string \<Rightarrow> batch \<Rightarrow> string \<Rightarrow> string" where
  "profile_prompt template b material = fill (profile_fields b material) template"

subsection \<open>Material\<close>

type_synonym rules = "(string \<times> rule) list"

definition one_memory :: "engine \<Rightarrow> rules \<Rightarrow> (string \<times> args) list \<Rightarrow> pyval \<Rightarrow> sanitizer \<Rightarrow> pyval \<times> sanitizer" where
  "one_memory rx rules texts mid S =
     (let row = (case map_of texts (py_str mid) of None \<Rightarrow> [] | Some r \<Rightarrow> r) in
      case scrub rx [] rules (str_or_empty (aget row ''memory'')) S of (t, S') \<Rightarrow>
        (PDict [(''id'', mid), (''date'', PStr (take 10 (str_or_empty (aget row ''created_at'')))), (''text'', PStr t)], S'))"

fun many_memories :: "engine \<Rightarrow> rules \<Rightarrow> (string \<times> args) list \<Rightarrow> pyval list \<Rightarrow> sanitizer \<Rightarrow> pyval list \<times> sanitizer" where
  "many_memories rx rules texts [] S = ([], S)"
| "many_memories rx rules texts (mid # mids) S =
     (case one_memory rx rules texts mid S of (v, S1) \<Rightarrow>
      case many_memories rx rules texts mids S1 of (vs, S2) \<Rightarrow> (v # vs, S2))"

fun session_groups ::
  "engine \<Rightarrow> rules \<Rightarrow> (string \<times> args) list \<Rightarrow> (pyval \<times> pyval list \<times> string list) list \<Rightarrow> sanitizer \<Rightarrow> pyval list \<times> sanitizer" where
  "session_groups rx rules texts [] S = ([], S)"
| "session_groups rx rules texts ((sid, mids, dates) # ss) S =
     (case many_memories rx rules texts mids S of (vs, S1) \<Rightarrow>
      case session_groups rx rules texts ss S1 of (gs, S2) \<Rightarrow>
        (PDict [(''session_id'', sid), (''span'', PStr (join ''..'' dates)), (''memories'', PList vs)] # gs, S2))"

definition batch_material :: "engine \<Rightarrow> rules \<Rightarrow> (string \<times> args) list \<Rightarrow> batch \<Rightarrow> sanitizer \<Rightarrow> string \<times> sanitizer" where
  "batch_material rx rules texts b S =
     (case (if bt_sessions b \<noteq> [] then session_groups rx rules texts (bt_sessions b) S
            else many_memories rx rules texts (bt_memory_ids b) S) of
        (vs, S') \<Rightarrow> (json_indent 0 (PList vs), S'))"

subsection \<open>Which batches are left to do\<close>

definition coverage_digest :: "(string \<Rightarrow> string) \<Rightarrow> batch \<Rightarrow> string" where
  "coverage_digest h b = h (join [CHR 0x0A] (sort (id_list (bt_memory_ids b))))"

definition artifact_name :: "string \<Rightarrow> string" where
  "artifact_name bid = bid @ ''.json''"

definition superseded_name :: "string \<Rightarrow> string \<Rightarrow> string" where
  "superseded_name bid covers = bid @ ''.superseded-'' @ take 12 covers @ ''.json''"

text \<open>\<open>None\<close> is an artifact of a shape that raises.\<close>

definition needs_profiling :: "(string \<Rightarrow> string) \<Rightarrow> batch \<Rightarrow> folder \<Rightarrow> (bool \<times> folder) option" where
  "needs_profiling h b fs =
     (let path = artifact_name (bt_batch_id b) in
      case fs path of
        None \<Rightarrow> Some (True, fs)
      | Some (FText _) \<Rightarrow> Some (True, fs)
      | Some (FJson (PDict d)) \<Rightarrow>
          if aget d ''covers'' = PStr (coverage_digest h b) then Some (False, fs)
          else (case (case map_of d ''covers'' of None \<Rightarrow> Some ''unknown'' | Some (PStr c) \<Rightarrow> Some c | Some _ \<Rightarrow> None) of
                  None \<Rightarrow> None
                | Some c \<Rightarrow>
                    let stale = superseded_name (bt_batch_id b) c in
                    Some (True, if fs stale = None then fs(stale := fs path, path := None) else fs))
      | Some (FJson _) \<Rightarrow> None)"

fun todo_of :: "(string \<Rightarrow> string) \<Rightarrow> batch list \<Rightarrow> folder \<Rightarrow> (batch list \<times> folder) option" where
  "todo_of h [] fs = Some ([], fs)"
| "todo_of h (b # bs) fs =
     (case needs_profiling h b fs of
        None \<Rightarrow> None
      | Some (wanted, fs1) \<Rightarrow>
          map_option (\<lambda>(todo, fs2). (if wanted then b # todo else todo, fs2)) (todo_of h bs fs1))"

subsection \<open>A pass\<close>

record profile_env =
  pe_digest :: "string \<Rightarrow> string"
  pe_engine :: engine
  pe_find :: "review_kind \<Rightarrow> string \<Rightarrow> string list"
  pe_config :: args
  pe_llm :: args
  pe_params :: call_params
  pe_template :: string
  pe_kinds :: "string list"
  pe_texts :: "(string \<times> args) list"
  pe_relay :: "nat \<Rightarrow> relay_world"
  pe_error :: "call_error \<Rightarrow> string"

record pass_state =
  ps_files :: folder
  ps_sanitizer :: sanitizer
  ps_results :: "(string \<times> string) list"
  ps_failures :: "pyval list"
  ps_calls :: nat

definition ok_record :: "(string \<Rightarrow> string) \<Rightarrow> batch \<Rightarrow> pyval \<Rightarrow> call_result \<Rightarrow> args" where
  "ok_record h b answer res =
     [(''batch_id'', PStr (bt_batch_id b)), (''status'', PStr ''ok''), (''profile'', answer),
      (''covers'', PStr (coverage_digest h b)), (''provenance'', PDict (provenance res)),
      (''batch'', PDict [(''kind'', PStr (kind_text (bt_kind b))), (''span'', PList (map PStr (bt_span b))),
                       (''memory_count'', PInt (int (bt_memory_count b))), (''session_ids'', PList (bt_session_ids b))])]"

definition status_record :: "string \<Rightarrow> string \<Rightarrow> string \<Rightarrow> args" where
  "status_record bid status detail =
     [(''batch_id'', PStr bid), (''status'', PStr status), (''detail'', PStr detail)]"

definition run_batch :: "profile_env \<Rightarrow> rules \<Rightarrow> nat \<Rightarrow> batch \<Rightarrow> pass_state \<Rightarrow> pass_state" where
  "run_batch E rules i b s =
     (case batch_material (pe_engine E) rules (pe_texts E) b (ps_sanitizer s) of (material, S') \<Rightarrow>
      case call_json (pe_relay E i) (pe_llm E) ''profile'' [] 4 ((pe_params E)\<lparr>cp_prompt := profile_prompt (pe_template E) b material\<rparr>) of
        (c, r) \<Rightarrow>
          let bid = bt_batch_id b;
              s1 = s\<lparr>ps_sanitizer := S', ps_calls := ps_calls s + rs_calls c\<rparr>;
              keep = (\<lambda>d s. s\<lparr>ps_files := (ps_files s)(artifact_name bid \<mapsto> FJson (PDict d))\<rparr>);
              say = (\<lambda>t s. s\<lparr>ps_results := ps_results s @ [(bid, t)]\<rparr>)
          in case r of
               Inr (answer, res) \<Rightarrow> say ''ok'' (keep (ok_record (pe_digest E) b answer res) s1)
             | Inl (Refused t) \<Rightarrow> say ''refused'' (keep (status_record bid ''refused'' t) s1)
             | Inl e \<Rightarrow>
                 (say ''failed'' s1)\<lparr>ps_failures := ps_failures s1 @ [PDict (status_record bid ''failed'' (pe_error E e))]\<rparr>)"

fun run_batches :: "profile_env \<Rightarrow> rules \<Rightarrow> nat \<Rightarrow> batch list \<Rightarrow> pass_state \<Rightarrow> pass_state" where
  "run_batches E rules i [] s = s"
| "run_batches E rules i (b # bs) s = run_batches E rules (i + 1) bs (run_batch E rules i b s)"

definition ids_with :: "string \<Rightarrow> (string \<times> string) list \<Rightarrow> string list" where
  "ids_with status rs = map fst (filter (\<lambda>r. snd r = status) rs)"

definition sanitization_report :: "profile_env \<Rightarrow> sanitizer \<Rightarrow> args" where
  "sanitization_report E S =
     [(''placeholder_counts'', PDict (map (\<lambda>(k, n). (k, PInt (int n))) (sn_counters S))),
      (''review_flags'', PList (take 200 (map flag_json
         (review_flags (pe_find E) (map (\<lambda>(mid, row). (mid, str_or_empty (aget row ''memory''))) (pe_texts E)) {}))))]"

record pass_summary =
  pm_profiled :: nat
  pm_refused :: "string list"
  pm_failed :: "string list"
  pm_skipped :: nat
  pm_counts :: "(string \<times> nat) list"

datatype profile_error = NoProfileRules bundle_error | OddArtifact

definition profile_batches ::
  "profile_env \<Rightarrow> batch list \<Rightarrow> folder \<Rightarrow> profile_error + folder \<times> pass_summary \<times> nat" where
  "profile_batches E plan fs =
     (case sanitize_rules (pe_config E) of
        Inl e \<Rightarrow> Inl (NoProfileRules e)
      | Inr rules \<Rightarrow>
          let candidates = filter (\<lambda>b. kind_text (bt_kind b) \<in> set (pe_kinds E)) plan in
          (case todo_of (pe_digest E) candidates fs of
             None \<Rightarrow> Inl OddArtifact
           | Some (todo, fs1) \<Rightarrow>
               let s = run_batches E rules 0 todo
                         \<lparr>ps_files = fs1, ps_sanitizer = new_sanitizer, ps_results = [], ps_failures = [], ps_calls = 0\<rparr>;
                   fs2 = (if ps_failures s = [] then ps_files s
                          else (ps_files s)(''_failures.json'' \<mapsto> FJson (PList (ps_failures s))));
                   fs3 = fs2(''_sanitization.json'' \<mapsto> FJson (PDict (sanitization_report E (ps_sanitizer s))))
               in Inr (fs3,
                    \<lparr>pm_profiled = length (ids_with ''ok'' (ps_results s)), pm_refused = ids_with ''refused'' (ps_results s),
                     pm_failed = ids_with ''failed'' (ps_results s), pm_skipped = length candidates - length todo,
                     pm_counts = sn_counters (ps_sanitizer s)\<rparr>,
                    ps_calls s)))"

subsection \<open>Documents\<close>

text \<open>A document: its path under the source directory, the stem of its name, its text. They come sorted by path.\<close>

record document =
  dc_path :: string
  dc_stem :: string
  dc_text :: string

definition source_fields :: "string \<Rightarrow> string \<Rightarrow> (string \<times> string) list" where
  "source_fields stem material =
     [(''batch_id'', stem), (''kind'', ''source''), (''span'', ''..''), (''memory_count'', ''0''), (''session_count'', ''0''),
      (''session_ids'', ''(none)''), (''part'', ''1/1''), (''material'', material)]"

text \<open>\<^verbatim>\<open>json.dumps(..., ensure_ascii=False)\<close> of the two texts on one line.\<close>

definition source_material_text :: "string \<Rightarrow> string \<Rightarrow> string" where
  "source_material_text path t =
     ''{'' @ json_string ''path'' @ '': '' @ json_string (''sources/'' @ path) @ '', '' @ json_string ''text'' @ '': '' @ json_string t @ ''}''"

definition run_source :: "profile_env \<Rightarrow> rules \<Rightarrow> nat \<Rightarrow> document \<Rightarrow> pass_state \<Rightarrow> pass_state" where
  "run_source E rules i doc s =
     (case scrub (pe_engine E) [] rules (dc_text doc) (ps_sanitizer s) of (t, S') \<Rightarrow>
      case call_json (pe_relay E i) (pe_llm E) ''profile'' [] 4
             ((pe_params E)\<lparr>cp_prompt := fill (source_fields (dc_stem doc) (source_material_text (dc_path doc) t)) (pe_template E)\<rparr>) of
        (c, r) \<Rightarrow>
          let bid = dc_stem doc;
              s1 = s\<lparr>ps_sanitizer := S', ps_calls := ps_calls s + rs_calls c\<rparr>;
              keep = (\<lambda>d s. s\<lparr>ps_files := (ps_files s)(artifact_name bid \<mapsto> FJson (PDict d))\<rparr>);
              say = (\<lambda>t s. s\<lparr>ps_results := ps_results s @ [(bid, t)]\<rparr>)
          in case r of
               Inr (answer, res) \<Rightarrow>
                 say ''ok'' (keep [(''batch_id'', PStr bid), (''status'', PStr ''ok''), (''profile'', answer),
                   (''provenance'', PDict (provenance res)),
                   (''batch'', PDict [(''kind'', PStr ''source''), (''source_path'', PStr (''sources/'' @ dc_path doc))])] s1)
             | Inl (Refused t) \<Rightarrow> say ''refused'' (keep (status_record bid ''refused'' t) s1)
             | Inl e \<Rightarrow> say ''failed'' s1)"

fun run_sources :: "profile_env \<Rightarrow> rules \<Rightarrow> nat \<Rightarrow> document list \<Rightarrow> pass_state \<Rightarrow> pass_state" where
  "run_sources E rules i [] s = s"
| "run_sources E rules i (d # ds) s = run_sources E rules (i + 1) ds (run_source E rules i d s)"

definition profile_sources :: "profile_env \<Rightarrow> document list \<Rightarrow> folder \<Rightarrow> profile_error + folder \<times> pass_summary \<times> nat" where
  "profile_sources E docs fs =
     (case sanitize_rules (pe_config E) of
        Inl e \<Rightarrow> Inl (NoProfileRules e)
      | Inr rules \<Rightarrow>
          let todo = filter (\<lambda>d. fs (artifact_name (dc_stem d)) = None) docs;
              s = run_sources E rules 0 todo
                    \<lparr>ps_files = fs, ps_sanitizer = new_sanitizer, ps_results = [], ps_failures = [], ps_calls = 0\<rparr>
          in Inr (ps_files s,
               \<lparr>pm_profiled = length (ids_with ''ok'' (ps_results s)), pm_refused = ids_with ''refused'' (ps_results s),
                pm_failed = ids_with ''failed'' (ps_results s), pm_skipped = length docs - length todo,
                pm_counts = sn_counters (ps_sanitizer s)\<rparr>,
               ps_calls s))"

subsection \<open>Passes are resumed\<close>

text \<open>A name that no other file of the folder can take: as the plan numbers its batches, no dot and no underscore.\<close>

definition plain_ids :: "batch list \<Rightarrow> bool" where
  "plain_ids bs \<longleftrightarrow> distinct (map bt_batch_id bs) \<and>
     list_all (\<lambda>b. CHR ''.'' \<notin> set (bt_batch_id b) \<and> CHR ''_'' \<notin> set (bt_batch_id b)) bs"

abbreviation artifact_of :: "batch \<Rightarrow> string" where
  "artifact_of b \<equiv> artifact_name (bt_batch_id b)"

definition covered :: "(string \<Rightarrow> string) \<Rightarrow> batch \<Rightarrow> folder \<Rightarrow> bool" where
  "covered h b fs \<longleftrightarrow> (\<exists>d. fs (artifact_of b) = Some (FJson (PDict d)) \<and> aget d ''covers'' = PStr (coverage_digest h b))"

lemma artifact_inject [simp]: "artifact_name x = artifact_name y \<longleftrightarrow> x = y"
  by (simp add: artifact_name_def)

lemma not_superseded:
  assumes "CHR ''.'' \<notin> set x"
  shows "superseded_name y c \<noteq> artifact_name x"
proof
  assume e: "superseded_name y c = artifact_name x"
  have "filter (\<lambda>c. c = CHR ''.'') x = []" using assms by (auto simp: filter_empty_conv)
  moreover have "length (filter (\<lambda>c. c = CHR ''.'') (superseded_name y c)) \<ge> 2" by (simp add: superseded_name_def)
  ultimately show False unfolding e by (simp add: artifact_name_def)
qed

lemma not_report:
  assumes "CHR ''_'' \<notin> set x"
  shows "artifact_name x \<noteq> ''_sanitization.json''" "artifact_name x \<noteq> ''_failures.json''"
  using assms by (cases x; auto simp: artifact_name_def)+

lemma needs_profiling_facts:
  assumes "needs_profiling h b fs = Some (wanted, fs1)"
  shows "(\<not> wanted \<longrightarrow> fs1 = fs \<and> covered h b fs)"
    "CHR ''.'' \<notin> set x \<Longrightarrow> x \<noteq> bt_batch_id b \<Longrightarrow> fs1 (artifact_name x) = fs (artifact_name x)"
  using assms not_superseded not_superseded[THEN not_sym]
  by (auto simp: needs_profiling_def Let_def covered_def split: option.splits content.splits pyval.splits if_splits)

lemma needs_profiling_covered: "covered h b fs \<Longrightarrow> needs_profiling h b fs = Some (False, fs)"
  by (auto simp: covered_def needs_profiling_def)

lemma plain_Cons:
  "plain_ids (b # bs) \<longleftrightarrow> bt_batch_id b \<notin> bt_batch_id ` set bs \<and> CHR ''.'' \<notin> set (bt_batch_id b) \<and>
     CHR ''_'' \<notin> set (bt_batch_id b) \<and> plain_ids bs"
  by (auto simp: plain_ids_def)

lemma plain_filter: "plain_ids bs \<Longrightarrow> plain_ids (filter Q bs)"
  by (auto simp: plain_ids_def distinct_map_filter list_all_iff)

lemma todo_of_facts:
  "plain_ids bs \<Longrightarrow> todo_of h bs fs = Some (todo, fs1) \<Longrightarrow>
   set todo \<subseteq> set bs \<and> plain_ids todo \<and> (\<forall>b \<in> set bs. b \<in> set todo \<or> covered h b fs1) \<and>
   (\<forall>x. CHR ''.'' \<notin> set x \<longrightarrow> x \<notin> bt_batch_id ` set bs \<longrightarrow> fs1 (artifact_name x) = fs (artifact_name x))"
proof (induction bs arbitrary: fs todo)
  case (Cons b bs)
  obtain wanted fs' where n: "needs_profiling h b fs = Some (wanted, fs')" using Cons.prems(2) by (auto split: option.splits)
  obtain rest where r: "todo_of h bs fs' = Some (rest, fs1)" "todo = (if wanted then b # rest else rest)"
    using Cons.prems(2) n by auto
  have p: "plain_ids bs" "bt_batch_id b \<notin> bt_batch_id ` set bs" "CHR ''.'' \<notin> set (bt_batch_id b)" "CHR ''_'' \<notin> set (bt_batch_id b)"
    using Cons.prems(1) by (auto simp: plain_Cons)
  note ih = Cons.IH[OF p(1) r(1)]
  have "covered h b fs1" if "\<not> wanted"
    using needs_profiling_facts(1)[OF n] that ih p(2,3) by (auto simp: covered_def)
  moreover have "plain_ids todo" using ih r(2) p by (auto simp: plain_Cons)
  ultimately show ?case using ih r(2) needs_profiling_facts(2)[OF n] by auto
qed (auto simp: plain_ids_def)

lemma todo_of_covered: "\<forall>b \<in> set bs. covered h b fs \<Longrightarrow> todo_of h bs fs = Some ([], fs)"
  by (induction bs) (auto simp: needs_profiling_covered)

lemma run_batch_result:
  "\<exists>t. ps_results (run_batch E rules i b s) = ps_results s @ [(bt_batch_id b, t)] \<and> t \<in> {''ok'', ''refused'', ''failed''} \<and>
     (t = ''ok'' \<longrightarrow> covered (pe_digest E) b (ps_files (run_batch E rules i b s))) \<and>
     (t = ''refused'' \<longrightarrow> (\<exists>w. ps_files (run_batch E rules i b s) (artifact_of b) = Some (FJson (PDict (status_record (bt_batch_id b) ''refused'' w))))) \<and>
     (\<forall>x. x \<noteq> bt_batch_id b \<longrightarrow> ps_files (run_batch E rules i b s) (artifact_name x) = ps_files s (artifact_name x))"
  by (auto simp: run_batch_def Let_def covered_def ok_record_def aget_Cons split: prod.split sum.split call_error.split)

lemma run_batches_files:
  "x \<notin> bt_batch_id ` set bs \<Longrightarrow> ps_files (run_batches E rules i bs s) (artifact_name x) = ps_files s (artifact_name x)"
proof (induction bs arbitrary: i s)
  case (Cons b bs)
  then show ?case using run_batch_result[of E rules i b s] by auto
qed simp

definition pass_ok :: "profile_env \<Rightarrow> batch list \<Rightarrow> (string \<times> string) list \<Rightarrow> folder \<Rightarrow> bool" where
  "pass_ok E bs rs fs \<longleftrightarrow> map fst rs = map bt_batch_id bs \<and>
     (\<forall>(bid, t) \<in> set rs. t \<in> {''ok'', ''refused'', ''failed''}) \<and>
     (\<forall>b \<in> set bs. (bt_batch_id b, ''ok'') \<in> set rs \<longrightarrow> covered (pe_digest E) b fs) \<and>
     (\<forall>b \<in> set bs. (bt_batch_id b, ''refused'') \<in> set rs \<longrightarrow>
        (\<exists>w. fs (artifact_of b) = Some (FJson (PDict (status_record (bt_batch_id b) ''refused'' w)))))"

lemma run_batches_results:
  "plain_ids bs \<Longrightarrow> \<exists>rs. ps_results (run_batches E rules i bs s) = ps_results s @ rs \<and>
     pass_ok E bs rs (ps_files (run_batches E rules i bs s))"
proof (induction bs arbitrary: i s)
  case (Cons b bs)
  let ?s1 = "run_batch E rules i b s" and ?fs = "ps_files (run_batches E rules (i + 1) bs (run_batch E rules i b s))"
  obtain t where t: "ps_results ?s1 = ps_results s @ [(bt_batch_id b, t)]" "t \<in> {''ok'', ''refused'', ''failed''}"
    "t = ''ok'' \<longrightarrow> covered (pe_digest E) b (ps_files ?s1)"
    "t = ''refused'' \<longrightarrow> (\<exists>w. ps_files ?s1 (artifact_of b) = Some (FJson (PDict (status_record (bt_batch_id b) ''refused'' w))))"
    using run_batch_result[of E rules i b s] by blast
  have p: "plain_ids bs" "bt_batch_id b \<notin> bt_batch_id ` set bs" using Cons.prems by (auto simp: plain_Cons)
  obtain rs where rs: "ps_results (run_batches E rules (i + 1) bs ?s1) = ps_results ?s1 @ rs" "pass_ok E bs rs ?fs"
    using Cons.IH[OF p(1)] by blast
  have same: "?fs (artifact_of b) = ps_files ?s1 (artifact_of b)" by (rule run_batches_files[OF p(2)])
  have "fst ` set rs = bt_batch_id ` set bs" using rs(2) unfolding pass_ok_def by (metis list.set_map)
  then have new: "(bt_batch_id b, u) \<notin> set rs" for u using p(2) by (metis fst_conv image_eqI)
  have other: "bt_batch_id c \<noteq> bt_batch_id b" if "c \<in> set bs" for c using that p(2) by (metis image_eqI)
  have "pass_ok E (b # bs) ((bt_batch_id b, t) # rs) ?fs"
    unfolding pass_ok_def
  proof (intro conjI)
    show "map fst ((bt_batch_id b, t) # rs) = map bt_batch_id (b # bs)" using rs(2) by (simp add: pass_ok_def)
    show "\<forall>(bid, t) \<in> set ((bt_batch_id b, t) # rs). t \<in> {''ok'', ''refused'', ''failed''}"
      using rs(2) t(2) by (auto simp: pass_ok_def)
    show "\<forall>c \<in> set (b # bs). (bt_batch_id c, ''ok'') \<in> set ((bt_batch_id b, t) # rs) \<longrightarrow> covered (pe_digest E) c ?fs"
      using rs(2) t(3) new other same by (auto simp: pass_ok_def covered_def)
    show "\<forall>c \<in> set (b # bs). (bt_batch_id c, ''refused'') \<in> set ((bt_batch_id b, t) # rs) \<longrightarrow>
        (\<exists>w. ?fs (artifact_of c) = Some (FJson (PDict (status_record (bt_batch_id c) ''refused'' w))))"
      using rs(2) t(4) new other same by (auto simp: pass_ok_def)
  qed
  then show ?case using rs(1) t(1) by (intro exI[of _ "(bt_batch_id b, t) # rs"]) simp
qed (simp add: pass_ok_def)

definition selected :: "profile_env \<Rightarrow> batch list \<Rightarrow> batch list" where
  "selected E plan = filter (\<lambda>b. kind_text (bt_kind b) \<in> set (pe_kinds E)) plan"

lemma profile_batches_facts:
  assumes "profile_batches E plan fs = Inr (fs', sm, n)" "plain_ids plan"
  obtains rs where
    "\<forall>(bid, t) \<in> set rs. t \<in> {''ok'', ''refused'', ''failed''}" "pm_refused sm = ids_with ''refused'' rs" "pm_failed sm = ids_with ''failed'' rs"
    "\<forall>b \<in> set (selected E plan). covered (pe_digest E) b fs' \<or> (\<exists>t. (bt_batch_id b, t) \<in> set rs \<and> t \<noteq> ''ok'')"
    "\<forall>b \<in> set (selected E plan). (bt_batch_id b, ''refused'') \<in> set rs \<longrightarrow>
       (\<exists>w. fs' (artifact_of b) = Some (FJson (PDict (status_record (bt_batch_id b) ''refused'' w))))"
    "fst ` set rs \<subseteq> bt_batch_id ` set (selected E plan)"
proof -
  obtain rules where rules: "sanitize_rules (pe_config E) = Inr rules"
    using assms(1) by (cases "sanitize_rules (pe_config E)") (auto simp: profile_batches_def)
  obtain todo fs1 where todo: "todo_of (pe_digest E) (selected E plan) fs = Some (todo, fs1)"
    using assms(1) rules by (auto simp: profile_batches_def selected_def Let_def split: option.splits)
  let ?init = "\<lparr>ps_files = fs1, ps_sanitizer = new_sanitizer, ps_results = [], ps_failures = [], ps_calls = 0\<rparr>"
  let ?s = "run_batches E rules 0 todo ?init"
  have p: "plain_ids (selected E plan)" using plain_filter[OF assms(2)] by (simp add: selected_def)
  note tf = todo_of_facts[OF p todo]
  have pt: "plain_ids todo" using tf by simp
  obtain rs where rs1: "ps_results ?s = ps_results ?init @ rs" and pass: "pass_ok E todo rs (ps_files ?s)"
    using run_batches_results[OF pt, of E rules 0 ?init] by (elim exE conjE) (rule that)
  have rs: "ps_results ?s = rs" "map fst rs = map bt_batch_id todo" "\<forall>(bid, t) \<in> set rs. t \<in> {''ok'', ''refused'', ''failed''}"
    using rs1 pass by (simp_all add: pass_ok_def)
  have out: "pm_refused sm = ids_with ''refused'' rs" "pm_failed sm = ids_with ''failed'' rs"
    "CHR ''_'' \<notin> set x \<Longrightarrow> fs' (artifact_name x) = ps_files ?s (artifact_name x)" for x
    using assms(1) rules todo rs(1) not_report[of x] by (auto simp: profile_batches_def selected_def Let_def)
  have named: "CHR ''_'' \<notin> set (bt_batch_id b)" if "b \<in> set (selected E plan)" for b
    using p that by (auto simp: plain_ids_def list_all_iff)
  have ids: "fst ` set rs = bt_batch_id ` set todo" using rs(2) by (metis list.set_map)
  have only: "b \<in> set todo" if sel: "b \<in> set (selected E plan)" and res: "bt_batch_id b \<in> fst ` set rs" for b
  proof -
    obtain c where c: "c \<in> set todo" "bt_batch_id c = bt_batch_id b" using res ids by auto
    then have "c \<in> set (selected E plan)" using tf by auto
    then show ?thesis using c sel p by (auto simp: plain_ids_def distinct_map inj_on_def)
  qed
  have "covered (pe_digest E) b fs' \<or> (\<exists>t. (bt_batch_id b, t) \<in> set rs \<and> t \<noteq> ''ok'')" if "b \<in> set (selected E plan)" for b
  proof (cases "b \<in> set todo")
    case True
    then have "bt_batch_id b \<in> fst ` set rs" using ids by simp
    then obtain t where t: "(bt_batch_id b, t) \<in> set rs" by force
    then show ?thesis using pass True out(3)[OF named[OF that]] unfolding pass_ok_def covered_def by auto
  next
    case False
    then have "covered (pe_digest E) b fs1" using tf that by auto
    moreover have "bt_batch_id b \<notin> bt_batch_id ` set todo" using False only[OF that] ids by auto
    then have "ps_files ?s (artifact_of b) = fs1 (artifact_of b)" by (simp add: run_batches_files)
    ultimately show ?thesis using out(3)[OF named[OF that]] by (simp add: covered_def)
  qed
  moreover have "\<exists>w. fs' (artifact_of b) = Some (FJson (PDict (status_record (bt_batch_id b) ''refused'' w)))"
    if "b \<in> set (selected E plan)" "(bt_batch_id b, ''refused'') \<in> set rs" for b
    using pass only[OF that(1)] that(2) out(3)[OF named[OF that(1)]] unfolding pass_ok_def by force
  moreover have "fst ` set rs \<subseteq> bt_batch_id ` set (selected E plan)" using ids tf by auto
  ultimately show ?thesis using that[OF rs(3) out(1,2)] by blast
qed

text \<open>C28: A finished pass is not paid for twice. After a pass in which no batch failed and none was refused, the same plan
  over the folder it left makes no request, whatever the endpoints would answer now, skips every selected batch and
  leaves every artifact as it is.
\<close>

theorem second_pass_is_free:
  assumes "profile_batches E plan fs = Inr (fs', sm, n)" "plain_ids plan" "pm_refused sm = []" "pm_failed sm = []"
  shows "\<exists>fs'' sm'. profile_batches (E\<lparr>pe_relay := relay\<rparr>) plan fs' = Inr (fs'', sm', 0) \<and>
    pm_profiled sm' = 0 \<and> pm_skipped sm' = length (selected E plan) \<and>
    (\<forall>b \<in> set plan. fs'' (artifact_of b) = fs' (artifact_of b))"
proof -
  obtain rules where rules: "sanitize_rules (pe_config E) = Inr rules"
    using assms(1) by (cases "sanitize_rules (pe_config E)") (auto simp: profile_batches_def)
  obtain rs where rs: "\<forall>(bid, t) \<in> set rs. t \<in> {''ok'', ''refused'', ''failed''}" "pm_refused sm = ids_with ''refused'' rs"
    "pm_failed sm = ids_with ''failed'' rs"
    "\<forall>b \<in> set (selected E plan). covered (pe_digest E) b fs' \<or> (\<exists>t. (bt_batch_id b, t) \<in> set rs \<and> t \<noteq> ''ok'')"
    using profile_batches_facts[OF assms(1,2)] by metis
  have "t = ''ok''" if "(bid, t) \<in> set rs" for bid t
    using that rs(1-3) assms(3,4) by (fastforce simp: ids_with_def filter_empty_conv)
  then have "\<forall>b \<in> set (selected E plan). covered (pe_digest E) b fs'" using rs(4) by blast
  from todo_of_covered[OF this] have todo: "todo_of (pe_digest E) (selected E plan) fs' = Some ([], fs')" .
  have "(fs'(''_sanitization.json'' \<mapsto> v)) (artifact_of b) = fs' (artifact_of b)" if "b \<in> set plan" for b v
    using that assms(2) not_report(1)[of "bt_batch_id b"] by (auto simp: plain_ids_def list_all_iff)
  then show ?thesis
    using rules todo by (auto simp: profile_batches_def Let_def selected_def ids_with_def)
qed

text \<open>A refused batch is asked again. The artifact that records a refusal does not say which memories it covered, so
  the next pass over the same plan takes the batch for a changed one and sends the same material again.
\<close>

theorem refusal_is_asked_again:
  assumes "profile_batches E plan fs = Inr (fs', sm, n)" "plain_ids plan" "bid \<in> set (pm_refused sm)"
  shows "\<exists>b \<in> set plan. bt_batch_id b = bid \<and> map_option fst (needs_profiling (pe_digest E) b fs') = Some True"
proof -
  obtain rs where rs: "pm_refused sm = ids_with ''refused'' rs" "fst ` set rs \<subseteq> bt_batch_id ` set (selected E plan)"
    "\<forall>b \<in> set (selected E plan). (bt_batch_id b, ''refused'') \<in> set rs \<longrightarrow>
       (\<exists>w. fs' (artifact_of b) = Some (FJson (PDict (status_record (bt_batch_id b) ''refused'' w))))"
    using profile_batches_facts[OF assms(1,2)] by metis
  have r: "(bid, ''refused'') \<in> set rs" using assms(3) rs(1) by (auto simp: ids_with_def)
  then obtain b where b: "b \<in> set (selected E plan)" "bt_batch_id b = bid" using rs(2) by force
  then obtain w where "fs' (artifact_of b) = Some (FJson (PDict (status_record bid ''refused'' w)))" using rs(3) r by blast
  then have "map_option fst (needs_profiling (pe_digest E) b fs') = Some True"
    by (simp add: needs_profiling_def Let_def status_record_def aget_Cons aget_Nil)
  then show ?thesis using b by (auto simp: selected_def)
qed

subsection \<open>Concrete passes\<close>

definition profile_demo_env :: "relay_world \<Rightarrow> profile_env" where
  "profile_demo_env W =
     \<lparr>pe_digest = (\<lambda>s. s), pe_engine = bundle_demo_engine, pe_find = (\<lambda>k s. []), pe_config = bundle_demo_config,
      pe_llm = [(''model'', PStr ''m''), (''base_url'', PStr ''u''), (''api_key_env'', PStr ''K'')],
      pe_params = demo_params, pe_template = ''{material}'', pe_kinds = [''session'', ''pack'', ''session-part''],
      pe_texts = [(''m1'', [(''memory'', PStr ''at 10.0.0.1'')])], pe_relay = (\<lambda>_. W), pe_error = (\<lambda>_. ''e'')\<rparr>"

definition answering :: relay_world where
  "answering = demo_relay\<lparr>rw_loads := (\<lambda>s. Inr (PDict []))\<rparr>"

definition refusing :: relay_world where
  "refusing = demo_relay\<lparr>rw_stream := (\<lambda>n e key p mt t. demo_streamed [] (Some (''E'', ''High Risk'')))\<rparr>"

definition demo_session_batch :: batch where
  "demo_session_batch =
     \<lparr>bt_kind = Session, bt_session_ids = [PStr ''s''], bt_memory_ids = [PStr ''m1''], bt_memory_count = 1,
      bt_span = [''a'', ''b''], bt_sessions = [], bt_batch_id = ''b000''\<rparr>"

lemma demo_plain: "plain_ids [demo_session_batch]"
  by code_simp

lemma demo_passes:
  "map_sum id (\<lambda>(fs, sm, n). (pm_profiled sm, pm_refused sm, pm_failed sm, n)) (profile_batches (profile_demo_env answering) [demo_session_batch] Map.empty) = Inr (1, [], [], 2)"
  "map_sum id (\<lambda>(fs, sm, n). (pm_profiled sm, pm_refused sm, pm_failed sm, n)) (profile_batches (profile_demo_env refusing) [demo_session_batch] Map.empty) = Inr (0, [''b000''], [], 1)"
  by code_simp+

text \<open>The address in the memory is a placeholder in what is sent.\<close>

lemma demo_material_scrubbed:
  "fst (many_memories bundle_demo_engine [(''HOST'', Ipv4)] [(''m1'', [(''memory'', PStr ''at 10.0.0.1'')])] [PStr ''m1''] new_sanitizer) =
   [PDict [(''id'', PStr ''m1''), (''date'', PStr []), (''text'', PStr ''at <HOST-1>'')]]"
  by code_simp

theorem second_pass_is_free_witness:
  "\<exists>fs' sm n. profile_batches (profile_demo_env answering) [demo_session_batch] Map.empty = Inr (fs', sm, n) \<and>
     (\<exists>fs'' sm'. profile_batches ((profile_demo_env answering)\<lparr>pe_relay := (\<lambda>_. refusing)\<rparr>) [demo_session_batch] fs' = Inr (fs'', sm', 0) \<and>
        pm_skipped sm' = 1)"
proof -
  obtain fs' sm n where p: "profile_batches (profile_demo_env answering) [demo_session_batch] Map.empty = Inr (fs', sm, n)"
    and none: "pm_refused sm = []" "pm_failed sm = []"
    using demo_passes(1) by (cases "profile_batches (profile_demo_env answering) [demo_session_batch] Map.empty") auto
  have "length (selected (profile_demo_env answering) [demo_session_batch]) = 1" by code_simp
  with second_pass_is_free[OF p demo_plain none, of "\<lambda>_. refusing"] p show ?thesis by fastforce
qed

theorem refusal_is_asked_again_witness:
  "\<exists>fs' sm n. profile_batches (profile_demo_env refusing) [demo_session_batch] Map.empty = Inr (fs', sm, n) \<and>
     map_option fst (needs_profiling (\<lambda>s. s) demo_session_batch fs') = Some True"
proof -
  obtain fs' sm n where p: "profile_batches (profile_demo_env refusing) [demo_session_batch] Map.empty = Inr (fs', sm, n)"
    and r: "pm_refused sm = [''b000'']"
    using demo_passes(2) by (cases "profile_batches (profile_demo_env refusing) [demo_session_batch] Map.empty") auto
  have "pe_digest (profile_demo_env refusing) = (\<lambda>s. s)" by (simp add: profile_demo_env_def)
  then show ?thesis using refusal_is_asked_again[OF p demo_plain, of "''b000''"] p r by simp
qed

text \<open>
  A document is done once a file with its stem exists: a document that changed is not read again, and of two documents
  with one stem in different directories only the last answer is kept.
\<close>

definition demo_docs :: "string \<Rightarrow> document list" where
  "demo_docs t = [\<lparr>dc_path = ''a/plan.md'', dc_stem = ''plan'', dc_text = t\<rparr>, \<lparr>dc_path = ''b/plan.md'', dc_stem = ''plan'', dc_text = t\<rparr>]"

lemma demo_sources:
  "map_sum id (\<lambda>(fs, sm, n).
      (pm_profiled sm,
       (case fs ''plan.json'' of Some (FJson (PDict d)) \<Rightarrow> aget (as_dict (aget d ''batch'')) ''source_path'' | _ \<Rightarrow> PNone),
       map_sum id (\<lambda>(fs, sm, n). (pm_skipped sm, n)) (profile_sources (profile_demo_env answering) (demo_docs ''new'') fs)))
     (profile_sources (profile_demo_env answering) (demo_docs ''old'') Map.empty) =
   Inr (2, PStr ''sources/b/plan.md'', Inr (2, 0))"
  by code_simp

end
