(* ===== verification/Review_Report.thy ===== *)
theory Review_Report
  imports Adjudication Endpoints
begin

text \<open>
  Grading what a reviewer sent back: \<^verbatim>\<open>src/src/memline/wiki/review_report.py\<close>. The report is the JSON object a model
  answered with. The review bundle is the document that \<^verbatim>\<open>build_review_bundle\<close> compiled; its claim packets and its
  citations are read as objects, where the code would raise on a damaged bundle. Problems are collected as the JSON
  objects the code appends, in its order.
\<close>

subsection \<open>Closed sets\<close>

definition CLAIM_VERDICTS :: "string set" where
  "CLAIM_VERDICTS = {''supported'', ''partially_supported'', ''contradicted'', ''unverifiable'', ''superseded_misused''}"

definition SCOPE_VERDICTS :: "string set" where
  "SCOPE_VERDICTS = {''in_scope'', ''minor_drift'', ''major_drift'', ''unverifiable''}"

definition OVERALL_VERDICTS :: "string set" where
  "OVERALL_VERDICTS = {''pass'', ''revise'', ''reject''}"

definition CONFIDENCE :: "string set" where
  "CONFIDENCE = {''high'', ''medium'', ''low''}"

definition SEVERITIES :: "string set" where
  "SEVERITIES = {''info'', ''warning'', ''error'', ''critical''}"

definition VERDICT_RANK :: "(string \<times> nat) list" where
  "VERDICT_RANK = [(''supported'', 0), (''unverifiable'', 1), (''partially_supported'', 2), (''superseded_misused'', 3),
     (''contradicted'', 4)]"

definition OVERALL_RANK :: "(string \<times> nat) list" where
  "OVERALL_RANK = [(''pass'', 0), (''revise'', 1), (''reject'', 2)]"

text \<open>\<^verbatim>\<open>RANK.get(v, 0)\<close>.\<close>

definition rank_of :: "(string \<times> nat) list \<Rightarrow> pyval \<Rightarrow> nat" where
  "rank_of ranks v = (case v of PStr s \<Rightarrow> (case map_of ranks s of None \<Rightarrow> 0 | Some n \<Rightarrow> n) | _ \<Rightarrow> 0)"

subsection \<open>The review bundle\<close>

definition list_items :: "pyval \<Rightarrow> pyval list" where
  "list_items v = (case v of PList vs \<Rightarrow> vs | _ \<Rightarrow> [])"

definition packets_of :: "args \<Rightarrow> args list" where
  "packets_of bundle = map as_dict (list_items (aget bundle ''claim_packets''))"

definition packet_id :: "args \<Rightarrow> string" where
  "packet_id p = py_str (aget p ''claim_id'')"

definition resolved_refs :: "args \<Rightarrow> string list" where
  "resolved_refs p =
     List.map_filter (\<lambda>c. case aget (as_dict c) ''resolved_ref'' of PStr s \<Rightarrow> if s = [] then None else Some s | _ \<Rightarrow> None)
       (list_items (aget p ''citations''))"

text \<open>\<^verbatim>\<open>expected\<close>: a packet met later replaces one of the same id.\<close>

definition expected_ids :: "args \<Rightarrow> string list" where
  "expected_ids bundle = dedup (map packet_id (packets_of bundle))"

definition expected_packet :: "args \<Rightarrow> string \<Rightarrow> args option" where
  "expected_packet bundle cid = map_of (rev (map (\<lambda>p. (packet_id p, p)) (packets_of bundle))) cid"

definition known_refs :: "args \<Rightarrow> string set" where
  "known_refs bundle =
     set (map (\<lambda>v. py_str (aget (as_dict v) ''ref'')) (list_items (aget bundle ''uncited_evidence''))) \<union>
     set (concat (map resolved_refs (packets_of bundle)))"

definition deterministic_clean :: "args \<Rightarrow> bool" where
  "deterministic_clean bundle \<longleftrightarrow> truthy (aget (as_dict (aget bundle ''deterministic_report'')) ''clean'')"

subsection \<open>Problems\<close>

definition problem :: "string \<Rightarrow> (string \<times> pyval) list \<Rightarrow> args" where
  "problem kind details = (''kind'', PStr kind) # details"

definition flag_if :: "bool \<Rightarrow> args \<Rightarrow> args list" where
  "flag_if b p = (if b then [p] else [])"

text \<open>A membership test whose failure is a problem.\<close>

definition must_be_in :: "pyval \<Rightarrow> string set \<Rightarrow> args \<Rightarrow> wiki_error + args list" where
  "must_be_in v S p = and_then (hash_in v S) (\<lambda>known. Inr (flag_if (\<not> known) p))"

text \<open>\<^verbatim>\<open>any(ref not in known for ref in refs)\<close> stops at the first unknown one.\<close>

fun any_unknown :: "string set \<Rightarrow> pyval list \<Rightarrow> wiki_error + bool" where
  "any_unknown known [] = Inr False"
| "any_unknown known (r # rs) = and_then (hash_in r known) (\<lambda>b. if b then any_unknown known rs else Inr True)"

definition refs_outside :: "string set \<Rightarrow> pyval \<Rightarrow> wiki_error + bool" where
  "refs_outside known v =
     (case (if truthy v then v else PList []) of PList rs \<Rightarrow> any_unknown known rs | _ \<Rightarrow> Inr True)"

text \<open>\<^verbatim>\<open>dict(sorted(Counter(xs).items()))\<close>.\<close>

definition counter :: "string list \<Rightarrow> (string \<times> nat) list" where
  "counter xs = map (\<lambda>k. (k, count_list xs k)) (sort (dedup xs))"

definition label_of :: "pyval \<Rightarrow> string" where
  "label_of v = (case v of PStr s \<Rightarrow> s | _ \<Rightarrow> ''<invalid>'')"

subsection \<open>Omissions\<close>

definition quote_problems :: "string \<Rightarrow> nat \<Rightarrow> args \<Rightarrow> args list" where
  "quote_problems article index item =
     (let quotes = aget item ''article_quotes'';
          asserts_a_leak = (aget item ''kind'' = PStr ''sensitivity'' \<and>
            aget item ''severity'' \<in> {PStr ''warning'', PStr ''error'', PStr ''critical''}) in
      if asserts_a_leak \<and> \<not> truthy quotes
      then [problem ''sensitivity_finding_without_quotes'' [(''index'', PInt (int index))]]
      else if quotes = PNone then []
      else case quotes of
        PList qs \<Rightarrow>
          if list_all (\<lambda>q. case q of PStr _ \<Rightarrow> True | _ \<Rightarrow> False) qs
          then map (\<lambda>q. problem ''article_quote_not_in_article'' [(''index'', PInt (int index)), (''detail'', PStr (clip 80 (py_str q)))])
                 (filter (\<lambda>q. \<not> infix_of (py_str q) article) qs)
          else [problem ''article_quotes_not_strings'' [(''index'', PInt (int index))]]
      | _ \<Rightarrow> [problem ''article_quotes_not_strings'' [(''index'', PInt (int index))]])"

definition omission_problems :: "args \<Rightarrow> nat \<Rightarrow> pyval \<Rightarrow> wiki_error + args list" where
  "omission_problems bundle index v =
     (let at_index = (\<lambda>kind. problem kind [(''index'', PInt (int index))]) in
      case v of
        PDict item \<Rightarrow>
          and_then (must_be_in (aget item ''severity'') SEVERITIES (at_index ''omission_review_bad_severity'')) (\<lambda>p1.
          and_then (refs_outside (known_refs bundle) (aget item ''evidence_refs'')) (\<lambda>unknown.
            Inr (p1 @ flag_if (blank_text (aget item ''finding'')) (at_index ''omission_review_finding_missing'') @
                 flag_if unknown (at_index ''omission_review_unknown_evidence'') @
                 quote_problems (str_or_empty (aget bundle ''article_markdown'')) index item)))
      | _ \<Rightarrow> Inr [at_index ''omission_review_not_object''])"

fun each_index :: "(nat \<Rightarrow> 'a \<Rightarrow> 'e + 'b list) \<Rightarrow> nat \<Rightarrow> 'a list \<Rightarrow> 'e + 'b list" where
  "each_index f i [] = Inr []"
| "each_index f i (x # xs) = and_then (f i x) (\<lambda>ys. and_then (each_index f (i + 1) xs) (\<lambda>zs. Inr (ys @ zs)))"

text \<open>\<^verbatim>\<open>_validate_omission_reviews\<close>: the problems and the omissions that are objects.\<close>

definition validate_omission_reviews :: "args \<Rightarrow> args \<Rightarrow> wiki_error + (args list \<times> args list)" where
  "validate_omission_reviews report bundle =
     (case aget report ''omission_reviews'' of
        PList vs \<Rightarrow> and_then (each_index (omission_problems bundle) 0 vs) (\<lambda>ps. Inr (ps, dicts_of vs))
      | _ \<Rightarrow> Inr ([problem ''omission_reviews_missing'' []], []))"

subsection \<open>One pass\<close>

definition bundle_hash_problems :: "(string \<Rightarrow> string) \<Rightarrow> args \<Rightarrow> args \<Rightarrow> args list" where
  "bundle_hash_problems h report bundle =
     flag_if (aget bundle ''review_bundle_sha256'' \<noteq> PStr (content_hash h bundle ''review_bundle_sha256''))
       (problem ''review_bundle_hash_invalid'' []) @
     concat (map (\<lambda>field. flag_if (\<not> py_eq (aget report field) (aget bundle field))
                           (problem ''review_hash_mismatch'' [(''field'', PStr field)]))
       [''article_sha256'', ''review_bundle_sha256''])"

text \<open>\<^verbatim>\<open>claim_id in seen\<close> for any hashable value.\<close>

definition seen_before :: "pyval \<Rightarrow> pyval list \<Rightarrow> wiki_error + bool" where
  "seen_before v seen = (case v of PList _ \<Rightarrow> Inl TypeErr | PDict _ \<Rightarrow> Inl TypeErr | _ \<Rightarrow> Inr (list_ex (py_eq v) seen))"

definition packet_for :: "args \<Rightarrow> pyval \<Rightarrow> args option" where
  "packet_for bundle v = (case v of PStr cid \<Rightarrow> expected_packet bundle cid | _ \<Rightarrow> None)"

definition claim_review_problems :: "args \<Rightarrow> args \<Rightarrow> wiki_error + args list" where
  "claim_review_problems packet item =
     (let about = (\<lambda>kind. problem kind [(''claim_id'', aget item ''claim_id'')]);
          allowed = set (resolved_refs packet) in
      and_then (must_be_in (aget item ''verdict'') CLAIM_VERDICTS (about ''claim_review_bad_verdict'')) (\<lambda>p1.
      and_then (must_be_in (aget item ''confidence'') CONFIDENCE (about ''claim_review_bad_confidence'')) (\<lambda>p2.
      and_then (refs_outside allowed (aget item ''evidence_refs'')) (\<lambda>outside.
        Inr (p1 @ p2 @ flag_if (blank_text (aget item ''reason'')) (about ''claim_review_reason_missing'') @
             flag_if (case aget item ''suggested_rewrite'' of PStr _ \<Rightarrow> False | _ \<Rightarrow> True) (about ''claim_review_rewrite_invalid'') @
             (if outside then [about ''claim_review_evidence_outside_packet'']
              else flag_if (aget item ''verdict'' = PStr ''supported'' \<and> \<not> truthy (aget item ''evidence_refs''))
                     (about ''supported_claim_without_evidence'')))))))"

text \<open>The loop over the claim reviews, for either shape of report: \<open>check\<close> grades an item against its packet.\<close>

fun claim_loop ::
  "(args \<Rightarrow> args \<Rightarrow> wiki_error + args list) \<Rightarrow> args \<Rightarrow> pyval list \<Rightarrow> pyval list \<Rightarrow> wiki_error + (args list \<times> pyval list)" where
  "claim_loop check bundle [] seen = Inr ([], seen)"
| "claim_loop check bundle (v # vs) seen =
     (case v of
        PDict item \<Rightarrow>
          and_then (seen_before (aget item ''claim_id'') seen) (\<lambda>dup.
          and_then (case packet_for bundle (aget item ''claim_id'') of
              None \<Rightarrow> Inr [problem ''claim_review_unknown'' [(''claim_id'', aget item ''claim_id'')]]
            | Some packet \<Rightarrow> check packet item) (\<lambda>ps.
          and_then (claim_loop check bundle vs (aget item ''claim_id'' # seen)) (\<lambda>(rest, seen').
            Inr (flag_if dup (problem ''claim_review_duplicate'' [(''claim_id'', aget item ''claim_id'')]) @ ps @ rest, seen'))))
      | _ \<Rightarrow>
          and_then (claim_loop check bundle vs seen) (\<lambda>(rest, seen').
            Inr (problem ''claim_review_not_object'' [] # rest, seen')))"

definition missing_claims :: "args \<Rightarrow> pyval list \<Rightarrow> string list" where
  "missing_claims bundle seen = sort (filter (\<lambda>cid. PStr cid \<notin> set seen) (expected_ids bundle))"

definition missing_problem :: "args \<Rightarrow> pyval list \<Rightarrow> args list" where
  "missing_problem bundle seen =
     flag_if (missing_claims bundle seen \<noteq> [])
       (problem ''claim_reviews_incomplete'' [(''claim_ids'', PList (map PStr (missing_claims bundle seen))),
          (''count'', PInt (int (length (missing_claims bundle seen))))])"

record report_check =
  rc_findings :: "args list"
  rc_valid :: bool
  rc_deterministic_clean :: bool
  rc_semantic_clean :: bool
  rc_omission_clean :: bool
  rc_scope_clean :: bool
  rc_claims_expected :: nat
  rc_claims_reviewed :: nat
  rc_verdict_counts :: "(string \<times> nat) list"
  rc_severity_counts :: "(string \<times> nat) list"
  rc_clean :: bool

text \<open>What both validators report of a graded document.\<close>

definition grade :: "args \<Rightarrow> args \<Rightarrow> args list \<Rightarrow> pyval list \<Rightarrow> args list \<Rightarrow> args list \<Rightarrow> bool \<Rightarrow> report_check" where
  "grade report bundle findings seen items omissions scope_clean =
     (let verdicts = map (\<lambda>i. aget i ''verdict'') items;
          semantic = (length verdicts = length (expected_ids bundle) \<and> list_all (\<lambda>v. v = PStr ''supported'') verdicts);
          omission = list_all (\<lambda>i. aget i ''severity'' = PStr ''info'') omissions
      in \<lparr>rc_findings = findings, rc_valid = (findings = []), rc_deterministic_clean = deterministic_clean bundle,
          rc_semantic_clean = semantic, rc_omission_clean = omission, rc_scope_clean = scope_clean,
          rc_claims_expected = length (expected_ids bundle),
          rc_claims_reviewed = length (filter (\<lambda>cid. PStr cid \<in> set seen) (expected_ids bundle)),
          rc_verdict_counts = counter (map label_of verdicts),
          rc_severity_counts = counter (map (\<lambda>i. label_of (aget i ''severity'')) omissions),
          rc_clean = (findings = [] \<and> deterministic_clean bundle \<and> semantic \<and> omission \<and> scope_clean \<and>
                      aget report ''overall_verdict'' = PStr ''pass'')\<rparr>)"

definition scope_dict_of :: "args \<Rightarrow> args option" where
  "scope_dict_of report = (case aget report ''scope_review'' of PDict s \<Rightarrow> Some s | _ \<Rightarrow> None)"

definition validate_review_report :: "(string \<Rightarrow> string) \<Rightarrow> args \<Rightarrow> args \<Rightarrow> wiki_error + report_check" where
  "validate_review_report h report bundle =
     (let reviews = list_items (aget report ''claim_reviews'') in
      and_then (claim_loop claim_review_problems bundle reviews []) (\<lambda>(claims, seen).
      and_then (case scope_dict_of report of
          None \<Rightarrow> Inr [problem ''scope_review_invalid'' []]
        | Some s \<Rightarrow> must_be_in (aget s ''verdict'') SCOPE_VERDICTS (problem ''scope_review_invalid'' [])) (\<lambda>scope.
      and_then (must_be_in (aget report ''overall_verdict'') OVERALL_VERDICTS (problem ''overall_verdict_invalid'' [])) (\<lambda>overall.
      and_then (validate_omission_reviews report bundle) (\<lambda>(omitted, omissions).
        Inr (grade report bundle
          (bundle_hash_problems h report bundle @
           flag_if (blank_text (aget report ''summary'')) (problem ''review_summary_missing'' []) @
           flag_if (case aget report ''claim_reviews'' of PList _ \<Rightarrow> False | _ \<Rightarrow> True) (problem ''claim_reviews_missing'' []) @
           claims @ missing_problem bundle seen @ scope @ overall @ omitted)
          seen (dicts_of reviews) omissions
          (case scope_dict_of report of None \<Rightarrow> False | Some s \<Rightarrow> aget s ''verdict'' = PStr ''in_scope'')))))))"

subsection \<open>The merged shape\<close>

definition pass_count :: "args \<Rightarrow> int" where
  "pass_count report = (case aget report ''passes'' of PInt i \<Rightarrow> if i < 1 then 0 else i | _ \<Rightarrow> 0)"

definition int_of :: "pyval \<Rightarrow> int option" where
  "int_of v = (case v of PInt i \<Rightarrow> Some i | _ \<Rightarrow> None)"

text \<open>\<^verbatim>\<open>isinstance(v, int)\<close> holds of a bool too.\<close>

definition int_or_bool :: "pyval \<Rightarrow> int option" where
  "int_or_bool v = (case v of PInt i \<Rightarrow> Some i | PBool b \<Rightarrow> Some (if b then 1 else 0) | _ \<Rightarrow> None)"

definition int_value :: "int option \<Rightarrow> int" where
  "int_value v = (case v of None \<Rightarrow> 0 | Some i \<Rightarrow> i)"

definition worst_verdict :: "string list \<Rightarrow> string" where
  "worst_verdict vs =
     (case vs of [] \<Rightarrow> ''supported''
      | v # rest \<Rightarrow> foldl (\<lambda>a w. if rank_of VERDICT_RANK (PStr a) < rank_of VERDICT_RANK (PStr w) then w else a) v rest)"

fun merged_findings_loop ::
  "int \<Rightarrow> string set \<Rightarrow> pyval \<Rightarrow> pyval list \<Rightarrow> int list \<Rightarrow> wiki_error + (args list \<times> string list)" where
  "merged_findings_loop passes allowed cid [] seen = Inr ([], [])"
| "merged_findings_loop passes allowed cid (v # vs) seen =
     (let about = (\<lambda>kind. problem kind [(''claim_id'', cid)]) in
      case v of
        PDict f \<Rightarrow>
          let in_range = (case int_of (aget f ''pass'') of None \<Rightarrow> False | Some i \<Rightarrow> 1 \<le> i \<and> i \<le> passes);
              n = the (int_of (aget f ''pass''));
              p0 = (if \<not> in_range then [about ''merged_claim_finding_bad_pass'']
                    else if n \<in> set seen then [problem ''merged_claim_finding_duplicate_pass'' [(''claim_id'', cid), (''pass'', PInt n)]]
                    else []);
              seen' = (if in_range then n # seen else seen)
          in and_then (hash_in (aget f ''verdict'') CLAIM_VERDICTS) (\<lambda>known.
             let bad = (\<not> known \<or> aget f ''verdict'' = PStr ''supported'') in
             and_then (must_be_in (aget f ''confidence'') CONFIDENCE (about ''claim_review_bad_confidence'')) (\<lambda>p2.
             and_then (refs_outside allowed (aget f ''evidence_refs'')) (\<lambda>outside.
             and_then (merged_findings_loop passes allowed cid vs seen') (\<lambda>(rest, verdicts).
               Inr (p0 @ flag_if bad (about ''merged_claim_finding_bad_verdict'') @ p2 @
                    flag_if (blank_text (aget f ''reason'')) (about ''claim_review_reason_missing'') @
                    flag_if (case aget f ''suggested_rewrite'' of PStr _ \<Rightarrow> False | _ \<Rightarrow> True) (about ''claim_review_rewrite_invalid'') @
                    flag_if outside (about ''claim_review_evidence_outside_packet'') @ rest,
                    (if bad then verdicts else py_str (aget f ''verdict'') # verdicts))))))
      | _ \<Rightarrow>
          and_then (merged_findings_loop passes allowed cid vs seen) (\<lambda>(rest, verdicts).
            Inr (about ''merged_claim_finding_not_object'' # rest, verdicts)))"

definition merged_claim_problems :: "int \<Rightarrow> args \<Rightarrow> args \<Rightarrow> wiki_error + args list" where
  "merged_claim_problems passes packet item =
     (let cid = aget item ''claim_id''; about = (\<lambda>kind. problem kind [(''claim_id'', cid)]);
          fs = list_items (aget item ''findings'') in
      and_then (must_be_in (aget item ''verdict'') CLAIM_VERDICTS (about ''claim_review_bad_verdict'')) (\<lambda>p1.
      and_then (merged_findings_loop passes (set (resolved_refs packet)) cid fs []) (\<lambda>(ps, verdicts).
        Inr (p1 @
          flag_if (case int_of (aget item ''flagged_in'') of None \<Rightarrow> True | Some i \<Rightarrow> i < 0 \<or> passes < i)
            (about ''merged_claim_bad_flagged_in'') @
          flag_if (\<not> py_eq (aget item ''of_passes'') (PInt passes)) (about ''merged_claim_bad_pass_total'') @
          flag_if (case aget item ''findings'' of PList _ \<Rightarrow> False | _ \<Rightarrow> True) (about ''merged_claim_findings_missing'') @
          ps @
          flag_if (case int_of (aget item ''flagged_in'') of None \<Rightarrow> False | Some i \<Rightarrow> i \<noteq> int (length fs))
            (about ''merged_claim_flag_count_mismatch'') @
          flag_if (aget item ''verdict'' \<noteq> PStr (worst_verdict verdicts)) (about ''merged_claim_verdict_mismatch'')))))"

definition flag_counts :: "int \<Rightarrow> args list \<Rightarrow> nat \<times> nat \<times> nat" where
  "flag_counts passes items =
     (let flags = filter (\<lambda>i. 0 < i) (List.map_filter (\<lambda>item. int_or_bool (aget item ''flagged_in'')) items)
      in (length flags, length (filter (\<lambda>i. i = passes) flags), length (filter (\<lambda>i. i = 1) flags)))"

definition flag_count_problems :: "args \<Rightarrow> int \<Rightarrow> args list \<Rightarrow> args list" where
  "flag_count_problems report passes items =
     (case flag_counts passes items of (flagged, unanimous, single) \<Rightarrow>
        flag_if (\<not> py_eq (aget report ''flagged_claims'') (PInt (int flagged))) (problem ''merged_flagged_claim_count_mismatch'' []) @
        flag_if (\<not> py_eq (aget report ''unanimous_claims'') (PInt (int unanimous)))
          (problem ''merged_unanimous_claim_count_mismatch'' []) @
        flag_if (\<not> py_eq (aget report ''single_pass_claims'') (PInt (int single)))
          (problem ''merged_single_pass_claim_count_mismatch'' []))"

definition pass_number :: "args \<Rightarrow> pyval" where
  "pass_number p = aget p ''pass''"

definition aggregate_problems :: "args \<Rightarrow> args \<Rightarrow> int \<Rightarrow> args list" where
  "aggregate_problems report bundle passes =
     (let aggregate = as_dict (aget report ''validation'');
          complete = (case aget aggregate ''per_pass'' of PList ps \<Rightarrow> int (length ps) = passes | _ \<Rightarrow> False);
          per_pass = (if complete then dicts_of (list_items (aget aggregate ''per_pass'')) else []);
          given = (complete \<and> list_items (aget aggregate ''per_pass'') \<noteq> []);
          invalid = map pass_number (filter (\<lambda>p. aget p ''report_valid'' \<noteq> PBool True) per_pass);
          valid = (given \<and> invalid = [])
      in flag_if (case aget report ''validation'' of PDict _ \<Rightarrow> False | _ \<Rightarrow> True) (problem ''merged_validation_missing'' []) @
         (if complete
          then flag_if (\<not> py_eq (PList (map pass_number per_pass)) (PList (map PInt [1..passes])))
                 (problem ''merged_per_pass_numbers_invalid'' [])
          else [problem ''merged_per_pass_validation_incomplete'' []]) @
         flag_if (\<not> py_eq (aget aggregate ''invalid_passes'') (PList invalid)) (problem ''merged_invalid_passes_mismatch'' []) @
         flag_if (aget aggregate ''report_valid'' \<noteq> PBool valid) (problem ''merged_report_valid_mismatch'' []) @
         flag_if (\<not> valid) (problem ''merged_review_contains_invalid_passes'' [(''passes'', PList invalid)]) @
         flag_if (\<not> py_eq (aget aggregate ''claims_expected'') (PInt (int (length (expected_ids bundle)))))
           (problem ''merged_claims_expected_mismatch'' []) @
         flag_if (aget aggregate ''deterministic_clean'' \<noteq> PBool (deterministic_clean bundle))
           (problem ''merged_deterministic_status_mismatch'' []))"

definition scope_entry_problems :: "nat \<Rightarrow> pyval \<Rightarrow> wiki_error + args list" where
  "scope_entry_problems index v =
     (let p = problem ''merged_scope_review_invalid'' [(''pass'', PInt (int index))] in
      case v of
        PDict item \<Rightarrow>
          if \<not> py_eq (aget item ''pass'') (PInt (int index)) then Inr [p]
          else and_then (hash_in (aget item ''verdict'') SCOPE_VERDICTS) (\<lambda>known.
            Inr (flag_if (\<not> known \<or> blank_text (aget item ''reason'')) p))
      | _ \<Rightarrow> Inr [p])"

definition merged_scope_problems :: "args \<Rightarrow> int \<Rightarrow> wiki_error + args list" where
  "merged_scope_problems report passes =
     (case aget report ''scope_reviews'' of
        PNone \<Rightarrow> Inr []
      | PList vs \<Rightarrow> if int (length vs) = passes then each_index scope_entry_problems 1 vs
                    else Inr [problem ''merged_scope_reviews_incomplete'' []]
      | _ \<Rightarrow> Inr [problem ''merged_scope_reviews_incomplete'' []])"

definition validate_merged_review_report :: "(string \<Rightarrow> string) \<Rightarrow> args \<Rightarrow> args \<Rightarrow> wiki_error + report_check" where
  "validate_merged_review_report h report bundle =
     (let passes = pass_count report; reviews = list_items (aget report ''claim_reviews'') in
      and_then (claim_loop (merged_claim_problems passes) bundle reviews []) (\<lambda>(claims, seen).
      and_then (validate_omission_reviews report bundle) (\<lambda>(omitted, omissions).
      and_then (must_be_in (aget report ''overall_verdict'') OVERALL_VERDICTS (problem ''overall_verdict_invalid'' [])) (\<lambda>overall.
      and_then (merged_scope_problems report passes) (\<lambda>scope.
        Inr (grade report bundle
          (bundle_hash_problems h report bundle @
           flag_if (passes = 0) (problem ''merged_review_bad_pass_count'' []) @
           flag_if (case aget report ''claim_reviews'' of PList _ \<Rightarrow> False | _ \<Rightarrow> True) (problem ''claim_reviews_missing'' []) @
           claims @ missing_problem bundle seen @ flag_count_problems report passes (dicts_of reviews) @ omitted @
           aggregate_problems report bundle passes @ overall @
           flag_if (case aget report ''review_provenance'' of PList ps \<Rightarrow> int (length ps) \<noteq> passes | _ \<Rightarrow> True)
             (problem ''merged_review_provenance_incomplete'' []) @ scope)
          seen (dicts_of reviews) omissions
          (aget (as_dict (aget report ''validation'')) ''scope_clean'' = PBool True)))))))"

text \<open>\<^verbatim>\<open>validate_review_artifact\<close>: the review, the rulings, and whether the draft may go on.\<close>

record artifact_check =
  af_report :: report_check
  af_reviewer_clean :: bool
  af_findings :: nat
  af_passes :: pyval
  af_adjudication :: adjudication_check
  af_clean :: bool

definition validate_review_artifact ::
  "(string \<Rightarrow> string) \<Rightarrow> args \<Rightarrow> args \<Rightarrow> args option \<Rightarrow> wiki_error + artifact_check" where
  "validate_review_artifact h report bundle adjudication =
     and_then (if stated report ''passes'' then validate_merged_review_report h report bundle
               else validate_review_report h report bundle) (\<lambda>v.
     and_then (validate_adjudication h adjudication report) (\<lambda>a.
     and_then (collect_review_findings report) (\<lambda>fs.
       let passes = (if \<not> rc_valid v then PInt 0
                     else if stated report ''passes'' then por (aget report ''passes'') (PInt 0) else PInt 1)
       in Inr \<lparr>af_report = v, af_reviewer_clean = rc_clean v, af_findings = length fs, af_passes = passes,
               af_adjudication = a,
               af_clean = (rc_valid v \<and> rc_deterministic_clean v \<and>
                           (case number_of passes of None \<Rightarrow> False | Some n \<Rightarrow> 1 \<le> n) \<and> ac_clean a)\<rparr>)))"

subsection \<open>Merging passes\<close>

definition new_claim :: "string \<Rightarrow> int \<Rightarrow> args" where
  "new_claim cid tot =
     [(''claim_id'', PStr cid), (''verdict'', PStr ''supported''), (''flagged_in'', PInt 0), (''of_passes'', PInt tot),
      (''findings'', PList [])]"

definition claim_entry :: "string \<Rightarrow> int \<Rightarrow> (string \<times> args) list \<Rightarrow> args" where
  "claim_entry cid tot claims = (case map_of claims cid of Some e \<Rightarrow> e | None \<Rightarrow> new_claim cid tot)"

definition finding_of_pass :: "int \<Rightarrow> args \<Rightarrow> pyval" where
  "finding_of_pass n item =
     PDict [(''pass'', PInt n), (''verdict'', aget item ''verdict''), (''confidence'', aget item ''confidence''),
            (''reason'', aget item ''reason''), (''suggested_rewrite'', aget item ''suggested_rewrite''),
            (''evidence_refs'', aget item ''evidence_refs'')]"

definition add_review :: "int \<Rightarrow> args \<Rightarrow> args \<Rightarrow> args" where
  "add_review n item entry =
     (let verdict = aget item ''verdict'';
          e1 = (if rank_of VERDICT_RANK (aget entry ''verdict'') < rank_of VERDICT_RANK verdict
                then aset ''verdict'' verdict entry else entry)
      in if verdict = PStr ''supported'' then e1
         else aset ''findings'' (PList (list_items (aget e1 ''findings'') @ [finding_of_pass n item]))
                (aset ''flagged_in'' (PInt (int_value (int_or_bool (aget e1 ''flagged_in'')) + 1)) e1))"

text \<open>
  One claim review of the pass \<open>n\<close>. Ids are texts, as the reviewer was asked; another hashable id would make a key of
  its own, which the model leaves out.
\<close>

definition merge_claim :: "int \<Rightarrow> int \<Rightarrow> pyval \<Rightarrow> (string \<times> args) list \<Rightarrow> wiki_error + (string \<times> args) list" where
  "merge_claim tot n v claims =
     (case v of
        PDict item \<Rightarrow>
          if \<not> truthy (aget item ''claim_id'') then Inr claims
          else (case aget item ''claim_id'' of
              PStr cid \<Rightarrow> and_then (hash_in (aget item ''verdict'') {}) (\<lambda>_.
                Inr (AList.update cid (add_review n item (claim_entry cid tot claims)) claims))
            | _ \<Rightarrow> Inl TypeErr)
      | _ \<Rightarrow> Inr claims)"

fun merge_claims :: "int \<Rightarrow> int \<Rightarrow> pyval list \<Rightarrow> (string \<times> args) list \<Rightarrow> wiki_error + (string \<times> args) list" where
  "merge_claims tot n [] claims = Inr claims"
| "merge_claims tot n (v # vs) claims = and_then (merge_claim tot n v claims) (merge_claims tot n vs)"

fun merge_passes :: "int \<Rightarrow> int \<Rightarrow> args list \<Rightarrow> (string \<times> args) list \<Rightarrow> wiki_error + (string \<times> args) list" where
  "merge_passes tot n [] claims = Inr claims"
| "merge_passes tot n (r # rs) claims =
     and_then (items_or_none (aget r ''claim_reviews'')) (\<lambda>items.
     and_then (merge_claims tot n items claims) (merge_passes tot (n + 1) rs))"

definition prior_claims :: "int \<Rightarrow> args \<Rightarrow> (string \<times> args) list" where
  "prior_claims tot prior =
     map (\<lambda>(cid, e). (cid, aset ''of_passes'' (PInt tot) e))
       (fold (\<lambda>item d. AList.update (py_str (aget item ''claim_id''))
                 (aset ''findings'' (PList (list_items (aget item ''findings''))) item) d)
          (dicts_of (list_items (aget prior ''claim_reviews''))) [])"

fun tag_passes :: "int \<Rightarrow> (args \<Rightarrow> pyval list) \<Rightarrow> args list \<Rightarrow> pyval list" where
  "tag_passes n items [] = []"
| "tag_passes n items (r # rs) =
     map (\<lambda>d. PDict (aset ''pass'' (PInt n) d)) (dicts_of (items r)) @ tag_passes (n + 1) items rs"

definition first_truthy :: "pyval list \<Rightarrow> pyval \<Rightarrow> pyval" where
  "first_truthy vs dflt = (case find truthy vs of Some v \<Rightarrow> v | None \<Rightarrow> dflt)"

definition worst_overall :: "pyval list \<Rightarrow> pyval" where
  "worst_overall vs =
     (case vs of [] \<Rightarrow> PNone
      | v # rest \<Rightarrow> foldl (\<lambda>a w. if rank_of OVERALL_RANK a < rank_of OVERALL_RANK w then w else a) v rest)"

definition check_of :: "args \<Rightarrow> args" where
  "check_of r = as_dict (aget r ''validation'')"

definition pass_entry :: "int \<Rightarrow> args \<Rightarrow> args" where
  "pass_entry n v =
     [(''pass'', PInt n), (''report_valid'', aget v ''report_valid''),
      (''findings'', por (aget v ''findings'') (PList [])), (''claim_verdict_counts'', aget v ''claim_verdict_counts'')]"

definition merged_validation :: "int \<Rightarrow> args \<Rightarrow> args list \<Rightarrow> args" where
  "merged_validation offset prior reports =
     (let checks = map check_of reports;
          numbered = zip [offset + 1..offset + int (length reports)] checks;
          prior_passes = dicts_of (list_items (aget (as_dict (aget prior ''validation'')) ''per_pass''));
          holds = (\<lambda>k v. truthy (aget v k))
      in [(''report_valid'', PBool (list_all (holds ''report_valid'') checks \<and> list_all (holds ''report_valid'') prior_passes)),
          (''invalid_passes'', PList (map pass_number (filter (\<lambda>p. \<not> holds ''report_valid'' p) prior_passes) @
             map (\<lambda>(n, v). PInt n) (filter (\<lambda>(n, v). \<not> holds ''report_valid'' v) numbered))),
          (''deterministic_clean'', PBool (list_all (holds ''deterministic_clean'') checks)),
          (''scope_clean'', PBool (list_all (holds ''scope_clean'') checks)),
          (''claims_expected'', PInt (foldl max 0 (map (\<lambda>v. int_value (int_or_bool (aget v ''claims_expected''))) checks))),
          (''per_pass'', PList (map PDict (prior_passes @ map (\<lambda>(n, v). pass_entry n v) numbered))),
          (''agent_review_required'', PBool True)])"

definition legacy_scopes :: "int \<Rightarrow> args \<Rightarrow> pyval list" where
  "legacy_scopes offset prior =
     (let clean = (aget (as_dict (aget prior ''validation'')) ''scope_clean'' = PBool True)
      in map (\<lambda>n. PDict [(''pass'', PInt n), (''verdict'', PStr (if clean then ''in_scope'' else ''unverifiable'')),
                         (''reason'', PStr ''Scope detail was not retained by this legacy review pass.'')]) [1..offset])"

text \<open>\<^verbatim>\<open>int(prior.get("passes") or 0)\<close>.\<close>

definition prior_count :: "args \<Rightarrow> wiki_error + int" where
  "prior_count prior =
     (let v = por (aget prior ''passes'') (PInt 0) in
      case py_int v of Some i \<Rightarrow> Inr i | None \<Rightarrow> Inl (case v of PStr s \<Rightarrow> ValueErr | _ \<Rightarrow> TypeErr))"

lemma prior_count_Nil [simp]: "prior_count [] = Inr 0"
  by (simp add: prior_count_def py_int_def por_def aget_Nil)

text \<open>No prior report is \<open>[]\<close>.\<close>

definition merge_reviews :: "args list \<Rightarrow> args \<Rightarrow> wiki_error + args" where
  "merge_reviews reports prior =
     (if reports = [] then Inl ValueErr else
      and_then (prior_count prior) (\<lambda>offset.
      let tot = offset + int (length reports) in
      and_then (merge_passes tot (offset + 1) reports (prior_claims tot prior)) (\<lambda>claims.
      and_then (collect_results (map (\<lambda>r. items_or_none (aget r ''omission_reviews'')) reports)) (\<lambda>_.
        let flagged = filter (\<lambda>i. i \<noteq> 0) (List.map_filter (\<lambda>(cid, e). int_or_bool (aget e ''flagged_in'')) claims);
            omissions = list_items (aget prior ''omission_reviews'') @
              tag_passes (offset + 1) (\<lambda>r. list_items (aget r ''omission_reviews'')) reports;
            scopes0 = list_items (aget prior ''scope_reviews'');
            scopes = (if prior \<noteq> [] \<and> scopes0 = [] \<and> offset \<noteq> 0 then legacy_scopes offset prior else scopes0) @
              tag_passes (offset + 1) (\<lambda>r. [aget r ''scope_review'']) reports
        in Inr [(''passes'', PInt tot),
           (''article_sha256'', first_truthy (map (\<lambda>r. aget r ''article_sha256'') reports) (aget prior ''article_sha256'')),
           (''review_bundle_sha256'',
             first_truthy (map (\<lambda>r. aget r ''review_bundle_sha256'') reports) (aget prior ''review_bundle_sha256'')),
           (''overall_verdict'', worst_overall (map (\<lambda>r. aget r ''overall_verdict'') reports @
              (if prior = [] then [] else [aget prior ''overall_verdict'']))),
           (''claim_reviews'', PList (map (\<lambda>(cid, e). PDict e) (sort_key fst claims))),
           (''omission_reviews'', PList omissions),
           (''scope_reviews'', PList scopes),
           (''flagged_claims'', PInt (int (length flagged))),
           (''unanimous_claims'', PInt (int (length (filter (\<lambda>i. i = tot) flagged)))),
           (''single_pass_claims'', PInt (int (length (filter (\<lambda>i. i = 1) flagged)))),
           (''validation'', PDict (merged_validation offset prior reports)),
           (''review_provenance'', PList (list_items (aget prior ''review_provenance'') @
              map (\<lambda>r. aget r ''review_provenance'') reports))]))))"

subsection \<open>A quiet loop\<close>

lemma flag_if_Nil [simp]: "flag_if b p = [] \<longleftrightarrow> \<not> b"
  by (simp add: flag_if_def)

lemma must_be_in_Nil: "must_be_in v S p = Inr [] \<longleftrightarrow> (\<exists>s \<in> S. v = PStr s)"
  by (auto simp: must_be_in_def and_then_Inr_iff hash_in_def split: pyval.splits)

lemma any_unknown_False: "any_unknown known rs = Inr False \<longleftrightarrow> (\<forall>r \<in> set rs. \<exists>s \<in> known. r = PStr s)"
  by (induction known rs rule: any_unknown.induct)
     (auto simp: and_then_Inr_iff hash_in_def split: pyval.splits if_splits)

lemma py_eq_PStr [simp]: "py_eq (PStr s) v \<longleftrightarrow> v = PStr s"
  by simp

definition claim_named :: "args \<Rightarrow> string \<Rightarrow> bool" where
  "claim_named item cid \<longleftrightarrow> aget item ''claim_id'' = PStr cid"

lemma expected_packet_id: "expected_packet bundle cid = Some p \<Longrightarrow> cid \<in> set (expected_ids bundle) \<and> p \<in> set (packets_of bundle)"
  by (auto simp: expected_packet_def expected_ids_def dest!: map_of_SomeD)

lemma claim_loop_quiet:
  "claim_loop check bundle vs seen = Inr ([], seen') \<Longrightarrow>
   \<exists>items cids. vs = map PDict items \<and> list_all2 claim_named items cids \<and> distinct cids \<and>
     set (map PStr cids) \<inter> set seen = {} \<and> set seen' = set (map PStr cids) \<union> set seen \<and>
     list_all (\<lambda>i. \<exists>cid p. claim_named i cid \<and> expected_packet bundle cid = Some p \<and> check p i = Inr []) items"
proof (induction vs arbitrary: seen)
  case Nil
  then show ?case by auto
next
  case (Cons v vs)
  obtain item where v: "v = PDict item" using Cons.prems by (cases v) (auto simp: and_then_Inr_iff)
  let ?id = "aget item ''claim_id''"
  obtain ps where dup: "seen_before ?id seen = Inr False"
    and ps: "(case packet_for bundle ?id of None \<Rightarrow> Inr [problem ''claim_review_unknown'' [(''claim_id'', ?id)]]
            | Some packet \<Rightarrow> check packet item) = Inr ps" "ps = []"
    and rest: "claim_loop check bundle vs (?id # seen) = Inr ([], seen')"
    using Cons.prems by (auto simp: v and_then_Inr_iff)
  obtain p where p: "packet_for bundle ?id = Some p" "check p item = Inr []"
    using ps by (cases "packet_for bundle ?id") auto
  then obtain cid where cid: "?id = PStr cid" "expected_packet bundle cid = Some p"
    by (cases ?id) (auto simp: packet_for_def)
  have new: "PStr cid \<notin> set seen" using dup cid by (auto simp: seen_before_def list_ex_iff)
  from Cons.IH[OF rest] obtain items cids where IH: "vs = map PDict items" "list_all2 claim_named items cids" "distinct cids"
    "set (map PStr cids) \<inter> set (?id # seen) = {}" "set seen' = set (map PStr cids) \<union> set (?id # seen)"
    "list_all (\<lambda>i. \<exists>cid p. claim_named i cid \<and> expected_packet bundle cid = Some p \<and> check p i = Inr []) items" by blast
  have "claim_named item cid" using cid(1) by (simp add: claim_named_def)
  then show ?case
    using IH v cid p new
    by (intro exI[of _ "item # items"] exI[of _ "cid # cids"]) auto
qed

lemma claim_loop_covers:
  assumes "claim_loop check bundle vs [] = Inr ([], seen)" "missing_problem bundle seen = []"
  shows "\<exists>items cids. vs = map PDict items \<and> list_all2 claim_named items cids \<and> distinct cids \<and>
    set cids = set (expected_ids bundle) \<and>
    list_all (\<lambda>i. \<exists>cid p. claim_named i cid \<and> expected_packet bundle cid = Some p \<and> check p i = Inr []) items"
proof -
  obtain items cids where q: "vs = map PDict items" "list_all2 claim_named items cids" "distinct cids"
    "set seen = set (map PStr cids)"
    "list_all (\<lambda>i. \<exists>cid p. claim_named i cid \<and> expected_packet bundle cid = Some p \<and> check p i = Inr []) items"
    using claim_loop_quiet[OF assms(1)] by auto
  have "set (expected_ids bundle) \<subseteq> set cids"
    using assms(2) q(4) by (auto simp: missing_problem_def missing_claims_def sort_Nil_iff filter_empty_conv)
  moreover have "set cids \<subseteq> set (expected_ids bundle)"
  proof
    fix c
    assume "c \<in> set cids"
    then obtain n where n: "n < length cids" "c = cids ! n" by (auto simp: in_set_conv_nth)
    then have "claim_named (items ! n) c" "items ! n \<in> set items"
      using q(2) by (auto simp: list_all2_conv_all_nth)
    then show "c \<in> set (expected_ids bundle)"
      using q(5) expected_packet_id by (fastforce simp: list_all_iff claim_named_def)
  qed
  ultimately show ?thesis using q by blast
qed

subsection \<open>A quiet entry of a merged report\<close>

lemma merged_findings_quiet:
  "merged_findings_loop passes allowed cid vs seen = Inr ([], verdicts) \<Longrightarrow>
   \<exists>fs. vs = map PDict fs \<and> verdicts = map (\<lambda>f. py_str (aget f ''verdict'')) fs \<and>
     (\<forall>f \<in> set fs. \<exists>s \<in> CLAIM_VERDICTS - {''supported''}. aget f ''verdict'' = PStr s)"
proof (induction vs arbitrary: seen verdicts)
  case Nil
  then show ?case by auto
next
  case (Cons v vs)
  obtain f where v: "v = PDict f" using Cons.prems by (cases v) (auto simp: and_then_Inr_iff Let_def)
  obtain known seen' verdicts' where known: "hash_in (aget f ''verdict'') CLAIM_VERDICTS = Inr known"
    "known" "aget f ''verdict'' \<noteq> PStr ''supported''"
    and rest: "merged_findings_loop passes allowed cid vs seen' = Inr ([], verdicts')"
    and verdicts: "verdicts = py_str (aget f ''verdict'') # verdicts'"
    using Cons.prems by (auto simp: v and_then_Inr_iff Let_def)
  have "\<exists>s \<in> CLAIM_VERDICTS - {''supported''}. aget f ''verdict'' = PStr s"
    using known by (auto simp: hash_in_def split: pyval.splits)
  moreover obtain fs where "vs = map PDict fs" "verdicts' = map (\<lambda>f. py_str (aget f ''verdict'')) fs"
    "\<forall>f \<in> set fs. \<exists>s \<in> CLAIM_VERDICTS - {''supported''}. aget f ''verdict'' = PStr s"
    using Cons.IH[OF rest] by blast
  ultimately show ?case using verdicts v by (intro exI[of _ "f # fs"]) simp
qed

lemma worst_in: "vs \<noteq> [] \<Longrightarrow> worst_verdict vs \<in> set vs"
proof -
  have "foldl (\<lambda>a w. if rank_of VERDICT_RANK (PStr a) < rank_of VERDICT_RANK (PStr w) then w else a) a ws \<in> insert a (set ws)" for a ws
    by (induction ws arbitrary: a) auto
  then show "vs \<noteq> [] \<Longrightarrow> worst_verdict vs \<in> set vs" by (cases vs) (auto simp: worst_verdict_def)
qed

lemma merged_claim_quiet:
  assumes "merged_claim_problems passes packet item = Inr []"
  shows "\<exists>fs. aget item ''findings'' = PList (map PDict fs) \<and> aget item ''flagged_in'' = PInt (int (length fs)) \<and>
    (aget item ''verdict'' = PStr ''supported'' \<longleftrightarrow> fs = [])"
proof -
  let ?fs = "list_items (aget item ''findings'')"
  obtain verdicts where
    loop: "merged_findings_loop passes (set (resolved_refs packet)) (aget item ''claim_id'') ?fs [] = Inr ([], verdicts)"
    and fl: "case int_of (aget item ''flagged_in'') of None \<Rightarrow> False | Some i \<Rightarrow> \<not> (i < 0 \<or> passes < i)"
    and mis: "case int_of (aget item ''flagged_in'') of None \<Rightarrow> True | Some i \<Rightarrow> i = int (length ?fs)"
    and lst: "\<exists>vs. aget item ''findings'' = PList vs" and v: "aget item ''verdict'' = PStr (worst_verdict verdicts)"
    using assms by (auto simp: merged_claim_problems_def and_then_Inr_iff Let_def split: option.splits pyval.splits)
  from merged_findings_quiet[OF loop] obtain fs where fs: "?fs = map PDict fs" "verdicts = map (\<lambda>f. py_str (aget f ''verdict'')) fs"
    "\<forall>f \<in> set fs. \<exists>s \<in> CLAIM_VERDICTS - {''supported''}. aget f ''verdict'' = PStr s" by blast
  have "worst_verdict verdicts = ''supported'' \<longleftrightarrow> fs = []"
    using worst_in[of verdicts] fs(2,3) by (fastforce simp: worst_verdict_def)
  moreover have "aget item ''flagged_in'' = PInt (int (length fs))"
    using fl mis fs(1) by (auto simp: int_of_def split: pyval.splits)
  moreover have "aget item ''findings'' = PList (map PDict fs)" using lst fs(1) by (auto simp: list_items_def)
  ultimately show ?thesis using v by auto
qed

subsection \<open>From the review to the draft\<close>

definition ruled_harmless :: "args \<Rightarrow> string \<Rightarrow> bool" where
  "ruled_harmless adj fid \<longleftrightarrow>
     (\<exists>item. PDict item \<in> set (ruled_items adj) \<and> ruling_id item fid \<and> aget item ''decision'' = PStr ''non_blocking'' \<and>
        aget item ''category'' = PStr ''non_material'' \<and> \<not> blank_text (aget item ''reason''))"

lemma clean_rulings:
  assumes "validate_adjudication h adjudication report = Inr r" "ac_clean r" "needs_ruling report fid"
  shows "\<exists>adj. adjudication = Some adj \<and> ruled_harmless adj fid \<and>
    aget adj ''review_report_sha256'' = PStr (h (canonical_json (PDict report)))"
proof (cases adjudication)
  case None
  obtain fs where fs: "collect_review_findings report = Inr fs" "dedup (map finding_id fs) = []"
    using assms(1,2) None by (auto simp: validate_adjudication_def and_then_Inr_iff Let_def split: if_splits)
  then have "fs = []" by (cases fs) auto
  then show ?thesis using needed_ids[OF fs(1)] assms(3) by auto
next
  case (Some adj)
  have "\<exists>r. validate_adjudication h (Some adj) report = Inr r \<and> ac_clean r" using assms(1,2) Some by auto
  note clean = clean_exactly[THEN iffD1, OF this]
  from clean obtain items ids where c: "aget adj ''findings'' = PList (map PDict items)"
    "map (\<lambda>i. aget i ''finding_id'') items = map PStr ids" "set ids = {fid. needs_ruling report fid}"
    "list_all (\<lambda>i. aget i ''decision'' = PStr ''non_blocking'' \<and> aget i ''category'' = PStr ''non_material'' \<and>
                    \<not> blank_text (aget i ''reason'')) items"
    by (elim conjE exE)
  have hash: "aget adj ''review_report_sha256'' = PStr (h (canonical_json (PDict report)))" using clean by (elim conjE)
  have "PStr fid \<in> set (map (\<lambda>i. aget i ''finding_id'') items)" unfolding c(2) using assms(3) c(3) by simp
  then obtain item where "item \<in> set items" "aget item ''finding_id'' = PStr fid" by auto
  then have "ruled_harmless adj fid"
    using c(1,4) by (auto simp: ruled_harmless_def ruled_items_def ruling_id_def list_all_iff intro!: exI[of _ item])
  then show ?thesis using hash Some by blast
qed

lemma items_PList [simp]: "items_or_none (PList vs) = Inr vs"
  by (auto simp: items_or_none_def)

lemma dicts_of_PDict [simp]: "dicts_of (map PDict ds) = ds"
  by (induction ds) (simp_all add: dicts_of_def map_filter_simps)

lemma quiet_reviews:
  assumes "claim_loop check bundle (list_items (aget report ''claim_reviews'')) [] = Inr ([], seen)" "missing_problem bundle seen = []"
    "\<exists>vs. aget report ''claim_reviews'' = PList vs"
  shows "\<exists>items cids. aget report ''claim_reviews'' = PList (map PDict items) \<and>
    map (\<lambda>i. aget i ''claim_id'') items = map PStr cids \<and> distinct cids \<and> set cids = packet_id ` set (packets_of bundle) \<and>
    list_all (\<lambda>i. \<exists>p. check p i = Inr []) items"
proof -
  obtain items cids where q: "list_items (aget report ''claim_reviews'') = map PDict items" "list_all2 claim_named items cids"
    "distinct cids" "set cids = set (expected_ids bundle)"
    "list_all (\<lambda>i. \<exists>cid p. claim_named i cid \<and> expected_packet bundle cid = Some p \<and> check p i = Inr []) items"
    using claim_loop_covers[OF assms(1,2)] by blast
  have "map (\<lambda>i. aget i ''claim_id'') items = map PStr cids"
    using q(2) by (auto simp: list_all2_conv_all_nth claim_named_def list_eq_iff_nth_eq)
  moreover have "aget report ''claim_reviews'' = PList (map PDict items)" using q(1) assms(3) by (auto simp: list_items_def)
  moreover have "set cids = packet_id ` set (packets_of bundle)" using q(4) by (simp add: expected_ids_def)
  moreover have "list_all (\<lambda>i. \<exists>p. check p i = Inr []) items" using q(5) by (auto simp: list_all_iff)
  ultimately show ?thesis using q(3) by blast
qed

text \<open>C10: What a draft that passes the review gate has behind it, whether its report is that of one pass or a merged one,
  and whether an adjudication was given or not. The review covers every claim packet of the bundle and no other, each
  once. Everything in the report that needs a ruling (a finding of any pass about a claim or a claim not supported, an
  omission, a scope review that is not in scope) has one in an adjudication that carries the hash of this very report:
  not blocking, not material, with a reason. In a merged report a claim is held supported exactly when no pass found
  anything about it. The bundle is the one whose hash it states, and its deterministic check was clean.
\<close>

theorem publication_gate:
  assumes "validate_review_artifact h report bundle adjudication = Inr a" "af_clean a"
  shows "(\<exists>items cids. aget report ''claim_reviews'' = PList (map PDict items) \<and>
      map (\<lambda>i. aget i ''claim_id'') items = map PStr cids \<and> distinct cids \<and> set cids = packet_id ` set (packets_of bundle) \<and>
      (stated report ''passes'' \<longrightarrow>
        (\<forall>item \<in> set items. \<exists>gs. aget item ''findings'' = PList (map PDict gs) \<and>
           (aget item ''verdict'' = PStr ''supported'' \<longleftrightarrow> gs = [])))) \<and>
    (\<forall>fid. needs_ruling report fid \<longrightarrow>
      (\<exists>adj. adjudication = Some adj \<and> ruled_harmless adj fid \<and>
         aget adj ''review_report_sha256'' = PStr (h (canonical_json (PDict report))))) \<and>
    aget bundle ''review_bundle_sha256'' = PStr (content_hash h bundle ''review_bundle_sha256'') \<and> deterministic_clean bundle"
proof -
  obtain v where v: "(if stated report ''passes'' then validate_merged_review_report h report bundle
       else validate_review_report h report bundle) = Inr v" "rc_valid v" "rc_deterministic_clean v"
    and adj: "validate_adjudication h adjudication report = Inr (af_adjudication a)" "ac_clean (af_adjudication a)"
    using assms by (auto simp: validate_review_artifact_def and_then_Inr_iff Let_def)
  let ?check = "if stated report ''passes'' then merged_claim_problems (pass_count report) else claim_review_problems"
  obtain seen where
    loop: "claim_loop ?check bundle (list_items (aget report ''claim_reviews'')) [] = Inr ([], seen)"
    and none: "missing_problem bundle seen = []" "\<exists>vs. aget report ''claim_reviews'' = PList vs"
      "bundle_hash_problems h report bundle = []" "deterministic_clean bundle"
    using v by (auto simp: validate_merged_review_report_def validate_review_report_def and_then_Inr_iff Let_def grade_def
        split: pyval.splits if_splits)
  obtain items cids where q: "aget report ''claim_reviews'' = PList (map PDict items)"
    "map (\<lambda>i. aget i ''claim_id'') items = map PStr cids" "distinct cids" "set cids = packet_id ` set (packets_of bundle)"
    "list_all (\<lambda>i. \<exists>p. ?check p i = Inr []) items"
    using quiet_reviews[OF loop none(1,2)] by blast
  have "\<exists>gs. aget item ''findings'' = PList (map PDict gs) \<and> (aget item ''verdict'' = PStr ''supported'' \<longleftrightarrow> gs = [])"
    if merged: "stated report ''passes''" and i: "item \<in> set items" for item
  proof -
    obtain p where "merged_claim_problems (pass_count report) p item = Inr []"
      using q(5) i merged by (auto simp: list_all_iff)
    from merged_claim_quiet[OF this] show ?thesis by blast
  qed
  moreover have "aget bundle ''review_bundle_sha256'' = PStr (content_hash h bundle ''review_bundle_sha256'')"
    using none(3) by (simp add: bundle_hash_problems_def)
  ultimately show ?thesis using q(1,2,3,4) clean_rulings[OF adj] none(4) by blast
qed


subsection \<open>Merging loses no finding\<close>

definition entries_ok :: "(string \<times> args) list \<Rightarrow> bool" where
  "entries_ok claims \<longleftrightarrow> distinct (map fst claims) \<and>
     (\<forall>(cid, e) \<in> set claims. claim_named e cid \<and> (\<exists>fs. aget e ''findings'' = PList fs))"

text \<open>\<open>keeps e e'\<close>: the entry has only gained findings, and its verdict is at least as strict.\<close>

definition keeps :: "args \<Rightarrow> args \<Rightarrow> bool" where
  "keeps e e' \<longleftrightarrow> claim_named e = claim_named e' \<and> set (list_items (aget e ''findings'')) \<subseteq> set (list_items (aget e' ''findings'')) \<and>
     rank_of VERDICT_RANK (aget e ''verdict'') \<le> rank_of VERDICT_RANK (aget e' ''verdict'')"

lemma keeps_refl [simp]: "keeps e e"
  by (simp add: keeps_def)

lemma keeps_trans: "keeps e e1 \<Longrightarrow> keeps e1 e2 \<Longrightarrow> keeps e e2"
  by (auto simp: keeps_def)

lemma add_review_keeps: "keeps e (add_review n item e)"
  by (auto simp: keeps_def add_review_def Let_def aget_aset claim_named_def list_items_def fun_eq_iff)

lemma add_review_ok:
  "claim_named e cid \<Longrightarrow> aget e ''findings'' = PList fs \<Longrightarrow>
   claim_named (add_review n item e) cid \<and> (\<exists>fs. aget (add_review n item e) ''findings'' = PList fs)"
  by (auto simp: add_review_def Let_def aget_aset claim_named_def)

lemma add_review_finding:
  "aget item ''verdict'' \<noteq> PStr ''supported'' \<Longrightarrow>
   finding_of_pass n item \<in> set (list_items (aget (add_review n item e) ''findings'')) \<and>
   rank_of VERDICT_RANK (aget item ''verdict'') \<le> rank_of VERDICT_RANK (aget (add_review n item e) ''verdict'')"
  by (auto simp: add_review_def Let_def aget_aset list_items_def)

definition grows_to :: "(string \<times> args) list \<Rightarrow> (string \<times> args) list \<Rightarrow> bool" where
  "grows_to claims claims' \<longleftrightarrow> (\<forall>cid e. map_of claims cid = Some e \<longrightarrow> (\<exists>e'. map_of claims' cid = Some e' \<and> keeps e e'))"

lemma grows_to_refl [simp]: "grows_to c c"
  by (simp add: grows_to_def)

lemma grows_to_trans: "grows_to a b \<Longrightarrow> grows_to b c \<Longrightarrow> grows_to a c"
  unfolding grows_to_def by (meson keeps_trans)

definition holds_finding :: "int \<Rightarrow> args \<Rightarrow> (string \<times> args) list \<Rightarrow> bool" where
  "holds_finding n item claims \<longleftrightarrow>
     (\<exists>cid e. aget item ''claim_id'' = PStr cid \<and> map_of claims cid = Some e \<and>
        finding_of_pass n item \<in> set (list_items (aget e ''findings'')) \<and>
        rank_of VERDICT_RANK (aget item ''verdict'') \<le> rank_of VERDICT_RANK (aget e ''verdict''))"

lemma holds_finding_grows: "holds_finding n item c \<Longrightarrow> grows_to c c' \<Longrightarrow> holds_finding n item c'"
  unfolding holds_finding_def grows_to_def keeps_def by (meson le_trans subsetD)

lemma entries_ok_update:
  assumes "entries_ok c" "claim_named e cid" "\<exists>fs. aget e ''findings'' = PList fs"
  shows "entries_ok (AList.update cid e c)"
proof -
  have d: "distinct (map fst (AList.update cid e c))" using assms(1) distinct_update by (auto simp: entries_ok_def)
  have "claim_named x k \<and> (\<exists>fs. aget x ''findings'' = PList fs)" if "(k, x) \<in> set (AList.update cid e c)" for k x
  proof -
    have "map_of (AList.update cid e c) k = Some x" using that d by simp
    then have "k = cid \<and> x = e \<or> map_of c k = Some x" by (auto simp: update_conv' split: if_splits)
    then show ?thesis using assms by (auto simp: entries_ok_def dest!: map_of_SomeD)
  qed
  then show ?thesis using d by (auto simp: entries_ok_def)
qed

lemma merge_claim_step:
  assumes "merge_claim tot n v c = Inr c'" "entries_ok c"
  shows "entries_ok c' \<and> grows_to c c' \<and>
    (\<forall>item. v = PDict item \<and> truthy (aget item ''claim_id'') \<and> aget item ''verdict'' \<noteq> PStr ''supported'' \<longrightarrow> holds_finding n item c')"
proof (cases "\<exists>item cid. v = PDict item \<and> truthy (aget item ''claim_id'') \<and> aget item ''claim_id'' = PStr cid")
  case False
  then have "c' = c \<and> (\<forall>item. v = PDict item \<longrightarrow> \<not> truthy (aget item ''claim_id''))"
    using assms(1) by (auto simp: merge_claim_def split: pyval.splits if_splits)
  then show ?thesis using assms(2) by auto
next
  case True
  then obtain item cid where v: "v = PDict item" "truthy (aget item ''claim_id'')" "aget item ''claim_id'' = PStr cid" by blast
  let ?e = "claim_entry cid tot c"
  let ?e' = "add_review n item ?e"
  have c': "c' = AList.update cid ?e' c"
    using assms(1) v by (auto simp: merge_claim_def and_then_Inr_iff)
  have e: "claim_named ?e cid \<and> (\<exists>fs. aget ?e ''findings'' = PList fs)"
    using assms(2)
    by (auto simp: claim_entry_def entries_ok_def new_claim_def claim_named_def aget_Cons dest!: map_of_SomeD split: option.split)
  then have "entries_ok c'" using c' entries_ok_update[OF assms(2)] add_review_ok by metis
  moreover have "grows_to c c'"
    using add_review_keeps[of ?e n item] by (auto simp: grows_to_def c' update_conv' claim_entry_def)
  moreover have "holds_finding n item c'" if "aget item ''verdict'' \<noteq> PStr ''supported''"
    using add_review_finding[OF that, of n ?e] v(3) by (auto simp: holds_finding_def c' update_conv')
  ultimately show ?thesis using v by auto
qed

lemma merge_claims_step:
  "merge_claims tot n vs c = Inr c' \<Longrightarrow> entries_ok c \<Longrightarrow> entries_ok c' \<and> grows_to c c' \<and>
   (\<forall>item. PDict item \<in> set vs \<and> truthy (aget item ''claim_id'') \<and> aget item ''verdict'' \<noteq> PStr ''supported'' \<longrightarrow> holds_finding n item c')"
proof (induction vs arbitrary: c)
  case (Cons v vs)
  then obtain c1 where c1: "merge_claim tot n v c = Inr c1" "merge_claims tot n vs c1 = Inr c'"
    by (auto simp: and_then_Inr_iff)
  note st = merge_claim_step[OF c1(1) Cons.prems(2)]
  note IH = Cons.IH[OF c1(2) st[THEN conjunct1]]
  have "holds_finding n item c'"
    if "PDict item \<in> set (v # vs)" "truthy (aget item ''claim_id'')" "aget item ''verdict'' \<noteq> PStr ''supported''" for item
  proof (cases "v = PDict item")
    case True
    then have "holds_finding n item c1" using st that by blast
    then show ?thesis using holds_finding_grows IH by blast
  next
    case False
    then show ?thesis using IH that by auto
  qed
  then show ?case using st IH grows_to_trans by blast
qed simp

lemma merge_passes_step:
  "merge_passes tot n rs c = Inr c' \<Longrightarrow> entries_ok c \<Longrightarrow> entries_ok c' \<and> grows_to c c' \<and>
   (\<forall>k item. k < length rs \<and> PDict item \<in> set (list_items (aget (rs ! k) ''claim_reviews'')) \<and>
      truthy (aget item ''claim_id'') \<and> aget item ''verdict'' \<noteq> PStr ''supported'' \<longrightarrow> holds_finding (n + int k) item c')"
proof (induction rs arbitrary: n c)
  case (Cons r rs)
  obtain vs c1 where v: "items_or_none (aget r ''claim_reviews'') = Inr vs" "merge_claims tot n vs c = Inr c1"
    "merge_passes tot (n + 1) rs c1 = Inr c'" using Cons.prems(1) by (auto simp: and_then_Inr_iff)
  have vs: "set (list_items (aget r ''claim_reviews'')) \<subseteq> set vs"
    using v(1) by (auto simp: list_items_def items_or_none_def split: pyval.splits if_splits)
  note st = merge_claims_step[OF v(2) Cons.prems(2)]
  note IH = Cons.IH[OF v(3) st[THEN conjunct1]]
  have "holds_finding (n + int k) item c'"
    if "k < length (r # rs)" "PDict item \<in> set (list_items (aget ((r # rs) ! k) ''claim_reviews''))"
      "truthy (aget item ''claim_id'')" "aget item ''verdict'' \<noteq> PStr ''supported''" for k item
  proof (cases k)
    case 0
    then have "holds_finding n item c1" using st vs that by auto
    then show ?thesis using holds_finding_grows IH 0 by auto
  next
    case (Suc j)
    then have "holds_finding (n + 1 + int j) item c'" using IH that by auto
    then show ?thesis using Suc by (simp add: algebra_simps)
  qed
  then show ?case using st IH grows_to_trans by blast
qed simp

definition prior_items :: "args \<Rightarrow> args list" where
  "prior_items prior = dicts_of (list_items (aget prior ''claim_reviews''))"

lemma prior_fold:
  assumes "entries_ok d" "list_all2 claim_named items cids" "distinct cids" "set cids \<inter> fst ` set d = {}"
  shows "entries_ok (fold (\<lambda>item d. AList.update (py_str (aget item ''claim_id''))
      (aset ''findings'' (PList (list_items (aget item ''findings''))) item) d) items d) \<and>
    (\<forall>n < length items. map_of (fold (\<lambda>item d. AList.update (py_str (aget item ''claim_id''))
      (aset ''findings'' (PList (list_items (aget item ''findings''))) item) d) items d) (cids ! n) =
        Some (aset ''findings'' (PList (list_items (aget (items ! n) ''findings''))) (items ! n))) \<and>
    (\<forall>c. c \<notin> set cids \<longrightarrow> map_of (fold (\<lambda>item d. AList.update (py_str (aget item ''claim_id''))
      (aset ''findings'' (PList (list_items (aget item ''findings''))) item) d) items d) c = map_of d c)"
  using assms(2,1,3,4)
proof (induction items cids arbitrary: d rule: list_all2_induct)
  case (Cons item items cid cids)
  let ?e = "aset ''findings'' (PList (list_items (aget item ''findings''))) item"
  let ?d = "AList.update cid ?e d"
  have id: "py_str (aget item ''claim_id'') = cid" using Cons.hyps(1) by (simp add: claim_named_def)
  have "entries_ok ?d"
    using Cons.hyps(1) by (intro entries_ok_update[OF Cons.prems(1)]) (auto simp: claim_named_def aget_aset)
  moreover have "set cids \<inter> fst ` set ?d = {}" using Cons.prems(2,3) by (auto simp: dom_update)
  ultimately have IH: "entries_ok (fold (\<lambda>item d. AList.update (py_str (aget item ''claim_id''))
      (aset ''findings'' (PList (list_items (aget item ''findings''))) item) d) items ?d) \<and>
    (\<forall>n < length items. map_of (fold (\<lambda>item d. AList.update (py_str (aget item ''claim_id''))
      (aset ''findings'' (PList (list_items (aget item ''findings''))) item) d) items ?d) (cids ! n) =
        Some (aset ''findings'' (PList (list_items (aget (items ! n) ''findings''))) (items ! n))) \<and>
    (\<forall>c. c \<notin> set cids \<longrightarrow> map_of (fold (\<lambda>item d. AList.update (py_str (aget item ''claim_id''))
      (aset ''findings'' (PList (list_items (aget item ''findings''))) item) d) items ?d) c = map_of ?d c)"
    using Cons.IH[of ?d] Cons.prems(2) by simp
  show ?case
    using IH Cons.prems(2) by (simp add: id All_less_Suc2 update_conv' del: One_nat_def)
qed simp

lemma prior_claims_facts:
  assumes "list_all2 claim_named (prior_items prior) cids" "distinct cids"
  shows "entries_ok (prior_claims tot prior)"
    "n < length cids \<Longrightarrow> map_of (prior_claims tot prior) (cids ! n) =
       Some (aset ''of_passes'' (PInt tot) (aset ''findings'' (PList (list_items (aget (prior_items prior ! n) ''findings'')))
         (prior_items prior ! n)))"
proof -
  let ?d = "fold (\<lambda>item d. AList.update (py_str (aget item ''claim_id''))
      (aset ''findings'' (PList (list_items (aget item ''findings''))) item) d) (prior_items prior) []"
  have pc: "prior_claims tot prior = map (\<lambda>(cid, e). (cid, aset ''of_passes'' (PInt tot) e)) ?d"
    by (simp add: prior_claims_def prior_items_def)
  have f: "entries_ok ?d" "\<forall>n < length (prior_items prior). map_of ?d (cids ! n) =
        Some (aset ''findings'' (PList (list_items (aget (prior_items prior ! n) ''findings''))) (prior_items prior ! n))"
    using prior_fold[of "[]" "prior_items prior" cids] assms by (auto simp: entries_ok_def)
  show "entries_ok (prior_claims tot prior)"
    using f(1) by (force simp: pc entries_ok_def claim_named_def aget_aset comp_def case_prod_unfold)
  show "n < length cids \<Longrightarrow> map_of (prior_claims tot prior) (cids ! n) =
       Some (aset ''of_passes'' (PInt tot) (aset ''findings'' (PList (list_items (aget (prior_items prior ! n) ''findings'')))
         (prior_items prior ! n)))"
    using f(2) list_all2_lengthD[OF assms(1)] by (simp add: pc map_of_map)
qed

lemma tag_passes_in:
  "k < length reports \<Longrightarrow> PDict item \<in> set (items (reports ! k)) \<Longrightarrow>
   PDict (aset ''pass'' (PInt (n + int k)) item) \<in> set (tag_passes n items reports)"
proof (induction reports arbitrary: n k)
  case (Cons r rs)
  show ?case
  proof (cases k)
    case 0
    then show ?thesis using Cons.prems(2) by (auto simp: in_dicts_of)
  next
    case (Suc j)
    then have "PDict (aset ''pass'' (PInt (n + 1 + int j)) item) \<in> set (tag_passes (n + 1) items rs)"
      using Cons.prems by (intro Cons.IH) auto
    then show ?thesis using Suc by (simp add: algebra_simps)
  qed
qed simp

text \<open>C22: No finding disappears in a merge. Whatever a pass found wrong with a claim is a finding of that claim in the
  merged report, under the number of its pass, and the merged verdict is at least as strict as each of the verdicts
  merged. Every omission a pass names and the scope review of every pass are in the merged report, tagged with the
  number of the pass. What an earlier merged report held of findings, omissions and scope reviews is held still. It is
  assumed that the claims of the earlier report have texts for ids and that no two have the same one.
\<close>

theorem merge_keeps_findings:
  assumes "merge_reviews reports prior = Inr m" "list_all2 claim_named (prior_items prior) cids" "distinct cids"
  shows "\<exists>before. prior_count prior = Inr before \<and>
    (\<forall>k item. k < length reports \<and> PDict item \<in> set (list_items (aget (reports ! k) ''claim_reviews'')) \<and>
      truthy (aget item ''claim_id'') \<and> aget item ''verdict'' \<noteq> PStr ''supported'' \<longrightarrow>
      (\<exists>e. PDict e \<in> set (list_items (aget m ''claim_reviews'')) \<and> aget e ''claim_id'' = aget item ''claim_id'' \<and>
         finding_of_pass (before + 1 + int k) item \<in> set (list_items (aget e ''findings'')) \<and>
         rank_of VERDICT_RANK (aget item ''verdict'') \<le> rank_of VERDICT_RANK (aget e ''verdict''))) \<and>
    (\<forall>item \<in> set (prior_items prior).
      (\<exists>e. PDict e \<in> set (list_items (aget m ''claim_reviews'')) \<and> aget e ''claim_id'' = aget item ''claim_id'' \<and>
         set (list_items (aget item ''findings'')) \<subseteq> set (list_items (aget e ''findings'')) \<and>
         rank_of VERDICT_RANK (aget item ''verdict'') \<le> rank_of VERDICT_RANK (aget e ''verdict''))) \<and>
    (\<forall>k item. k < length reports \<and> PDict item \<in> set (list_items (aget (reports ! k) ''omission_reviews'')) \<longrightarrow>
      PDict (aset ''pass'' (PInt (before + 1 + int k)) item) \<in> set (list_items (aget m ''omission_reviews''))) \<and>
    (\<forall>k s. k < length reports \<and> aget (reports ! k) ''scope_review'' = PDict s \<longrightarrow>
      PDict (aset ''pass'' (PInt (before + 1 + int k)) s) \<in> set (list_items (aget m ''scope_reviews''))) \<and>
    set (list_items (aget prior ''omission_reviews'')) \<subseteq> set (list_items (aget m ''omission_reviews'')) \<and>
    set (list_items (aget prior ''scope_reviews'')) \<subseteq> set (list_items (aget m ''scope_reviews''))"
proof -
  obtain off where off: "prior_count prior = Inr off"
    using assms(1) by (auto simp: merge_reviews_def and_then_Inr_iff split: if_splits)
  let ?tot = "off + int (length reports)"
  obtain claims extra where run: "merge_passes ?tot (off + 1) reports (prior_claims ?tot prior) = Inr claims"
    and m: "aget m ''claim_reviews'' = PList (map (\<lambda>(cid, e). PDict e) (sort_key fst claims))"
    and om: "aget m ''omission_reviews'' = PList (list_items (aget prior ''omission_reviews'') @
              tag_passes (off + 1) (\<lambda>r. list_items (aget r ''omission_reviews'')) reports)"
    and sc: "aget m ''scope_reviews'' = PList (extra @ tag_passes (off + 1) (\<lambda>r. [aget r ''scope_review'']) reports)"
      "extra = list_items (aget prior ''scope_reviews'') \<or> list_items (aget prior ''scope_reviews'') = []"
    using assms(1) off by (auto simp: merge_reviews_def Let_def and_then_Inr_iff aget_Cons split: if_splits)
  have omitted: "PDict (aset ''pass'' (PInt (off + 1 + int k)) item) \<in> set (list_items (aget m ''omission_reviews''))"
    if "k < length reports \<and> PDict item \<in> set (list_items (aget (reports ! k) ''omission_reviews''))" for k item
    using tag_passes_in[of k reports item "\<lambda>r. list_items (aget r ''omission_reviews'')" "off + 1"] that om by (simp add: list_items_def)
  have scoped: "PDict (aset ''pass'' (PInt (off + 1 + int k)) s) \<in> set (list_items (aget m ''scope_reviews''))"
    if "k < length reports \<and> aget (reports ! k) ''scope_review'' = PDict s" for k s
    using tag_passes_in[of k reports s "\<lambda>r. [aget r ''scope_review'']" "off + 1"] that sc by (simp add: list_items_def)
  have still: "set (list_items (aget prior ''omission_reviews'')) \<subseteq> set (list_items (aget m ''omission_reviews''))"
    using om by (simp add: list_items_def)
  have "set (list_items (aget prior ''scope_reviews'')) \<subseteq> set extra" using sc(2) by auto
  then have kept: "set (list_items (aget prior ''scope_reviews'')) \<subseteq> set (list_items (aget m ''scope_reviews''))"
    unfolding sc(1) by (auto simp: list_items_def)
  note st = merge_passes_step[OF run prior_claims_facts(1)[OF assms(2,3)]]
  have out: "PDict e \<in> set (list_items (aget m ''claim_reviews'')) \<and> aget e ''claim_id'' = PStr cid" if "map_of claims cid = Some e" for cid e
    using map_of_SomeD[OF that] st by (force simp: m list_items_def entries_ok_def claim_named_def)
  have new: "\<exists>e. PDict e \<in> set (list_items (aget m ''claim_reviews'')) \<and> aget e ''claim_id'' = aget item ''claim_id'' \<and>
         finding_of_pass (off + 1 + int k) item \<in> set (list_items (aget e ''findings'')) \<and>
         rank_of VERDICT_RANK (aget item ''verdict'') \<le> rank_of VERDICT_RANK (aget e ''verdict'')"
    if "k < length reports \<and> PDict item \<in> set (list_items (aget (reports ! k) ''claim_reviews'')) \<and>
      truthy (aget item ''claim_id'') \<and> aget item ''verdict'' \<noteq> PStr ''supported''" for k item
  proof -
    have "holds_finding (off + 1 + int k) item claims" using st that by blast
    then show ?thesis using out by (fastforce simp: holds_finding_def)
  qed
  have old: "\<exists>e. PDict e \<in> set (list_items (aget m ''claim_reviews'')) \<and> aget e ''claim_id'' = aget item ''claim_id'' \<and>
         set (list_items (aget item ''findings'')) \<subseteq> set (list_items (aget e ''findings'')) \<and>
         rank_of VERDICT_RANK (aget item ''verdict'') \<le> rank_of VERDICT_RANK (aget e ''verdict'')"
    if i: "item \<in> set (prior_items prior)" for item
  proof -
    obtain n where n: "n < length cids" "prior_items prior ! n = item" "claim_named item (cids ! n)"
      using i assms(2) by (auto simp: in_set_conv_nth list_all2_conv_all_nth)
    let ?e0 = "aset ''of_passes'' (PInt ?tot) (aset ''findings'' (PList (list_items (aget item ''findings''))) item)"
    have "map_of (prior_claims ?tot prior) (cids ! n) = Some ?e0"
      using prior_claims_facts(2)[OF assms(2,3) n(1), of ?tot] n(2) by simp
    then obtain e where e: "map_of claims (cids ! n) = Some e" "keeps ?e0 e"
      using st unfolding grows_to_def by blast
    then have "set (list_items (aget item ''findings'')) \<subseteq> set (list_items (aget e ''findings'')) \<and>
        rank_of VERDICT_RANK (aget item ''verdict'') \<le> rank_of VERDICT_RANK (aget e ''verdict'')"
      by (simp add: keeps_def aget_aset list_items_def)
    then show ?thesis using out[OF e(1)] n(3) by (auto simp: claim_named_def)
  qed
  show ?thesis using off new old omitted scoped still kept by blast
qed


subsection \<open>Obtaining a review\<close>

text \<open>
  \<^verbatim>\<open>run_external_review\<close> and \<^verbatim>\<open>run_review_passes\<close> of \<^verbatim>\<open>wiki/review.py\<close>: an answer is what the endpoint sent back
  with its provenance, one answer for each pass.
\<close>

definition counts_json :: "(string \<times> nat) list \<Rightarrow> pyval" where
  "counts_json cs = PDict (map (\<lambda>(k, n). (k, PInt (int n))) cs)"

definition check_json :: "report_check \<Rightarrow> args" where
  "check_json v =
     [(''findings'', PList (map PDict (rc_findings v))), (''report_valid'', PBool (rc_valid v)),
      (''deterministic_clean'', PBool (rc_deterministic_clean v)), (''semantic_clean'', PBool (rc_semantic_clean v)),
      (''omission_clean'', PBool (rc_omission_clean v)), (''scope_clean'', PBool (rc_scope_clean v)),
      (''ready_for_agent_review'', PBool (rc_valid v)), (''claims_expected'', PInt (int (rc_claims_expected v))),
      (''claims_reviewed'', PInt (int (rc_claims_reviewed v))),
      (''claim_verdict_counts'', counts_json (rc_verdict_counts v)),
      (''omission_severity_counts'', counts_json (rc_severity_counts v)), (''clean'', PBool (rc_clean v)),
      (''agent_review_required'', PBool True)]"

definition answer_object :: "pyval \<Rightarrow> args" where
  "answer_object v = (case v of PDict d \<Rightarrow> d | _ \<Rightarrow> [(''invalid_model_output'', v)])"

definition run_external_review :: "(string \<Rightarrow> string) \<Rightarrow> args \<Rightarrow> pyval \<times> pyval \<Rightarrow> wiki_error + args" where
  "run_external_review h bundle answer =
     (case answer of (data, provenance) \<Rightarrow>
        let d = aset ''review_provenance'' provenance (answer_object data)
        in and_then (validate_review_report h d bundle) (\<lambda>v. Inr (aset ''validation'' (PDict (check_json v)) d)))"

definition run_review_passes :: "(string \<Rightarrow> string) \<Rightarrow> args \<Rightarrow> (pyval \<times> pyval) list \<Rightarrow> args \<Rightarrow> wiki_error + args" where
  "run_review_passes h bundle answers prior =
     (if answers = [] then Inl ValueErr
      else and_then (collect_results (map (run_external_review h bundle) answers)) (\<lambda>reports.
           and_then (merge_reviews reports prior) (\<lambda>merged.
             Inr (aset ''review_bundle_sha256'' (aget bundle ''review_bundle_sha256'')
                   (aset ''article_sha256'' (aget bundle ''article_sha256'') merged)))))"

text \<open>
  \<^verbatim>\<open>load_prior_review\<close>: only a merged report of this article, and of this bundle when its hash is given. \<open>file\<close> is
  what the file decodes to, \<open>None\<close> when it is missing or cannot be read.
\<close>

definition load_prior_review :: "pyval option \<Rightarrow> string \<Rightarrow> string option \<Rightarrow> args option" where
  "load_prior_review file article bundle_hash =
     (case file of
        Some (PDict prior) \<Rightarrow>
          if \<not> truthy (aget prior ''passes'') then None
          else if aget prior ''article_sha256'' \<noteq> PStr article then None
          else (case bundle_hash of
              None \<Rightarrow> Some prior
            | Some b \<Rightarrow> if aget prior ''review_bundle_sha256'' \<noteq> PStr b then None else Some prior)
      | _ \<Rightarrow> None)"

subsection \<open>Concrete reviews\<close>

definition demo_bundle_doc :: args where
  "demo_bundle_doc =
     [(''article_sha256'', PStr ''a''), (''review_bundle_sha256'', PStr ''h''),
      (''claim_packets'', PList [PDict [(''claim_id'', PStr ''claim-0001''),
         (''citations'', PList [PDict [(''resolved_ref'', PStr ''mem:1'')]])]]),
      (''deterministic_report'', PDict [(''clean'', PBool True)])]"

definition demo_review :: "string \<Rightarrow> string \<Rightarrow> args" where
  "demo_review verdict scope_reason =
     [(''article_sha256'', PStr ''a''), (''review_bundle_sha256'', PStr ''h''), (''summary'', PStr ''s''),
      (''claim_reviews'', PList [PDict [(''claim_id'', PStr ''claim-0001''), (''verdict'', PStr verdict),
         (''confidence'', PStr ''high''), (''reason'', PStr ''r''), (''suggested_rewrite'', PStr []),
         (''evidence_refs'', PList [PStr ''mem:1''])]]),
      (''omission_reviews'', PList []), (''overall_verdict'', PStr ''pass''),
      (''scope_review'', PDict [(''verdict'', PStr ''in_scope''), (''reason'', PStr scope_reason)])]"

definition demo_merged :: args where
  "demo_merged = projr (run_review_passes (\<lambda>_. ''h'') demo_bundle_doc [(PDict (demo_review ''contradicted'' ''ok''), PNone)] [])"

lemma demo_merged_run:
  "run_review_passes (\<lambda>_. ''h'') demo_bundle_doc [(PDict (demo_review ''contradicted'' ''ok''), PNone)] [] = Inr demo_merged"
proof -
  have "\<not> isl (run_review_passes (\<lambda>_. ''h'') demo_bundle_doc [(PDict (demo_review ''contradicted'' ''ok''), PNone)] [])"
    by code_simp
  then show ?thesis by (simp add: demo_merged_def)
qed

definition demo_rulings :: args where
  "demo_rulings = rule_all (\<lambda>fid. (''non_blocking'', ''non_material'', ''known'')) (projr (build_adjudication (\<lambda>_. ''h'') demo_merged))"

lemma demo_gate:
  "map_sum id af_clean (validate_review_artifact (\<lambda>_. ''h'') demo_merged demo_bundle_doc (Some demo_rulings)) = Inr True"
  by code_simp

lemma demo_gate_shut:
  "map_sum id af_clean (validate_review_artifact (\<lambda>_. ''h'') demo_merged demo_bundle_doc None) = Inr False"
  by code_simp

text \<open>
  A pass that the single-pass check calls valid can make a merged report that no ruling can save: only the merged
  check asks for a reason of the scope review.
\<close>

lemma scope_reason_strands:
  "map_sum id rc_valid (validate_review_report (\<lambda>_. ''h'') (demo_review ''supported'' []) demo_bundle_doc) = Inr True"
  "and_then (run_review_passes (\<lambda>_. ''h'') demo_bundle_doc [(PDict (demo_review ''supported'' []), PNone)] []) (\<lambda>m.
     map_sum id (\<lambda>v. map (\<lambda>p. aget p ''kind'') (rc_findings v)) (validate_merged_review_report (\<lambda>_. ''h'') m demo_bundle_doc)) =
   Inr [PStr ''merged_scope_review_invalid'']"
  by code_simp+

lemma publication_gate_witness:
  "(\<exists>a. validate_review_artifact (\<lambda>_. ''h'') demo_merged demo_bundle_doc (Some demo_rulings) = Inr a \<and> af_clean a) \<and>
   needs_ruling demo_merged ''claim:claim-0001:pass:1'' \<and> ruled_harmless demo_rulings ''claim:claim-0001:pass:1''"
proof -
  obtain a where a: "validate_review_artifact (\<lambda>_. ''h'') demo_merged demo_bundle_doc (Some demo_rulings) = Inr a" "af_clean a"
    using demo_gate by (cases "validate_review_artifact (\<lambda>_. ''h'') demo_merged demo_bundle_doc (Some demo_rulings)") auto
  have ids: "map_sum id (map finding_id) (collect_review_findings demo_merged) = Inr [''claim:claim-0001:pass:1'']" by code_simp
  then obtain fs where c: "collect_review_findings demo_merged = Inr fs" "map finding_id fs = [''claim:claim-0001:pass:1'']"
    by (cases "collect_review_findings demo_merged") auto
  have "''claim:claim-0001:pass:1'' \<in> set (map finding_id fs)" unfolding c(2) by (rule list.set_intros(1))
  then have needs: "needs_ruling demo_merged ''claim:claim-0001:pass:1''"
    unfolding list.set_map needed_ids[OF c(1)] by (rule CollectD)
  from publication_gate[OF a, THEN conjunct2, THEN conjunct1, rule_format, OF needs]
  obtain adj where "Some demo_rulings = Some adj" "ruled_harmless adj ''claim:claim-0001:pass:1''" by blast
  then have "ruled_harmless demo_rulings ''claim:claim-0001:pass:1''" by (simp only: option.inject)
  with a needs show ?thesis by blast
qed

lemma merge_keeps_findings_witness:
  "\<exists>m e. merge_reviews [demo_review ''contradicted'' ''ok'', demo_review ''supported'' ''ok''] [] = Inr m \<and>
     PDict e \<in> set (list_items (aget m ''claim_reviews'')) \<and> aget e ''claim_id'' = PStr ''claim-0001'' \<and>
     4 \<le> rank_of VERDICT_RANK (aget e ''verdict'')"
proof -
  let ?rs = "[demo_review ''contradicted'' ''ok'', demo_review ''supported'' ''ok'']"
  have "\<not> isl (merge_reviews ?rs [])" by code_simp
  then obtain m where m: "merge_reviews ?rs [] = Inr m" by (cases "merge_reviews ?rs []") auto
  have none: "list_all2 claim_named (prior_items []) []" by (simp add: prior_items_def dicts_of_def list_items_def aget_Nil map_filter_simps)
  let ?item = "[(''claim_id'', PStr ''claim-0001''), (''verdict'', PStr ''contradicted''),
         (''confidence'', PStr ''high''), (''reason'', PStr ''r''), (''suggested_rewrite'', PStr []),
         (''evidence_refs'', PList [PStr ''mem:1''])]"
  have "PDict ?item \<in> set (list_items (aget (?rs ! 0) ''claim_reviews''))"
    by (simp add: demo_review_def aget_Cons list_items_def)
  moreover have "truthy (aget ?item ''claim_id'')" "aget ?item ''verdict'' \<noteq> PStr ''supported''"
    "aget ?item ''claim_id'' = PStr ''claim-0001''" "rank_of VERDICT_RANK (aget ?item ''verdict'') = 4"
    by (simp_all add: aget_Cons rank_of_def VERDICT_RANK_def)
  moreover obtain before where "\<forall>k item. k < length ?rs \<and> PDict item \<in> set (list_items (aget (?rs ! k) ''claim_reviews'')) \<and>
      truthy (aget item ''claim_id'') \<and> aget item ''verdict'' \<noteq> PStr ''supported'' \<longrightarrow>
      (\<exists>e. PDict e \<in> set (list_items (aget m ''claim_reviews'')) \<and> aget e ''claim_id'' = aget item ''claim_id'' \<and>
         finding_of_pass (before + 1 + int k) item \<in> set (list_items (aget e ''findings'')) \<and>
         rank_of VERDICT_RANK (aget item ''verdict'') \<le> rank_of VERDICT_RANK (aget e ''verdict''))"
    using merge_keeps_findings[OF m none distinct.simps(1)[THEN iffD2, OF TrueI]] by blast
  note this[rule_format, of 0 ?item]
  ultimately obtain e where "PDict e \<in> set (list_items (aget m ''claim_reviews''))" "aget e ''claim_id'' = PStr ''claim-0001''"
    "4 \<le> rank_of VERDICT_RANK (aget e ''verdict'')"
    by auto
  with m show ?thesis by blast
qed


lemma dicts_of_few [simp]: "dicts_of [] = []" "dicts_of [PDict d] = [d]"
  by (simp_all add: dicts_of_def map_filter_simps)

subsection \<open>One valid pass makes a valid merged report\<close>

lemma claim_loop_ok:
  assumes "list_all2 claim_named items cids" "distinct cids" "set (map PStr cids) \<inter> set seen = {}"
    "list_all2 (\<lambda>i c. \<exists>p. expected_packet bundle c = Some p \<and> check p i = Inr []) items cids"
  shows "\<exists>seen'. claim_loop check bundle (map PDict items) seen = Inr ([], seen') \<and> set seen' = set (map PStr cids) \<union> set seen"
  using assms
proof (induction items cids arbitrary: seen rule: list_all2_induct)
  case (Cons i items c cids)
  have id: "aget i ''claim_id'' = PStr c" using Cons.hyps(1) by (simp add: claim_named_def)
  obtain p where p: "expected_packet bundle c = Some p" "check p i = Inr []" using Cons.prems(3) by auto
  have new: "\<not> list_ex (py_eq (PStr c)) seen" using Cons.prems(2) by (auto simp: list_ex_iff)
  obtain seen' where "claim_loop check bundle (map PDict items) (PStr c # seen) = Inr ([], seen')"
    "set seen' = set (map PStr cids) \<union> set (PStr c # seen)"
    using Cons.IH[of "PStr c # seen"] Cons.prems by auto
  then show ?case using id p new by (intro exI[of _ seen']) (auto simp: seen_before_def packet_for_def flag_if_def)
qed simp

lemma merged_entry_ok:
  assumes "claim_review_problems p item = Inr []" "claim_named item cid"
  shows "merged_claim_problems 1 p (add_review 1 item (new_claim cid 1)) = Inr []"
proof -
  obtain v where v: "aget item ''verdict'' = PStr v" "v \<in> CLAIM_VERDICTS"
    and c: "must_be_in (aget item ''confidence'') CONFIDENCE (problem ''claim_review_bad_confidence'' [(''claim_id'', PStr cid)]) = Inr []"
    and o: "refs_outside (set (resolved_refs p)) (aget item ''evidence_refs'') = Inr False"
    and r: "\<not> blank_text (aget item ''reason'')" "\<exists>s. aget item ''suggested_rewrite'' = PStr s"
    using assms
    by (auto simp: claim_review_problems_def and_then_Inr_iff Let_def must_be_in_Nil claim_named_def split: if_splits pyval.splits)
  have rank: "rank_of VERDICT_RANK (PStr v) = 0 \<longleftrightarrow> v = ''supported''"
    using v(2) by (auto simp: rank_of_def VERDICT_RANK_def CLAIM_VERDICTS_def)
  show ?thesis
  proof (cases "v = ''supported''")
    case True
    then have "add_review 1 item (new_claim cid 1) = new_claim cid 1"
      using v by (simp add: add_review_def new_claim_def aget_Cons)
    then show ?thesis
      by (simp add: merged_claim_problems_def new_claim_def aget_Cons list_items_def must_be_in_def hash_in_def
          CLAIM_VERDICTS_def worst_verdict_def int_of_def flag_if_def)
  next
    case False
    then have e: "aget (add_review 1 item (new_claim cid 1)) ''verdict'' = PStr v"
      "aget (add_review 1 item (new_claim cid 1)) ''findings'' = PList [finding_of_pass 1 item]"
      "aget (add_review 1 item (new_claim cid 1)) ''flagged_in'' = PInt 1"
      "aget (add_review 1 item (new_claim cid 1)) ''of_passes'' = PInt 1"
      "aget (add_review 1 item (new_claim cid 1)) ''claim_id'' = PStr cid"
      using v rank by (simp_all add: add_review_def new_claim_def aget_Cons aget_aset Let_def list_items_def int_value_def
          int_or_bool_def rank_of_def VERDICT_RANK_def)
    obtain s where s: "aget item ''suggested_rewrite'' = PStr s" using r(2) by blast
    have h: "hash_in (PStr v) CLAIM_VERDICTS = Inr True" using v(2) by (simp add: hash_in_def)
    have m: "must_be_in (PStr v) CLAIM_VERDICTS q = Inr []" for q using v(2) by (auto simp: must_be_in_Nil)
    have "merged_findings_loop 1 (set (resolved_refs p)) (PStr cid) [finding_of_pass 1 item] [] = Inr ([], [v])"
      using False r(1) by (simp add: finding_of_pass_def aget_Cons Let_def int_of_def v(1) h c o s flag_if_def)
    then show ?thesis
      by (simp add: merged_claim_problems_def e m list_items_def Let_def int_of_def flag_if_def worst_verdict_def)
  qed
qed

lemma claim_review_verdict: "claim_review_problems p i = Inr [] \<Longrightarrow> \<exists>v \<in> CLAIM_VERDICTS. aget i ''verdict'' = PStr v"
  by (auto simp: claim_review_problems_def and_then_Inr_iff Let_def dest: must_be_in_Nil[THEN iffD1])

lemma merge_fresh:
  assumes "list_all2 claim_named items cids" "distinct cids" "[] \<notin> set cids" "set cids \<inter> fst ` set c = {}"
    "\<forall>i \<in> set items. \<exists>v. aget i ''verdict'' = PStr v"
  shows "merge_claims tot n (map PDict items) c = Inr (c @ map2 (\<lambda>cid i. (cid, add_review n i (new_claim cid tot))) cids items)"
  using assms
proof (induction items cids arbitrary: c rule: list_all2_induct)
  case (Cons i items cid cids)
  have new: "map_of c cid = None" using Cons.prems(3) by (auto simp: map_of_eq_None_iff)
  have upd: "AList.update cid e c = c @ [(cid, e)]" for e
    using new by (induction c) (auto split: if_splits)
  obtain v where "aget i ''verdict'' = PStr v" using Cons.prems(4) by auto
  then have "merge_claim tot n (PDict i) c = Inr (c @ [(cid, add_review n i (new_claim cid tot))])"
    using Cons.hyps(1) Cons.prems(2) new by (auto simp: merge_claim_def claim_named_def hash_in_def claim_entry_def upd)
  then show ?case using Cons.IH[of "c @ [(cid, add_review n i (new_claim cid tot))]"] Cons.prems by simp
qed simp

lemma omission_tag: "omission_problems bundle i (PDict (aset ''pass'' n d)) = omission_problems bundle i (PDict d)"
  by (simp add: omission_problems_def quote_problems_def aget_aset)

lemma omission_object: "omission_problems bundle i v = Inr [] \<Longrightarrow> \<exists>d. v = PDict d"
  by (cases v) (auto simp: omission_problems_def Let_def)

lemma omissions_quiet:
  "each_index (omission_problems bundle) i vs = Inr [] \<Longrightarrow>
   \<exists>ds. vs = map PDict ds \<and> each_index (omission_problems bundle) i (map (\<lambda>d. PDict (aset ''pass'' n d)) ds) = Inr []"
proof (induction vs arbitrary: i)
  case (Cons v vs)
  then have "omission_problems bundle i v = Inr []" "each_index (omission_problems bundle) (i + 1) vs = Inr []"
    by (auto simp: and_then_Inr_iff)
  with Cons.IH[of "i + 1"] omission_object obtain d ds where "v = PDict d" "vs = map PDict ds"
    "each_index (omission_problems bundle) (i + 1) (map (\<lambda>d. PDict (aset ''pass'' n d)) ds) = Inr []" by blast
  then show ?case
    using \<open>omission_problems bundle i v = Inr []\<close> by (intro exI[of _ "d # ds"]) (simp add: omission_tag)
qed simp

lemma count_map_filter:
  "length (filter Q (List.map_filter f xs)) = length (filter (\<lambda>x. \<exists>y. f x = Some y \<and> Q y) xs)"
  by (induction xs) (auto simp: map_filter_simps split: option.split)

lemma count_sorted: "length (filter P (sort_key k xs)) = length (filter P xs)"
  by (metis mset_filter mset_sort size_mset)

lemma flag_counts_sorted:
  "flag_counts passes (map snd (sort_key fst claims)) = flag_counts passes (map snd claims)"
proof -
  have "length (filter Q (List.map_filter g (map snd (sort_key fst claims)))) = length (filter Q (List.map_filter g (map snd claims)))"
    for Q and g :: "args \<Rightarrow> int option"
    by (simp add: count_map_filter filter_map count_sorted)
  then show ?thesis by (simp only: flag_counts_def Let_def filter_filter)
qed

lemma flag_counts_zip:
  "flag_counts passes (map snd claims) =
   (let flags = filter (\<lambda>i. 0 < i) (List.map_filter (\<lambda>(cid, e). int_or_bool (aget e ''flagged_in'')) claims)
    in (length flags, length (filter (\<lambda>i. i = passes) flags), length (filter (\<lambda>i. i = 1) flags)))"
proof -
  have "List.map_filter (\<lambda>item. int_or_bool (aget item ''flagged_in'')) (map snd claims) =
      List.map_filter (\<lambda>(cid, e). int_or_bool (aget e ''flagged_in'')) claims"
    by (induction claims) (auto simp: map_filter_simps split: option.split)
  then show ?thesis by (simp add: flag_counts_def Let_def)
qed

lemma fresh_flags:
  "filter (\<lambda>i. i \<noteq> 0) (List.map_filter (\<lambda>(cid, e). int_or_bool (aget e ''flagged_in''))
      (map2 (\<lambda>cid i. (cid, add_review n i (new_claim cid t))) cids items)) =
   filter (\<lambda>i. 0 < i) (List.map_filter (\<lambda>(cid, e). int_or_bool (aget e ''flagged_in''))
      (map2 (\<lambda>cid i. (cid, add_review n i (new_claim cid t))) cids items))"
proof -
  have this01: "int_or_bool (aget (add_review n i (new_claim cid t)) ''flagged_in'') \<in> {Some 0, Some 1}" for i cid
    by (auto simp: add_review_def new_claim_def Let_def aget_aset aget_Cons int_or_bool_def int_value_def)
  have "0 \<le> k" if mem: "k \<in> set (List.map_filter (\<lambda>(cid, e). int_or_bool (aget e ''flagged_in''))
      (map2 (\<lambda>cid i. (cid, add_review n i (new_claim cid t))) cids items))" for k
  proof -
    obtain cid i where "int_or_bool (aget (add_review n i (new_claim cid t)) ''flagged_in'') = Some k"
      using mem by (auto simp: in_map_filter)
    then show ?thesis using this01[of i cid] by auto
  qed
  then show ?thesis by (intro filter_cong) force+
qed

lemma list_all2_snd_fst: "(\<forall>x \<in> set xs. P (snd x) (fst x)) \<Longrightarrow> list_all2 P (map snd xs) (map fst xs)"
  by (simp add: list_all2_conv_all_nth)

lemma merged_claims_graded:
  assumes "\<forall>(cid, e) \<in> set claims. claim_named e cid \<and> (\<exists>p. expected_packet bundle cid = Some p \<and> merged_claim_problems 1 p e = Inr [])"
    "distinct (map fst claims)" "set (expected_ids bundle) \<subseteq> fst ` set claims"
  shows "\<exists>seen. claim_loop (merged_claim_problems 1) bundle (map PDict (map snd (sort_key fst claims))) [] = Inr ([], seen) \<and>
    missing_problem bundle seen = []"
proof -
  let ?s = "sort_key fst claims"
  have d: "distinct (map fst ?s)" using assms(2) by (metis distinct_map distinct_sort set_sort mset_eq_imp_distinct_iff mset_map mset_sort)
  have n: "list_all2 claim_named (map snd ?s) (map fst ?s)" using assms(1) by (intro list_all2_snd_fst) auto
  have c: "list_all2 (\<lambda>i c. \<exists>p. expected_packet bundle c = Some p \<and> merged_claim_problems 1 p i = Inr []) (map snd ?s) (map fst ?s)"
    using assms(1) by (intro list_all2_snd_fst) auto
  obtain seen where "claim_loop (merged_claim_problems 1) bundle (map PDict (map snd ?s)) [] = Inr ([], seen)"
    "set seen = PStr ` fst ` set claims"
    using claim_loop_ok[where check = "merged_claim_problems 1", OF n d _ c, of "[]"] by (auto simp: image_image)
  then show ?thesis
    using assms(3) by (intro exI[of _ seen]) (auto simp: missing_problem_def missing_claims_def sort_Nil_iff filter_empty_conv)
qed

lemma valid_pass_facts:
  assumes "validate_review_report h d bundle = Inr v" "rc_valid v"
  shows "\<exists>items cids ods s o_v. aget d ''claim_reviews'' = PList (map PDict items) \<and> list_all2 claim_named items cids \<and>
    distinct cids \<and> set cids = set (expected_ids bundle) \<and>
    list_all (\<lambda>i. \<exists>cid p. claim_named i cid \<and> expected_packet bundle cid = Some p \<and> claim_review_problems p i = Inr []) items \<and>
    aget d ''omission_reviews'' = PList (map PDict ods) \<and>
    each_index (omission_problems bundle) 0 (map (\<lambda>d. PDict (aset ''pass'' (PInt 1) d)) ods) = Inr [] \<and>
    aget d ''scope_review'' = PDict s \<and> (\<exists>k \<in> SCOPE_VERDICTS. aget s ''verdict'' = PStr k) \<and>
    o_v \<in> OVERALL_VERDICTS \<and> aget d ''overall_verdict'' = PStr o_v \<and>
    aget bundle ''review_bundle_sha256'' = PStr (content_hash h bundle ''review_bundle_sha256'')"
proof -
  obtain seen s omissions where
    loop: "claim_loop claim_review_problems bundle (list_items (aget d ''claim_reviews'')) [] = Inr ([], seen)"
    and sc: "aget d ''scope_review'' = PDict s" "must_be_in (aget s ''verdict'') SCOPE_VERDICTS (problem ''scope_review_invalid'' []) = Inr []"
    and ov: "must_be_in (aget d ''overall_verdict'') OVERALL_VERDICTS (problem ''overall_verdict_invalid'' []) = Inr []"
    and om: "validate_omission_reviews d bundle = Inr ([], omissions)"
    and none: "missing_problem bundle seen = []" "bundle_hash_problems h d bundle = []"
      "\<exists>vs. aget d ''claim_reviews'' = PList vs"
    using assms
    by (auto simp: validate_review_report_def and_then_Inr_iff Let_def grade_def scope_dict_of_def
        split: pyval.splits option.splits)
  obtain ovs where "aget d ''omission_reviews'' = PList ovs" "each_index (omission_problems bundle) 0 ovs = Inr []"
    using om by (auto simp: validate_omission_reviews_def and_then_Inr_iff split: pyval.splits)
  then obtain ods where "aget d ''omission_reviews'' = PList (map PDict ods)"
    "each_index (omission_problems bundle) 0 (map (\<lambda>d. PDict (aset ''pass'' (PInt 1) d)) ods) = Inr []"
    using omissions_quiet by blast
  moreover obtain items cids where "list_items (aget d ''claim_reviews'') = map PDict items" "list_all2 claim_named items cids"
    "distinct cids" "set cids = set (expected_ids bundle)"
    "list_all (\<lambda>i. \<exists>cid p. claim_named i cid \<and> expected_packet bundle cid = Some p \<and> claim_review_problems p i = Inr []) items"
    using claim_loop_covers[OF loop none(1)] by blast
  moreover have "aget bundle ''review_bundle_sha256'' = PStr (content_hash h bundle ''review_bundle_sha256'')"
    using none(2) by (simp add: bundle_hash_problems_def)
  moreover obtain o_v where "o_v \<in> OVERALL_VERDICTS" "aget d ''overall_verdict'' = PStr o_v"
    using ov unfolding must_be_in_Nil by blast
  ultimately show ?thesis using sc none(3) unfolding must_be_in_Nil
    by (intro exI[of _ items] exI[of _ cids] exI[of _ ods] exI[of _ s] exI[of _ o_v]) (auto simp: list_items_def)
qed

lemma aggregate_one_pass:
  assumes "aget m ''validation'' = PDict (merged_validation 0 [] [r])" "check_of r = check_json v" "rc_valid v"
    "rc_claims_expected v = length (expected_ids bundle)" "rc_deterministic_clean v = deterministic_clean bundle"
  shows "aggregate_problems m bundle 1 = []"
  using assms
  by (simp add: aggregate_problems_def as_dict_def merged_validation_def Let_def aget_Nil list_items_def
      aget_Cons check_json_def pass_entry_def pass_number_def int_value_def int_or_bool_def)

lemma stated_aset_keeps: "stated d j \<Longrightarrow> stated (aset k v d) j"
  by (induction k v d rule: aset.induct) (auto simp: stated_def)

lemma check_of_validated: "check_of (aset ''validation'' (PDict c) d) = c"
  by (simp add: check_of_def aget_aset as_dict_def)

text \<open>C35: The two validators agree on a single pass. When the reviewer's one answer is valid on its own and its scope review
  states a reason, the merged report that is built from it and stored is valid as well, so that rulings can open the
  gate. (The article's hash is a text and no claim id is empty, as the bundle's compiler makes them.)
\<close>

theorem one_pass_merges_valid:
  assumes "validate_review_report h (aset ''review_provenance'' prov (answer_object data)) bundle = Inr v" "rc_valid v"
    "aget (answer_object data) ''scope_review'' = PDict s" "\<not> blank_text (aget s ''reason'')"
    "aget bundle ''article_sha256'' = PStr a" "[] \<notin> set (expected_ids bundle)"
  shows "\<exists>m w. run_review_passes h bundle [(data, prov)] [] = Inr m \<and> stated m ''passes'' \<and>
    validate_merged_review_report h m bundle = Inr w \<and> rc_valid w"
proof -
  let ?d = "aset ''review_provenance'' prov (answer_object data)"
  let ?r = "aset ''validation'' (PDict (check_json v)) ?d"
  obtain items cids ods s' o_v where f: "aget ?d ''claim_reviews'' = PList (map PDict items)" "list_all2 claim_named items cids"
    "distinct cids" "set cids = set (expected_ids bundle)"
    "list_all (\<lambda>i. \<exists>cid p. claim_named i cid \<and> expected_packet bundle cid = Some p \<and> claim_review_problems p i = Inr []) items"
    "aget ?d ''omission_reviews'' = PList (map PDict ods)"
    "each_index (omission_problems bundle) 0 (map (\<lambda>d. PDict (aset ''pass'' (PInt 1) d)) ods) = Inr []"
    "aget ?d ''scope_review'' = PDict s'" "\<exists>k \<in> SCOPE_VERDICTS. aget s' ''verdict'' = PStr k"
    "o_v \<in> OVERALL_VERDICTS" "aget ?d ''overall_verdict'' = PStr o_v"
    "aget bundle ''review_bundle_sha256'' = PStr (content_hash h bundle ''review_bundle_sha256'')"
    using valid_pass_facts[OF assms(1,2)] by blast
  have s': "s' = s" using f(8) assms(3) by (simp add: aget_aset)
  have run: "run_external_review h bundle (data, prov) = Inr ?r" by (simp add: run_external_review_def Let_def assms(1))
  let ?claims = "map2 (\<lambda>cid i. (cid, add_review 1 i (new_claim cid 1))) cids items"
  have verdicts: "\<forall>i \<in> set items. \<exists>v. aget i ''verdict'' = PStr v"
    using f(5) claim_review_verdict by (fastforce simp: list_all_iff)
  have mc: "merge_claims 1 1 (map PDict items) [] = Inr ?claims"
    using merge_fresh[OF f(2,3) _ _ verdicts, of "[]"] f(4) assms(6) by simp
  have prior: "prior_claims n [] = []" for n by (simp add: prior_claims_def aget_Nil list_items_def dicts_of_def map_filter_simps)
  have mp: "merge_passes 1 1 [?r] [] = Inr ?claims" using f(1) mc by (simp add: aget_aset)
  obtain m0 where m0: "merge_reviews [?r] [] = Inr m0"
    using mp f(6) prior by (simp add: merge_reviews_def Let_def aget_Nil int_value_def int_or_bool_def aget_aset)
  have fields: "aget m0 ''passes'' = PInt 1" "aget m0 ''claim_reviews'' = PList (map PDict (map snd (sort_key fst ?claims)))"
    "aget m0 ''omission_reviews'' = PList (map (\<lambda>d. PDict (aset ''pass'' (PInt 1) d)) ods)"
    "aget m0 ''scope_reviews'' = PList [PDict (aset ''pass'' (PInt 1) s)]" "aget m0 ''overall_verdict'' = PStr o_v"
    "aget m0 ''validation'' = PDict (merged_validation 0 [] [?r])" "aget m0 ''review_provenance'' = PList [prov]"
    "stated m0 ''passes''"
    using m0 mp f(6,8,11) prior s'
    by (auto simp: merge_reviews_def Let_def aget_Nil int_value_def int_or_bool_def aget_aset aget_Cons list_items_def
        worst_overall_def case_prod_unfold comp_def stated_def)
  let ?F = "List.map_filter (\<lambda>(cid, e). int_or_bool (aget e ''flagged_in'')) ?claims"
  have raw: "aget m0 ''flagged_claims'' = PInt (int (length (filter (\<lambda>i. i \<noteq> 0) ?F)))"
    "aget m0 ''unanimous_claims'' = PInt (int (length (filter (\<lambda>i. i = 1) (filter (\<lambda>i. i \<noteq> 0) ?F))))"
    "aget m0 ''single_pass_claims'' = PInt (int (length (filter (\<lambda>i. i = 1) (filter (\<lambda>i. i \<noteq> 0) ?F))))"
    using m0 mp f(6) prior
    by (auto simp: merge_reviews_def Let_def aget_Nil int_or_bool_def aget_aset aget_Cons)
  have counts: "aget m0 ''flagged_claims'' = PInt (int (fst (flag_counts 1 (map snd ?claims))))"
    "aget m0 ''unanimous_claims'' = PInt (int (fst (snd (flag_counts 1 (map snd ?claims)))))"
    "aget m0 ''single_pass_claims'' = PInt (int (snd (snd (flag_counts 1 (map snd ?claims)))))"
    unfolding raw fresh_flags by (simp_all only: flag_counts_zip Let_def fst_conv snd_conv)
  let ?m = "aset ''review_bundle_sha256'' (aget bundle ''review_bundle_sha256'') (aset ''article_sha256'' (aget bundle ''article_sha256'') m0)"
  have m: "run_review_passes h bundle [(data, prov)] [] = Inr ?m"
    using run m0 by (simp add: run_review_passes_def)
  have graded: "\<forall>(cid, e) \<in> set ?claims. claim_named e cid \<and> (\<exists>p. expected_packet bundle cid = Some p \<and> merged_claim_problems 1 p e = Inr [])"
  proof clarify
    fix cid e
    assume "(cid, e) \<in> set ?claims"
    then obtain i where i: "(cid, i) \<in> set (zip cids items)" "e = add_review 1 i (new_claim cid 1)" by auto
    then have "claim_named i cid" "i \<in> set items" using f(2) by (auto simp: list_all2_conv_all_nth set_zip)
    then obtain p where "expected_packet bundle cid = Some p" "claim_review_problems p i = Inr []"
      using f(5) by (fastforce simp: list_all_iff claim_named_def)
    then show "claim_named e cid \<and> (\<exists>p. expected_packet bundle cid = Some p \<and> merged_claim_problems 1 p e = Inr [])"
      using merged_entry_ok \<open>claim_named i cid\<close> i(2) add_review_ok[of "new_claim cid 1" cid "[]" 1 i]
      by (auto simp: new_claim_def claim_named_def aget_Cons)
  qed
  have len: "length cids = length items" using list_all2_lengthD[OF f(2)] by simp
  have keys: "map fst ?claims = cids" using len by (simp add: comp_def case_prod_unfold)
  have dist: "distinct (map fst ?claims)" using f(3) unfolding keys .
  have "fst ` set ?claims = set (map fst ?claims)" by (simp only: list.set_map)
  then have cover: "set (expected_ids bundle) \<subseteq> fst ` set ?claims" unfolding keys using f(4) by simp
  obtain seen where loop: "claim_loop (merged_claim_problems 1) bundle (map PDict (map snd (sort_key fst ?claims))) [] = Inr ([], seen)"
    "missing_problem bundle seen = []"
    using merged_claims_graded[OF graded] dist cover by blast
  have checks: "check_of ?r = check_json v" by (rule check_of_validated)
  have v: "rc_claims_expected v = length (expected_ids bundle)" "rc_deterministic_clean v = deterministic_clean bundle"
    using assms(1) by (auto simp: validate_review_report_def and_then_Inr_iff Let_def grade_def)
  have agg: "aggregate_problems ?m bundle 1 = []"
    by (rule aggregate_one_pass[OF _ checks assms(2) v]) (simp add: aget_aset fields)
  have parts: "pass_count ?m = 1" "list_items (aget ?m ''claim_reviews'') = map PDict (map snd (sort_key fst ?claims))"
    "aget ?m ''claim_reviews'' = PList (map PDict (map snd (sort_key fst ?claims)))"
    by (simp_all add: pass_count_def aget_aset fields list_items_def)
  have om: "validate_omission_reviews ?m bundle = Inr ([], map (aset ''pass'' (PInt 1)) ods)"
    using f(7) dicts_of_PDict[of "map (aset ''pass'' (PInt 1)) ods"]
    by (simp add: validate_omission_reviews_def aget_aset fields comp_def)
  have ov: "must_be_in (aget ?m ''overall_verdict'') OVERALL_VERDICTS (problem ''overall_verdict_invalid'' []) = Inr []"
    using f(10) by (simp add: must_be_in_Nil aget_aset fields)
  obtain k where k: "k \<in> SCOPE_VERDICTS" "aget s ''verdict'' = PStr k" using f(9) s' by blast
  then have h_in: "hash_in (aget s ''verdict'') SCOPE_VERDICTS = Inr True" by (simp add: hash_in_def)
  have sc: "merged_scope_problems ?m 1 = Inr []"
    using assms(4) h_in
    by (simp add: merged_scope_problems_def aget_aset fields scope_entry_problems_def flag_if_def)
  have hp: "bundle_hash_problems h ?m bundle = []"
    using f(12) assms(5) by (simp add: bundle_hash_problems_def aget_aset flag_if_def)
  have fc: "flag_count_problems ?m 1 (map snd (sort_key fst ?claims)) = []"
    by (simp add: flag_count_problems_def aget_aset counts flag_counts_sorted flag_if_def split: prod.split)
  have "\<exists>w. validate_merged_review_report h ?m bundle = Inr w \<and> rc_valid w"
    unfolding validate_merged_review_report_def Let_def parts(1,2)
    using loop om ov sc hp fc agg parts(3)
    by (simp add: grade_def Let_def flag_if_def aget_aset fields(7) dicts_of_PDict del: map_map)
  then show ?thesis using m fields(8) by (simp add: stated_aset_keeps)
qed

lemma demo_review_valid:
  "map_sum id rc_valid (validate_review_report (\<lambda>_. ''h'')
     (aset ''review_provenance'' PNone (answer_object (PDict (demo_review ''contradicted'' ''ok'')))) demo_bundle_doc) = Inr True"
  by code_simp

theorem one_pass_merges_valid_witness:
  "\<exists>m w. run_review_passes (\<lambda>_. ''h'') demo_bundle_doc [(PDict (demo_review ''contradicted'' ''ok''), PNone)] [] = Inr m \<and>
     stated m ''passes'' \<and> validate_merged_review_report (\<lambda>_. ''h'') m demo_bundle_doc = Inr w \<and> rc_valid w"
proof -
  let ?d = "aset ''review_provenance'' PNone (answer_object (PDict (demo_review ''contradicted'' ''ok'')))"
  obtain v where v: "validate_review_report (\<lambda>_. ''h'') ?d demo_bundle_doc = Inr v" "rc_valid v"
    using demo_review_valid by (cases "validate_review_report (\<lambda>_. ''h'') ?d demo_bundle_doc") auto
  have s: "\<exists>s. aget (answer_object (PDict (demo_review ''contradicted'' ''ok''))) ''scope_review'' = PDict s \<and>
      \<not> blank_text (aget s ''reason'')"
    by (simp add: demo_review_def answer_object_def aget_Cons) code_simp
  have a: "\<exists>a. aget demo_bundle_doc ''article_sha256'' = PStr a"
    by (simp add: demo_bundle_doc_def aget_Cons)
  have "[] \<notin> set (expected_ids demo_bundle_doc)" by code_simp
  with s a v show ?thesis using one_pass_merges_valid[OF v] by blast
qed

end
