(* ===== verification/Verify.thy ===== *)
theory Verify
  imports Review_Report Relay
begin

text \<open>
  The check of a draft against its evidence: \<^verbatim>\<open>src/src/memline/wiki/verify.py\<close> and the citation token of \<^verbatim>\<open>wiki/page.py\<close>.
  The citation expressions are scanners over the text, the expressions for leaks and for numbers are run by an engine
  that is an argument. A bundle is the JSON object that \<^verbatim>\<open>draft\<close> writes: its memories and sections are objects with
  texts under \<^verbatim>\<open>id\<close>, \<^verbatim>\<open>ref\<close> and \<^verbatim>\<open>text\<close>. Sets of references are lists without duplicates.
\<close>

subsection \<open>Scanning\<close>

text \<open>
  \<open>m prev s\<close> is the value and the length of a match at the front of \<open>s\<close>, after the character \<open>prev\<close>; \<^verbatim>\<open>finditer\<close> takes
  the matches from left to right.
\<close>

type_synonym 'a matcher = "char option \<Rightarrow> string \<Rightarrow> ('a \<times> nat) option"

function scan :: "'a matcher \<Rightarrow> char option \<Rightarrow> nat \<Rightarrow> string \<Rightarrow> (nat \<times> nat \<times> 'a) list" where
  "scan m prev i s =
     (case s of
        [] \<Rightarrow> []
      | c # cs \<Rightarrow>
          (case m prev s of
             Some (v, Suc n) \<Rightarrow> (i, i + Suc n, v) # scan m (Some (last (take (Suc n) s))) (i + Suc n) (drop (Suc n) s)
           | _ \<Rightarrow> scan m (Some c) (i + 1) cs))"
  by pat_completeness auto
termination
  by (relation "measure (\<lambda>(m, prev, i, s). length s)") auto

declare scan.simps [simp del]

definition find_all :: "'a matcher \<Rightarrow> string \<Rightarrow> 'a list" where
  "find_all m s = map (\<lambda>(i, j, v). v) (scan m None 0 s)"

definition is_hex_dash :: "char \<Rightarrow> bool" where
  "is_hex_dash c \<longleftrightarrow> c \<in> set ''0123456789abcdefABCDEF-''"

definition is_citation_ref :: "string \<Rightarrow> bool" where
  "is_citation_ref r \<longleftrightarrow>
     starts_with ''mem:'' r \<and> 8 \<le> length (drop 4 r) \<and> list_all is_hex_dash (drop 4 r) \<or>
     starts_with ''sources/'' r \<and> 8 < length r"

text \<open>The text up to a closing bracket, when there is one.\<close>

definition bracketed :: "string \<Rightarrow> string option" where
  "bracketed s = (if CHR '']'' \<in> set s then Some (takeWhile (\<lambda>c. c \<noteq> CHR '']'') s) else None)"

definition CITATION :: "string matcher" where
  "CITATION prev s =
     (if starts_with ''^['' s
      then (case bracketed (drop 2 s) of Some r \<Rightarrow> if is_citation_ref r then Some (r, length r + 3) else None | None \<Rightarrow> None)
      else None)"

definition CITATION_TOKEN :: "string matcher" where
  "CITATION_TOKEN prev s =
     (if starts_with ''^['' s
      then (case bracketed (drop 2 s) of Some r \<Rightarrow> if r \<noteq> [] then Some (r, length r + 3) else None | None \<Rightarrow> None)
      else None)"

definition BARE_CITATION :: "string matcher" where
  "BARE_CITATION prev s =
     (if starts_with ''['' s \<and> prev \<noteq> Some (CHR ''^'')
      then (case bracketed (drop 1 s) of Some r \<Rightarrow> if is_citation_ref r then Some (r, length r + 2) else None | None \<Rightarrow> None)
      else None)"

text \<open>\<^verbatim>\<open>CITATION.sub(" ", s)\<close>.\<close>

function uncited_prose :: "string \<Rightarrow> string" where
  "uncited_prose s =
     (case s of
        [] \<Rightarrow> []
      | c # cs \<Rightarrow> (case CITATION None s of Some (_, Suc n) \<Rightarrow> CHR '' '' # uncited_prose (drop (Suc n) s) | _ \<Rightarrow> c # uncited_prose cs))"
  by pat_completeness auto
termination
  by (relation "measure length") auto

declare uncited_prose.simps [simp del]

subsection \<open>Sections\<close>

text \<open>\<^verbatim>\<open>re.split(r"\n(?=#{1,6} )", s)\<close>.\<close>

definition heading_ahead :: "string \<Rightarrow> bool" where
  "heading_ahead s \<longleftrightarrow>
     (let n = length (takeWhile (\<lambda>c. c = CHR ''#'') s) in 1 \<le> n \<and> n \<le> 6 \<and> starts_with '' '' (drop n s))"

fun cut_sections :: "string \<Rightarrow> string \<Rightarrow> string list" where
  "cut_sections before [] = [rev before]"
| "cut_sections before (c # cs) =
     (if c = CHR 0x0A \<and> heading_ahead cs then rev before # cut_sections [] cs else cut_sections (c # before) cs)"

definition sections_of :: "string \<Rightarrow> string list" where
  "sections_of s = cut_sections [] s"

definition uncited_section :: "string \<Rightarrow> string option" where
  "uncited_section section =
     (let ls = splitlines section;
          heading = (if strip section = [] then [] else hd ls);
          body = strip (join [CHR 0x0A] (tl ls)) in
      if starts_with ''#'' heading \<and> body \<noteq> [] \<and> find_all CITATION body = [] then Some heading else None)"

subsection \<open>The evidence\<close>

definition bundle_entries :: "args \<Rightarrow> string \<Rightarrow> args list" where
  "bundle_entries bundle k = (case aget bundle k of PList vs \<Rightarrow> dicts_of vs | _ \<Rightarrow> [])"

definition mem_ref :: "args \<Rightarrow> string" where
  "mem_ref m = ''mem:'' @ py_str (aget m ''id'')"

definition memory_ref_set :: "args \<Rightarrow> string list" where
  "memory_ref_set bundle = dedup (map mem_ref (bundle_entries bundle ''memories''))"

definition source_ref_set :: "args \<Rightarrow> string list" where
  "source_ref_set bundle = dedup (map (\<lambda>s. py_str (aget s ''ref'')) (bundle_entries bundle ''source_sections''))"

definition corpus_of :: "args \<Rightarrow> string" where
  "corpus_of bundle =
     join [CHR 0x0A] (map text_field (bundle_entries bundle ''memories'') @ map text_field (bundle_entries bundle ''source_sections''))"

definition known_evidence :: "args \<Rightarrow> string list" where
  "known_evidence bundle = dedup (memory_ref_set bundle @ source_ref_set bundle)"

definition resolve_prefix :: "string \<Rightarrow> string list \<Rightarrow> string option" where
  "resolve_prefix ref mems =
     (if \<not> starts_with ''mem:'' ref then None
      else (case filter (\<lambda>r. starts_with (drop 4 ref) (drop 4 r)) mems of [r] \<Rightarrow> Some r | _ \<Rightarrow> None))"

definition resolve_or_self :: "string list \<Rightarrow> string \<Rightarrow> string" where
  "resolve_or_self mems r = (case resolve_prefix r mems of Some full \<Rightarrow> full | None \<Rightarrow> r)"

subsection \<open>The sidecar\<close>

definition sidecar_entry :: "string \<Rightarrow> pyval \<Rightarrow> string list \<times> args list" where
  "sidecar_entry path v =
     (case v of
        PStr r \<Rightarrow> if starts_with ''mem:'' r \<or> starts_with ''sources/'' r then ([r], [])
                  else ([], [problem ''sidecar_ref_invalid_format'' [(''ref'', v), (''detail'', PStr path)]])
      | _ \<Rightarrow> ([], [problem ''sidecar_ref_invalid_format'' [(''ref'', v), (''detail'', PStr path)]]))"

definition both_parts :: "('a list \<times> 'b list) list \<Rightarrow> 'a list \<times> 'b list" where
  "both_parts xs = (concat (map fst xs), concat (map snd xs))"

fun collect_sidecar_refs :: "string \<Rightarrow> pyval \<Rightarrow> string list \<times> args list" and
  collect_list :: "string \<Rightarrow> nat \<Rightarrow> pyval list \<Rightarrow> string list \<times> args list" and
  collect_items :: "string \<Rightarrow> (string \<times> pyval) list \<Rightarrow> string list \<times> args list" where
  "collect_sidecar_refs path (PList vs) = collect_list path 0 vs"
| "collect_sidecar_refs path (PDict d) = collect_items path d"
| "collect_sidecar_refs path v = ([], [])"
| "collect_list path i [] = ([], [])"
| "collect_list path i (v # vs) =
     (case (collect_sidecar_refs (path @ ''['' @ show_nat i @ '']'') v, collect_list path (i + 1) vs) of
        ((r1, p1), (r2, p2)) \<Rightarrow> (r1 @ r2, p1 @ p2))"
| "collect_items path [] = ([], [])"
| "collect_items path ((k, v) # d) =
     (case ((if k = ''evidence_refs''
             then (case v of
                     PList vs \<Rightarrow> both_parts (map (sidecar_entry (path @ ''.'' @ k)) vs)
                   | _ \<Rightarrow> ([], [problem ''sidecar_evidence_refs_not_list'' [(''detail'', PStr (path @ ''.'' @ k))]]))
             else collect_sidecar_refs (path @ ''.'' @ k) v), collect_items path d) of
        ((r1, p1), (r2, p2)) \<Rightarrow> (r1 @ r2, p1 @ p2))"

subsection \<open>\<^verbatim>\<open>verify\<close>\<close>

datatype leak_kind = LeakIpv4 | LeakAccount | LeakIssue | LeakChange | LeakPath | LeakImage | LeakHost "string list"

definition LEAKS :: "(string \<times> leak_kind) list" where
  "LEAKS = [(''ipv4'', LeakIpv4), (''account_id'', LeakAccount), (''issue_id'', LeakIssue), (''change_id'', LeakChange),
            (''internal_path'', LeakPath), (''image_tag'', LeakImage)]"

definition leak_patterns :: "args \<Rightarrow> bundle_error + (string \<times> leak_kind) list" where
  "leak_patterns config =
     (let domains = config_value config ''sanitize'' ''internal_domains'' PNone in
      if domains = PNone then Inl SanitizeUnconfigured
      else case rule_names domains of
          None \<Rightarrow> Inl BadConfig
        | Some [] \<Rightarrow> Inr LEAKS
        | Some ds \<Rightarrow> Inr (LEAKS @ [(''internal_host'', LeakHost ds)]))"

record verify_engine =
  ve_leaks :: "leak_kind \<Rightarrow> string \<Rightarrow> string list"
  ve_numbers :: "string \<Rightarrow> string list"

definition no_commas :: "string \<Rightarrow> string" where
  "no_commas n = filter (\<lambda>c. c \<noteq> CHR '','') n"

definition unsupported_numbers :: "verify_engine \<Rightarrow> string \<Rightarrow> string \<Rightarrow> string list" where
  "unsupported_numbers V corpus draft =
     filter (\<lambda>n. 3 \<le> length (filter (\<lambda>c. c \<noteq> CHR ''.'') (no_commas n)) \<and> \<not> infix_of n corpus \<and> \<not> infix_of (no_commas n) corpus)
       (dedup (ve_numbers V (uncited_prose draft)))"

definition citation_problems :: "args \<Rightarrow> string \<Rightarrow> args list" where
  "citation_problems bundle draft =
     map (\<lambda>r. problem ''citation_missing_caret'' [(''ref'', PStr r)]) (dedup (find_all BARE_CITATION draft)) @
     map (\<lambda>r. problem ''citation_invalid_format'' [(''ref'', PStr r)])
       (filter (\<lambda>r. \<not> is_citation_ref r) (dedup (find_all CITATION_TOKEN draft))) @
     map (\<lambda>r. case resolve_prefix r (memory_ref_set bundle) of
                Some full \<Rightarrow> problem ''citation_abbreviated'' [(''ref'', PStr r), (''detail'', PStr full)]
              | None \<Rightarrow> problem ''citation_not_in_bundle'' [(''ref'', PStr r)])
       (filter (\<lambda>r. r \<notin> set (known_evidence bundle)) (dedup (find_all CITATION draft)))"

definition text_problems :: "verify_engine \<Rightarrow> (string \<times> leak_kind) list \<Rightarrow> args \<Rightarrow> string \<Rightarrow> args list" where
  "text_problems V leaks bundle draft =
     map (\<lambda>h. problem ''section_without_citation'' [(''detail'', PStr (clip 80 h))])
       (List.map_filter uncited_section (sections_of draft)) @
     concat (map (\<lambda>(kind, k). map (\<lambda>v. problem (''redaction_lost_'' @ kind) [(''detail'', PStr v)]) (dedup (ve_leaks V k draft))) leaks) @
     map (\<lambda>n. problem ''number_not_in_material'' [(''detail'', PStr n)])
       (take 40 (unsupported_numbers V (corpus_of bundle) draft))"

definition claims_dict :: "args option \<Rightarrow> args" where
  "claims_dict claims = (case claims of None \<Rightarrow> [] | Some d \<Rightarrow> d)"

definition claim_refs_of :: "args option \<Rightarrow> string list" where
  "claim_refs_of claims = dedup (fst (collect_sidecar_refs ''$'' (PDict (claims_dict claims))))"

definition unused_items :: "args option \<Rightarrow> pyval list" where
  "unused_items claims = (case aget (claims_dict claims) ''unused_evidence_refs'' of PList vs \<Rightarrow> vs | _ \<Rightarrow> [])"

definition unused_refs_of :: "args option \<Rightarrow> string list" where
  "unused_refs_of claims = dedup (List.map_filter (\<lambda>v. case v of PStr s \<Rightarrow> Some s | _ \<Rightarrow> None) (unused_items claims))"

fun a_list :: "pyval \<Rightarrow> bool" where
  "a_list (PList vs) = True"
| "a_list v = False"

fun a_text :: "pyval \<Rightarrow> bool" where
  "a_text (PStr s) = True"
| "a_text v = False"

definition sidecar_problems :: "args \<Rightarrow> args option \<Rightarrow> args list" where
  "sidecar_problems bundle claims =
     (let d = claims_dict claims; known = known_evidence bundle; mems = memory_ref_set bundle;
          unresolved = (\<lambda>kind refs. map (\<lambda>r. problem kind [(''ref'', PStr r)])
            (filter (\<lambda>r. r \<notin> set known \<and> resolve_prefix r mems = None) (sort refs))) in
      flag_if (truthy (aget d ''claims'') \<and> \<not> a_list (aget d ''claims'')) (problem ''claims_not_list'' []) @
      snd (collect_sidecar_refs ''$'' (PDict d)) @
      unresolved ''claim_ref_not_in_bundle'' (claim_refs_of claims) @
      flag_if (truthy (aget d ''unused_evidence_refs'') \<and> \<not> a_list (aget d ''unused_evidence_refs'')) (problem ''unused_refs_not_list'' []) @
      flag_if (list_ex (\<lambda>v. \<not> a_text v) (unused_items claims)) (problem ''unused_ref_not_string'' []) @
      unresolved ''unused_ref_not_in_bundle'' (unused_refs_of claims))"

text \<open>\<^verbatim>\<open>round(x, 3)\<close>, on the exact quotient.\<close>

definition round3 :: "rat \<Rightarrow> rat" where
  "round3 x = of_int (py_round (1000 * x)) / 1000"

record verify_report =
  vr_citations :: nat
  vr_distinct :: nat
  vr_abbreviated :: "(string \<times> string) list"
  vr_bundle_refs :: nat
  vr_coverage :: rat
  vr_cited_superseded :: "string list"
  vr_uncited :: nat
  vr_claim_refs :: nat
  vr_unused_refs :: nat
  vr_findings :: "args list"
  vr_clean :: bool

definition abbreviations :: "args \<Rightarrow> string \<Rightarrow> (string \<times> string) list" where
  "abbreviations bundle draft =
     List.map_filter (\<lambda>r. if r \<in> set (known_evidence bundle) then None else map_option (Pair r) (resolve_prefix r (memory_ref_set bundle)))
       (dedup (find_all CITATION draft))"

definition resolved_citations :: "args \<Rightarrow> string \<Rightarrow> string list" where
  "resolved_citations bundle draft =
     dedup (map (\<lambda>c. case map_of (abbreviations bundle draft) c of Some full \<Rightarrow> full | None \<Rightarrow> c) (find_all CITATION draft))"

definition resolved_unused :: "args \<Rightarrow> args option \<Rightarrow> string list" where
  "resolved_unused bundle claims = dedup (map (resolve_or_self (memory_ref_set bundle)) (unused_refs_of claims))"

definition accounting_problems :: "args \<Rightarrow> string \<Rightarrow> args option \<Rightarrow> args list" where
  "accounting_problems bundle draft claims =
     (let known = known_evidence bundle; cited = resolved_citations bundle draft; unused = resolved_unused bundle claims;
          twice = sort (filter (\<lambda>r. r \<in> set cited \<and> r \<in> set unused) known);
          lost = sort (filter (\<lambda>r. r \<notin> set cited \<and> r \<notin> set unused) known) in
      flag_if (twice \<noteq> []) (problem ''evidence_both_cited_and_unused'' [(''refs'', PList (map PStr twice)), (''count'', PInt (int (length twice)))]) @
      flag_if (claims \<noteq> None \<and> lost \<noteq> [])
        (problem ''evidence_neither_cited_nor_unused'' [(''refs'', PList (map PStr lost)), (''count'', PInt (int (length lost)))]))"

definition verify :: "verify_engine \<Rightarrow> args \<Rightarrow> string \<Rightarrow> args \<Rightarrow> args option \<Rightarrow> bundle_error + verify_report" where
  "verify V config draft bundle claims =
     map_sum id (\<lambda>leaks.
       let known = known_evidence bundle; cited = find_all CITATION draft; resolved = resolved_citations bundle draft;
           both = filter (\<lambda>r. r \<in> set resolved) known;
           superseded = map mem_ref (filter (\<lambda>m. truthy (aget m ''superseded'')) (bundle_entries bundle ''memories''));
           findings =
             flag_if (claims \<noteq> None \<and> blank_text (aget (claims_dict claims) ''summary'')) (problem ''page_summary_missing'' []) @
             citation_problems bundle draft @ text_problems V leaks bundle draft @ sidecar_problems bundle claims @
             accounting_problems bundle draft claims
       in \<lparr>vr_citations = length cited, vr_distinct = length (dedup cited), vr_abbreviated = abbreviations bundle draft,
           vr_bundle_refs = length known, vr_coverage = round3 (of_nat (length both) / of_nat (max 1 (length known))),
           vr_cited_superseded = sort (filter (\<lambda>r. r \<in> set superseded) resolved),
           vr_uncited = length (filter (\<lambda>r. r \<notin> set resolved) known),
           vr_claim_refs = length (filter (\<lambda>r. r \<in> set known) (dedup (map (resolve_or_self (memory_ref_set bundle)) (claim_refs_of claims)))),
           vr_unused_refs = length (filter (\<lambda>r. r \<in> set known) (resolved_unused bundle claims)),
           vr_findings = findings, vr_clean = (findings = [])\<rparr>)
     (leak_patterns config)"


subsection \<open>What a clean draft has\<close>

lemma resolve_prefix_unique:
  "resolve_prefix r mems = Some full \<Longrightarrow> full \<in> set mems \<and> starts_with (drop 4 r) (drop 4 full) \<and>
     (\<forall>m \<in> set mems. starts_with (drop 4 r) (drop 4 m) \<longrightarrow> m = full)"
proof -
  assume a: "resolve_prefix r mems = Some full"
  then have f: "filter (\<lambda>m. starts_with (drop 4 r) (drop 4 m)) mems = [full]"
    by (auto simp: resolve_prefix_def split: if_splits list.splits)
  then have "x \<in> set mems \<and> starts_with (drop 4 r) (drop 4 x) \<longleftrightarrow> x = full" for x
    by (metis (no_types, lifting) empty_iff empty_set mem_Collect_eq set_ConsD set_filter list.set_intros(1))
  then show ?thesis by blast
qed

lemma problem_ne: "problem k d \<noteq> []"
  by (simp add: problem_def)

lemma CITATION_Some: "CITATION prev s = Some (r, n) \<Longrightarrow> is_citation_ref r \<and> (\<exists>b. s = ''^['' @ r @ '']'' @ b)"
proof -
  assume a: "CITATION prev s = Some (r, n)"
  then have st: "starts_with ''^['' s" and b: "bracketed (drop 2 s) = Some r" and c: "is_citation_ref r"
    by (auto simp: CITATION_def split: if_splits option.splits)
  from b have i: "CHR '']'' \<in> set (drop 2 s)" and r: "r = takeWhile (\<lambda>c. c \<noteq> CHR '']'') (drop 2 s)"
    by (auto simp: bracketed_def split: if_splits)
  obtain t where t: "s = ''^['' @ t" using st by (metis starts_with_def append_take_drop_id)
  from i t obtain x u where x: "t = x @ CHR '']'' # u" "CHR '']'' \<notin> set x" by (auto dest: split_list_first)
  then have "r = x" using r t by (simp add: takeWhile_append)
  then have "t = r @ '']'' @ u" using x by simp
  then show ?thesis using c t by auto
qed

lemma scan_at: "(i, j, v) \<in> set (scan m prev k s) \<Longrightarrow> \<exists>a b n p. s = a @ b \<and> m p b = Some (v, n)"
proof (induction s arbitrary: prev k rule: length_induct)
  case (1 s)
  show ?case
  proof (cases s)
    case (Cons c cs)
    show ?thesis
    proof (cases "\<exists>w n. m prev s = Some (w, Suc n)")
      case True
      then obtain w n where w: "m prev (c # cs) = Some (w, Suc n)" using Cons by blast
      from "1.prems" consider "v = w" | "(i, j, v) \<in> set (scan m (Some (last (take (Suc n) s))) (k + Suc n) (drop (Suc n) s))"
        by (subst (asm) scan.simps) (auto simp: Cons w)
      then show ?thesis
      proof cases
        case 1
        then show ?thesis using w Cons by (metis append_Nil)
      next
        case 2
        then obtain a b n' p where "drop (Suc n) s = a @ b" "m p b = Some (v, n')"
          using "1.IH" Cons by (metis (no_types, lifting) diff_less length_drop length_greater_0_conv list.distinct(1) zero_less_Suc)
        then show ?thesis by (metis append_assoc append_take_drop_id)
      qed
    next
      case False
      then have "(i, j, v) \<in> set (scan m (Some c) (k + 1) cs)"
        using "1.prems" Cons
        by (subst (asm) scan.simps) (cases "m prev (c # cs)"; cases "snd (the (m prev (c # cs)))"; force)
      then have "\<exists>a b n p. cs = a @ b \<and> m p b = Some (v, n)" using "1.IH"[rule_format, of cs] Cons by auto
      then show ?thesis using Cons by (metis append_Cons)
    qed
  qed (use "1.prems" in \<open>simp add: scan.simps\<close>)
qed

lemma find_all_CITATION: "r \<in> set (find_all CITATION s) \<Longrightarrow> is_citation_ref r \<and> sublist (''^['' @ r @ '']'') s"
proof -
  assume "r \<in> set (find_all CITATION s)"
  then obtain a b n p where "s = a @ b" "CITATION p b = Some (r, n)" by (auto simp: find_all_def dest!: scan_at)
  then show ?thesis using CITATION_Some[of p b r n] by (auto simp: sublist_def intro: exI[of _ a])
qed

lemma dedup_Nil: "dedup xs = [] \<longleftrightarrow> xs = []"
  by (cases xs) auto

lemma map_filter_Nil: "List.map_filter f xs = [] \<longleftrightarrow> (\<forall>x \<in> set xs. f x = None)"
  by (induction xs) (auto split: option.splits)

lemma sort_filter_Nil: "sort (filter P xs) = [] \<longleftrightarrow> (\<forall>x \<in> set xs. \<not> P x)"
  by (simp add: sort_Nil_iff filter_empty_conv)

lemma cited_all_known:
  assumes "citation_problems bundle draft = []"
  shows "set (find_all CITATION draft) \<subseteq> set (known_evidence bundle)"
    and "set (resolved_citations bundle draft) = set (find_all CITATION draft)"
proof -
  show k: "set (find_all CITATION draft) \<subseteq> set (known_evidence bundle)"
    using assms by (auto simp: citation_problems_def filter_empty_conv)
  then have "abbreviations bundle draft = []" by (auto simp: abbreviations_def map_filter_Nil)
  then show "set (resolved_citations bundle draft) = set (find_all CITATION draft)" by (simp add: resolved_citations_def)
qed

text \<open>C23: A draft that passes the check with its sidecar clean accounts for its evidence. Each citation stands in the
  text and names material of the bundle, every piece of material is either cited or listed as unused and never both,
  every section with a body has a citation, no leak is found, and every number worth tracing is in the material. Every
  reference of the sidecar resolves to one memory or is material of the bundle.\<close>

theorem clean_draft_accounts:
  assumes "verify V config draft bundle (Some claims) = Inr rep" "vr_clean rep"
  shows "(\<forall>r \<in> set (find_all CITATION draft). sublist (''^['' @ r @ '']'') draft \<and> r \<in> set (known_evidence bundle)) \<and>
    (\<forall>k \<in> set (known_evidence bundle).
       (k \<in> set (find_all CITATION draft)) \<noteq> (k \<in> set (resolved_unused bundle (Some claims)))) \<and>
    (\<forall>section \<in> set (sections_of draft). uncited_section section = None) \<and>
    (\<forall>leaks. leak_patterns config = Inr leaks \<longrightarrow> (\<forall>(kind, k) \<in> set leaks. ve_leaks V k draft = [])) \<and>
    unsupported_numbers V (corpus_of bundle) draft = [] \<and>
    (\<forall>r \<in> set (claim_refs_of (Some claims)) \<union> set (unused_refs_of (Some claims)).
       r \<in> set (known_evidence bundle) \<or> (\<exists>full. resolve_prefix r (memory_ref_set bundle) = Some full))"
proof -
  obtain leaks where l: "leak_patterns config = Inr leaks" using assms(1) by (cases "leak_patterns config") (auto simp: verify_def)
  have c: "citation_problems bundle draft = []" and t: "text_problems V leaks bundle draft = []"
    and s: "sidecar_problems bundle (Some claims) = []" and a: "accounting_problems bundle draft (Some claims) = []"
    using assms l by (auto simp: verify_def Let_def)
  have "\<forall>k \<in> set (known_evidence bundle). (k \<in> set (find_all CITATION draft)) \<noteq> (k \<in> set (resolved_unused bundle (Some claims)))"
    using a by (auto simp: accounting_problems_def Let_def sort_filter_Nil cited_all_known(2)[OF c])
  moreover have "\<forall>section \<in> set (sections_of draft). uncited_section section = None"
    and "\<forall>(kind, k) \<in> set leaks. ve_leaks V k draft = []" and "unsupported_numbers V (corpus_of bundle) draft = []"
    using t by (fastforce simp: text_problems_def map_filter_Nil dedup_Nil)+
  moreover have "\<forall>r \<in> set (claim_refs_of (Some claims)) \<union> set (unused_refs_of (Some claims)).
       r \<in> set (known_evidence bundle) \<or> (\<exists>full. resolve_prefix r (memory_ref_set bundle) = Some full)"
    using s by (auto simp: sidecar_problems_def Let_def filter_empty_conv)
  ultimately show ?thesis using cited_all_known(1)[OF c] find_all_CITATION l by auto
qed


subsection \<open>A draft in full\<close>

definition demo_verify_engine :: verify_engine where
  "demo_verify_engine = \<lparr>ve_leaks = (\<lambda>k s. []), ve_numbers = (\<lambda>s. [])\<rparr>"

definition demo_verify_config :: args where
  "demo_verify_config = [(''sanitize'', PDict [(''internal_domains'', PList [])])]"

definition demo_verify_bundle :: args where
  "demo_verify_bundle =
     [(''memories'', PList [PDict [(''id'', PStr ''0123abcd''), (''text'', PStr ''it holds'')],
                            PDict [(''id'', PStr ''4567abcd''), (''text'', PStr ''it held'')]]),
      (''source_sections'', PList [])]"

definition demo_verify_claims :: args where
  "demo_verify_claims =
     [(''summary'', PStr ''What holds.''),
      (''claims'', PList [PDict [(''text'', PStr ''it holds''), (''evidence_refs'', PList [PStr ''mem:0123abcd''])]]),
      (''unused_evidence_refs'', PList [PStr ''mem:4567abcd''])]"

definition demo_verified :: "string \<Rightarrow> args \<Rightarrow> bundle_error + verify_report" where
  "demo_verified draft claims = verify demo_verify_engine demo_verify_config draft demo_verify_bundle (Some claims)"

definition demo_verify_draft :: string where
  "demo_verify_draft = ''# T'' @ [CHR 0x0A] @ ''It holds ^[mem:0123abcd].''"

lemma demo_verify_clean: "map_sum id vr_clean (demo_verified demo_verify_draft demo_verify_claims) = Inr True"
  by code_simp

text \<open>A shortened id is repaired but reported, an id that is not in the bundle is reported, and so is a section without a citation.\<close>

lemma demo_verify_reports:
  "map_sum id (\<lambda>r. map (\<lambda>d. aget d ''kind'') (vr_findings r))
     (demo_verified (''# T'' @ [CHR 0x0A] @ ''It holds ^[mem:0123abcd-].'') demo_verify_claims) =
   Inr [PStr ''citation_not_in_bundle'', PStr ''evidence_neither_cited_nor_unused'']"
  "map_sum id (\<lambda>r. map (\<lambda>d. aget d ''kind'') (vr_findings r))
     (demo_verified (''# T'' @ [CHR 0x0A] @ ''It holds.'') demo_verify_claims) =
   Inr [PStr ''section_without_citation'', PStr ''evidence_neither_cited_nor_unused'']"
  by code_simp+

lemma clean_draft_accounts_witness:
  "list_all (\<lambda>r. r \<in> set (known_evidence demo_verify_bundle)) (find_all CITATION demo_verify_draft) \<and>
   list_all (\<lambda>k. (k \<in> set (find_all CITATION demo_verify_draft)) \<noteq>
       (k \<in> set (resolved_unused demo_verify_bundle (Some demo_verify_claims)))) (known_evidence demo_verify_bundle)"
proof -
  obtain rep where r: "verify demo_verify_engine demo_verify_config demo_verify_draft demo_verify_bundle (Some demo_verify_claims) = Inr rep"
      "vr_clean rep"
    using demo_verify_clean
    by (cases "verify demo_verify_engine demo_verify_config demo_verify_draft demo_verify_bundle (Some demo_verify_claims)")
      (auto simp: demo_verified_def)
  show ?thesis using clean_draft_accounts[OF r] by (simp add: list_all_iff)
qed

end
