(* ===== verification/Spec2Isabelle.thy ===== *)
theory Spec2Isabelle
  imports Cli_Laws Profiling Verify
begin

text \<open>
  A verification library for memline, a memory store shared by several coding agents (the Python package
  \<^verbatim>\<open>src/src/memline\<close>). This theory imports all others; each opens with a text that says what it holds.

  \<^bold>\<open>The program.\<close> Memories are points of a vector store, each with a payload of fields. A memory is never
  rewritten when its answer changes: it is marked as superseded by newer ones (\<^verbatim>\<open>staleness.py\<close>), it can expire, and it can be
  protected from being displaced for a while. A new entry is checked in the background: model judges (\<^verbatim>\<open>judge.py\<close>) look for
  older entries it displaces and for flaws of its own, and every judgment is a row of the pair store, open when it is a
  suspicion somebody has to dispose. All operations on the store are handlers of one registry (\<^verbatim>\<open>ops.py\<close>). A daemon
  (\<^verbatim>\<open>daemon.py\<close>) runs them behind a reader-writer gate, on requests that come over a socket or through a mailbox in a
  SQLite file for sandboxed clients (\<^verbatim>\<open>bridge.py\<close>); asynchronous additions and checks wait in a persistent queue
  (\<^verbatim>\<open>queue.py\<close>). The command line (\<^verbatim>\<open>cli/\<close>) asks the daemon or runs the same handlers itself, records every mutation in a
  manifest (\<^verbatim>\<open>audit.py\<close>), and lets a session dispose suspicions and ask whether it is done (\<^verbatim>\<open>review.py\<close>). The wiki
  pipeline (\<^verbatim>\<open>wiki/\<close>) cuts the store into batches, has them profiled and drafted by outside models (\<^verbatim>\<open>relay.py\<close>), scrubs
  what leaves the machine (\<^verbatim>\<open>bundle.py\<close>), and lets a draft pass only when it was checked, reviewed, and every finding of the
  review was ruled on.

  \<^bold>\<open>Conventions.\<close> A Python value is a \<^typ>\<open>pyval\<close>; a dict is an association list in insertion order
  (\<^typ>\<open>args\<close>) or, for the payload of a memory, a map. A text is the list of its UTF-8 bytes; where the code counts or cuts
  characters, so does the model (\<^const>\<open>py_length\<close>, \<^const>\<open>clip\<close>). A SQL table is a list of row records in row order
  (\<^theory_text>\<open>Sql_Table\<close>). An operation that can raise returns a sum, the error on the left. Clock readings, fresh ids and
  the answers of outside services are arguments, in the order the code asks for them. A time is a number of
  microseconds, and its ISO text is computed (\<^theory_text>\<open>Iso_Time\<close>), since the code compares stamps as texts.

  \<^bold>\<open>The theories.\<close>
  \<^item> \<^theory_text>\<open>Memline_Prelude\<close>, \<^theory_text>\<open>Sql_Table\<close>, \<^theory_text>\<open>Iso_Time\<close>: values, truthiness and \<^verbatim>\<open>str()\<close>, results that
    fail, rows and updates of tables, time stamps and their order.
  \<^item> \<^theory_text>\<open>Event_Queue\<close> (\<^verbatim>\<open>queue.py\<close>) and \<^theory_text>\<open>Bridge_Queue\<close> (\<^verbatim>\<open>bridge.py\<close>): every operation, and a transition
    system over them. The invariants show that an event leaves the queue only by a purge of an old finished row, that its
    attempts are bounded, and that a mailbox request is executed at most once by however many workers. A claim at the mailbox is
    two steps, the unlocked read of a candidate and the conditional update, so that workers race on one row.
  \<^item> \<^theory_text>\<open>Pair_Store\<close> (\<^verbatim>\<open>PairStore\<close> of \<^verbatim>\<open>staleness.py\<close>): judgments recorded once per version of a text, never deleted;
    disposing, reopening, closing.
  \<^item> \<^theory_text>\<open>Memory_Store\<close>, \<^theory_text>\<open>Mem0_Client\<close> (the calls into mem0 and Qdrant): the locales \<open>payload_store\<close> and
    \<open>qdrant_client\<close> say what a point store promises, and a dictionary of points is their interpretation.
  \<^item> \<^theory_text>\<open>Supersession\<close>, \<^theory_text>\<open>Lifecycle\<close>, \<^theory_text>\<open>Judge\<close>, \<^theory_text>\<open>Stale_Check\<close> (\<^verbatim>\<open>staleness.py\<close>, \<^verbatim>\<open>judge.py\<close>): \<^verbatim>\<open>invalidate\<close>
    and \<^verbatim>\<open>revive\<close> with their exact effect, acyclicity of the supersession relation, the walk to the newest memories,
    protection and expiry, parsing of verdicts, the check of a new entry and the default search.
  \<^item> \<^theory_text>\<open>Ops\<close> (\<^verbatim>\<open>ops.py\<close>, \<^verbatim>\<open>entity_ops.py\<close>): every handler, over a record of what mem0 itself does with models.
  \<^item> \<^theory_text>\<open>Manifest_Log\<close> (\<^verbatim>\<open>audit.py\<close>, \<^verbatim>\<open>session_stats.py\<close>), \<^theory_text>\<open>Rw_Gate\<close> (the gate of \<^verbatim>\<open>daemon.py\<close>, as a
    transition system over the positions of its threads: exclusion, and no thread that waits for ever), \<^theory_text>\<open>Daemon\<close> (requests,
    frames, workers, recovery at a start; the locale \<open>draining_loop\<close> is interpreted for both worker loops) and
    \<^theory_text>\<open>Client\<close> (how often a command runs its operation).
  \<^item> \<^theory_text>\<open>Playbook\<close>, \<^theory_text>\<open>Review\<close> (\<^verbatim>\<open>review.py\<close>), \<^theory_text>\<open>Writer_Context\<close> (\<^verbatim>\<open>writer_context.py\<close>), \<^theory_text>\<open>Endpoints\<close>
    (\<^verbatim>\<open>config.py\<close>, \<^verbatim>\<open>llm.py\<close>, \<^verbatim>\<open>proxy.py\<close>), \<^theory_text>\<open>Disposition\<close> (\<^verbatim>\<open>cli/stale.py\<close>), \<^theory_text>\<open>Cli_Support\<close>, \<^theory_text>\<open>Cli_Memory\<close>
    and \<^theory_text>\<open>Cli_Laws\<close> (\<^verbatim>\<open>cli/_support.py\<close>, \<^verbatim>\<open>cli/memory.py\<close>, \<^verbatim>\<open>cli/entity.py\<close>, \<^verbatim>\<open>cli/events.py\<close>): the verdict, who may
    dispose what, which credentials a job inherits, the commands and what they promise.
  \<^item> \<^theory_text>\<open>Bundle\<close> (\<^verbatim>\<open>bundle.py\<close>), \<^theory_text>\<open>Batch\<close> (\<^verbatim>\<open>wiki/batch.py\<close>, \<^verbatim>\<open>wiki/state.py\<close>), \<^theory_text>\<open>Relay\<close> (\<^verbatim>\<open>relay.py\<close>),
    \<^theory_text>\<open>Drafting\<close> (\<^verbatim>\<open>wiki/draft.py\<close>), \<^theory_text>\<open>Profiling\<close> (\<^verbatim>\<open>wiki/profile.py\<close>), \<^theory_text>\<open>Adjudication\<close>
    (\<^verbatim>\<open>wiki/adjudication.py\<close>), \<^theory_text>\<open>Review_Report\<close> (\<^verbatim>\<open>wiki/review_report.py\<close>, the passes of \<^verbatim>\<open>wiki/review.py\<close>),
    \<^theory_text>\<open>Verify\<close> (\<^verbatim>\<open>wiki/verify.py\<close>): what is sent out and what is not, plans that lose no memory, retries and fenced
    answers, drafts that are kept, passes that cost nothing, and the gates a draft has to pass.

  \<^bold>\<open>Loops, bounds and fuel.\<close> Loops over data are structural recursion or functions with a proof of termination. The walks
  along supersession edges stop after \<^const>\<open>MAX_CHAIN_DEPTH\<close> hops as the code's do. A worker loop is run for a given number of
  turns, and it is proved how many turns empty its queue. Paging through the store takes a fuel of pages, and one page more than
  there are full ones is proved to be enough. The waiting loops of \<^verbatim>\<open>review\<close> and of the mailbox client run over the list
  of what each poll sees.

  \<^bold>\<open>What is idealised.\<close> A handler of the registry runs as one step. The daemon runs handlers under the shared side of its gate
  side by side, so theorems over histories of requests speak of requests handled one after the other;
  \<open>raced_invalidations_cycle\<close> shows that two invalidations that are checked before either is written do close a cycle. Ids of points
  are exact texts (Qdrant accepts several spellings of one UUID), and whether a read of the store fails does not change
  within an operation. A report or a review bundle is an arbitrary JSON object, but the merge of reviews takes only texts as
  claim ids, and the parts of a bundle of another shape than the compiler writes are read as empty. Batches are profiled one after
  the other although the code has two workers. Regular expressions are constants run by an engine that is an argument, with the laws of
  matching as a hypothesis.

  \<^bold>\<open>What is not modelled.\<close> What mem0 computes with embeddings and models (additions, searches, the collection of
  entities) is the record \<open>backend\<close>; models, SHA-256, JSON decoders, the process table and the terminal are arguments. Left out
  are sockets, signals and process management of the daemon, the tunnelling transport and the OpenAI client, rendering on the terminal, the
  packet compiler of \<^verbatim>\<open>wiki/review.py\<close>, the pages and their navigation (\<^verbatim>\<open>wiki/\<close>\<open>{\<close>\<^verbatim>\<open>page, nav, index, related, threads,
  suggest, check\<close>\<open>}\<close>), the migrations, the evaluation tools and the integrations with the agents.

  \<^bold>\<open>Where the code and its documents part.\<close> Some theorems hold under a proviso because the code does not do what it says
  without it; the texts beside them name the case: failed additions that the review overlooks
  (\<open>failed_write_overlooked\<close>), a command that is run twice (\<open>execute_can_replay\<close>), names in the title of a topic
  (\<open>topic_text_leaves\<close>), evidence beside an article it was not written from (\<open>failed_redraft_mixes\<close>), a valid pass that no
  ruling can save (\<open>scope_reason_strands\<close>), a judge that cannot be reached and strands its event
  (\<open>judge_outage_strands\<close>).
\<close>

end
